(* ===== verification/Prelude.thy ===== *)
theory Prelude
  imports Complex_Main "HOL-Library.Word" "HOL-Library.Char_ord" "HOL-Library.List_Lexorder"
    "HOL-Library.Monad_Syntax"
    "HOL-Library.Code_Target_Nat"
begin

unbundle bit_operations_syntax

text \<open>
  Shared vocabulary of the development: the machine integers of the Rust sources, checked and
  saturating arithmetic, durations and instants, and the string functions of the Rust standard
  library that the sources call.
  Nothing in this theory models a file of the repository; it models the parts of Rust's language
  and standard library that those files use.
\<close>

section \<open>Machine integers\<close>

type_synonym u8 = "8 word"
type_synonym u16 = "16 word"
type_synonym u32 = "32 word"
type_synonym u64 = "64 word"
type_synonym bytes = "u8 list"

text \<open>
  Sizes (\<open>usize\<close>, 64 bits on the supported targets) are natural numbers; where an operation
  can reach the width of the type, the saturation or wrap-around is written out with
  \<open>usize_max\<close>.
\<close>

abbreviation u32_max :: nat where "u32_max \<equiv> 2 ^ 32 - 1"
abbreviation u64_max :: nat where "u64_max \<equiv> 2 ^ 64 - 1"
abbreviation usize_max :: nat where "usize_max \<equiv> 2 ^ 64 - 1"

definition checked_add_u64 :: "u64 \<Rightarrow> u64 \<Rightarrow> u64 option" where
  "checked_add_u64 a b = (if unat a + unat b < 2 ^ 64 then Some (a + b) else None)"

definition usize_saturating_mul :: "nat \<Rightarrow> nat \<Rightarrow> nat" where
  "usize_saturating_mul a b = min (a * b) usize_max"

definition usize_wrapping_mul :: "nat \<Rightarrow> nat \<Rightarrow> nat" where
  "usize_wrapping_mul a b = (a * b) mod 2 ^ 64"

section \<open>Durations and instants\<close>

text \<open>
  A \<open>Duration\<close> is a number of nanoseconds below \<open>2^64\<close> seconds; an \<open>Instant\<close> is a
  number of nanoseconds on the process clock, whose seconds are a signed 64-bit integer. The
  operators \<open>+\<close> of both types panic on overflow, which the model renders as \<open>None\<close>.
\<close>

type_synonym duration = nat
type_synonym instant = nat

definition duration_max :: duration where
  "duration_max = (2 ^ 64 - 1) * 10 ^ 9 + 999999999"

definition instant_max :: instant where
  "instant_max = (2 ^ 63 - 1) * 10 ^ 9 + 999999999"

definition dur_add :: "duration \<Rightarrow> duration \<Rightarrow> duration option" where
  "dur_add a b = (if a + b \<le> duration_max then Some (a + b) else None)"

definition dur_saturating_add :: "duration \<Rightarrow> duration \<Rightarrow> duration" where
  "dur_saturating_add a b = min (a + b) duration_max"

definition dur_checked_mul :: "duration \<Rightarrow> u32 \<Rightarrow> duration option" where
  "dur_checked_mul d k = (if d * unat k \<le> duration_max then Some (d * unat k) else None)"

definition dur_saturating_mul :: "duration \<Rightarrow> nat \<Rightarrow> duration" where
  "dur_saturating_mul d k = min (d * k) duration_max"

definition from_millis :: "nat \<Rightarrow> duration" where
  "from_millis ms = ms * 10 ^ 6"

definition as_millis :: "duration \<Rightarrow> nat" where
  "as_millis d = d div 10 ^ 6"

definition as_micros :: "duration \<Rightarrow> nat" where
  "as_micros d = d div 10 ^ 3"

definition instant_checked_add :: "instant \<Rightarrow> duration \<Rightarrow> instant option" where
  "instant_checked_add t d = (if t + d \<le> instant_max then Some (t + d) else None)"

text \<open>\<open>Instant::saturating_duration_since\<close> is zero for an earlier instant.\<close>

definition saturating_duration_since :: "instant \<Rightarrow> instant \<Rightarrow> duration" where
  "saturating_duration_since t base = t - base"

section \<open>Strings\<close>

text \<open>Rust strings are UTF-8 byte sequences; a character of \<open>string\<close> is one byte.\<close>

definition as_bytes :: "string \<Rightarrow> bytes" where
  "as_bytes s = map of_char s"

fun split_once :: "char \<Rightarrow> string \<Rightarrow> (string \<times> string) option" where
  "split_once d [] = None"
| "split_once d (c # cs) =
     (if c = d then Some ([], cs)
      else map_option (\<lambda>(a, b). (c # a, b)) (split_once d cs))"

definition rsplit_once :: "char \<Rightarrow> string \<Rightarrow> (string \<times> string) option" where
  "rsplit_once d s = map_option (\<lambda>(a, b). (rev b, rev a)) (split_once d (rev s))"

fun strip_prefix :: "string \<Rightarrow> string \<Rightarrow> string option" where
  "strip_prefix [] s = Some s"
| "strip_prefix (p # ps) [] = None"
| "strip_prefix (p # ps) (c # cs) = (if p = c then strip_prefix ps cs else None)"

definition digit_char :: "nat \<Rightarrow> char" where
  "digit_char d = char_of (48 + d)"

definition char_digit :: "char \<Rightarrow> nat option" where
  "char_digit c = (let n = of_char c :: nat in if 48 \<le> n \<and> n \<le> 57 then Some (n - 48) else None)"

text \<open>The decimal rendering of \<open>format!("{}")\<close> for unsigned integers.\<close>

fun show_nat :: "nat \<Rightarrow> string" where
  "show_nat n = (if n < 10 then [digit_char n] else show_nat (n div 10) @ [digit_char (n mod 10)])"

declare show_nat.simps [simp del]

fun digits_value :: "nat \<Rightarrow> string \<Rightarrow> nat option" where
  "digits_value acc [] = Some acc"
| "digits_value acc (c # cs) =
     (case char_digit c of None \<Rightarrow> None | Some d \<Rightarrow> digits_value (acc * 10 + d) cs)"

text \<open>
  \<open>str::parse\<close> for an unsigned integer with the given exclusive bound: an optional plus sign,
  at least one digit, no other character, and a value below the bound.
\<close>

definition parse_unsigned :: "nat \<Rightarrow> string \<Rightarrow> nat option" where
  "parse_unsigned bound s =
     (let ds = (case s of c # cs \<Rightarrow> if c = CHR ''+'' then cs else s | [] \<Rightarrow> [])
      in if ds = [] then None
         else case digits_value 0 ds of
                None \<Rightarrow> None
              | Some v \<Rightarrow> if v < bound then Some v else None)"

section \<open>Iterators\<close>

text \<open>\<open>Iterator::position\<close>: the index of the first element that satisfies a predicate.\<close>

fun position :: "('a \<Rightarrow> bool) \<Rightarrow> 'a list \<Rightarrow> nat option" where
  "position p [] = None"
| "position p (x # xs) = (if p x then Some 0 else map_option Suc (position p xs))"

text \<open>\<open>Vec::insert\<close>.\<close>

definition insert_at :: "nat \<Rightarrow> 'a \<Rightarrow> 'a list \<Rightarrow> 'a list" where
  "insert_at i x xs = take i xs @ x # drop i xs"

text \<open>\<open>Iterator::min_by_key\<close>: the first element with the least key.\<close>

fun min_by_key :: "('a \<Rightarrow> 'b::linorder) \<Rightarrow> 'a list \<Rightarrow> 'a option" where
  "min_by_key f [] = None"
| "min_by_key f (x # xs) =
     (case min_by_key f xs of
        None \<Rightarrow> Some x
      | Some y \<Rightarrow> Some (if f y < f x then y else x))"

text \<open>
  \<open>BTreeMap\<close>: an association list with strictly ascending keys, iterated in that order.
  \<open>btree_update k f m\<close> is the entry API: \<open>f\<close> maps the value stored under \<open>k\<close>, if there
  is one, to the value stored afterwards.
\<close>

fun btree_update :: "'k::linorder \<Rightarrow> ('v option \<Rightarrow> 'v) \<Rightarrow> ('k \<times> 'v) list \<Rightarrow> ('k \<times> 'v) list" where
  "btree_update k f [] = [(k, f None)]"
| "btree_update k f ((k', v) # m) =
     (if k = k' then (k', f (Some v)) # m
      else if k < k' then (k, f None) # (k', v) # m
      else (k', v) # btree_update k f m)"

definition btree_insert :: "'k::linorder \<Rightarrow> 'v \<Rightarrow> ('k \<times> 'v) list \<Rightarrow> ('k \<times> 'v) list" where
  "btree_insert k v m = btree_update k (\<lambda>_. v) m"

definition btree_extend :: "('k::linorder \<times> 'v) list \<Rightarrow> ('k \<times> 'v) list \<Rightarrow> ('k \<times> 'v) list" where
  "btree_extend m kvs = foldl (\<lambda>m (k, v). btree_insert k v m) m kvs"

text \<open>
  \<open>slice::binary_search_by\<close>. The loop halves the window without an early exit; \<open>Inr i\<close> is
  \<open>Ok(i)\<close> and \<open>Inl i\<close> is \<open>Err(i)\<close>.
\<close>

datatype ordering = Less | Equal | Greater

definition cmp :: "'a::linorder \<Rightarrow> 'a \<Rightarrow> ordering" where
  "cmp a b = (if a < b then Less else if a = b then Equal else Greater)"

function binary_search_window :: "('a \<Rightarrow> ordering) \<Rightarrow> 'a list \<Rightarrow> nat \<Rightarrow> nat \<Rightarrow> nat" where
  "binary_search_window f xs base sz =
     (if sz > 1
      then let half = sz div 2; mid = base + half
           in binary_search_window f xs (if f (xs ! mid) = Greater then base else mid) (sz - half)
      else base)"
  by pat_completeness auto
termination
  by (relation "measure (\<lambda>(f, xs, base, sz). sz)") auto

declare binary_search_window.simps [simp del]

definition binary_search_by :: "('a \<Rightarrow> ordering) \<Rightarrow> 'a list \<Rightarrow> nat + nat" where
  "binary_search_by f xs =
     (if xs = [] then Inl 0
      else let base = binary_search_window f xs 0 (length xs)
           in case f (xs ! base) of
                Equal \<Rightarrow> Inr base
              | Less \<Rightarrow> Inl (base + 1)
              | Greater \<Rightarrow> Inl base)"

definition binary_search :: "'a::linorder list \<Rightarrow> 'a \<Rightarrow> nat + nat" where
  "binary_search xs x = binary_search_by (\<lambda>y. cmp y x) xs"

text \<open>\<open>std::cmp::Reverse\<close> on sizes.\<close>

datatype reverse = Reverse nat

instantiation reverse :: linorder
begin

fun less_eq_reverse :: "reverse \<Rightarrow> reverse \<Rightarrow> bool" where
  "less_eq_reverse (Reverse a) (Reverse b) = (b \<le> a)"

fun less_reverse :: "reverse \<Rightarrow> reverse \<Rightarrow> bool" where
  "less_reverse (Reverse a) (Reverse b) = (b < a)"

instance
proof
  fix x y z :: reverse
  show "x < y \<longleftrightarrow> x \<le> y \<and> \<not> y \<le> x" by (cases x; cases y) auto
  show "x \<le> x" by (cases x) auto
  show "x \<le> y \<Longrightarrow> y \<le> z \<Longrightarrow> x \<le> z" by (cases x; cases y; cases z) auto
  show "x \<le> y \<Longrightarrow> y \<le> x \<Longrightarrow> x = y" by (cases x; cases y) auto
  show "x \<le> y \<or> y \<le> x" by (cases x; cases y) auto
qed

end

section \<open>Results\<close>

text \<open>Sequencing of a fallible computation (the \<open>?\<close> operator) on \<open>'e + 'a\<close>.\<close>

fun try_bind :: "'e + 'a \<Rightarrow> ('a \<Rightarrow> 'e + 'b) \<Rightarrow> 'e + 'b" where
  "try_bind (Inl e) f = Inl e"
| "try_bind (Inr a) f = f a"

fun ok_or :: "'e \<Rightarrow> 'a option \<Rightarrow> 'e + 'a" where
  "ok_or e None = Inl e"
| "ok_or e (Some a) = Inr a"

section \<open>Lemmas on integers and strings\<close>

lemma unat_u64_less: "unat (w :: u64) < 2 ^ 64"
  using unsigned_less [of w, where ?'a = nat] by simp

lemma unat_u32_less: "unat (w :: u32) < 2 ^ 32"
  using unsigned_less [of w, where ?'a = nat] by simp

lemma unat_u8_less: "unat (w :: u8) < 2 ^ 8"
  using unsigned_less [of w, where ?'a = nat] by simp

lemma checked_add_u64_Some:
  "checked_add_u64 a b = Some c \<longleftrightarrow> unat a + unat b < 2 ^ 64 \<and> c = a + b"
  by (auto simp: checked_add_u64_def)

lemma checked_add_u64_unat:
  "checked_add_u64 a b = Some c \<Longrightarrow> unat c = unat a + unat b"
  by (auto simp: checked_add_u64_def unat_word_ariths split: if_splits)

lemma digit_roundtrip [simp]: "d < 10 \<Longrightarrow> char_digit (digit_char d) = Some d"
  by (simp add: char_digit_def digit_char_def)

lemma digit_char_neq_plus: "d < 10 \<Longrightarrow> digit_char d \<noteq> CHR ''+''"
proof
  assume "d < 10" and "digit_char d = CHR ''+''"
  then have "char_digit (CHR ''+'') = Some d" by (metis digit_roundtrip)
  then show False by (simp add: char_digit_def)
qed

lemma show_nat_not_Nil [simp]: "show_nat n \<noteq> []"
  by (subst show_nat.simps) simp

lemma show_nat_digits: "c \<in> set (show_nat n) \<Longrightarrow> \<exists>d<10. c = digit_char d"
proof (induction n arbitrary: c rule: show_nat.induct)
  case (1 n)
  show ?case
  proof (cases "n < 10")
    case True
    with "1.prems" show ?thesis by (auto simp: show_nat.simps [of n])
  next
    case False
    with "1.prems" have "c \<in> set (show_nat (n div 10)) \<or> c = digit_char (n mod 10)"
      by (auto simp: show_nat.simps [of n])
    then show ?thesis using "1.IH" [OF False] by (metis mod_less_divisor zero_less_numeral)
  qed
qed

lemma digits_value_append:
  "digits_value acc (xs @ ys) = Option.bind (digits_value acc xs) (\<lambda>a. digits_value a ys)"
  by (induction xs arbitrary: acc) (auto split: option.splits)

lemma digits_value_show_nat: "digits_value 0 (show_nat n) = Some n"
proof (induction n rule: show_nat.induct)
  case (1 n)
  show ?case
  proof (cases "n < 10")
    case True
    then show ?thesis by (simp add: show_nat.simps [of n])
  next
    case False
    then show ?thesis
      using "1.IH" [OF False] by (simp add: show_nat.simps [of n] digits_value_append)
  qed
qed

lemma parse_show_nat: "n < bound \<Longrightarrow> parse_unsigned bound (show_nat n) = Some n"
proof -
  assume n: "n < bound"
  obtain c cs where s: "show_nat n = c # cs" by (cases "show_nat n") auto
  then have "c \<noteq> CHR ''+''" using show_nat_digits [of c n] digit_char_neq_plus by auto
  then show ?thesis using n digits_value_show_nat [of n] s by (simp add: parse_unsigned_def)
qed

lemma show_nat_inj: "show_nat m = show_nat n \<Longrightarrow> m = n"
  by (metis digits_value_show_nat option.inject)

lemma show_nat_no_char: "char_digit c = None \<Longrightarrow> c \<notin> set (show_nat n)"
  using show_nat_digits digit_roundtrip by fastforce

lemma split_once_append:
  "d \<notin> set xs \<Longrightarrow> split_once d (xs @ d # ys) = Some (xs, ys)"
  by (induction xs) auto

lemma split_once_None: "split_once d s = None \<longleftrightarrow> d \<notin> set s"
  by (induction s) auto

lemma split_once_Some:
  "split_once d s = Some (a, b) \<Longrightarrow> s = a @ d # b \<and> d \<notin> set a"
  by (induction s arbitrary: a) (auto split: if_splits)

lemma rsplit_once_append:
  "d \<notin> set ys \<Longrightarrow> rsplit_once d (xs @ d # ys) = Some (xs, ys)"
  using split_once_append [of d "rev ys" "rev xs"] by (simp add: rsplit_once_def)

lemma strip_prefix_append [simp]: "strip_prefix p (p @ s) = Some s"
  by (induction p) auto

lemma strip_prefix_Some: "strip_prefix p s = Some r \<Longrightarrow> s = p @ r"
  by (induction p s rule: strip_prefix.induct) (auto split: if_splits)

section \<open>Lemmas on iterators and results\<close>

lemma position_None: "position p xs = None \<longleftrightarrow> (\<forall>x\<in>set xs. \<not> p x)"
  by (induction xs) auto

lemma position_Some:
  "position p xs = Some i \<Longrightarrow> i < length xs \<and> p (xs ! i) \<and> (\<forall>j<i. \<not> p (xs ! j))"
proof (induction xs arbitrary: i)
  case (Cons x xs)
  then show ?case
    by (cases "p x") (auto simp: less_Suc_eq_0_disj nth_Cons split: nat.splits)
qed simp

lemma min_by_key_None [simp]: "min_by_key f xs = None \<longleftrightarrow> xs = []"
  by (cases xs) (auto split: option.splits)

lemma min_by_key_Some:
  "min_by_key f xs = Some x \<Longrightarrow> x \<in> set xs \<and> (\<forall>y\<in>set xs. f x \<le> f y)"
proof (induction xs arbitrary: x)
  case (Cons a xs)
  show ?case
  proof (cases "min_by_key f xs")
    case None
    with Cons.prems show ?thesis by simp
  next
    case (Some y)
    with Cons.IH [OF Some] Cons.prems show ?thesis
      by (auto split: if_splits)
  qed
qed simp

lemma length_filter_update:
  "i < length xs \<Longrightarrow>
    length (filter P (xs[i := v])) + (if P (xs ! i) then 1 else 0)
      = length (filter P xs) + (if P v then 1 else 0)"
proof (induction xs arbitrary: i)
  case (Cons x xs)
  then show ?case by (cases i) auto
qed simp

lemma set_insert_at: "i \<le> length xs \<Longrightarrow> set (insert_at i x xs) = insert x (set xs)"
proof -
  have "set xs = set (take i xs) \<union> set (drop i xs)" by (metis append_take_drop_id set_append)
  then show ?thesis by (auto simp: insert_at_def)
qed

lemma btree_update_keys: "set (map fst (btree_update k f m)) = insert k (set (map fst m))"
proof (induction m)
  case (Cons a m)
  obtain k' v where "a = (k', v)" by (cases a)
  with Cons show ?case by (simp add: insert_commute)
qed simp

lemma btree_update_sorted:
  "sorted_wrt (<) (map fst m) \<Longrightarrow> sorted_wrt (<) (map fst (btree_update k f m))"
proof (induction m)
  case (Cons a m)
  then show ?case using btree_update_keys [of k f m] by (cases a) force
qed simp

lemma map_of_btree_update:
  assumes "sorted_wrt (<) (map fst m)"
  shows "map_of (btree_update k f m) = (map_of m)(k \<mapsto> f (map_of m k))"
  using assms
proof (induction m)
  case (Cons a m)
  obtain k' v where a: "a = (k', v)" by (cases a)
  have "map_of m k = None" if "k < k'"
    using Cons.prems that by (force simp: a map_of_eq_None_iff)
  with Cons a show ?case by (auto simp: fun_upd_twist)
qed simp

lemmas btree_insert_simps =
  btree_update_keys [of _ "\<lambda>_. _", folded btree_insert_def]
  btree_update_sorted [of _ _ "\<lambda>_. _", folded btree_insert_def]
  map_of_btree_update [of _ _ "\<lambda>_. _", folded btree_insert_def]

lemma btree_insert_keys: "fst ` set (btree_insert k v m) = insert k (fst ` set m)"
  using btree_insert_simps(1) [of k v m] by simp

lemma btree_extend_simps:
  assumes "sorted_wrt (<) (map fst m)"
  shows "sorted_wrt (<) (map fst (btree_extend m kvs))"
    "set (map fst (btree_extend m kvs)) = set (map fst m) \<union> set (map fst kvs)"
    "map_of (btree_extend m kvs) = map_of m ++ map_of (rev kvs)"
proof -
  have "sorted_wrt (<) (map fst (btree_extend m kvs))
      \<and> set (map fst (btree_extend m kvs)) = set (map fst m) \<union> set (map fst kvs)
      \<and> map_of (btree_extend m kvs) = map_of m ++ map_of (rev kvs)"
    using assms
  proof (induction kvs arbitrary: m)
    case (Cons kv kvs)
    obtain k v where kv: "kv = (k, v)" by (cases kv)
    have "sorted_wrt (<) (map fst (btree_insert k v m))"
      using Cons.prems by (simp add: btree_insert_simps)
    note IH = Cons.IH [OF this]
    have "map_of (btree_insert k v m) = (map_of m)(k \<mapsto> v)"
      using Cons.prems by (rule btree_insert_simps)
    then have "map_of (btree_insert k v m) ++ map_of (rev kvs) = map_of m ++ map_of (rev kvs @ [(k, v)])"
      by (simp add: map_add_upd_left map_of_append map_add_assoc fun_eq_iff map_add_def split: option.splits)
    moreover have "btree_extend m (kv # kvs) = btree_extend (btree_insert k v m) kvs"
      by (simp add: btree_extend_def kv)
    ultimately show ?case using IH by (auto simp: kv btree_insert_keys)
  qed (simp add: btree_extend_def)
  then show "sorted_wrt (<) (map fst (btree_extend m kvs))"
    "set (map fst (btree_extend m kvs)) = set (map fst m) \<union> set (map fst kvs)"
    "map_of (btree_extend m kvs) = map_of m ++ map_of (rev kvs)" by auto
qed

lemma map_of_rebuild:
  "distinct (map fst m) \<Longrightarrow> map (\<lambda>k. (k, the (map_of m k))) (map fst m) = m"
  by (auto simp: comp_def intro!: map_idI)

lemma map_of_sorted_unique:
  assumes "sorted_wrt (<) (map fst m)" and "sorted_wrt (<) (map fst m')"
    and "map_of m = map_of (m' :: ('k::linorder \<times> 'v) list)"
  shows "m = m'"
proof -
  have dist: "distinct (map fst m)" "distinct (map fst m')"
    using assms(1,2) by (simp_all add: strict_sorted_iff)
  have "set (map fst m) = set (map fst m')"
    using assms(3) by (metis dom_map_of_conv_image_fst set_map)
  then have "map fst m = map fst m'"
    using strict_sorted_equal [OF assms(1,2)] by simp
  then show ?thesis using assms(3) map_of_rebuild dist by metis
qed

text \<open>
  The contract of the binary search on a list whose comparison results are ordered: first
  \<open>Less\<close>, then \<open>Equal\<close>, then \<open>Greater\<close>.
\<close>

definition cmp_ordered :: "('a \<Rightarrow> ordering) \<Rightarrow> 'a list \<Rightarrow> bool" where
  "cmp_ordered f xs \<longleftrightarrow>
     (\<forall>i j. i \<le> j \<and> j < length xs \<longrightarrow>
        (f (xs ! i) = Greater \<longrightarrow> f (xs ! j) = Greater) \<and>
        (f (xs ! j) = Less \<longrightarrow> f (xs ! i) = Less))"

lemma cmp_orderedD:
  assumes "cmp_ordered f xs" and "i \<le> j" and "j < length xs"
  shows "f (xs ! i) = Greater \<Longrightarrow> f (xs ! j) = Greater"
    and "f (xs ! j) = Less \<Longrightarrow> f (xs ! i) = Less"
  using assms unfolding cmp_ordered_def by blast+

lemma binary_search_window_inv:
  assumes "cmp_ordered f xs" and "0 < sz" and "base + sz \<le> length xs"
    and "base = 0 \<or> f (xs ! base) \<noteq> Greater"
    and "\<forall>j. base + sz \<le> j \<and> j < length xs \<longrightarrow> f (xs ! j) = Greater"
  shows "let r = binary_search_window f xs base sz
         in r < length xs \<and> (r = 0 \<or> f (xs ! r) \<noteq> Greater) \<and>
            (\<forall>j. r < j \<and> j < length xs \<longrightarrow> f (xs ! j) = Greater)"
  using assms
proof (induction f xs base sz rule: binary_search_window.induct)
  case (1 f xs base sz)
  show ?case
  proof (cases "sz > 1")
    case False
    then have "binary_search_window f xs base sz = base" and "sz = 1"
      using "1.prems"(2) by (simp_all add: binary_search_window.simps [of f xs base sz])
    with "1.prems" show ?thesis by (simp add: Let_def Suc_le_eq)
  next
    case True
    define half mid where "half = sz div 2" and "mid = base + half"
    define base' where "base' = (if f (xs ! mid) = Greater then base else mid)"
    have half: "0 < half" "half < sz" using True by (auto simp: half_def)
    have mid: "mid < length xs" using half "1.prems"(3) by (simp add: mid_def)
    have rest: "\<forall>j. base' + (sz - half) \<le> j \<and> j < length xs \<longrightarrow> f (xs ! j) = Greater"
    proof (cases "f (xs ! mid) = Greater")
      case True
      have "mid \<le> base + (sz - half)" using half by (simp add: mid_def half_def)
      then show ?thesis using True cmp_orderedD(1) [OF "1.prems"(1), of mid]
        by (auto simp: base'_def)
    next
      case False
      then show ?thesis using "1.prems"(5) half by (auto simp: base'_def mid_def)
    qed
    have bound: "base' + (sz - half) \<le> length xs"
      using "1.prems"(3) half by (auto simp: base'_def mid_def)
    have start: "base' = 0 \<or> f (xs ! base') \<noteq> Greater"
      using "1.prems"(4) by (auto simp: base'_def)
    have step: "binary_search_window f xs base sz = binary_search_window f xs base' (sz - half)"
      using True by (simp add: binary_search_window.simps [of f xs base sz] Let_def
        base'_def mid_def half_def)
    have "0 < sz - half" using half by simp
    from "1.IH" [OF True refl refl "1.prems"(1), folded half_def mid_def, folded base'_def,
        OF this bound start rest]
    show ?thesis by (simp only: step)
  qed
qed

lemma binary_search_window_full:
  assumes "cmp_ordered f xs" and "xs \<noteq> []" and "r = binary_search_window f xs 0 (length xs)"
  shows "r < length xs" and "r = 0 \<or> f (xs ! r) \<noteq> Greater"
    and "\<And>j. r < j \<Longrightarrow> j < length xs \<Longrightarrow> f (xs ! j) = Greater"
proof -
  have "let r = binary_search_window f xs 0 (length xs)
        in r < length xs \<and> (r = 0 \<or> f (xs ! r) \<noteq> Greater) \<and>
           (\<forall>j. r < j \<and> j < length xs \<longrightarrow> f (xs ! j) = Greater)"
    using assms(2) by (intro binary_search_window_inv [OF assms(1)]) auto
  then show "r < length xs" and "r = 0 \<or> f (xs ! r) \<noteq> Greater"
    and "\<And>j. r < j \<Longrightarrow> j < length xs \<Longrightarrow> f (xs ! j) = Greater"
    by (simp_all add: assms(3) Let_def)
qed

lemma binary_search_by_Ok:
  assumes "cmp_ordered f xs" and "binary_search_by f xs = Inr i"
  shows "i < length xs \<and> f (xs ! i) = Equal"
  using assms(2) binary_search_window_full(1) [OF assms(1) _ refl]
  by (auto simp: binary_search_by_def Let_def split: if_splits ordering.splits)

lemma binary_search_by_Err:
  assumes ord: "cmp_ordered f xs" and res: "binary_search_by f xs = Inl i"
  shows "i \<le> length xs \<and> (\<forall>j<i. f (xs ! j) = Less) \<and>
         (\<forall>j. i \<le> j \<and> j < length xs \<longrightarrow> f (xs ! j) = Greater)"
proof (cases "xs = []")
  case True
  with res show ?thesis by (simp add: binary_search_by_def)
next
  case False
  define r where "r = binary_search_window f xs 0 (length xs)"
  note r = binary_search_window_full [OF ord False r_def]
  have below: "f (xs ! j) = Less" if "f (xs ! r) = Less" and "j \<le> r" for j
    using cmp_orderedD(2) [OF ord that(2) r(1) that(1)] .
  show ?thesis
  proof (cases "f (xs ! r)")
    case Less
    then have "i = r + 1" using res False by (simp add: binary_search_by_def Let_def r_def [symmetric])
    then show ?thesis using r below [OF Less] by auto
  next
    case Equal
    then show ?thesis using res False by (simp add: binary_search_by_def Let_def r_def [symmetric])
  next
    case Greater
    then have "i = r" "r = 0" using res False r(2)
      by (simp_all add: binary_search_by_def Let_def r_def [symmetric])
    then show ?thesis using r(3) Greater by (auto simp: le_less)
  qed
qed

lemma cmp_ordered_sorted: "sorted xs \<Longrightarrow> cmp_ordered (\<lambda>y. cmp y x) xs"
  unfolding cmp_ordered_def cmp_def
  by (metis (no_types, lifting) leD leI le_less_trans less_le_trans not_less_iff_gr_or_eq
      ordering.distinct sorted_nth_mono)

text \<open>On a sorted list the search succeeds exactly on the members.\<close>

lemma binary_search_is_ok:
  assumes "sorted xs"
  shows "(\<exists>i. binary_search xs x = Inr i) \<longleftrightarrow> x \<in> set xs"
proof
  assume "\<exists>i. binary_search xs x = Inr i"
  then show "x \<in> set xs"
    using binary_search_by_Ok [OF cmp_ordered_sorted [OF assms]]
    by (force simp: binary_search_def cmp_def in_set_conv_nth split: if_splits)
next
  assume "x \<in> set xs"
  then obtain k where k: "k < length xs" "xs ! k = x" by (auto simp: in_set_conv_nth)
  show "\<exists>i. binary_search xs x = Inr i"
  proof (cases "binary_search xs x")
    case (Inl i)
    then have "\<forall>j<i. cmp (xs ! j) x = Less"
      and "\<forall>j. i \<le> j \<and> j < length xs \<longrightarrow> cmp (xs ! j) x = Greater"
      using binary_search_by_Err [OF cmp_ordered_sorted [OF assms], of x i]
      by (simp_all add: binary_search_def)
    then have "cmp (xs ! k) x \<noteq> Equal" using k(1) by (cases "k < i") auto
    then show ?thesis using k(2) by (simp add: cmp_def)
  qed simp
qed

lemma try_bind_Inr: "try_bind m f = Inr b \<longleftrightarrow> (\<exists>a. m = Inr a \<and> f a = Inr b)"
  by (cases m) auto

lemma try_bind_Inl:
  "try_bind m f = Inl e \<longleftrightarrow> m = Inl e \<or> (\<exists>a. m = Inr a \<and> f a = Inl e)"
  by (cases m) auto

lemma ok_or_Inr [simp]: "ok_or e m = Inr a \<longleftrightarrow> m = Some a"
  by (cases m) auto

end
