(* ===== verification/Domain_Types.thy ===== *)
theory Domain_Types
  imports Prelude
begin

text \<open>
  The domain types of the renderer cluster, \<open>crates/biei-core/src/types.rs\<close>: style identity,
  worker profiles, render requests and tasks, delivery namespaces, the gossip key/value
  encoding of a node's workers, outcomes, failure and rejection taxonomies and routing
  decisions. Strings that Rust wraps in newtypes (\<open>NodeId\<close>, \<open>StyleId\<close>,
  \<open>RequestId\<close>) are \<open>string\<close>s; floating-point coordinates appear only through their bit
  patterns (\<open>to_bits\<close>), a \<open>PixelRatio\<close> is the rational number its \<open>f32\<close> stands for, and
  a \<open>serde_json::Value\<close> is represented by its serialisation, the only view the crate takes
  of it.
\<close>

section \<open>Identifiers and small enumerations\<close>

type_synonym WorkerId = u32
type_synonym SourceHash = u64
type_synonym TaskId = u64
type_synonym NodeId = string
type_synonym StyleId = string
type_synonym RequestId = string
type_synonym f64_bits = u64
type_synonym f32_bits = u32
type_synonym NodeKvs = "(string \<times> string) list"

datatype RouteTier =
  RenderCacheHit | Tier1WarmTracking | Tier2HrwBl | Tier3DrainSwap | Tier4Overflow

datatype RenderMode = Static | Tile

datatype Scale = X1 | X2

datatype ImageFormat = Png | Webp | Jpeg

datatype CachePolicy = Cacheable | OneShot

datatype PinSize = Small | Medium | Large

section \<open>Namespaces and authorization\<close>

definition MAX_AUTHORIZATION_NAMESPACES :: nat where
  "MAX_AUTHORIZATION_NAMESPACES = 1024"

definition MAX_AUTHORIZATION_NAMESPACE_BYTES :: nat where
  "MAX_AUTHORIZATION_NAMESPACE_BYTES = 256"

definition MAX_PROVIDER_BEARER_TOKEN_BYTES :: nat where
  "MAX_PROVIDER_BEARER_TOKEN_BYTES = 4096"

datatype CredentialCachePartition = CredentialCachePartition bytes

datatype ProviderBearerToken = ProviderBearerToken string

text \<open>\<open>u8::is_ascii_control\<close> and \<open>u8::is_ascii_whitespace\<close>.\<close>

definition is_ascii_control :: "char \<Rightarrow> bool" where
  "is_ascii_control c = (let n = of_char c :: nat in n < 32 \<or> n = 127)"

definition is_ascii_whitespace :: "char \<Rightarrow> bool" where
  "is_ascii_whitespace c = (let n = of_char c :: nat in n \<in> {9, 10, 12, 13, 32})"

definition bearer_token_try_new :: "string \<Rightarrow> ProviderBearerToken option" where
  "bearer_token_try_new v =
     (if v = [] \<or> MAX_PROVIDER_BEARER_TOKEN_BYTES < length v
         \<or> list_ex (\<lambda>c. is_ascii_control c \<or> is_ascii_whitespace c) v
      then None else Some (ProviderBearerToken v))"

text \<open>
  \<open>char::is_control\<close> on a UTF-8 string: the code points below U+0020, U+007F, and
  U+0080 to U+009F, whose encodings are the byte C2 followed by 80 to 9F.
\<close>

fun has_control_char :: "string \<Rightarrow> bool" where
  "has_control_char [] = False"
| "has_control_char (c # cs) =
     (is_ascii_control c
      \<or> (of_char c = (194 :: nat) \<and>
          (case cs of [] \<Rightarrow> False
           | d # _ \<Rightarrow> (let n = of_char d :: nat in 128 \<le> n \<and> n \<le> 159)))
      \<or> has_control_char cs)"

datatype NamespaceSet = NamespaceSet (as_slice: "string list")

datatype NamespaceSetError = SetEmptyOrUnbounded | BadNamespace | NotCanonical

definition bad_namespace :: "string \<Rightarrow> bool" where
  "bad_namespace ns =
     (ns = [] \<or> MAX_AUTHORIZATION_NAMESPACE_BYTES < length ns \<or> has_control_char ns)"

definition wildcard :: string where
  "wildcard = ''*''"

definition is_ok :: "'e + 'a \<Rightarrow> bool" where
  "is_ok r = (case r of Inl _ \<Rightarrow> False | Inr _ \<Rightarrow> True)"

definition namespace_set_try_new :: "string list \<Rightarrow> NamespaceSetError + NamespaceSet" where
  "namespace_set_try_new namespaces =
     (if namespaces = [] \<or> MAX_AUTHORIZATION_NAMESPACES < length namespaces
      then Inl SetEmptyOrUnbounded
      else if list_ex bad_namespace namespaces then Inl BadNamespace
      else let sorted_unique = remdups_adj (sort namespaces)
           in if is_ok (binary_search sorted_unique wildcard)
              then Inr (NamespaceSet [wildcard])
              else Inr (NamespaceSet sorted_unique))"

fun some_pair_not_ascending :: "string list \<Rightarrow> bool" where
  "some_pair_not_ascending (a # b # xs) = (a \<ge> b \<or> some_pair_not_ascending (b # xs))"
| "some_pair_not_ascending _ = False"

definition namespace_set_try_from_shared :: "string list \<Rightarrow> NamespaceSetError + NamespaceSet" where
  "namespace_set_try_from_shared namespaces =
     (if namespaces = [] \<or> MAX_AUTHORIZATION_NAMESPACES < length namespaces
      then Inl SetEmptyOrUnbounded
      else if list_ex bad_namespace namespaces then Inl BadNamespace
      else if some_pair_not_ascending namespaces
           \<or> (list_ex (\<lambda>ns. ns = wildcard) namespaces
               \<and> \<not> (length namespaces = 1 \<and> namespaces ! 0 = wildcard))
      then Inl NotCanonical
      else Inr (NamespaceSet namespaces))"

definition namespace_set_allows :: "NamespaceSet \<Rightarrow> NamespaceSet \<Rightarrow> bool" where
  "namespace_set_allows self required =
     ((case as_slice self of [] \<Rightarrow> False | ns # _ \<Rightarrow> ns = wildcard)
      \<or> list_all (\<lambda>ns. ns \<noteq> wildcard \<and> is_ok (binary_search (as_slice self) ns))
           (as_slice required))"

text \<open>\<open>size_of::<String>()\<close> is 24 bytes on the supported 64-bit targets.\<close>

definition namespace_set_estimated_size_bytes :: "NamespaceSet \<Rightarrow> nat" where
  "namespace_set_estimated_size_bytes self = sum_list (map (\<lambda>ns. 24 + length ns) (as_slice self))"

record RenderAuthorization =
  readable_namespaces :: NamespaceSet
  cache_partition :: CredentialCachePartition
  provider_bearer_token :: "ProviderBearerToken option"

section \<open>Style identity and gossip values\<close>

definition node_id_from_index :: "nat \<Rightarrow> NodeId" where
  "node_id_from_index index = ''node-'' @ show_nat index"

definition style_namespace :: "StyleId \<Rightarrow> string" where
  "style_namespace s = (case split_once (CHR ''/'') s of None \<Rightarrow> s | Some (ns, _) \<Rightarrow> ns)"

definition style_local_id :: "StyleId \<Rightarrow> string" where
  "style_local_id s = (case split_once (CHR ''/'') s of None \<Rightarrow> s | Some (_, local_id) \<Rightarrow> local_id)"

record StyleRevision =
  rev_id :: StyleId
  rev_version :: u64

definition revision_to_gossip_value :: "StyleRevision \<Rightarrow> string" where
  "revision_to_gossip_value r = rev_id r @ ''@'' @ show_nat (unat (rev_version r))"

definition revision_parse_gossip_value :: "string \<Rightarrow> StyleRevision option" where
  "revision_parse_gossip_value s =
     (case rsplit_once (CHR ''@'') s of
        None \<Rightarrow> None
      | Some (i, v) \<Rightarrow>
          if i = [] then None
          else case parse_unsigned (2 ^ 64) v of
                 None \<Rightarrow> None
               | Some n \<Rightarrow> Some \<lparr>rev_id = i, rev_version = word_of_nat n\<rparr>)"

fun render_mode_as_gossip_value :: "RenderMode \<Rightarrow> string" where
  "render_mode_as_gossip_value Static = ''static''"
| "render_mode_as_gossip_value Tile = ''tile''"

definition render_mode_parse_gossip_value :: "string \<Rightarrow> RenderMode option" where
  "render_mode_parse_gossip_value v =
     (if v = ''static'' then Some Static else if v = ''tile'' then Some Tile else None)"

fun scale_as_gossip_value :: "Scale \<Rightarrow> string" where
  "scale_as_gossip_value X1 = ''1x''"
| "scale_as_gossip_value X2 = ''2x''"

definition scale_parse_gossip_value :: "string \<Rightarrow> Scale option" where
  "scale_parse_gossip_value v =
     (if v = ''1x'' then Some X1 else if v = ''2x'' then Some X2 else None)"

datatype PixelRatio = PixelRatio rat

fun pixel_ratio_to_scale :: "PixelRatio \<Rightarrow> Scale" where
  "pixel_ratio_to_scale (PixelRatio r) = (if r \<ge> 3 / 2 then X2 else X1)"

fun pixel_ratio_from_scale :: "Scale \<Rightarrow> PixelRatio" where
  "pixel_ratio_from_scale X1 = PixelRatio 1"
| "pixel_ratio_from_scale X2 = PixelRatio 2"

fun image_content_type :: "ImageFormat \<Rightarrow> string" where
  "image_content_type Png = ''image/png''"
| "image_content_type Webp = ''image/webp''"
| "image_content_type Jpeg = ''image/jpeg''"

section \<open>Render requests and tasks\<close>

record SourceRef =
  src_hash :: SourceHash
  src_policy :: CachePolicy

text \<open>
  \<open>Center lon lat zoom bearing pitch\<close>, \<open>Bbox min_lon min_lat max_lon max_lat\<close>, \<open>Auto\<close>.
\<close>

datatype Positioning =
  Center f64_bits f64_bits f64_bits f32_bits f32_bits
| Bbox f64_bits f64_bits f64_bits f64_bits
| Auto

record Padding =
  pad_top :: u16
  pad_right :: u16
  pad_bottom :: u16
  pad_left :: u16

definition padding_all :: "u16 \<Rightarrow> Padding" where
  "padding_all v = \<lparr>pad_top = v, pad_right = v, pad_bottom = v, pad_left = v\<rparr>"

record AddLayerSource =
  als_tileset_id :: string
  als_json :: string

text \<open>
  \<open>stable_source_id\<close> prints the 64-bit result of the standard library's unspecified
  \<open>DefaultHasher\<close> over the two strings, which is the argument \<open>hasher\<close>, as sixteen
  hexadecimal digits.
\<close>

definition hex_digit :: "nat \<Rightarrow> char" where
  "hex_digit d = char_of (if d < 10 then 48 + d else 87 + d)"

fun hex_digits :: "nat \<Rightarrow> nat \<Rightarrow> string" where
  "hex_digits 0 n = []"
| "hex_digits (Suc k) n = hex_digits k (n div 16) @ [hex_digit (n mod 16)]"

definition stable_source_id :: "(string \<Rightarrow> string \<Rightarrow> u64) \<Rightarrow> AddLayerSource \<Rightarrow> string" where
  "stable_source_id hasher s =
     ''__biei_addlayer_source_'' @ hex_digits 16 (unat (hasher (als_tileset_id s) (als_json s)))"

record AddLayer =
  al_json :: string
  al_hash :: u64
  al_source :: "AddLayerSource option"

record LngLat =
  ll_lon :: f64_bits
  ll_lat :: f64_bits

record PathOverlay =
  po_stroke_width :: "f32_bits option"
  po_stroke_color :: "string option"
  po_stroke_opacity :: "f32_bits option"
  po_fill_color :: "string option"
  po_fill_opacity :: "f32_bits option"
  po_coordinates :: "LngLat list"

record GeoJsonOverlay =
  go_feature_collection :: string

record PinOverlay =
  pin_size :: PinSize
  pin_label :: "string option"
  pin_color :: string
  pin_coordinate :: LngLat

datatype StaticOverlay = Path PathOverlay | GeoJson GeoJsonOverlay | Pin PinOverlay

text \<open>
  \<open>TileRequest z x y tile_size\<close> and
  \<open>StaticImage positioning width height overlays before_layer padding addlayer\<close>.
\<close>

datatype RenderRequest =
  TileRequest u8 u32 u32 u16
| StaticImage Positioning u16 u16 "StaticOverlay list" "string option" Padding "AddLayer option"

fun request_render_mode :: "RenderRequest \<Rightarrow> RenderMode" where
  "request_render_mode (TileRequest _ _ _ _) = Tile"
| "request_render_mode (StaticImage _ _ _ _ _ _ _) = Static"

fun has_addlayer_source :: "RenderRequest \<Rightarrow> bool" where
  "has_addlayer_source (StaticImage _ _ _ _ _ _ (Some a)) = (al_source a \<noteq> None)"
| "has_addlayer_source _ = False"

record WorkerProfile =
  wp_style :: StyleRevision
  wp_render_mode :: RenderMode
  wp_scale :: Scale

record TaskSpec =
  ts_id :: TaskId
  ts_request_id :: RequestId
  ts_style :: StyleRevision
  ts_source :: "SourceRef option"
  ts_request :: RenderRequest
  ts_pixel_ratio :: PixelRatio
  ts_output_format :: ImageFormat

record InternalTask =
  it_id :: TaskId
  it_request_id :: RequestId
  it_authorization :: "RenderAuthorization option"
  it_style :: StyleRevision
  it_source :: "SourceRef option"
  it_request :: RenderRequest
  it_pixel_ratio :: PixelRatio
  it_output_format :: ImageFormat
  it_arrived_at :: instant
  it_deadline :: instant
  it_forwarding_hops :: u8

text \<open>\<open>arrived_at + budget\<close> panics on overflow of the instant: \<open>None\<close>.\<close>

definition task_spec_start :: "TaskSpec \<Rightarrow> instant \<Rightarrow> duration \<Rightarrow> InternalTask option" where
  "task_spec_start s arrived_at budget =
     map_option (\<lambda>deadline.
       \<lparr>it_id = ts_id s, it_request_id = ts_request_id s, it_authorization = None,
        it_style = ts_style s, it_source = ts_source s, it_request = ts_request s,
        it_pixel_ratio = ts_pixel_ratio s, it_output_format = ts_output_format s,
        it_arrived_at = arrived_at, it_deadline = deadline, it_forwarding_hops = 0\<rparr>)
       (instant_checked_add arrived_at budget)"

definition worker_profile :: "InternalTask \<Rightarrow> WorkerProfile" where
  "worker_profile t =
     \<lparr>wp_style = it_style t, wp_render_mode = request_render_mode (it_request t),
      wp_scale = pixel_ratio_to_scale (it_pixel_ratio t)\<rparr>"

definition has_source :: "InternalTask \<Rightarrow> bool" where
  "has_source t = (it_source t \<noteq> None \<or> has_addlayer_source (it_request t))"

section \<open>Node state and its gossip encoding\<close>

definition RENDER_ADMISSION_GOSSIP_KEY :: string where
  "RENDER_ADMISSION_GOSSIP_KEY = ''renderer.accepting''"

record WorkerView =
  wv_id :: WorkerId
  wv_loaded_profile :: "WorkerProfile option"
  wv_queue_depth :: nat

record NodeStateView =
  nsv_id :: NodeId
  nsv_accepts_new_renders :: bool
  nsv_workers :: "WorkerView list"

text \<open>
  \<open>ClusterView::states\<close> is a hash map: its entries are a list of pairs with distinct keys, in
  whatever order the map iterates.
\<close>

record ClusterView =
  cv_members :: "NodeId list"
  cv_states :: "(NodeId \<times> NodeStateView) list"
  cv_generated_at :: instant

record Builder =
  b_loaded_revision :: "StyleRevision option option"
  b_render_mode :: "RenderMode option"
  b_scale :: "Scale option"
  b_queue_depth :: "nat option"

definition builder_default :: Builder where
  "builder_default =
     \<lparr>b_loaded_revision = None, b_render_mode = None, b_scale = None, b_queue_depth = None\<rparr>"

text \<open>The update of one worker's builder by one field of its key/value pairs.\<close>

definition builder_apply :: "string \<Rightarrow> string \<Rightarrow> Builder \<Rightarrow> Builder" where
  "builder_apply field v b =
     (if field = ''style'' then
        (if v = [] then b\<lparr>b_loaded_revision := Some None\<rparr>
         else case revision_parse_gossip_value v of
                Some r \<Rightarrow> b\<lparr>b_loaded_revision := Some (Some r)\<rparr>
              | None \<Rightarrow> b)
      else if field = ''mode'' \<and> v \<noteq> [] then
        b\<lparr>b_render_mode := render_mode_parse_gossip_value v\<rparr>
      else if field = ''scale'' \<and> v \<noteq> [] then
        b\<lparr>b_scale := scale_parse_gossip_value v\<rparr>
      else if field = ''queue'' then
        b\<lparr>b_queue_depth := parse_unsigned (2 ^ 64) v\<rparr>
      else b)"

definition builder_view :: "WorkerId \<times> Builder \<Rightarrow> WorkerView option" where
  "builder_view wb =
     (case wb of (wid, b) \<Rightarrow>
       (case b_loaded_revision b of
          None \<Rightarrow> None
        | Some None \<Rightarrow>
            map_option (\<lambda>q. \<lparr>wv_id = wid, wv_loaded_profile = None, wv_queue_depth = q\<rparr>)
              (b_queue_depth b)
        | Some (Some style) \<Rightarrow>
            (case (b_render_mode b, b_scale b) of
               (Some m, Some s) \<Rightarrow>
                 map_option
                   (\<lambda>q. \<lparr>wv_id = wid,
                         wv_loaded_profile =
                           Some \<lparr>wp_style = style, wp_render_mode = m, wp_scale = s\<rparr>,
                         wv_queue_depth = q\<rparr>)
                   (b_queue_depth b)
             | _ \<Rightarrow> None)))"

text \<open>
  One iteration of the decoding loop: the state is the admission flag and the builders by
  worker id.
\<close>

definition from_kvs_step ::
  "bool \<times> (WorkerId \<times> Builder) list \<Rightarrow> string \<times> string \<Rightarrow> bool \<times> (WorkerId \<times> Builder) list" where
  "from_kvs_step st kv =
     (case st of (accepts, by_worker) \<Rightarrow> case kv of (key, v) \<Rightarrow>
       if key = RENDER_ADMISSION_GOSSIP_KEY then (v = ''true'', by_worker)
       else case strip_prefix ''worker.'' key of
              None \<Rightarrow> st
            | Some rest \<Rightarrow>
                (case split_once (CHR ''.'') rest of
                   None \<Rightarrow> st
                 | Some (wid_s, field) \<Rightarrow>
                     (case parse_unsigned (2 ^ 32) wid_s of
                        None \<Rightarrow> st
                      | Some wid \<Rightarrow>
                          (accepts,
                           btree_update (word_of_nat wid)
                             (\<lambda>b. builder_apply field v
                                    (case b of None \<Rightarrow> builder_default | Some b \<Rightarrow> b))
                             by_worker))))"

definition from_kvs :: "NodeId \<Rightarrow> (string \<times> string) list \<Rightarrow> NodeStateView" where
  "from_kvs i kvs =
     (case foldl from_kvs_step (False, []) kvs of
        (accepts, by_worker) \<Rightarrow>
          \<lparr>nsv_id = i, nsv_accepts_new_renders = accepts,
           nsv_workers = List.map_filter builder_view by_worker\<rparr>)"

definition has_capacity :: "NodeStateView \<Rightarrow> nat \<Rightarrow> bool" where
  "has_capacity n bl_capacity_per_worker =
     (nsv_accepts_new_renders n
      \<and> list_ex (\<lambda>w. wv_queue_depth w < bl_capacity_per_worker) (nsv_workers n))"

definition has_admission_capacity :: "NodeStateView \<Rightarrow> nat \<Rightarrow> bool" where
  "has_admission_capacity n queue_capacity_per_worker =
     (nsv_accepts_new_renders n
      \<and> list_ex (\<lambda>w. wv_queue_depth w < queue_capacity_per_worker) (nsv_workers n))"

definition worker_key :: "WorkerId \<Rightarrow> string \<Rightarrow> string" where
  "worker_key wid field = ''worker.'' @ show_nat (unat wid) @ ''.'' @ field"

definition encode_worker_kvs ::
  "NodeKvs \<Rightarrow> WorkerId \<Rightarrow> WorkerProfile option \<Rightarrow> nat \<Rightarrow> NodeKvs" where
  "encode_worker_kvs out worker_id loaded_profile queue_depth =
     (let (style_value, mode_value, scale_value) =
            (case loaded_profile of
               Some p \<Rightarrow> (revision_to_gossip_value (wp_style p),
                          render_mode_as_gossip_value (wp_render_mode p),
                          scale_as_gossip_value (wp_scale p))
             | None \<Rightarrow> ([], [], []));
          out1 = btree_insert (worker_key worker_id ''style'') style_value out;
          out2 = btree_insert (worker_key worker_id ''mode'') mode_value out1;
          out3 = btree_insert (worker_key worker_id ''scale'') scale_value out2
      in btree_insert (worker_key worker_id ''queue'') (show_nat queue_depth) out3)"

section \<open>Outcomes, failures and rejections\<close>

datatype DeadlineStage =
  AcquireRenderPermit | StyleSwap | EnsureSource | AcquireNativeRenderPermit | Render

datatype RejectionReason =
  QueueFullReason | NoCapacity | RendererDegraded | DrainTooSlow | UnknownStyle
| HopLimitExceeded | ForwardFailed | DeadlineTooClose | DeadlineExceeded

datatype FailureKind =
  RenderTimeout | RendererDead | StyleUnavailableKind | StyleNotReadyKind
| SourceUnavailableKind | PreparationTimeout | OtherFailure

record RenderOutput =
  out_bytes :: bytes
  out_format :: ImageFormat

record RenderObservation =
  obs_render_mode :: RenderMode
  obs_scale :: Scale
  obs_output_format :: ImageFormat
  obs_width :: u16
  obs_height :: u16
  obs_style_setup_duration :: "duration option"
  obs_source_setup_duration :: "duration option"

record CompletedInfo =
  ci_node_id :: NodeId
  ci_worker_id :: "WorkerId option"
  ci_route_tier :: RouteTier
  ci_started_at :: instant
  ci_native_render_started_at :: instant
  ci_native_render_completed_at :: instant
  ci_completed_at :: instant
  ci_style_swap :: bool
  ci_cold_start :: bool
  ci_source_loaded :: bool
  ci_admitted_at_overflow :: bool
  ci_render_observation :: "RenderObservation option"

datatype TaskResult =
  Completed CompletedInfo RenderOutput
| Rejected RejectionReason
| Failed string FailureKind

record TaskOutcome =
  to_task_id :: TaskId
  to_request_id :: RequestId
  to_arrived_at :: instant
  to_had_source :: bool
  to_deadline_stage :: "DeadlineStage option"
  to_result :: TaskResult

fun failure_kind_as_label :: "FailureKind \<Rightarrow> string" where
  "failure_kind_as_label RenderTimeout = ''render_timeout''"
| "failure_kind_as_label RendererDead = ''renderer_dead''"
| "failure_kind_as_label StyleUnavailableKind = ''style_unavailable''"
| "failure_kind_as_label StyleNotReadyKind = ''style_not_ready''"
| "failure_kind_as_label SourceUnavailableKind = ''source_unavailable''"
| "failure_kind_as_label PreparationTimeout = ''preparation_timeout''"
| "failure_kind_as_label OtherFailure = ''other''"

datatype RendererError =
  StyleLoadFailed StyleId string
| SetupFailed StyleId string
| StyleNotReady StyleId u64
| SourceFetchFailed SourceHash string
| NativeRenderFailed string
| RenderFailed string
| Timeout
| ActorDead

fun from_renderer_error :: "RendererError \<Rightarrow> FailureKind" where
  "from_renderer_error Timeout = RenderTimeout"
| "from_renderer_error ActorDead = RendererDead"
| "from_renderer_error (StyleLoadFailed _ _) = StyleUnavailableKind"
| "from_renderer_error (SetupFailed _ _) = OtherFailure"
| "from_renderer_error (StyleNotReady _ _) = StyleNotReadyKind"
| "from_renderer_error (SourceFetchFailed _ _) = SourceUnavailableKind"
| "from_renderer_error (NativeRenderFailed _) = SourceUnavailableKind"
| "from_renderer_error (RenderFailed _) = OtherFailure"

fun renderer_error_to_string :: "RendererError \<Rightarrow> string" where
  "renderer_error_to_string (StyleLoadFailed i s) = ''style load failed for '' @ i @ '': '' @ s"
| "renderer_error_to_string (SetupFailed i s) = ''renderer setup failed for '' @ i @ '': '' @ s"
| "renderer_error_to_string (StyleNotReady i v) =
     ''style not ready for '' @ i @ ''@'' @ show_nat (unat v)"
| "renderer_error_to_string (SourceFetchFailed h s) =
     ''source fetch failed for '' @ show_nat (unat h) @ '': '' @ s"
| "renderer_error_to_string (NativeRenderFailed s) = ''native render failed: '' @ s"
| "renderer_error_to_string (RenderFailed s) = ''render failed: '' @ s"
| "renderer_error_to_string Timeout = ''render timeout''"
| "renderer_error_to_string ActorDead = ''renderer actor dead''"

definition render_observation_from_task ::
  "InternalTask \<Rightarrow> duration option \<Rightarrow> duration option \<Rightarrow> RenderObservation" where
  "render_observation_from_task t style_setup source_setup =
     (let (w, h) = (case it_request t of
                      TileRequest _ _ _ sz \<Rightarrow> (sz, sz)
                    | StaticImage _ w h _ _ _ _ \<Rightarrow> (w, h))
      in \<lparr>obs_render_mode = request_render_mode (it_request t),
          obs_scale = pixel_ratio_to_scale (it_pixel_ratio t),
          obs_output_format = it_output_format t, obs_width = w, obs_height = h,
          obs_style_setup_duration = style_setup, obs_source_setup_duration = source_setup\<rparr>)"

datatype ProfileContent = StyleContent StyleId | SourceContent SourceHash

datatype ProfilePreparationError =
  StyleNotFound StyleId string
| StyleUnavailable StyleId string
| SourceUnavailable SourceHash string
| CallerDeadlineExceeded
| InfrastructureFailure string
| InvalidPreparedContent ProfileContent string

fun into_source :: "SourceHash \<Rightarrow> ProfilePreparationError \<Rightarrow> ProfilePreparationError" where
  "into_source h (StyleNotFound _ s) = SourceUnavailable h s"
| "into_source h (StyleUnavailable _ s) = SourceUnavailable h s"
| "into_source h (InvalidPreparedContent _ s) = InvalidPreparedContent (SourceContent h) s"
| "into_source h e = e"

fun failure_kind :: "ProfilePreparationError \<Rightarrow> FailureKind option" where
  "failure_kind (StyleNotFound _ _) = None"
| "failure_kind (StyleUnavailable _ _) = Some StyleUnavailableKind"
| "failure_kind (SourceUnavailable _ _) = Some SourceUnavailableKind"
| "failure_kind CallerDeadlineExceeded = Some PreparationTimeout"
| "failure_kind (InfrastructureFailure _) = Some OtherFailure"
| "failure_kind (InvalidPreparedContent (StyleContent _) _) = Some StyleUnavailableKind"
| "failure_kind (InvalidPreparedContent (SourceContent _) _) = Some SourceUnavailableKind"

fun preparation_error_to_string :: "ProfilePreparationError \<Rightarrow> string" where
  "preparation_error_to_string (StyleNotFound i s) = ''style load failed for '' @ i @ '': '' @ s"
| "preparation_error_to_string (StyleUnavailable i s) = ''style load failed for '' @ i @ '': '' @ s"
| "preparation_error_to_string (InvalidPreparedContent (StyleContent i) s) =
     ''style load failed for '' @ i @ '': '' @ s"
| "preparation_error_to_string (SourceUnavailable h s) =
     ''source fetch failed for '' @ show_nat (unat h) @ '': '' @ s"
| "preparation_error_to_string (InvalidPreparedContent (SourceContent h) s) =
     ''source fetch failed for '' @ show_nat (unat h) @ '': '' @ s"
| "preparation_error_to_string CallerDeadlineExceeded = ''profile preparation deadline exceeded''"
| "preparation_error_to_string (InfrastructureFailure s) =
     ''profile preparation infrastructure failure: '' @ s"

datatype ProcessError =
  QueueFull InternalTask | RenderAdmissionClosed InternalTask | QueueDisconnected

fun is_retryable_at_forward :: "RejectionReason \<Rightarrow> bool" where
  "is_retryable_at_forward QueueFullReason = True"
| "is_retryable_at_forward NoCapacity = True"
| "is_retryable_at_forward RendererDegraded = True"
| "is_retryable_at_forward DrainTooSlow = True"
| "is_retryable_at_forward UnknownStyle = False"
| "is_retryable_at_forward HopLimitExceeded = False"
| "is_retryable_at_forward ForwardFailed = False"
| "is_retryable_at_forward DeadlineTooClose = False"
| "is_retryable_at_forward DeadlineExceeded = False"

record ForwardCandidate =
  fc_node_id :: NodeId
  fc_drain_worker :: "WorkerId option"

datatype Decision =
  Local RouteTier "WorkerId option" "ForwardCandidate list"
| Forward RouteTier "ForwardCandidate list"
| Reject RejectionReason

section \<open>Values used by the examples\<close>

definition example_profile :: "u64 \<Rightarrow> WorkerProfile" where
  "example_profile v = \<lparr>wp_style = \<lparr>rev_id = ''acme/streets'', rev_version = v\<rparr>,
     wp_render_mode = Tile, wp_scale = X1\<rparr>"

definition example_task :: "u64 \<Rightarrow> InternalTask" where
  "example_task v = \<lparr>it_id = 1, it_request_id = ''r'', it_authorization = None,
     it_style = \<lparr>rev_id = ''acme/streets'', rev_version = v\<rparr>, it_source = None,
     it_request = TileRequest 0 0 0 0, it_pixel_ratio = PixelRatio 1, it_output_format = Png,
     it_arrived_at = 0, it_deadline = 100, it_forwarding_hops = 0\<rparr>"

end
