(* ===== verification/Codec.thy ===== *)
theory Codec
  imports Main
begin

text \<open>
  The interface of a textual codec: a printer and a parser with the law that parsing a printed
  value gives it back.  The gossip values of Biei and the archive generations of Ishikari are its
  interpretations.
\<close>

locale codec =
  fixes encode :: "'a \<Rightarrow> string"
    and decode :: "string \<Rightarrow> 'a option"
    and valid :: "'a \<Rightarrow> bool"
  assumes decode_encode: "valid x \<Longrightarrow> decode (encode x) = Some x"
begin

lemma encode_inj: "valid x \<Longrightarrow> valid y \<Longrightarrow> encode x = encode y \<Longrightarrow> x = y"
  by (metis decode_encode option.inject)

lemma decode_encode_bind:
  "valid x \<Longrightarrow> Option.bind (decode (encode x)) f = f x"
  by (simp add: decode_encode)

end

text \<open>A codec whose printed values are never empty, so that the empty string can mark absence.\<close>

locale nonempty_codec = codec +
  assumes encode_nonempty: "encode x \<noteq> []"
begin

lemma decode_optional:
  assumes "\<And>x. v = Some x \<Longrightarrow> valid x"
  shows "(case v of None \<Rightarrow> [] | Some x \<Rightarrow> encode x) = [] \<longleftrightarrow> v = None"
  by (cases v) (auto simp: encode_nonempty)

end

text \<open>
  A codec whose parser accepts nothing but printed values: the wire form of a value is unique, so
  comparing wire forms compares values.
\<close>

locale canonical_codec = codec +
  assumes decode_valid: "decode s = Some x \<Longrightarrow> valid x"
    and encode_decode: "decode s = Some x \<Longrightarrow> encode x = s"
begin

lemma decode_iff: "decode s = Some x \<longleftrightarrow> valid x \<and> encode x = s"
  using decode_encode decode_valid encode_decode by blast

lemma decode_inj: "decode s = Some x \<Longrightarrow> decode t = Some x \<Longrightarrow> s = t"
  using encode_decode by blast

end

end
