(* ===== verification/Gossip_Codec.thy ===== *)
theory Gossip_Codec
  imports Domain_Types Codec
begin

text \<open>
  Round trips of the gossip encoding of \<open>crates/biei-core/src/types.rs\<close> and the meaning of
  normalised namespace sets. The gossip values of render modes,
  scales and style revisions are interpretations of the interface \<open>codec\<close>, and the decoder \<open>from_kvs\<close> of a node's
  key/value pairs is shown to invert the encoder over a whole pool of workers.
\<close>

definition valid_revision :: "StyleRevision \<Rightarrow> bool" where
  "valid_revision r \<longleftrightarrow> rev_id r \<noteq> []"

lemma revision_roundtrip:
  assumes "valid_revision r"
  shows "revision_parse_gossip_value (revision_to_gossip_value r) = Some r"
proof -
  have no_at: "CHR ''@'' \<notin> set (show_nat (unat (rev_version r)))"
    by (rule show_nat_no_char) (simp add: char_digit_def)
  have "unat (rev_version r) < 2 ^ 64" by (rule unat_u64_less)
  then show ?thesis
    using assms rsplit_once_append [OF no_at, of "rev_id r"]
    by (simp add: revision_to_gossip_value_def revision_parse_gossip_value_def parse_show_nat
        valid_revision_def)
qed

interpretation render_mode_codec:
  nonempty_codec render_mode_as_gossip_value render_mode_parse_gossip_value "\<lambda>_. True"
proof
  fix m show "render_mode_parse_gossip_value (render_mode_as_gossip_value m) = Some m"
    by (cases m) (simp_all add: render_mode_parse_gossip_value_def)
  show "render_mode_as_gossip_value m \<noteq> []" by (cases m) simp_all
qed

interpretation scale_codec:
  nonempty_codec scale_as_gossip_value scale_parse_gossip_value "\<lambda>_. True"
proof
  fix s show "scale_parse_gossip_value (scale_as_gossip_value s) = Some s"
    by (cases s) (simp_all add: scale_parse_gossip_value_def)
  show "scale_as_gossip_value s \<noteq> []" by (cases s) simp_all
qed

interpretation revision_codec:
  nonempty_codec revision_to_gossip_value revision_parse_gossip_value valid_revision
proof
  show "valid_revision r \<Longrightarrow> revision_parse_gossip_value (revision_to_gossip_value r) = Some r" for r
    by (rule revision_roundtrip)
  show "revision_to_gossip_value r \<noteq> []" for r by (simp add: revision_to_gossip_value_def)
qed

lemmas gossip_codecs =
  render_mode_codec.decode_encode [OF TrueI] scale_codec.decode_encode [OF TrueI]
  revision_codec.decode_encode
  render_mode_codec.encode_nonempty scale_codec.encode_nonempty revision_codec.encode_nonempty

lemma pixel_ratio_roundtrip: "pixel_ratio_to_scale (pixel_ratio_from_scale s) = s"
  by (cases s) simp_all

section \<open>Keys of a worker\<close>

lemma worker_key_neq_admission [simp]: "worker_key w f \<noteq> RENDER_ADMISSION_GOSSIP_KEY"
  by (simp add: worker_key_def RENDER_ADMISSION_GOSSIP_KEY_def)

lemma split_worker_key:
  "split_once (CHR ''.'') (show_nat n @ ''.'' @ field) = Some (show_nat n, field)"
proof -
  have "CHR ''.'' \<notin> set (show_nat n)"
    by (rule show_nat_no_char) (simp add: char_digit_def)
  from split_once_append [OF this, of field] show ?thesis by simp
qed

lemma worker_key_inj: "worker_key w f = worker_key w' f' \<Longrightarrow> w = w' \<and> f = f'"
proof -
  assume "worker_key w f = worker_key w' f'"
  then have "show_nat (unat w) @ ''.'' @ f = show_nat (unat w') @ ''.'' @ f'"
    by (simp add: worker_key_def)
  then have "Some (show_nat (unat w), f) = Some (show_nat (unat w'), f')"
    by (metis split_worker_key)
  then show ?thesis using show_nat_inj [of "unat w" "unat w'"] by (simp add: word_unat_eq_iff)
qed

lemma from_kvs_step_worker:
  "from_kvs_step (a, m) (worker_key w f, v) =
     (a, btree_update w
           (\<lambda>b. builder_apply f v (case b of None \<Rightarrow> builder_default | Some b \<Rightarrow> b)) m)"
proof -
  have "unat w < 2 ^ 32" by (rule unat_u32_less)
  then have "parse_unsigned (2 ^ 32) (show_nat (unat w)) = Some (unat w)"
    by (rule parse_show_nat)
  moreover have "worker_key w f \<noteq> RENDER_ADMISSION_GOSSIP_KEY" by simp
  moreover have "strip_prefix ''worker.'' (worker_key w f) = Some (show_nat (unat w) @ ''.'' @ f)"
    unfolding worker_key_def by (rule strip_prefix_append)
  ultimately show ?thesis
    unfolding from_kvs_step_def by (simp only: prod.case split_worker_key option.case if_False) simp
qed

section \<open>Decoding a node's key/value pairs\<close>

abbreviation worker_fields :: "string list" where
  "worker_fields \<equiv> [''style'', ''mode'', ''scale'', ''queue'']"

definition apply_field :: "(string \<rightharpoonup> string) \<Rightarrow> WorkerId \<Rightarrow> string \<Rightarrow> Builder \<Rightarrow> Builder" where
  "apply_field m w f b = (case m (worker_key w f) of None \<Rightarrow> b | Some v \<Rightarrow> builder_apply f v b)"

text \<open>The builder of a worker as a function of the whole key/value map.\<close>

definition builder_of :: "(string \<rightharpoonup> string) \<Rightarrow> WorkerId \<Rightarrow> Builder" where
  "builder_of m w = fold (apply_field m w) worker_fields builder_default"

lemma builder_apply_fields:
  "builder_apply ''style'' v b =
     (if v = [] then b\<lparr>b_loaded_revision := Some None\<rparr>
      else case revision_parse_gossip_value v of
             Some r \<Rightarrow> b\<lparr>b_loaded_revision := Some (Some r)\<rparr> | None \<Rightarrow> b)"
  "builder_apply ''mode'' v b =
     (if v = [] then b else b\<lparr>b_render_mode := render_mode_parse_gossip_value v\<rparr>)"
  "builder_apply ''scale'' v b =
     (if v = [] then b else b\<lparr>b_scale := scale_parse_gossip_value v\<rparr>)"
  "builder_apply ''queue'' v b = b\<lparr>b_queue_depth := parse_unsigned (2 ^ 64) v\<rparr>"
  by (simp_all add: builder_apply_def)

lemma builder_apply_other:
  "f \<notin> set worker_fields \<Longrightarrow> builder_apply f v b = b"
  by (simp add: builder_apply_def)

lemma builder_apply_commute:
  assumes "f \<noteq> g"
  shows "builder_apply f u (builder_apply g v b) = builder_apply g v (builder_apply f u b)"
proof (cases "f \<in> set worker_fields \<and> g \<in> set worker_fields")
  case True
  then show ?thesis using assms
    by (simp only: list.set; elim conjE insertE emptyE; simp only: builder_apply_fields; simp split: option.split)
next
  case False
  then show ?thesis by (auto simp: builder_apply_other)
qed
lemma apply_field_upd_other:
  "f \<noteq> g \<or> w \<noteq> w' \<Longrightarrow> apply_field (m(worker_key w' g \<mapsto> v)) w f = apply_field m w f"
  using worker_key_inj [of w f w' g] by (auto simp: apply_field_def fun_eq_iff)

lemma apply_field_upd_same:
  "apply_field (m(worker_key w f \<mapsto> v)) w f b = builder_apply f v b"
  by (simp add: apply_field_def)

lemma builder_apply_field_commute:
  "f \<noteq> g \<Longrightarrow> builder_apply g v (apply_field m w f b) = apply_field m w f (builder_apply g v b)"
  by (auto simp: apply_field_def builder_apply_commute split: option.splits)

lemma apply_field_None: "m (worker_key w f) = None \<Longrightarrow> apply_field m w f b = b"
  by (simp add: apply_field_def)

lemma builder_of_upd:
  assumes "f \<in> set worker_fields" and "m (worker_key w f) = None"
  shows "builder_of (m(worker_key w f \<mapsto> v)) w = builder_apply f v (builder_of m w)"
proof -
  have "f = ''style'' \<or> f = ''mode'' \<or> f = ''scale'' \<or> f = ''queue''"
    using assms(1) by simp
  then show ?thesis using assms(2)
    by (elim disjE; hypsubst; simp add: builder_of_def apply_field_upd_other
        apply_field_upd_same builder_apply_field_commute apply_field_None)
qed

lemma builder_of_upd_other:
  "w \<noteq> w' \<Longrightarrow> builder_of (m(worker_key w' g \<mapsto> v)) w = builder_of m w"
  by (simp add: builder_of_def apply_field_upd_other)

lemma builder_of_upd_skip:
  assumes "\<And>f. k \<noteq> worker_key w f"
  shows "builder_of (m(k \<mapsto> v)) w = builder_of m w"
proof -
  have "(m(k \<mapsto> v)) (worker_key w f) = m (worker_key w f)" for f
    using assms [of f] by auto
  then have "apply_field (m(k \<mapsto> v)) w = apply_field m w" by (simp add: apply_field_def fun_eq_iff)
  then show ?thesis by (simp only: builder_of_def)
qed

definition gossip_key :: "WorkerId set \<Rightarrow> string \<Rightarrow> bool" where
  "gossip_key W k \<longleftrightarrow>
     k = RENDER_ADMISSION_GOSSIP_KEY \<or> strip_prefix ''worker.'' k = None
     \<or> (\<exists>w\<in>W. \<exists>f\<in>set worker_fields. k = worker_key w f)"

definition wkeys :: "(string \<times> string) list \<Rightarrow> WorkerId \<Rightarrow> bool" where
  "wkeys kvs w \<longleftrightarrow> (\<exists>f. worker_key w f \<in> fst ` set kvs)"

lemma from_kvs_step_skip:
  "strip_prefix ''worker.'' k = None \<Longrightarrow> k \<noteq> RENDER_ADMISSION_GOSSIP_KEY \<Longrightarrow>
   from_kvs_step st (k, v) = st"
  by (cases st) (simp add: from_kvs_step_def)

lemma from_kvs_step_admission:
  "from_kvs_step (a, m) (RENDER_ADMISSION_GOSSIP_KEY, v) = (v = ''true'', m)"
  by (simp add: from_kvs_step_def)

lemma worker_key_strip: "strip_prefix ''worker.'' (worker_key w f) \<noteq> None"
  unfolding worker_key_def by (simp only: strip_prefix_append option.distinct not_False_eq_True)

lemma admission_strip: "strip_prefix ''worker.'' RENDER_ADMISSION_GOSSIP_KEY = None"
  by (simp add: RENDER_ADMISSION_GOSSIP_KEY_def)

text \<open>
  After the loop over distinct keys of the known shapes, each worker's builder is the one
  determined by the map, whatever the order of the pairs.
\<close>

lemma from_kvs_fold:
  assumes "distinct (map fst kvs)" and "\<forall>k\<in>fst ` set kvs. gossip_key W k"
  shows "case foldl from_kvs_step (False, []) kvs of (a, bm) \<Rightarrow>
           a = (map_of kvs RENDER_ADMISSION_GOSSIP_KEY = Some ''true'')
           \<and> sorted_wrt (<) (map fst bm)
           \<and> map_of bm = (\<lambda>w. if wkeys kvs w then Some (builder_of (map_of kvs) w) else None)"
  using assms
proof (induction kvs rule: rev_induct)
  case Nil
  show ?case by (simp add: wkeys_def fun_eq_iff)
next
  case (snoc kv kvs)
  obtain k v where kv: "kv = (k, v)" by (cases kv)
  obtain a bm where st: "foldl from_kvs_step (False, []) kvs = (a, bm)"
    by (cases "foldl from_kvs_step (False, []) kvs")
  have IH: "a = (map_of kvs RENDER_ADMISSION_GOSSIP_KEY = Some ''true'')"
    "sorted_wrt (<) (map fst bm)"
    "map_of bm = (\<lambda>w. if wkeys kvs w then Some (builder_of (map_of kvs) w) else None)"
    using snoc st by auto
  have fresh: "k \<notin> fst ` set kvs" using snoc.prems(1) kv by simp
  then have freshm: "map_of kvs k = None" by (simp add: map_of_eq_None_iff)
  have map: "map_of (kvs @ [kv]) = (map_of kvs)(k \<mapsto> v)"
    using freshm by (auto simp: kv fun_eq_iff map_add_def split: option.splits)
  have "gossip_key W k" using snoc.prems(2) kv by simp
  then consider (adm) "k = RENDER_ADMISSION_GOSSIP_KEY"
    | (skip) "strip_prefix ''worker.'' k = None" "k \<noteq> RENDER_ADMISSION_GOSSIP_KEY"
    | (wk) w f where "f \<in> set worker_fields" "k = worker_key w f"
    unfolding gossip_key_def by metis
  then show ?case
  proof cases
    case adm
    have "builder_of (map_of (kvs @ [kv])) w = builder_of (map_of kvs) w" for w
      unfolding map by (rule builder_of_upd_skip) (metis adm worker_key_neq_admission)
    moreover have "wkeys (kvs @ [kv]) = wkeys kvs"
      by (auto simp: wkeys_def kv adm fun_eq_iff)
    moreover have "map_of (kvs @ [kv]) RENDER_ADMISSION_GOSSIP_KEY = Some v"
      unfolding map adm by simp
    moreover have "foldl from_kvs_step (False, []) (kvs @ [kv]) = (v = ''true'', bm)"
      by (simp add: st kv adm from_kvs_step_admission)
    ultimately show ?thesis using IH by (simp only: prod.case) simp
  next
    case skip
    then have neq: "k \<noteq> worker_key w f" for w f using worker_key_strip by metis
    have "builder_of (map_of (kvs @ [kv])) w = builder_of (map_of kvs) w" for w
      unfolding map using neq by (rule builder_of_upd_skip)
    moreover have "wkeys (kvs @ [kv]) = wkeys kvs"
      using neq by (auto simp: wkeys_def kv fun_eq_iff)
    moreover have "map_of (kvs @ [kv]) RENDER_ADMISSION_GOSSIP_KEY
        = map_of kvs RENDER_ADMISSION_GOSSIP_KEY"
      unfolding map using skip(2) by simp
    moreover have "foldl from_kvs_step (False, []) (kvs @ [kv]) = (a, bm)"
      by (simp add: st kv from_kvs_step_skip [OF skip])
    ultimately show ?thesis using IH by (simp only: prod.case)
  next
    case wk
    let ?upd = "\<lambda>b. builder_apply f v (case b of None \<Rightarrow> builder_default | Some b \<Rightarrow> b)"
    have step: "foldl from_kvs_step (False, []) (kvs @ [kv]) = (a, btree_update w ?upd bm)"
      by (simp add: st kv wk(2) from_kvs_step_worker)
    have new: "builder_of (map_of (kvs @ [kv])) w = builder_apply f v (builder_of (map_of kvs) w)"
      unfolding map wk(2) using wk freshm by (intro builder_of_upd) auto
    have old: "builder_of (map_of (kvs @ [kv])) w' = builder_of (map_of kvs) w'" if "w' \<noteq> w" for w'
      unfolding map wk(2) using that by (rule builder_of_upd_other)
    have keys: "wkeys (kvs @ [kv]) w' \<longleftrightarrow> w' = w \<or> wkeys kvs w'" for w'
      using worker_key_inj [of w'] by (auto simp: wkeys_def kv wk(2))
    have none: "builder_of (map_of kvs) w = builder_default" if "\<not> wkeys kvs w"
      using that by (simp add: wkeys_def builder_of_def apply_field_None map_of_eq_None_iff)
    have "map_of (btree_update w ?upd bm)
        = (\<lambda>w. if wkeys (kvs @ [kv]) w then Some (builder_of (map_of (kvs @ [kv])) w) else None)"
      using IH(3) new old keys none
      by (auto simp: map_of_btree_update [OF IH(2)] fun_eq_iff simp del: map_of_append)
    moreover have "map_of (kvs @ [kv]) RENDER_ADMISSION_GOSSIP_KEY
        = map_of kvs RENDER_ADMISSION_GOSSIP_KEY"
      unfolding map wk(2) using worker_key_neq_admission [of w f] by (simp add: eq_commute)
    ultimately show ?thesis
      using IH(1) btree_update_sorted [OF IH(2)] by (simp only: step prod.case)
  qed
qed

text \<open>The values that \<open>encode_worker_kvs\<close> stores for one worker.\<close>

definition encodes_worker :: "(string \<rightharpoonup> string) \<Rightarrow> WorkerId \<Rightarrow> WorkerProfile option \<Rightarrow> nat \<Rightarrow> bool" where
  "encodes_worker m w p q \<longleftrightarrow>
     m (worker_key w ''style'') =
       Some (case p of None \<Rightarrow> [] | Some p \<Rightarrow> revision_to_gossip_value (wp_style p)) \<and>
     m (worker_key w ''mode'') =
       Some (case p of None \<Rightarrow> [] | Some p \<Rightarrow> render_mode_as_gossip_value (wp_render_mode p)) \<and>
     m (worker_key w ''scale'') =
       Some (case p of None \<Rightarrow> [] | Some p \<Rightarrow> scale_as_gossip_value (wp_scale p)) \<and>
     m (worker_key w ''queue'') = Some (show_nat q)"

lemma builder_view_encoded:
  assumes enc: "encodes_worker m w p q"
    and valid: "\<And>pr. p = Some pr \<Longrightarrow> valid_revision (wp_style pr)" and q: "q < 2 ^ 64"
  shows "builder_view (w, builder_of m w) =
           Some \<lparr>wv_id = w, wv_loaded_profile = p, wv_queue_depth = q\<rparr>"
proof -
  have parse: "parse_unsigned (2 ^ 64) (show_nat q) = Some q" using q by (rule parse_show_nat)
  have b: "builder_of m w =
    builder_apply ''queue'' (show_nat q)
      (builder_apply ''scale'' (case p of None \<Rightarrow> [] | Some p \<Rightarrow> scale_as_gossip_value (wp_scale p))
        (builder_apply ''mode'' (case p of None \<Rightarrow> [] | Some p \<Rightarrow> render_mode_as_gossip_value (wp_render_mode p))
          (builder_apply ''style'' (case p of None \<Rightarrow> [] | Some p \<Rightarrow> revision_to_gossip_value (wp_style p))
            builder_default)))"
    using enc unfolding encodes_worker_def builder_of_def by (simp add: apply_field_def)
  show ?thesis
  proof (cases p)
    case None
    then show ?thesis unfolding b builder_apply_fields parse
      by (simp add: builder_view_def builder_default_def)
  next
    case (Some pr)
    have "valid_revision (wp_style pr)" using valid Some by blast
    then show ?thesis using Some unfolding b builder_apply_fields parse
      by (simp add: builder_view_def builder_default_def gossip_codecs)
  qed
qed

text \<open>
  The whole decoder on a node's published pairs: the admission flag, and one worker view for
  each encoded worker, in ascending order of worker id.
\<close>

lemma from_kvs_encoded:
  fixes ws :: "WorkerId list"
  assumes dist: "distinct (map fst kvs)" and keys: "\<forall>k\<in>fst ` set kvs. gossip_key (set ws) k"
    and sorted: "sorted_wrt (<) ws"
    and enc: "\<And>w. w \<in> set ws \<Longrightarrow> encodes_worker (map_of kvs) w (p w) (q w)"
    and valid: "\<And>w pr. w \<in> set ws \<Longrightarrow> p w = Some pr \<Longrightarrow> valid_revision (wp_style pr)"
    and q: "\<And>w. w \<in> set ws \<Longrightarrow> q w < 2 ^ 64"
  shows "from_kvs i kvs =
    \<lparr>nsv_id = i,
     nsv_accepts_new_renders = (map_of kvs RENDER_ADMISSION_GOSSIP_KEY = Some ''true''),
     nsv_workers = map (\<lambda>w. \<lparr>wv_id = w, wv_loaded_profile = p w, wv_queue_depth = q w\<rparr>) ws\<rparr>"
proof -
  obtain a bm where st: "foldl from_kvs_step (False, []) kvs = (a, bm)"
    by (cases "foldl from_kvs_step (False, []) kvs")
  have a: "a = (map_of kvs RENDER_ADMISSION_GOSSIP_KEY = Some ''true'')"
    and srt: "sorted_wrt (<) (map fst bm)"
    and bm: "map_of bm = (\<lambda>w. if wkeys kvs w then Some (builder_of (map_of kvs) w) else None)"
    using from_kvs_fold [OF dist keys] st by auto
  have wk: "wkeys kvs w \<longleftrightarrow> w \<in> set ws" for w
  proof
    assume "wkeys kvs w"
    then obtain f where "gossip_key (set ws) (worker_key w f)"
      using keys unfolding wkeys_def by blast
    then obtain w' f' where "w' \<in> set ws" "worker_key w f = worker_key w' f'"
      using worker_key_strip [of w f] unfolding gossip_key_def
      by (metis worker_key_neq_admission)
    then show "w \<in> set ws" using worker_key_inj by metis
  next
    assume "w \<in> set ws"
    then have "map_of kvs (worker_key w ''queue'') \<noteq> None"
      using enc by (simp add: encodes_worker_def)
    then show "wkeys kvs w" unfolding wkeys_def by (metis map_of_eq_None_iff)
  qed
  have "bm = map (\<lambda>w. (w, builder_of (map_of kvs) w)) ws"
  proof (rule map_of_sorted_unique [OF srt])
    show "sorted_wrt (<) (map fst (map (\<lambda>w. (w, builder_of (map_of kvs) w)) ws))"
      using sorted by (simp add: comp_def)
    show "map_of bm = map_of (map (\<lambda>w. (w, builder_of (map_of kvs) w)) ws)"
      by (simp add: bm wk map_of_map_restrict restrict_map_def fun_eq_iff)
  qed
  moreover have "List.map_filter builder_view (map (\<lambda>w. (w, builder_of (map_of kvs) w)) ws)
    = map (\<lambda>w. \<lparr>wv_id = w, wv_loaded_profile = p w, wv_queue_depth = q w\<rparr>) ws"
    using builder_view_encoded [OF enc valid q]
    by (simp add: List.map_filter_def comp_def cong: map_cong)
  ultimately show ?thesis by (simp add: from_kvs_def st a)
qed

section \<open>Namespace sets\<close>

text \<open>
  A normalised set is strictly ascending, bounded, and holds the wildcard only alone; it denotes
  the set of namespaces it grants.
\<close>

definition wf_namespace_set :: "NamespaceSet \<Rightarrow> bool" where
  "wf_namespace_set s \<longleftrightarrow>
     as_slice s \<noteq> [] \<and> length (as_slice s) \<le> MAX_AUTHORIZATION_NAMESPACES \<and>
     list_all (\<lambda>ns. \<not> bad_namespace ns) (as_slice s) \<and> sorted_wrt (<) (as_slice s) \<and>
     (wildcard \<in> set (as_slice s) \<longrightarrow> as_slice s = [wildcard])"

definition granted :: "string list \<Rightarrow> string set" where
  "granted nss = (if wildcard \<in> set nss then UNIV else set nss)"

lemma is_ok_binary_search: "sorted xs \<Longrightarrow> is_ok (binary_search xs x) \<longleftrightarrow> x \<in> set xs"
  using binary_search_is_ok [of xs x] by (auto simp: is_ok_def split: sum.splits)

lemma sorted_remdups_adj_strict:
  "sorted xs \<Longrightarrow> sorted_wrt (<) (remdups_adj (xs :: 'a::linorder list))"
proof (induction xs rule: remdups_adj.induct)
  case (3 x y xs)
  then show ?case by (cases "x = y") (auto simp: order.strict_iff_order intro: order_trans)
qed auto

lemma namespace_set_try_new_cases:
  assumes "namespace_set_try_new nss = Inr s"
  shows "nss \<noteq> []" "length nss \<le> MAX_AUTHORIZATION_NAMESPACES" "\<not> list_ex bad_namespace nss"
    "as_slice s = (if wildcard \<in> set nss then [wildcard] else remdups_adj (sort nss))"
  using assms is_ok_binary_search [of "remdups_adj (sort nss)" wildcard]
  by (auto simp: namespace_set_try_new_def Let_def sorted_remdups_adj split: if_splits)

lemma namespace_set_try_new_wf:
  assumes "namespace_set_try_new nss = Inr s"
  shows "wf_namespace_set s" "granted (as_slice s) = granted nss"
proof -
  note c = namespace_set_try_new_cases [OF assms]
  have ok: "list_all (\<lambda>ns. \<not> bad_namespace ns) nss"
    using c(3) by (auto simp: list_all_iff list_ex_iff)
  show "granted (as_slice s) = granted nss" by (simp add: c(4) granted_def)
  have "length (remdups_adj (sort nss)) \<le> MAX_AUTHORIZATION_NAMESPACES"
    using c(2) remdups_adj_length [of "sort nss"] by simp
  moreover have "sort nss \<noteq> []" using c(1) by (metis length_0_conv length_sort)
  ultimately show "wf_namespace_set s"
    using c(1,2) ok
    by (auto simp: wf_namespace_set_def c(4) sorted_remdups_adj_strict list_all_iff
        MAX_AUTHORIZATION_NAMESPACES_def)
qed

lemma some_pair_not_ascending_iff: "\<not> some_pair_not_ascending xs \<longleftrightarrow> sorted_wrt (<) xs"
proof (induction xs rule: some_pair_not_ascending.induct)
  case (1 a b xs)
  then show ?case by (auto simp: not_le intro: less_trans)
qed auto

lemma namespace_set_try_from_shared_wf:
  assumes "namespace_set_try_from_shared nss = Inr s"
  shows "as_slice s = nss" "wf_namespace_set s"
proof -
  from assms show eq: "as_slice s = nss"
    by (auto simp: namespace_set_try_from_shared_def split: if_splits)
  from assms show "wf_namespace_set s"
    unfolding wf_namespace_set_def eq
    by (auto simp: namespace_set_try_from_shared_def list_ex_iff list_all_iff
        some_pair_not_ascending_iff length_Suc_conv split: if_splits)
qed

text \<open>The grant test is inclusion of the denoted sets.\<close>

lemma namespace_set_allows_iff:
  assumes "wf_namespace_set a" and "wf_namespace_set b"
  shows "namespace_set_allows a b \<longleftrightarrow> granted (as_slice b) \<subseteq> granted (as_slice a)"
proof (cases "wildcard \<in> set (as_slice a)")
  case True
  then have "as_slice a = [wildcard]" using assms(1) by (simp add: wf_namespace_set_def)
  then show ?thesis by (simp add: namespace_set_allows_def granted_def)
next
  case False
  have sorted: "sorted (as_slice a)"
    using assms(1) by (simp add: wf_namespace_set_def strict_sorted_iff)
  have "\<exists>x. x \<notin> set (as_slice a)" by (rule ex_new_if_finite) (simp_all add: infinite_UNIV_listI)
  then show ?thesis using False
    by (auto simp: namespace_set_allows_def granted_def is_ok_binary_search [OF sorted]
        list_all_iff split: list.splits)
qed

end
