(* ===== verification/Hashing.thy ===== *)
theory Hashing
  imports Prelude
begin

text \<open>
  The pure hash functions that place work in the cluster: the SplitMix64 mixers of
  \<open>crates/mmpf-common/src/rng.rs\<close> and the FNV-1a byte hash of
  \<open>crates/biei-core/src/hrw.rs\<close>. The lemmas show that the finalizer is a permutation of the
  64-bit words, which is what makes a rendezvous tie between two nodes an FNV collision and
  nothing else.
\<close>

section \<open>Definitions\<close>

definition splitmix64_finalize :: "u64 \<Rightarrow> u64" where
  "splitmix64_finalize value0 =
     (let value1 = (value0 XOR drop_bit 30 value0) * 0xbf58476d1ce4e5b9;
          value2 = (value1 XOR drop_bit 27 value1) * 0x94d049bb133111eb
      in value2 XOR drop_bit 31 value2)"

definition splitmix64 :: "u64 \<Rightarrow> u64" where
  "splitmix64 v = splitmix64_finalize (v + 0x9e3779b97f4a7c15)"

fun fnv1a_continue :: "u64 \<Rightarrow> bytes \<Rightarrow> u64" where
  "fnv1a_continue h [] = h"
| "fnv1a_continue h (b # bs) = fnv1a_continue ((h XOR ucast b) * 0x100000001b3) bs"

definition fnv1a :: "bytes \<Rightarrow> u64" where
  "fnv1a bs = fnv1a_continue 0xcbf29ce484222325 bs"

section \<open>The finalizer is a permutation\<close>

lemma xorshift_fixpoint:
  fixes d :: u64
  assumes "drop_bit k d = d" and "0 < k"
  shows "d = 0"
proof (rule ccontr)
  assume "d \<noteq> 0"
  then have pos: "0 < unat d" by (simp add: unat_gt_0)
  have "unat (drop_bit k d) = drop_bit k (unat d)" by (rule unat_drop_bit_eq)
  also have "\<dots> = unat d div 2 ^ k" by (rule drop_bit_eq_div)
  also have "\<dots> < unat d"
    using pos \<open>0 < k\<close> less_exp [of k] by (intro div_less_dividend) linarith+
  finally show False using assms(1) by simp
qed

lemma xor_swap_sides:
  fixes a b c d :: u64
  assumes "a XOR b = c XOR d"
  shows "b XOR d = a XOR c"
proof (rule bit_eqI)
  fix n
  from assms have "bit (a XOR b) n = bit (c XOR d) n" by simp
  then show "bit (b XOR d) n = bit (a XOR c) n" by (auto simp: bit_xor_iff)
qed

lemma xor_right_cancel:
  fixes a b c :: u64
  assumes "a XOR c = b XOR c"
  shows "a = b"
proof (rule bit_eqI)
  fix n
  from assms have "bit (a XOR c) n = bit (b XOR c) n" by simp
  then show "bit a n = bit b n" by (auto simp: bit_xor_iff)
qed

lemma xor_left_cancel:
  fixes a b c :: u64
  assumes "c XOR a = c XOR b"
  shows "a = b"
proof (rule bit_eqI)
  fix n
  from assms have "bit (c XOR a) n = bit (c XOR b) n" by simp
  then show "bit a n = bit b n" by (auto simp: bit_xor_iff)
qed

lemma xorshift_inj:
  fixes x y :: u64
  assumes "x XOR drop_bit k x = y XOR drop_bit k y" and "0 < k"
  shows "x = y"
proof -
  have "drop_bit k (x XOR y) = drop_bit k x XOR drop_bit k y" by simp
  also have "\<dots> = x XOR y" using assms(1) by (rule xor_swap_sides)
  finally have "x XOR y = 0" by (rule xorshift_fixpoint [OF _ \<open>0 < k\<close>])
  then show ?thesis by (intro xor_right_cancel [of x y y]) simp
qed

lemma mult_unit_inj:
  fixes a b c c' :: u64
  assumes "a * c = b * c" and "c * c' = 1"
  shows "a = b"
proof -
  have "a = a * (c * c')" using assms(2) by simp
  also have "\<dots> = b * (c * c')" using assms(1) by (simp only: mult.assoc [symmetric])
  finally show ?thesis using assms(2) by simp
qed

lemma splitmix64_finalize_inj:
  assumes "splitmix64_finalize a = splitmix64_finalize b"
  shows "a = b"
proof -
  define m where "m = (\<lambda>x :: u64. (x XOR drop_bit 30 x) * 0xbf58476d1ce4e5b9)"
  define n where "n = (\<lambda>x :: u64. (x XOR drop_bit 27 x) * 0x94d049bb133111eb)"
  have fin: "splitmix64_finalize x = n (m x) XOR drop_bit 31 (n (m x))" for x
    by (simp add: splitmix64_finalize_def m_def n_def Let_def)
  have "n (m a) = n (m b)"
    using assms unfolding fin by (rule xorshift_inj) simp
  then have "m a XOR drop_bit 27 (m a) = m b XOR drop_bit 27 (m b)"
    unfolding n_def by (rule mult_unit_inj [where c' = "0x319642b2d24d8ec3"]) simp
  then have "m a = m b" by (rule xorshift_inj) simp
  then have "a XOR drop_bit 30 a = b XOR drop_bit 30 b"
    unfolding m_def by (rule mult_unit_inj [where c' = "0x96de1b173f119089"]) simp
  then show "a = b" by (rule xorshift_inj) simp
qed

lemma fnv1a_continue_append:
  "fnv1a_continue h (xs @ ys) = fnv1a_continue (fnv1a_continue h xs) ys"
  by (induction xs arbitrary: h) auto

lemma fnv1a_continue_inj:
  "fnv1a_continue h bs = fnv1a_continue h' bs \<Longrightarrow> h = h'"
proof (induction bs arbitrary: h h')
  case (Cons b bs)
  have "(h XOR ucast b) * 0x100000001b3 = (h' XOR ucast b) * 0x100000001b3"
    by (rule Cons.IH) (use Cons.prems in simp)
  then have "h XOR ucast b = h' XOR ucast b"
    by (rule mult_unit_inj [where c' = "0xce965057aff6957b"]) simp
  then show ?case by (rule xor_right_cancel)
qed simp

text \<open>The golden vectors of the source's unit tests.\<close>

lemma splitmix64_finalize_vectors:
  "splitmix64_finalize 0 = 0"
  "splitmix64_finalize 1 = 0x5692161d100b05e5"
  "splitmix64_finalize 0xdeadbeef = 0x4e062702ec929eea"
  "splitmix64 0 = 0xe220a8397b1dcdaf"
  by (simp_all add: splitmix64_def splitmix64_finalize_def Let_def)

end
