(* ===== verification/Rendezvous.thy ===== *)
theory Rendezvous
  imports Hashing Domain_Types
begin

text \<open>
  Rendezvous hashing, the model of \<^verbatim>\<open>crates/biei-core/src/hrw.rs\<close>: the weight of a
  worker profile on a node.  A weight is a pure function of the style id, the render mode, the
  scale and the node id; the style version takes no part in it.
\<close>

fun render_mode_tag :: "RenderMode \<Rightarrow> u8" where
  "render_mode_tag Static = 0x73"
| "render_mode_tag Tile = 0x74"

fun scale_tag :: "Scale \<Rightarrow> u8" where
  "scale_tag X1 = 0x31"
| "scale_tag X2 = 0x32"

definition fnv1a_profile :: "WorkerProfile \<Rightarrow> u64" where
  "fnv1a_profile profile =
    (let h = fnv1a (as_bytes (rev_id (wp_style profile)));
         h = fnv1a_continue h [0];
         h = fnv1a_continue h [render_mode_tag (wp_render_mode profile)];
         h = fnv1a_continue h [0]
     in fnv1a_continue h [scale_tag (wp_scale profile)])"

definition hrw_weight :: "WorkerProfile \<Rightarrow> NodeId \<Rightarrow> u64" where
  "hrw_weight profile node =
    (let profile_hash = fnv1a_profile profile;
         node_hash = fnv1a (as_bytes node);
         h = profile_hash * 0x9E3779B97F4A7C15;
         h = h XOR node_hash * 0xBF58476D1CE4E5B9
     in splitmix64_finalize h)"

section \<open>Ties\<close>

text \<open>
  Two nodes tie on a profile only when the FNV hashes of their ids collide, and two profiles tie
  on a node only when their FNV hashes collide: the mixing steps lose nothing.
\<close>

lemma hrw_weight_tie_nodes:
  assumes "hrw_weight p a = hrw_weight p b"
  shows "fnv1a (as_bytes a) = fnv1a (as_bytes b)"
proof -
  define h where "h = fnv1a_profile p * 0x9E3779B97F4A7C15"
  have "h XOR fnv1a (as_bytes a) * 0xBF58476D1CE4E5B9 = h XOR fnv1a (as_bytes b) * 0xBF58476D1CE4E5B9"
    using assms unfolding hrw_weight_def Let_def h_def by (rule splitmix64_finalize_inj)
  then have "fnv1a (as_bytes a) * 0xBF58476D1CE4E5B9 = fnv1a (as_bytes b) * 0xBF58476D1CE4E5B9"
    by (rule xor_left_cancel)
  then show ?thesis by (rule mult_unit_inj [where c' = "0x96de1b173f119089"]) simp
qed

lemma hrw_weight_tie_profiles:
  assumes "hrw_weight p n = hrw_weight q n"
  shows "fnv1a_profile p = fnv1a_profile q"
proof -
  have "fnv1a_profile p * 0x9E3779B97F4A7C15 XOR fnv1a (as_bytes n) * 0xBF58476D1CE4E5B9
      = fnv1a_profile q * 0x9E3779B97F4A7C15 XOR fnv1a (as_bytes n) * 0xBF58476D1CE4E5B9"
    using assms unfolding hrw_weight_def Let_def by (rule splitmix64_finalize_inj)
  then have "fnv1a_profile p * 0x9E3779B97F4A7C15 = fnv1a_profile q * 0x9E3779B97F4A7C15"
    by (rule xor_right_cancel)
  then show ?thesis by (rule mult_unit_inj [where c' = "0xf1de83e19937733d"]) simp
qed

text \<open>
  The FNV prime is 3 modulo 8, so two rounds leave the low three bits of the hash unchanged; the
  mode and scale tags differ in those bits.
\<close>

lemma fnv_prime_square_low_bits:
  "take_bit 3 (x * 0x100000001b3 * 0x100000001b3 :: u64) = take_bit 3 x"
proof -
  have "unat (x * (0x100000001b3 * 0x100000001b3)) mod 8
      = unat x * unat (0x100000001b3 * 0x100000001b3 :: u64) mod 2 ^ 64 mod 8"
    by (simp add: unat_word_ariths)
  also have "\<dots> = unat x * unat (0x100000001b3 * 0x100000001b3 :: u64) mod 8"
    by (rule mod_mod_cancel) simp
  also have "\<dots> = (unat x mod 8) * (unat (0x100000001b3 * 0x100000001b3 :: u64) mod 8) mod 8"
    by (rule mod_mult_eq [symmetric])
  also have "unat (0x100000001b3 * 0x100000001b3 :: u64) mod 8 = 1" by simp
  finally have "unat (take_bit 3 (x * (0x100000001b3 * 0x100000001b3))) = unat (take_bit 3 x)"
    by (simp only: unsigned_take_bit_eq) (simp add: take_bit_eq_mod)
  then show ?thesis by (simp only: word_unat_eq_iff mult.assoc)
qed

lemma fnv_tags_distinct:
  fixes h :: u64
  assumes "((h XOR m) * 0x100000001b3 * 0x100000001b3) XOR s
         = ((h XOR m') * 0x100000001b3 * 0x100000001b3) XOR s'"
  shows "take_bit 3 (m XOR s) = take_bit 3 (m' XOR s')"
proof -
  have low: "take_bit 3 (((h XOR a) * 0x100000001b3 * 0x100000001b3) XOR b)
      = take_bit 3 h XOR take_bit 3 (a XOR b)" for a b
    by (simp only: take_bit_xor fnv_prime_square_low_bits xor.assoc)
  have "take_bit 3 h XOR take_bit 3 (m XOR s) = take_bit 3 h XOR take_bit 3 (m' XOR s')"
    using assms low [of m s] low [of m' s'] by metis
  then show ?thesis by (rule xor_left_cancel)
qed

lemma fnv1a_profile_shape:
  assumes "fnv1a_profile p = fnv1a_profile q" and "rev_id (wp_style p) = rev_id (wp_style q)"
  shows "wp_render_mode p = wp_render_mode q" "wp_scale p = wp_scale q"
proof -
  define h where "h = fnv1a (as_bytes (rev_id (wp_style p))) * 0x100000001b3"
  define tags where "tags r = (ucast (render_mode_tag (wp_render_mode r)) :: u64,
    ucast (scale_tag (wp_scale r)) :: u64)" for r :: WorkerProfile
  have eq: "fnv1a_profile r =
      (((h XOR fst (tags r)) * 0x100000001b3 * 0x100000001b3) XOR snd (tags r)) * 0x100000001b3"
    if "rev_id (wp_style r) = rev_id (wp_style p)" for r
    using that by (simp add: fnv1a_profile_def Let_def h_def tags_def)
  have "((h XOR fst (tags p)) * 0x100000001b3 * 0x100000001b3) XOR snd (tags p)
      = ((h XOR fst (tags q)) * 0x100000001b3 * 0x100000001b3) XOR snd (tags q)"
    using assms(1) unfolding eq [OF refl] eq [OF assms(2) [symmetric]]
    by (rule mult_unit_inj [where c' = "0xce965057aff6957b"]) simp
  then have low: "take_bit 3 (fst (tags p) XOR snd (tags p)) = take_bit 3 (fst (tags q) XOR snd (tags q))"
    by (rule fnv_tags_distinct)
  show "wp_render_mode p = wp_render_mode q" "wp_scale p = wp_scale q"
    using low by (cases "wp_render_mode p"; cases "wp_render_mode q";
      cases "wp_scale p"; cases "wp_scale q"; simp add: tags_def)+
qed

lemma hrw_weight_cong:
  assumes "rev_id (wp_style p) = rev_id (wp_style q)"
    and "wp_render_mode p = wp_render_mode q" and "wp_scale p = wp_scale q"
  shows "hrw_weight p n = hrw_weight q n"
  using assms by (simp add: hrw_weight_def fnv1a_profile_def)

section \<open>Properties\<close>

text \<open>Placement of a style does not move when its version changes, and the four render shapes
  of one style (static or tile, one or two pixels per point) never share a weight on a node: for two
  profiles of the same style id the weights on any node agree exactly when render mode and scale
  agree.\<close>

theorem hrw_weight_shape:
  assumes "rev_id (wp_style p) = rev_id (wp_style q)"
  shows "hrw_weight p n = hrw_weight q n \<longleftrightarrow>
    wp_render_mode p = wp_render_mode q \<and> wp_scale p = wp_scale q"
  using assms hrw_weight_cong [OF assms] fnv1a_profile_shape [OF hrw_weight_tie_profiles assms]
  by blast

theorem hrw_weight_shape_witness:
  "hrw_weight \<lparr>wp_style = \<lparr>rev_id = ''acme/streets'', rev_version = 1\<rparr>, wp_render_mode = Tile, wp_scale = X1\<rparr> ''node-1''
   = hrw_weight \<lparr>wp_style = \<lparr>rev_id = ''acme/streets'', rev_version = 9\<rparr>, wp_render_mode = Tile, wp_scale = X1\<rparr> ''node-1''
   \<and> hrw_weight \<lparr>wp_style = \<lparr>rev_id = ''acme/streets'', rev_version = 1\<rparr>, wp_render_mode = Tile, wp_scale = X1\<rparr> ''node-1''
   \<noteq> hrw_weight \<lparr>wp_style = \<lparr>rev_id = ''acme/streets'', rev_version = 1\<rparr>, wp_render_mode = Static, wp_scale = X2\<rparr> ''node-1''"
  using hrw_weight_shape [of
      "\<lparr>wp_style = \<lparr>rev_id = ''acme/streets'', rev_version = 1\<rparr>, wp_render_mode = Tile, wp_scale = X1\<rparr>"
      "\<lparr>wp_style = \<lparr>rev_id = ''acme/streets'', rev_version = 9\<rparr>, wp_render_mode = Tile, wp_scale = X1\<rparr>" "''node-1''"]
    hrw_weight_shape [of
      "\<lparr>wp_style = \<lparr>rev_id = ''acme/streets'', rev_version = 1\<rparr>, wp_render_mode = Tile, wp_scale = X1\<rparr>"
      "\<lparr>wp_style = \<lparr>rev_id = ''acme/streets'', rev_version = 1\<rparr>, wp_render_mode = Static, wp_scale = X2\<rparr>" "''node-1''"]
  by simp

end
