(* ===== verification/Node_Config.thy ===== *)
theory Node_Config
  imports Domain_Types
begin

text \<open>
  Configuration of a node, the model of \<^verbatim>\<open>crates/biei-core/src/config.rs\<close>: cost ranges, the
  soft and hard queue limits, the permit counts and the standby guardrail.  An addition of
  durations that panics in the source is \<open>None\<close>, as is the division by a zero number of
  microseconds that \<open>compute_bl_capacity\<close> performs when the truncated cost is zero.
\<close>

section \<open>Cost ranges\<close>

record CostRange =
  cr_min :: duration
  cr_max :: duration

definition cost_fixed :: "duration \<Rightarrow> CostRange" where
  "cost_fixed d = \<lparr>cr_min = d, cr_max = d\<rparr>"

definition cost_new :: "duration \<Rightarrow> duration \<Rightarrow> CostRange" where
  "cost_new mn mx = \<lparr>cr_min = mn, cr_max = mx\<rparr>"

text \<open>
  \<open>sample\<close>: the generator is the argument \<open>random_range_incl\<close>, whose call panics on an
  empty range.  The microsecond counts are truncated to 64 bits.
\<close>

definition cost_sample :: "('r \<Rightarrow> nat \<Rightarrow> nat \<Rightarrow> nat \<times> 'r) \<Rightarrow> CostRange \<Rightarrow> 'r \<Rightarrow> (duration \<times> 'r) option" where
  "cost_sample random_range_incl c rng =
     (if cr_min c \<ge> cr_max c then Some (cr_min c, rng)
      else let min_us = as_micros (cr_min c) mod 2 ^ 64;
               max_us = as_micros (cr_max c) mod 2 ^ 64
           in if min_us > max_us then None
              else let (us, rng') = random_range_incl rng min_us max_us
                   in Some (us * 1000, rng'))"

definition cost_mid :: "CostRange \<Rightarrow> duration option" where
  "cost_mid c = map_option (\<lambda>d. d div 2) (dur_add (cr_min c) (cr_max c))"

definition cost_saturating_add :: "CostRange \<Rightarrow> CostRange \<Rightarrow> CostRange" where
  "cost_saturating_add c d =
     \<lparr>cr_min = dur_saturating_add (cr_min c) (cr_min d),
      cr_max = dur_saturating_add (cr_max c) (cr_max d)\<rparr>"

section \<open>Configuration records\<close>

datatype BlCapacityPolicy = FixedCapacity nat | AutoCapacity

datatype Tier1Strategy = WeightedRandom | PowerOfTwo

record ClusterConfig =
  cc_renderer_slots_per_node :: nat
  cc_render_permits_per_node :: "nat option"
  cc_native_render_permits_per_node :: "nat option"
  cc_bl_capacity :: BlCapacityPolicy
  cc_queue_capacity_multiplier :: nat
  cc_source_cache_capacity :: nat
  cc_render_output_cache_capacity_bytes :: u64

record QueueLimits =
  ql_soft :: nat
  ql_hard :: nat

record CostConfig =
  style_setup_cost :: CostRange
  source_load_cost :: CostRange
  render_cpu_cost :: CostRange
  render_resource_cost :: CostRange
  first_render_resource_cost :: CostRange
  hop_latency :: duration
  sla :: duration

definition warm_render_cost :: "CostConfig \<Rightarrow> CostRange" where
  "warm_render_cost c = cost_saturating_add (render_cpu_cost c) (render_resource_cost c)"

definition first_render_cost :: "CostConfig \<Rightarrow> CostRange" where
  "first_render_cost c = cost_saturating_add (render_cpu_cost c) (first_render_resource_cost c)"

record GossipConfig =
  gc_publish_interval :: duration

record RoutingConfig =
  tier1_strategy :: Tier1Strategy
  tier3_enabled :: bool
  drain_max_queue :: nat

record ResolvedNodeConfig =
  rn_routing :: RoutingConfig
  rn_costs :: CostConfig
  rn_gossip :: GossipConfig
  rn_queue_limits :: QueueLimits
  rn_render_permits :: nat
  rn_native_render_permits :: nat
  rn_source_cache_capacity :: nat
  rn_render_output_cache_capacity_bytes :: u64

section \<open>Resolution\<close>

definition compute_bl_capacity :: "duration \<Rightarrow> duration \<Rightarrow> duration \<Rightarrow> nat option" where
  "compute_bl_capacity s p l =
     (let p_us = max (as_micros p) 1 mod 2 ^ 64
      in if p_us = 0 then None
         else let by_latency = as_micros s mod 2 ^ 64 div p_us;
                  by_sla = as_micros l mod 2 ^ 64 div p_us - 1
              in Some (max (min by_latency by_sla) 1))"

definition resolved_render_permits_per_node :: "ClusterConfig \<Rightarrow> nat" where
  "resolved_render_permits_per_node c =
     min (max (case cc_render_permits_per_node c of
                 Some n \<Rightarrow> n | None \<Rightarrow> cc_renderer_slots_per_node c) 1)
         (max (cc_renderer_slots_per_node c) 1)"

definition resolved_native_render_permits_per_node :: "ClusterConfig \<Rightarrow> nat" where
  "resolved_native_render_permits_per_node c =
     min (max (case cc_native_render_permits_per_node c of
                 Some n \<Rightarrow> n | None \<Rightarrow> resolved_render_permits_per_node c) 1)
         (resolved_render_permits_per_node c)"

text \<open>
  The ratio is a rational here and an \<open>f64\<close> in the source.  Below \<open>2 ^ 52\<close> slots both
  operands are exact, and the rounded quotient is above 1.5 exactly when the rational one is,
  since two quotients that differ from 1.5 differ from it by at least \<open>1 / (2 * permits)\<close>.
\<close>

definition STANDBY_RATIO_ERROR :: rat where
  "STANDBY_RATIO_ERROR = 3 / 2"

definition standby_ratio :: "ClusterConfig \<Rightarrow> rat" where
  "standby_ratio c =
     rat_of_nat (cc_renderer_slots_per_node c) / rat_of_nat (resolved_render_permits_per_node c)"

datatype ConfigError = StandbyRatioRejected rat

definition validate_standby_ratio :: "ClusterConfig \<Rightarrow> ConfigError + unit" where
  "validate_standby_ratio c =
     (let ratio = standby_ratio c
      in if ratio > STANDBY_RATIO_ERROR then Inl (StandbyRatioRejected ratio) else Inr ())"

definition resolved_bl_capacity :: "ClusterConfig \<Rightarrow> CostConfig \<Rightarrow> nat option" where
  "resolved_bl_capacity c costs =
     (case cc_bl_capacity c of
        FixedCapacity n \<Rightarrow> Some n
      | AutoCapacity \<Rightarrow>
          do { s \<leftarrow> cost_mid (style_setup_cost costs);
               p \<leftarrow> cost_mid (warm_render_cost costs);
               compute_bl_capacity s p (sla costs) })"

definition resolved_queue_limits :: "ClusterConfig \<Rightarrow> CostConfig \<Rightarrow> QueueLimits option" where
  "resolved_queue_limits c costs =
     do { soft \<leftarrow> resolved_bl_capacity c costs;
          let hard = max (usize_saturating_mul soft (max (cc_queue_capacity_multiplier c) 1)) soft;
          Some \<lparr>ql_soft = soft, ql_hard = hard\<rparr> }"

text \<open>The outer \<open>None\<close> is a panic, the inner \<open>Inl\<close> the returned error.\<close>

definition resolve_node_config ::
  "ClusterConfig \<Rightarrow> RoutingConfig \<Rightarrow> CostConfig \<Rightarrow> GossipConfig \<Rightarrow> (ConfigError + ResolvedNodeConfig) option" where
  "resolve_node_config c routing costs gossip =
     (case validate_standby_ratio c of
        Inl e \<Rightarrow> Some (Inl e)
      | Inr _ \<Rightarrow>
          do { queue_limits \<leftarrow> resolved_queue_limits c costs;
               Some (Inr \<lparr>rn_routing = routing, rn_costs = costs, rn_gossip = gossip,
                 rn_queue_limits = queue_limits,
                 rn_render_permits = resolved_render_permits_per_node c,
                 rn_native_render_permits = resolved_native_render_permits_per_node c,
                 rn_source_cache_capacity = cc_source_cache_capacity c,
                 rn_render_output_cache_capacity_bytes =
                   cc_render_output_cache_capacity_bytes c\<rparr>) })"

section \<open>Lemmas\<close>

lemma resolved_render_permits_bounds:
  "1 \<le> resolved_render_permits_per_node c"
  "resolved_render_permits_per_node c \<le> max (cc_renderer_slots_per_node c) 1"
  by (auto simp: resolved_render_permits_per_node_def)

lemma resolved_native_render_permits_bounds:
  "1 \<le> resolved_native_render_permits_per_node c"
  "resolved_native_render_permits_per_node c \<le> resolved_render_permits_per_node c"
  using resolved_render_permits_bounds(1) [of c]
  by (auto simp: resolved_native_render_permits_per_node_def)

lemma resolved_queue_limits_Some:
  assumes "resolved_queue_limits c costs = Some q"
  shows "ql_soft q \<le> ql_hard q" "resolved_bl_capacity c costs = Some (ql_soft q)"
  using assms by (auto simp: resolved_queue_limits_def Let_def bind_eq_Some_conv)

lemma compute_bl_capacity_sla:
  assumes "compute_bl_capacity s p l = Some bl" and "as_micros p < 2 ^ 64" and "as_micros l < 2 ^ 64"
    and "2 * max (as_micros p) 1 \<le> as_micros l"
  shows "(bl + 1) * max (as_micros p) 1 \<le> as_micros l"
proof -
  define p_us where "p_us = max (as_micros p) 1"
  have mod: "p_us mod 2 ^ 64 = p_us" "as_micros l mod 2 ^ 64 = as_micros l" "p_us \<noteq> 0"
    using assms(2,3) by (simp_all add: p_us_def)
  have "bl \<le> max (as_micros l div p_us - 1) 1"
    using assms(1) mod(3) unfolding compute_bl_capacity_def p_us_def [symmetric] Let_def mod(1,2)
    by auto
  moreover have "2 \<le> as_micros l div p_us"
    using assms(4) mod(3) unfolding p_us_def [symmetric]
    by (simp add: less_eq_div_iff_mult_less_eq)
  ultimately have "bl + 1 \<le> as_micros l div p_us" by simp
  then have "(bl + 1) * p_us \<le> as_micros l div p_us * p_us" by (rule mult_le_mono1)
  also have "\<dots> \<le> as_micros l" by simp
  finally show ?thesis by (simp add: p_us_def)
qed

lemma standby_ratio_le_iff:
  "standby_ratio c \<le> STANDBY_RATIO_ERROR \<longleftrightarrow>
    2 * cc_renderer_slots_per_node c \<le> 3 * resolved_render_permits_per_node c"
proof -
  let ?s = "cc_renderer_slots_per_node c" and ?p = "resolved_render_permits_per_node c"
  have "0 < rat_of_nat ?p" using resolved_render_permits_bounds(1) [of c] by simp
  then have "standby_ratio c \<le> STANDBY_RATIO_ERROR \<longleftrightarrow> rat_of_nat ?s * 2 \<le> 3 * rat_of_nat ?p"
    by (simp add: standby_ratio_def STANDBY_RATIO_ERROR_def divide_le_eq field_simps)
  also have "\<dots> \<longleftrightarrow> rat_of_nat (2 * ?s) \<le> rat_of_nat (3 * ?p)" by (simp add: mult.commute)
  also have "\<dots> \<longleftrightarrow> 2 * ?s \<le> 3 * ?p" by (simp only: of_nat_le_iff)
  finally show ?thesis .
qed

section \<open>Properties\<close>



end
