(* ===== verification/Ranking.thy ===== *)
theory Ranking
  imports Prelude "HOL-Library.Multiset"
begin

text \<open>
  Bounded rankings: a list kept in descending weight by inserting one element at a time and cutting
  the list at a limit.  The locale states the insertion step a provider implements; the result is
  that a whole pass computes the first elements of the stable descending sort.
\<close>

section \<open>Stable insertion\<close>

lemma dropWhile_sorted_greater:
  fixes f :: "'a \<Rightarrow> 'b::linorder"
  assumes "sorted (map f s)" and "y \<in> set (dropWhile (\<lambda>y. f y \<le> k) s)"
  shows "k < f y"
  using assms by (induction s) (auto split: if_splits)

lemma takeWhile_le: "y \<in> set (takeWhile (\<lambda>y. f y \<le> k) s) \<Longrightarrow> f y \<le> k"
  by (blast dest: set_takeWhileD)

lemma sort_key_snoc:
  fixes f :: "'a \<Rightarrow> 'b::linorder"
  shows "sort_key f (xs @ [x]) =
    takeWhile (\<lambda>y. f y \<le> f x) (sort_key f xs) @ x # dropWhile (\<lambda>y. f y \<le> f x) (sort_key f xs)"
proof (rule properties_for_sort_key)
  define s where "s = sort_key f xs"
  define low where "low = takeWhile (\<lambda>y. f y \<le> f x) s"
  define high where "high = dropWhile (\<lambda>y. f y \<le> f x) s"
  have s: "s = low @ high" by (simp add: low_def high_def)
  have sorted: "sorted (map f s)" by (simp add: s_def)
  have high: "f x < f y" if "y \<in> set high" for y
    using dropWhile_sorted_greater [OF sorted] that by (simp add: high_def)
  have low: "f y \<le> f x" if "y \<in> set low" for y
    using that takeWhile_le by (simp add: low_def)
  have "mset s = mset xs" by (simp add: s_def)
  then show "mset (takeWhile (\<lambda>y. f y \<le> f x) (sort_key f xs) @ x
      # dropWhile (\<lambda>y. f y \<le> f x) (sort_key f xs)) = mset (xs @ [x])"
    unfolding s_def [symmetric] low_def [symmetric] high_def [symmetric] by (simp add: s)
  show "filter (\<lambda>y. f k = f y) (takeWhile (\<lambda>y. f y \<le> f x) (sort_key f xs) @ x
      # dropWhile (\<lambda>y. f y \<le> f x) (sort_key f xs)) = filter (\<lambda>y. f k = f y) (xs @ [x])" for k
  proof -
    have "filter (\<lambda>y. f y = f k) s = filter (\<lambda>y. f y = f k) xs"
      unfolding s_def by (rule sort_key_stable)
    then have "filter (\<lambda>y. f k = f y) (low @ high) = filter (\<lambda>y. f k = f y) xs"
      by (simp add: s eq_commute [of "f k"])
    moreover have "filter (\<lambda>y. f k = f y) high = []" if "f k = f x"
      using high that by (fastforce simp: filter_empty_conv)
    ultimately show ?thesis
      unfolding s_def [symmetric] low_def [symmetric] high_def [symmetric] by auto
  qed
  have "sorted (map f (low @ high))" using sorted s by simp
  then show "sorted (map f (takeWhile (\<lambda>y. f y \<le> f x) (sort_key f xs) @ x
      # dropWhile (\<lambda>y. f y \<le> f x) (sort_key f xs)))"
    unfolding s_def [symmetric] low_def [symmetric] high_def [symmetric]
    using low high by (auto simp: sorted_append less_imp_le)
qed

lemma position_length_takeWhile:
  "(case position p xs of Some i \<Rightarrow> i | None \<Rightarrow> length xs) = length (takeWhile (\<lambda>x. \<not> p x) xs)"
  by (induction xs) (auto split: option.splits)

lemma take_insert_takeWhile:
  "(let ix = length (takeWhile P (take limit s))
    in if ix < limit then take limit (insert_at ix x (take limit s)) else take limit s)
    = take limit (takeWhile P s @ x # dropWhile P s)"
proof (cases "length (takeWhile P s) < limit")
  case True
  let ?tw = "takeWhile P s" and ?dw = "dropWhile P s"
  have split: "take limit s = ?tw @ take (limit - length ?tw) ?dw"
    using True by (metis less_imp_le takeWhile_dropWhile_id take_append take_all)
  have "takeWhile P (take n ?dw) = []" for n
  proof (cases ?dw)
    case (Cons y ys)
    then have "\<not> P y" by (simp add: dropWhile_eq_Cons_conv)
    then show ?thesis unfolding Cons by (cases n) simp_all
  next
    case Nil
    then show ?thesis by (simp only: Nil take_Nil takeWhile.simps)
  qed
  then have ix: "takeWhile P (take limit s) = ?tw" 
    unfolding split by (subst takeWhile_append2) (auto dest: set_takeWhileD)
  show ?thesis
    unfolding ix Let_def using True by (simp add: split insert_at_def take_Cons')
next
  case False
  let ?tw = "takeWhile P s" and ?dw = "dropWhile P s"
  have split: "take limit s = take limit ?tw"
    using False by (metis takeWhile_dropWhile_id take_append append_Nil2 diff_is_0_eq' not_le take_0 nat_less_le)
  have whole: "takeWhile P (take limit ?tw) = take limit ?tw"
    by (auto simp: takeWhile_eq_all_conv dest!: in_set_takeD set_takeWhileD)
  show ?thesis unfolding split whole Let_def using False by simp
qed

text \<open>
  The place of an element in a stable sort: the number of smaller elements and of equal elements
  before it.
\<close>

definition stable_rank :: "('a \<Rightarrow> 'b::linorder) \<Rightarrow> 'a list \<Rightarrow> nat \<Rightarrow> nat" where
  "stable_rank f xs p =
     length (filter (\<lambda>(i, y). f y < f (xs ! p) \<or> f y = f (xs ! p) \<and> i < p) (enumerate 0 xs))"

lemma stable_rank_snoc:
  assumes "p < length xs"
  shows "stable_rank f (xs @ [y]) p = stable_rank f xs p + (if f y < f (xs ! p) then 1 else 0)"
  using assms by (auto simp: stable_rank_def enumerate_append_eq nth_append)

lemma filter_le_sorted:
  fixes f :: "'a \<Rightarrow> 'b::linorder"
  shows "sorted (map f s) \<Longrightarrow> filter (\<lambda>y. f y \<le> k) s = takeWhile (\<lambda>y. f y \<le> k) s"
proof (induction s)
  case (Cons a s)
  show ?case
  proof (cases "f a \<le> k")
    case False
    then have "filter (\<lambda>y. f y \<le> k) s = []" using Cons.prems by (auto simp: filter_empty_conv)
    then show ?thesis using False by simp
  qed (use Cons in simp)
qed simp

lemma length_filter_enumerate:
  "length (filter (\<lambda>(i, z). P z) (enumerate n xs)) = length (filter P xs)"
  by (induction xs arbitrary: n) auto

lemma stable_rank_last:
  "stable_rank f (xs @ [y]) (length xs) = length (takeWhile (\<lambda>z. f z \<le> f y) (sort_key f xs))"
proof -
  have "filter (\<lambda>(i, z). f z < f y \<or> f z = f y \<and> i < length xs) (enumerate 0 xs)
      = filter (\<lambda>(i, z). f z \<le> f y) (enumerate 0 xs)"
    by (rule filter_cong) (auto simp: in_set_enumerate_eq)
  also have "length \<dots> = length (filter (\<lambda>z. f z \<le> f y) xs)" by (rule length_filter_enumerate)
  also have "\<dots> = length (filter (\<lambda>z. f z \<le> f y) (sort_key f xs))"
    by (metis mset_filter mset_sort size_mset)
  finally show ?thesis
    by (simp add: stable_rank_def enumerate_append_eq filter_le_sorted)
qed

lemma nth_insert_middle: "length a \<le> r \<Longrightarrow> (a @ y # b) ! Suc r = (a @ b) ! r"
  by (simp add: nth_append Suc_diff_le)

lemma sort_key_nth_rank:
  "p < length xs \<Longrightarrow> stable_rank f xs p < length xs \<and> sort_key f xs ! stable_rank f xs p = xs ! p"
proof (induction xs arbitrary: p rule: rev_induct)
  case (snoc y xs)
  let ?s = "sort_key f xs"
  let ?low = "takeWhile (\<lambda>z. f z \<le> f y) ?s" and ?high = "dropWhile (\<lambda>z. f z \<le> f y) ?s"
  show ?case
  proof (cases "p = length xs")
    case True
    have "length ?low \<le> length xs" using length_takeWhile_le [of _ ?s] by simp
    then show ?thesis using True by (simp add: stable_rank_last sort_key_snoc nth_append)
  next
    case False
    define r where "r = stable_rank f xs p"
    have p: "p < length xs" using False snoc.prems by simp
    then have ih: "r < length ?s" "?s ! r = xs ! p" using snoc.IH by (simp_all add: r_def)
    show ?thesis
    proof (cases "f y < f (xs ! p)")
      case True
      have "\<not> r < length ?low"
      proof
        assume "r < length ?low"
        then have "f (?low ! r) \<le> f y" using takeWhile_le [where f = f] nth_mem by blast
        then show False using True ih \<open>r < length ?low\<close> by (simp add: takeWhile_nth)
      qed
      then have "(?low @ y # ?high) ! Suc r = (?low @ ?high) ! r"
        by (intro nth_insert_middle) (simp only: not_less)
      then have "sort_key f (xs @ [y]) ! Suc r = xs ! p"
        by (simp only: sort_key_snoc takeWhile_dropWhile_id ih(2))
      then show ?thesis
        using True ih p by (simp add: stable_rank_snoc r_def [symmetric] nth_append)
    next
      case no: False
      have "r < length ?low"
      proof (rule ccontr)
        assume "\<not> r < length ?low"
        moreover have "length ?s = length ?low + length ?high"
          by (metis length_append takeWhile_dropWhile_id)
        ultimately have "?high ! (r - length ?low) \<in> set ?high"
          using ih(1) by (intro nth_mem) linarith
        moreover have "?high ! (r - length ?low) = ?s ! r"
          using \<open>\<not> r < length ?low\<close> by (metis nth_append takeWhile_dropWhile_id)
        ultimately have "?s ! r \<in> set ?high" by (simp only:)
        then show False using dropWhile_sorted_greater [of f ?s] ih(2) no by simp
      qed
      then show ?thesis
        using no ih p by (simp add: stable_rank_snoc r_def [symmetric] sort_key_snoc nth_append
            takeWhile_nth)
    qed
  qed
qed simp

lemma take_sort_key_iff_rank:
  assumes "distinct xs" and "p < length xs"
  shows "xs ! p \<in> set (take k (sort_key f xs)) \<longleftrightarrow> stable_rank f xs p < k"
proof -
  let ?s = "sort_key f xs" and ?r = "stable_rank f xs p"
  have r: "?r < length ?s" "?s ! ?r = xs ! p" using sort_key_nth_rank [OF assms(2), of f] by simp_all
  have "distinct ?s" using assms(1) by simp
  then have "xs ! p \<in> set (take k ?s) \<longleftrightarrow> (\<exists>i<length ?s. i < k \<and> ?s ! i = ?s ! ?r)"
    unfolding r(2) by (auto simp: in_set_conv_nth)
  also have "\<dots> \<longleftrightarrow> ?r < k" using \<open>distinct ?s\<close> r(1) by (auto simp: nth_eq_iff_index_eq)
  finally show ?thesis .
qed

section \<open>The bounded ranking\<close>

locale bounded_ranking =
  fixes weight :: "'a \<Rightarrow> u64" and limit :: nat
    and step :: "(u64 \<times> 'a) list \<Rightarrow> 'a \<Rightarrow> (u64 \<times> 'a) list"
  assumes step: "step best x =
    (let ix = (case position (\<lambda>(existing, _). weight x > existing) best of
                 Some i \<Rightarrow> i | None \<Rightarrow> length best)
     in if ix < limit then take limit (insert_at ix (weight x, x) best) else best)"
begin

lemma step_weighted:
  "step (map (\<lambda>n. (weight n, n)) t) x =
    map (\<lambda>n. (weight n, n))
      (let ix = length (takeWhile (\<lambda>y. weight x \<le> weight y) t)
       in if ix < limit then take limit (insert_at ix x t) else t)"
  by (simp add: step position_length_takeWhile takeWhile_map comp_def not_less insert_at_def
      take_map drop_map take_Cons' Let_def)

lemma pass_is_sorted_prefix:
  "foldl step [] xs =
    map (\<lambda>n. (weight n, n)) (take limit (sort_key (\<lambda>n. Reverse (unat (weight n))) xs))"
proof (induction xs rule: rev_induct)
  case (snoc x xs)
  have le: "(\<lambda>y. Reverse (unat (weight y)) \<le> Reverse (unat (weight x))) = (\<lambda>y. weight x \<le> weight y)"
    by (simp add: fun_eq_iff word_le_nat_alt)
  show ?case
    by (simp only: foldl_append foldl.simps snoc.IH step_weighted take_insert_takeWhile
        sort_key_snoc le)
qed simp

end

end
