(* ===== verification/Dispatcher.thy ===== *)
theory Dispatcher
  imports Rendezvous Node_Config Ranking "HOL-Library.Product_Lexorder"
begin

text \<open>
  The routing decision, the model of \<^verbatim>\<open>crates/biei-core/src/dispatcher.rs\<close>.  A dispatcher sees
  its cluster through a \<open>DispatchView\<close> and places a task in one of four tiers: a warm worker,
  rendezvous order over nodes below the soft limit, eviction of another profile within the SLA, and
  rendezvous order over nodes below the hard limit.  A panic of the source is \<open>None\<close>.  The
  clock reading of Tier 3 is the argument \<open>now\<close>, and the generator of the crate
  \<^verbatim>\<open>rand_xoshiro\<close> is the argument \<open>rng\<close>: \<open>rng_range rng r n\<close> stands for
  \<open>random_range(0..n)\<close>.
\<close>

section \<open>Data\<close>

definition DEFAULT_FORWARD_CANDIDATES :: nat where
  "DEFAULT_FORWARD_CANDIDATES = 2"

type_synonym Tier3SortKey = "bool \<times> bool \<times> reverse"

record WarmCandidate =
  wc_node :: NodeStateView
  wc_warm_count :: u32
  wc_style_spare_bl :: nat

record DispatchView =
  dv_cluster :: ClusterView
  dv_local :: "NodeStateView option"

record Dispatcher =
  d_node_id :: NodeId
  d_config :: RoutingConfig
  d_costs :: CostConfig
  d_bl_capacity :: nat
  d_queue_capacity :: nat
  d_seed :: u64

record DispatcherSpawn =
  sp_node_id :: NodeId
  sp_config :: RoutingConfig
  sp_costs :: CostConfig
  sp_bl_capacity :: nat
  sp_queue_capacity :: nat
  sp_resolved_seed :: u64

record 'r RngOps =
  rng_seed_from_u64 :: "u64 \<Rightarrow> 'r"
  rng_range :: "'r \<Rightarrow> nat \<Rightarrow> nat \<times> 'r"

section \<open>The dispatch view\<close>

definition dispatch_view_new :: "ClusterView \<Rightarrow> NodeStateView option \<Rightarrow> DispatchView" where
  "dispatch_view_new cluster local =
     \<lparr>dv_cluster = cluster,
      dv_local = (case local of
                    Some state \<Rightarrow> if nsv_id state \<in> set (cv_members cluster) then Some state else None
                  | None \<Rightarrow> None)\<rparr>"

definition dv_members :: "DispatchView \<Rightarrow> NodeId list" where
  "dv_members view = cv_members (dv_cluster view)"

definition dv_state :: "DispatchView \<Rightarrow> NodeId \<Rightarrow> NodeStateView option" where
  "dv_state view i =
     (case dv_local view of
        Some local \<Rightarrow> if nsv_id local = i then Some local else map_of (cv_states (dv_cluster view)) i
      | None \<Rightarrow> map_of (cv_states (dv_cluster view)) i)"

definition dv_state_entries :: "DispatchView \<Rightarrow> (NodeId \<times> NodeStateView) list" where
  "dv_state_entries view =
     filter (\<lambda>(i, _). case dv_local view of None \<Rightarrow> True | Some local \<Rightarrow> nsv_id local \<noteq> i)
       (cv_states (dv_cluster view))
     @ (case dv_local view of None \<Rightarrow> [] | Some state \<Rightarrow> [(nsv_id state, state)])"

definition dv_states :: "DispatchView \<Rightarrow> NodeStateView list" where
  "dv_states view =
     map snd (filter (\<lambda>(i, _). case dv_local view of None \<Rightarrow> True | Some local \<Rightarrow> nsv_id local \<noteq> i)
       (cv_states (dv_cluster view)))
     @ (case dv_local view of None \<Rightarrow> [] | Some state \<Rightarrow> [state])"

definition dispatcher_new :: "DispatcherSpawn \<Rightarrow> Dispatcher" where
  "dispatcher_new spec =
     \<lparr>d_node_id = sp_node_id spec, d_config = sp_config spec, d_costs = sp_costs spec,
      d_bl_capacity = sp_bl_capacity spec,
      d_queue_capacity = max (sp_queue_capacity spec) (sp_bl_capacity spec),
      d_seed = sp_resolved_seed spec\<rparr>"

section \<open>Tier 1: warm workers\<close>

definition routing_seed :: "u64 \<Rightarrow> u64 \<Rightarrow> u64" where
  "routing_seed seed task_id = splitmix64_finalize (seed XOR task_id * 0x9E3779B97F4A7C15)"

text \<open>One iteration of the loop over a node's workers.\<close>

definition warm_candidate_step ::
  "WorkerProfile \<Rightarrow> nat \<Rightarrow> u32 \<times> nat \<times> bool \<Rightarrow> WorkerView \<Rightarrow> u32 \<times> nat \<times> bool" where
  "warm_candidate_step profile bl st worker =
     (case st of (warm_count, style_spare_bl, has_usable_capacity) \<Rightarrow>
        if wv_loaded_profile worker = Some profile then
          (warm_count + 1,
           (style_spare_bl + (bl - wv_queue_depth worker)) mod 2 ^ 64,
           has_usable_capacity \<or> wv_queue_depth worker < bl)
        else if wv_loaded_profile worker = None then (warm_count, style_spare_bl, True)
        else st)"

definition warm_candidate :: "NodeStateView \<Rightarrow> WorkerProfile \<Rightarrow> nat \<Rightarrow> WarmCandidate option" where
  "warm_candidate node profile bl =
     (if \<not> nsv_accepts_new_renders node then None
      else case foldl (warm_candidate_step profile bl) (0, 0, False) (nsv_workers node) of
             (warm_count, style_spare_bl, has_usable_capacity) \<Rightarrow>
               if warm_count > 0 \<and> has_usable_capacity
               then Some \<lparr>wc_node = node, wc_warm_count = warm_count,
                          wc_style_spare_bl = style_spare_bl\<rparr>
               else None)"

definition warm_candidates :: "Dispatcher \<Rightarrow> DispatchView \<Rightarrow> WorkerProfile \<Rightarrow> WarmCandidate list" where
  "warm_candidates d view profile =
     List.map_filter (\<lambda>node. warm_candidate node profile (d_bl_capacity d)) (dv_states view)"

text \<open>The ticket loop; falling off its end is the \<open>unreachable!\<close> of the source.\<close>

fun ticket_loop :: "nat \<Rightarrow> WarmCandidate list \<Rightarrow> NodeId option" where
  "ticket_loop ticket [] = None"
| "ticket_loop ticket (candidate # rest) =
     (if ticket < unat (wc_warm_count candidate) then Some (nsv_id (wc_node candidate))
      else ticket_loop (ticket - unat (wc_warm_count candidate)) rest)"

definition total_warm_weight :: "WarmCandidate list \<Rightarrow> nat" where
  "total_warm_weight cs = sum_list (map (\<lambda>c. unat (wc_warm_count c)) cs) mod 2 ^ 64"

text \<open>The two-sample loop over the enumerated candidates.\<close>

definition sample_step ::
  "nat \<Rightarrow> nat \<Rightarrow> 'a option \<times> 'a option \<Rightarrow> nat \<times> 'a \<Rightarrow> 'a option \<times> 'a option" where
  "sample_step first_idx second_idx st ic =
     (case (st, ic) of ((first, second), (idx, candidate)) \<Rightarrow>
        if idx = first_idx then (Some candidate, second)
        else if idx = second_idx then (first, Some candidate)
        else (first, second))"

text \<open>The outer option is the panic, the inner one the result.\<close>

definition select_warm_target ::
  "'r RngOps \<Rightarrow> Dispatcher \<Rightarrow> InternalTask \<Rightarrow> DispatchView \<Rightarrow> WorkerProfile \<Rightarrow> NodeId option option" where
  "select_warm_target rng d task view profile =
     (let r = rng_seed_from_u64 rng (routing_seed (d_seed d) (it_id task));
          candidates = warm_candidates d view profile
      in case tier1_strategy (d_config d) of
           WeightedRandom \<Rightarrow>
             (let total_weight = total_warm_weight candidates
              in if total_weight = 0 then Some None
                 else map_option Some (ticket_loop (fst (rng_range rng r total_weight)) candidates))
         | PowerOfTwo \<Rightarrow>
             (let candidate_count = length candidates
              in if candidate_count = 0 then Some None
                 else if candidate_count = 1 then Some (Some (nsv_id (wc_node (hd candidates))))
                 else
                   let (first_idx, r1) = rng_range rng r candidate_count;
                       (second_raw, _) = rng_range rng r1 (candidate_count - 1);
                       second_idx = (if second_raw \<ge> first_idx then second_raw + 1 else second_raw)
                   in case foldl (sample_step first_idx second_idx) (None, None)
                             (enumerate 0 candidates) of
                        (Some first, Some second) \<Rightarrow>
                          Some (Some (nsv_id (wc_node
                            (if wc_style_spare_bl first \<ge> wc_style_spare_bl second
                             then first else second))))
                      | _ \<Rightarrow> None))"

section \<open>Rendezvous order\<close>

definition top_hrw_step ::
  "WorkerProfile \<Rightarrow> nat \<Rightarrow> (u64 \<times> NodeId) list \<Rightarrow> NodeId \<Rightarrow> (u64 \<times> NodeId) list" where
  "top_hrw_step profile limit best node_id =
     (let weight = hrw_weight profile node_id;
          ix = (case position (\<lambda>(existing, _). weight > existing) best of
                  Some i \<Rightarrow> i | None \<Rightarrow> length best)
      in if ix < limit then take limit (insert_at ix (weight, node_id) best) else best)"

definition top_hrw_candidates ::
  "NodeId list \<Rightarrow> WorkerProfile \<Rightarrow> nat \<Rightarrow> (NodeId \<Rightarrow> bool) \<Rightarrow> ForwardCandidate list" where
  "top_hrw_candidates members profile limit eligible =
     map (\<lambda>(_, node_id). \<lparr>fc_node_id = node_id, fc_drain_worker = None\<rparr>)
       (foldl (top_hrw_step profile limit) [] (filter eligible members))"

section \<open>Tier 3: drain and swap\<close>

definition estimate_drain_eta :: "Dispatcher \<Rightarrow> WorkerView \<Rightarrow> WorkerProfile \<Rightarrow> duration option" where
  "estimate_drain_eta d w task_profile =
     do { warm_p \<leftarrow> cost_mid (warm_render_cost (d_costs d));
          first_p \<leftarrow> cost_mid (first_render_cost (d_costs d));
          s \<leftarrow> cost_mid (style_setup_cost (d_costs d));
          per_ahead \<leftarrow> dur_add first_p s;
          let queue_wait = (case dur_checked_mul per_ahead (word_of_nat (wv_queue_depth w)) of
                              Some q \<Rightarrow> q | None \<Rightarrow> duration_max);
          own \<leftarrow> (if wv_loaded_profile w = Some task_profile then Some warm_p else dur_add s first_p);
          Some (dur_saturating_add queue_wait own) }"

definition tier3_sort_key ::
  "WorkerProfile option \<Rightarrow> WorkerProfile \<Rightarrow> (WorkerProfile \<rightharpoonup> nat) \<Rightarrow> Tier3SortKey" where
  "tier3_sort_key loaded_profile task_profile cluster_counts =
     (case loaded_profile of
        None \<Rightarrow> (False, True, Reverse usize_max)
      | Some profile \<Rightarrow>
          let count = (case cluster_counts profile of Some n \<Rightarrow> n | None \<Rightarrow> 0);
              shape_mismatch = (wp_render_mode profile \<noteq> wp_render_mode task_profile
                                \<or> wp_scale profile \<noteq> wp_scale task_profile)
          in (count \<le> 1, shape_mismatch, Reverse count))"

definition count_worker :: "(WorkerProfile \<rightharpoonup> nat) \<Rightarrow> WorkerView \<Rightarrow> (WorkerProfile \<rightharpoonup> nat)" where
  "count_worker counts worker =
     (case wv_loaded_profile worker of
        Some profile \<Rightarrow>
          counts(profile \<mapsto> (case counts profile of Some n \<Rightarrow> n | None \<Rightarrow> 0) + 1)
      | None \<Rightarrow> counts)"

definition tier3_cluster_counts :: "DispatchView \<Rightarrow> (WorkerProfile \<rightharpoonup> nat)" where
  "tier3_cluster_counts view =
     foldl (\<lambda>counts (_, node).
       if \<not> nsv_accepts_new_renders node then counts
       else foldl count_worker counts (nsv_workers node)) Map.empty (dv_state_entries view)"

definition tier3_is_candidate :: "nat \<Rightarrow> WorkerProfile \<Rightarrow> WorkerView \<Rightarrow> bool" where
  "tier3_is_candidate drain_max task_profile worker =
     (wv_queue_depth worker < drain_max
      \<and> (case wv_loaded_profile worker of None \<Rightarrow> True | Some profile \<Rightarrow> profile \<noteq> task_profile))"

definition tier3_collect ::
  "Dispatcher \<Rightarrow> DispatchView \<Rightarrow> WorkerProfile \<Rightarrow> (Tier3SortKey \<times> NodeId \<times> WorkerView) list" where
  "tier3_collect d view task_profile =
     concat (map (\<lambda>(nid, node).
       if \<not> nsv_accepts_new_renders node then []
       else map (\<lambda>worker. (tier3_sort_key (wv_loaded_profile worker) task_profile
                             (tier3_cluster_counts view), nid, worker))
              (filter (tier3_is_candidate (drain_max_queue (d_config d)) task_profile)
                (nsv_workers node)))
       (dv_state_entries view))"

definition tier3_order :: "Tier3SortKey \<times> NodeId \<times> WorkerView \<Rightarrow> Tier3SortKey \<times> nat \<times> NodeId \<times> WorkerId" where
  "tier3_order c = (case c of (key, nid, w) \<Rightarrow> (key, wv_queue_depth w, nid, wv_id w))"

definition within_sla :: "instant option \<Rightarrow> instant \<Rightarrow> duration \<Rightarrow> bool" where
  "within_sla sla_deadline now eta =
     (case sla_deadline of
        None \<Rightarrow> True
      | Some deadline \<Rightarrow>
          (case instant_checked_add now eta of
             Some candidate_deadline \<Rightarrow> candidate_deadline \<le> deadline
           | None \<Rightarrow> False))"

fun tier3_select ::
  "Dispatcher \<Rightarrow> WorkerProfile \<Rightarrow> instant option \<Rightarrow> instant \<Rightarrow> nat
   \<Rightarrow> (Tier3SortKey \<times> NodeId \<times> WorkerView) list \<Rightarrow> ForwardCandidate list \<Rightarrow> ForwardCandidate list option" where
  "tier3_select d profile sla_deadline now limit [] selected = Some selected"
| "tier3_select d profile sla_deadline now limit ((_, nid, w) # rest) selected =
     do { eta \<leftarrow> estimate_drain_eta d w profile;
          if within_sla sla_deadline now eta then
            (let selected' = selected @ [\<lparr>fc_node_id = nid, fc_drain_worker = Some (wv_id w)\<rparr>]
             in if length selected' \<ge> limit then Some selected'
                else tier3_select d profile sla_deadline now limit rest selected')
          else tier3_select d profile sla_deadline now limit rest selected }"

definition tier3_candidates_view ::
  "Dispatcher \<Rightarrow> instant \<Rightarrow> DispatchView \<Rightarrow> InternalTask \<Rightarrow> nat \<Rightarrow> ForwardCandidate list option" where
  "tier3_candidates_view d now view task limit =
     (let sla_deadline = instant_checked_add (it_arrived_at task) (sla (d_costs d));
          task_profile = worker_profile task;
          candidates = tier3_collect d view task_profile
      in if candidates = [] then Some []
         else tier3_select d task_profile sla_deadline now limit (sort_key tier3_order candidates) [])"

section \<open>The decision\<close>

definition materialize_candidates ::
  "Dispatcher \<Rightarrow> InternalTask \<Rightarrow> RouteTier \<Rightarrow> ForwardCandidate list \<Rightarrow> Decision" where
  "materialize_candidates d task tier candidates =
     (case candidates of
        [] \<Rightarrow> Reject NoCapacity
      | first # rest \<Rightarrow>
          if fc_node_id first = d_node_id d then
            Local tier (fc_drain_worker first)
              (if it_forwarding_hops task \<ge> 1 then []
               else filter (\<lambda>c. fc_node_id c \<noteq> d_node_id d) rest)
          else if it_forwarding_hops task \<ge> 1 then Local tier None []
          else Forward tier (filter (\<lambda>c. fc_node_id c \<noteq> d_node_id d) candidates))"

definition node_below :: "(NodeStateView \<Rightarrow> nat \<Rightarrow> bool) \<Rightarrow> nat \<Rightarrow> DispatchView \<Rightarrow> NodeId \<Rightarrow> bool" where
  "node_below cap limit view i = (case dv_state view i of Some n \<Rightarrow> cap n limit | None \<Rightarrow> False)"

definition decide_view ::
  "'r RngOps \<Rightarrow> Dispatcher \<Rightarrow> instant \<Rightarrow> InternalTask \<Rightarrow> DispatchView \<Rightarrow> Decision option" where
  "decide_view rng d now task view =
     (let profile = worker_profile task
      in do {
        warm \<leftarrow> select_warm_target rng d task view profile;
        case warm of
          Some target_id \<Rightarrow>
            Some (materialize_candidates d task Tier1WarmTracking
              (\<lparr>fc_node_id = target_id, fc_drain_worker = None\<rparr>
               # take (DEFAULT_FORWARD_CANDIDATES - 1)
                   (top_hrw_candidates (dv_members view) profile DEFAULT_FORWARD_CANDIDATES
                     (\<lambda>i. i \<noteq> target_id \<and> node_below has_capacity (d_bl_capacity d) view i))))
        | None \<Rightarrow>
            (let tier2 = top_hrw_candidates (dv_members view) profile DEFAULT_FORWARD_CANDIDATES
                           (node_below has_capacity (d_bl_capacity d) view)
             in if tier2 \<noteq> [] then Some (materialize_candidates d task Tier2HrwBl tier2)
                else do {
                  tier3 \<leftarrow> (if tier3_enabled (d_config d)
                             then tier3_candidates_view d now view task DEFAULT_FORWARD_CANDIDATES
                             else Some []);
                  if tier3 \<noteq> [] then Some (materialize_candidates d task Tier3DrainSwap tier3)
                  else
                    let tier4 = top_hrw_candidates (dv_members view) profile
                                  DEFAULT_FORWARD_CANDIDATES
                                  (node_below has_admission_capacity (d_queue_capacity d) view)
                    in if tier4 \<noteq> [] then Some (materialize_candidates d task Tier4Overflow tier4)
                       else Some (Reject NoCapacity) }) })"

definition decide_with_local_state ::
  "'r RngOps \<Rightarrow> Dispatcher \<Rightarrow> instant \<Rightarrow> InternalTask \<Rightarrow> ClusterView \<Rightarrow> NodeStateView \<Rightarrow> Decision option" where
  "decide_with_local_state rng d now task cluster local =
     decide_view rng d now task (dispatch_view_new cluster (Some local))"

section \<open>Rendezvous order is the stable descending sort\<close>

interpretation hrw: bounded_ranking "hrw_weight profile" limit "top_hrw_step profile limit"
  for profile limit
  by unfold_locales (simp add: top_hrw_step_def Let_def)

definition hrw_key :: "WorkerProfile \<Rightarrow> NodeId \<Rightarrow> reverse" where
  "hrw_key profile n = Reverse (unat (hrw_weight profile n))"

lemma top_hrw_candidates_sort:
  "top_hrw_candidates members profile limit eligible =
    map (\<lambda>n. \<lparr>fc_node_id = n, fc_drain_worker = None\<rparr>)
      (take limit (sort_key (hrw_key profile) (filter eligible members)))"
  by (simp add: top_hrw_candidates_def hrw.pass_is_sorted_prefix hrw_key_def [abs_def] comp_def)

lemma top_hrw_candidates_empty:
  "0 < limit \<Longrightarrow> top_hrw_candidates members profile limit eligible = [] \<longleftrightarrow>
    (\<forall>n\<in>set members. \<not> eligible n)"
proof -
  have "sort_key (hrw_key profile) (filter eligible members) = [] \<longleftrightarrow> filter eligible members = []"
    using set_sort [of "hrw_key profile" "filter eligible members"] by (metis set_empty)
  then show "0 < limit \<Longrightarrow> top_hrw_candidates members profile limit eligible = [] \<longleftrightarrow>
      (\<forall>n\<in>set members. \<not> eligible n)"
    by (simp add: top_hrw_candidates_sort filter_empty_conv)
qed

lemma top_hrw_candidates_length: "length (top_hrw_candidates members profile limit eligible) \<le> limit"
  by (simp add: top_hrw_candidates_sort)

lemma top_hrw_candidates_eligible:
  assumes "c \<in> set (top_hrw_candidates members profile limit eligible)"
  shows "fc_node_id c \<in> set members" "eligible (fc_node_id c)" "fc_drain_worker c = None"
  using assms by (auto simp: top_hrw_candidates_sort dest!: in_set_takeD)

section \<open>Warm candidates\<close>

definition warm_usable :: "WorkerProfile \<Rightarrow> nat \<Rightarrow> NodeStateView \<Rightarrow> bool" where
  "warm_usable profile bl node \<longleftrightarrow>
     nsv_accepts_new_renders node
     \<and> (\<exists>w\<in>set (nsv_workers node). wv_loaded_profile w = Some profile)
     \<and> (\<exists>w\<in>set (nsv_workers node). wv_loaded_profile w = None
          \<or> wv_loaded_profile w = Some profile \<and> wv_queue_depth w < bl)"

definition warm_workers :: "WorkerProfile \<Rightarrow> NodeStateView \<Rightarrow> WorkerView list" where
  "warm_workers profile node = filter (\<lambda>w. wv_loaded_profile w = Some profile) (nsv_workers node)"

definition view_bounded :: "DispatchView \<Rightarrow> bool" where
  "view_bounded view \<longleftrightarrow> sum_list (map (\<lambda>n. length (nsv_workers n)) (dv_states view)) < 2 ^ 32"

definition rng_in_range :: "'r RngOps \<Rightarrow> bool" where
  "rng_in_range rng \<longleftrightarrow> (\<forall>r n. 0 < n \<longrightarrow> fst (rng_range rng r n) < n)"

lemma warm_candidate_fold:
  "\<exists>s'. foldl (warm_candidate_step profile bl) (c, s, u) ws =
    (c + word_of_nat (length (filter (\<lambda>w. wv_loaded_profile w = Some profile) ws)), s',
     u \<or> (\<exists>w\<in>set ws. wv_loaded_profile w = None
             \<or> wv_loaded_profile w = Some profile \<and> wv_queue_depth w < bl))"
proof (induction ws arbitrary: c s u)
  case (Cons w ws)
  obtain c' s' u' where step: "warm_candidate_step profile bl (c, s, u) w = (c', s', u')"
    by (metis prod_cases3)
  show ?case
    using step Cons.IH [of c' s' u']
    by (auto simp: warm_candidate_step_def split: if_splits)
qed simp

lemma warm_workers_length: "length (warm_workers profile node) \<le> length (nsv_workers node)"
  by (simp add: warm_workers_def)

definition usable_capacity :: "WorkerProfile \<Rightarrow> nat \<Rightarrow> NodeStateView \<Rightarrow> bool" where
  "usable_capacity profile bl node \<longleftrightarrow>
     (\<exists>w\<in>set (nsv_workers node). wv_loaded_profile w = None
        \<or> wv_loaded_profile w = Some profile \<and> wv_queue_depth w < bl)"

lemma warm_candidate_eq:
  "\<exists>s'. warm_candidate node profile bl =
    (if nsv_accepts_new_renders node \<and> 0 < (word_of_nat (length (warm_workers profile node)) :: u32)
        \<and> usable_capacity profile bl node
     then Some \<lparr>wc_node = node, wc_warm_count = word_of_nat (length (warm_workers profile node)),
                wc_style_spare_bl = s'\<rparr>
     else None)"
proof -
  obtain s' where "foldl (warm_candidate_step profile bl) (0, 0, False) (nsv_workers node) =
      (word_of_nat (length (warm_workers profile node)), s', usable_capacity profile bl node)"
    using warm_candidate_fold [of profile bl 0 0 False "nsv_workers node"]
    unfolding warm_workers_def usable_capacity_def by auto
  then show ?thesis unfolding warm_candidate_def by auto
qed

lemma warm_count_word:
  assumes "length (nsv_workers node) < 2 ^ 32"
  shows "unat (word_of_nat (length (warm_workers profile node)) :: u32)
    = length (warm_workers profile node)"
proof -
  have "length (warm_workers profile node) < 2 ^ 32"
    using warm_workers_length assms by (rule le_less_trans)
  then show ?thesis by (simp add: unat_of_nat)
qed

lemma warm_usable_alt:
  "warm_usable profile bl node \<longleftrightarrow> nsv_accepts_new_renders node
    \<and> warm_workers profile node \<noteq> [] \<and> usable_capacity profile bl node"
  by (simp add: warm_usable_def warm_workers_def usable_capacity_def filter_empty_conv)

lemma warm_candidate_None:
  assumes "length (nsv_workers node) < 2 ^ 32"
  shows "warm_candidate node profile bl = None \<longleftrightarrow> \<not> warm_usable profile bl node"
  using warm_candidate_eq [of node profile bl] warm_count_word [OF assms, of profile]
  by (auto simp: warm_usable_alt word_less_nat_alt)

lemma warm_candidate_Some:
  assumes "warm_candidate node profile bl = Some c"
  shows "wc_node c = node"
    "length (nsv_workers node) < 2 ^ 32 \<Longrightarrow>
       unat (wc_warm_count c) = length (warm_workers profile node)"
    "0 < unat (wc_warm_count c)"
  using assms warm_candidate_eq [of node profile bl] warm_count_word [of node profile]
  by (auto simp: word_less_nat_alt split: if_splits)

lemma view_boundedD:
  assumes "view_bounded view" and "n \<in> set (dv_states view)"
  shows "length (nsv_workers n) < 2 ^ 32"
  using assms member_le_sum_list [of "length (nsv_workers n)"
      "map (\<lambda>n. length (nsv_workers n)) (dv_states view)"]
  by (auto simp: view_bounded_def)

lemma set_map_filter: "set (List.map_filter f xs) = {y. \<exists>x\<in>set xs. f x = Some y}"
  by (induction xs) (auto simp: List.map_filter_simps split: option.splits)

lemma warm_candidates_set:
  "c \<in> set (warm_candidates d view profile) \<longleftrightarrow>
    (\<exists>n\<in>set (dv_states view). warm_candidate n profile (d_bl_capacity d) = Some c)"
  by (auto simp: warm_candidates_def set_map_filter)

lemma warm_candidates_empty:
  assumes "view_bounded view"
  shows "warm_candidates d view profile = [] \<longleftrightarrow>
    (\<forall>n\<in>set (dv_states view). \<not> warm_usable profile (d_bl_capacity d) n)"
proof -
  have "warm_candidates d view profile = [] \<longleftrightarrow>
      (\<forall>n\<in>set (dv_states view). warm_candidate n profile (d_bl_capacity d) = None)"
    by (auto simp: warm_candidates_def List.map_filter_def filter_empty_conv)
  then show ?thesis using warm_candidate_None [OF view_boundedD [OF assms]] by simp
qed

lemma sum_list_map_filter_le:
  fixes g :: "'a \<Rightarrow> nat"
  assumes "\<And>x y. x \<in> set xs \<Longrightarrow> f x = Some y \<Longrightarrow> h y \<le> g x"
  shows "sum_list (map h (List.map_filter f xs)) \<le> sum_list (map g xs)"
  using assms
proof (induction xs)
  case (Cons x xs)
  then have ih: "sum_list (map h (List.map_filter f xs)) \<le> sum_list (map g xs)" by simp
  show ?case
  proof (cases "f x")
    case None
    then show ?thesis using ih by (simp add: List.map_filter_simps)
  next
    case (Some y)
    then have "h y \<le> g x" using Cons.prems by simp
    then show ?thesis using ih Some by (simp add: List.map_filter_simps)
  qed
qed (simp add: List.map_filter_simps)

lemma warm_weight_bounded:
  assumes "view_bounded view"
  shows "sum_list (map (\<lambda>c. unat (wc_warm_count c)) (warm_candidates d view profile)) < 2 ^ 32"
proof -
  have "sum_list (map (\<lambda>c. unat (wc_warm_count c)) (warm_candidates d view profile))
      \<le> sum_list (map (\<lambda>n. length (nsv_workers n)) (dv_states view))"
    unfolding warm_candidates_def
  proof (rule sum_list_map_filter_le)
    fix n c
    assume n: "n \<in> set (dv_states view)" "warm_candidate n profile (d_bl_capacity d) = Some c"
    show "unat (wc_warm_count c) \<le> length (nsv_workers n)"
      unfolding warm_candidate_Some(2) [OF n(2) view_boundedD [OF assms n(1)]]
      by (rule warm_workers_length)
  qed
  then show ?thesis using assms by (simp add: view_bounded_def)
qed

lemma total_warm_weight_zero:
  assumes "view_bounded view"
  shows "total_warm_weight (warm_candidates d view profile) = 0 \<longleftrightarrow> warm_candidates d view profile = []"
proof -
  have "total_warm_weight (warm_candidates d view profile) =
      sum_list (map (\<lambda>c. unat (wc_warm_count c)) (warm_candidates d view profile))"
    using warm_weight_bounded [OF assms, of d profile] by (simp add: total_warm_weight_def)
  moreover have "0 < unat (wc_warm_count c)" if "c \<in> set (warm_candidates d view profile)" for c
    using that warm_candidate_Some(3) unfolding warm_candidates_set by blast
  ultimately show ?thesis by (cases "warm_candidates d view profile") fastforce+
qed

section \<open>Sampling\<close>

lemma ticket_loop_Some:
  "ticket < sum_list (map (\<lambda>c. unat (wc_warm_count c)) cs) \<Longrightarrow>
    \<exists>c\<in>set cs. ticket_loop ticket cs = Some (nsv_id (wc_node c))"
  by (induction cs arbitrary: ticket) (auto simp: not_less)

lemma ticket_loop_in: "ticket_loop ticket cs = Some i \<Longrightarrow> \<exists>c\<in>set cs. i = nsv_id (wc_node c)"
  by (induction cs arbitrary: ticket) (auto split: if_splits)

lemma sample_fold:
  assumes "i \<noteq> j"
  shows "foldl (sample_step i j) (None, None) (enumerate 0 xs) =
    (if i < length xs then Some (xs ! i) else None, if j < length xs then Some (xs ! j) else None)"
proof (induction xs rule: rev_induct)
  case (snoc x xs)
  then show ?case
    using assms by (auto simp: enumerate_append_eq sample_step_def nth_append less_Suc_eq)
qed simp

lemma power_of_two_cases:
  assumes "rng_in_range rng" and "2 \<le> n"
    and "rng_range rng r n = (i, r1)" and "rng_range rng r1 (n - 1) = (k, r2)"
  shows "i < n" "(if k \<ge> i then k + 1 else k) < n" "i \<noteq> (if k \<ge> i then k + 1 else k)"
proof -
  have "fst (rng_range rng r n) < n" "fst (rng_range rng r1 (n - 1)) < n - 1"
    using assms(1,2) unfolding rng_in_range_def by simp_all
  then have "i < n" "k < n - 1" using assms(3,4) by simp_all
  then show "i < n" "(if k \<ge> i then k + 1 else k) < n" "i \<noteq> (if k \<ge> i then k + 1 else k)"
    by auto
qed

lemma select_warm_target_cases:
  assumes "view_bounded view" and "rng_in_range rng"
  shows "warm_candidates d view p = [] \<and> select_warm_target rng d task view p = Some None
    \<or> (\<exists>c\<in>set (warm_candidates d view p).
          select_warm_target rng d task view p = Some (Some (nsv_id (wc_node c))))"
proof (cases "warm_candidates d view p = []")
  case True
  then show ?thesis
    by (simp add: select_warm_target_def Let_def total_warm_weight_def split: Tier1Strategy.split)
next
  case False
  let ?cs = "warm_candidates d view p"
  let ?r = "rng_seed_from_u64 rng (routing_seed (d_seed d) (it_id task))"
  show ?thesis
  proof (cases "tier1_strategy (d_config d)")
    case WeightedRandom
    have total: "0 < total_warm_weight ?cs"
      using total_warm_weight_zero [OF assms(1), of d p] False by simp
    then have "fst (rng_range rng ?r (total_warm_weight ?cs)) < total_warm_weight ?cs"
      using assms(2) unfolding rng_in_range_def by blast
    also have "\<dots> = sum_list (map (\<lambda>c. unat (wc_warm_count c)) ?cs)"
      using warm_weight_bounded [OF assms(1), of d p] by (simp add: total_warm_weight_def)
    finally show ?thesis
      using WeightedRandom total ticket_loop_Some
      by (fastforce simp: select_warm_target_def Let_def)
  next
    case PowerOfTwo
    obtain i r1 where i: "rng_range rng ?r (length ?cs) = (i, r1)" by fastforce
    obtain k r2 where k: "rng_range rng r1 (length ?cs - Suc 0) = (k, r2)" by fastforce
    show ?thesis
    proof (cases "length ?cs = 1")
      case True
      then show ?thesis
        using PowerOfTwo False by (simp add: select_warm_target_def Let_def) (metis list.set_sel(1))
    next
      case False
      then have len: "2 \<le> length ?cs" using \<open>?cs \<noteq> []\<close> by (cases ?cs) (auto simp: Suc_le_eq)
      note pot = power_of_two_cases [OF assms(2) len i k [folded One_nat_def]]
      define j where "j = (if k \<ge> i then k + 1 else k)"
      define c where "c = (if wc_style_spare_bl (?cs ! i) \<ge> wc_style_spare_bl (?cs ! j)
        then ?cs ! i else ?cs ! j)"
      have "select_warm_target rng d task view p = Some (Some (nsv_id (wc_node c)))"
        using PowerOfTwo False \<open>?cs \<noteq> []\<close> pot sample_fold [OF pot(3), of ?cs]
        by (simp add: select_warm_target_def Let_def i k j_def c_def)
      moreover have "c \<in> set ?cs" using pot by (simp add: c_def j_def)
      ultimately show ?thesis by blast
    qed
  qed
qed

section \<open>Tier 3\<close>

lemma count_worker_fold:
  "foldl count_worker m ws p =
    (let k = length (filter (\<lambda>w. wv_loaded_profile w = Some p) ws)
     in if k = 0 then m p else Some ((case m p of Some n \<Rightarrow> n | None \<Rightarrow> 0) + k))"
proof (induction ws arbitrary: m)
  case (Cons w ws)
  then show ?case
    by (cases "wv_loaded_profile w") (auto simp: count_worker_def Let_def)
qed simp

definition serving_workers :: "DispatchView \<Rightarrow> WorkerView list" where
  "serving_workers view = concat (map (\<lambda>(_, n). if nsv_accepts_new_renders n then nsv_workers n else [])
     (dv_state_entries view))"

lemma tier3_cluster_counts_exact:
  "tier3_cluster_counts view p =
    (let k = length (filter (\<lambda>w. wv_loaded_profile w = Some p) (serving_workers view))
     in if k = 0 then None else Some k)"
proof -
  have "foldl (\<lambda>counts (_, node). if \<not> nsv_accepts_new_renders node then counts
          else foldl count_worker counts (nsv_workers node)) m es
      = foldl count_worker m
          (concat (map (\<lambda>(_, n). if nsv_accepts_new_renders n then nsv_workers n else []) es))"
    for m and es :: "(NodeId \<times> NodeStateView) list"
    by (induction es arbitrary: m) auto
  then show ?thesis
    by (simp add: tier3_cluster_counts_def serving_workers_def count_worker_fold Let_def)
qed

definition costs_moderate :: "CostConfig \<Rightarrow> bool" where
  "costs_moderate c \<longleftrightarrow>
     list_all (\<lambda>r. cr_min r \<le> duration_max div 16 \<and> cr_max r \<le> duration_max div 16)
       [style_setup_cost c, render_cpu_cost c, render_resource_cost c, first_render_resource_cost c]"

lemma costs_moderateD:
  assumes "costs_moderate c"
  shows "cr_min (style_setup_cost c) \<le> duration_max div 16"
    "cr_max (style_setup_cost c) \<le> duration_max div 16"
    "cr_min (render_cpu_cost c) \<le> duration_max div 16"
    "cr_max (render_cpu_cost c) \<le> duration_max div 16"
    "cr_min (render_resource_cost c) \<le> duration_max div 16"
    "cr_max (render_resource_cost c) \<le> duration_max div 16"
    "cr_min (first_render_resource_cost c) \<le> duration_max div 16"
    "cr_max (first_render_resource_cost c) \<le> duration_max div 16"
  using assms by (auto simp: costs_moderate_def)

lemma cost_mid_moderate:
  assumes "cr_min r \<le> duration_max div 8" and "cr_max r \<le> duration_max div 8"
  shows "\<exists>m. cost_mid r = Some m \<and> m \<le> duration_max div 8"
  using assms by (auto simp: cost_mid_def dur_add_def)

lemma cost_saturating_add_moderate:
  assumes "cr_min r \<le> duration_max div 16" "cr_max r \<le> duration_max div 16"
    "cr_min q \<le> duration_max div 16" "cr_max q \<le> duration_max div 16"
  shows "cr_min (cost_saturating_add r q) \<le> duration_max div 8"
    "cr_max (cost_saturating_add r q) \<le> duration_max div 8"
  using assms by (auto simp: cost_saturating_add_def dur_saturating_add_def)

lemma estimate_drain_eta_Some:
  assumes "costs_moderate (d_costs d)"
  shows "\<exists>eta. estimate_drain_eta d w p = Some eta"
proof -
  let ?c = "d_costs d"
  note bounds = costs_moderateD [OF assms]
  obtain m where "cost_mid (warm_render_cost ?c) = Some m"
    using cost_mid_moderate [OF cost_saturating_add_moderate,
        of "render_cpu_cost ?c" "render_resource_cost ?c"] bounds
    unfolding warm_render_cost_def by blast
  moreover obtain f where "cost_mid (first_render_cost ?c) = Some f" "f \<le> duration_max div 8"
    using cost_mid_moderate [OF cost_saturating_add_moderate,
        of "render_cpu_cost ?c" "first_render_resource_cost ?c"] bounds
    unfolding first_render_cost_def by blast
  moreover obtain s where "cost_mid (style_setup_cost ?c) = Some s" "s \<le> duration_max div 8"
    using cost_mid_moderate [OF order_trans order_trans, OF bounds(1) _ bounds(2)]
      div_le_mono2 [of 8 16 duration_max] by auto
  ultimately show ?thesis
    by (simp add: estimate_drain_eta_def dur_add_def Let_def)
qed

text \<open>The selection loop takes the first candidates whose estimate meets the deadline.\<close>

definition tier3_feasible ::
  "Dispatcher \<Rightarrow> WorkerProfile \<Rightarrow> instant option \<Rightarrow> instant \<Rightarrow> Tier3SortKey \<times> NodeId \<times> WorkerView \<Rightarrow> bool" where
  "tier3_feasible d p sla_deadline now c =
     (case c of (_, _, w) \<Rightarrow>
        (case estimate_drain_eta d w p of Some eta \<Rightarrow> within_sla sla_deadline now eta | None \<Rightarrow> False))"

definition drain_candidate :: "Tier3SortKey \<times> NodeId \<times> WorkerView \<Rightarrow> ForwardCandidate" where
  "drain_candidate c = (case c of (_, nid, w) \<Rightarrow> \<lparr>fc_node_id = nid, fc_drain_worker = Some (wv_id w)\<rparr>)"

lemma tier3_select_eq:
  assumes "costs_moderate (d_costs d)"
  shows "length sel < limit \<Longrightarrow> tier3_select d p sla_deadline now limit cs sel =
    Some (sel @ map drain_candidate
      (take (limit - length sel) (filter (tier3_feasible d p sla_deadline now) cs)))"
proof (induction cs arbitrary: sel)
  case (Cons c cs)
  obtain key nid w where c: "c = (key, nid, w)" by (cases c) auto
  obtain eta where eta: "estimate_drain_eta d w p = Some eta"
    using estimate_drain_eta_Some [OF assms] by blast
  show ?case
  proof (cases "within_sla sla_deadline now eta")
    case True
    obtain m where m: "limit - length sel = Suc m" using Cons.prems by (metis Suc_diff_Suc)
    then have "limit - Suc (length sel) = m" by simp
    then show ?thesis using True Cons.IH [of "sel @ [drain_candidate c]"] Cons.prems m
      by (auto simp: c eta Let_def tier3_feasible_def drain_candidate_def not_le)
  next
    case False
    then show ?thesis using Cons by (simp add: c eta tier3_feasible_def)
  qed
qed simp

lemma tier3_candidates_eq:
  assumes "costs_moderate (d_costs d)" and "0 < limit"
  shows "tier3_candidates_view d now view task limit =
    Some (map drain_candidate (take limit
      (filter (tier3_feasible d (worker_profile task)
                 (instant_checked_add (it_arrived_at task) (sla (d_costs d))) now)
        (sort_key tier3_order (tier3_collect d view (worker_profile task))))))"
  using tier3_select_eq [OF assms(1), of "[]" limit] assms(2)
  by (simp add: tier3_candidates_view_def Let_def)

lemma tier3_collect_in:
  "(key, nid, w) \<in> set (tier3_collect d view p) \<Longrightarrow>
    \<exists>n. (nid, n) \<in> set (dv_state_entries view) \<and> nsv_accepts_new_renders n \<and> w \<in> set (nsv_workers n)
      \<and> wv_queue_depth w < drain_max_queue (d_config d) \<and> wv_loaded_profile w \<noteq> Some p"
  by (auto simp: tier3_collect_def tier3_is_candidate_def split: if_splits option.splits)

lemma tier3_length:
  "tier3_select d p sla_deadline now limit cs sel = Some r \<Longrightarrow> length sel < limit \<Longrightarrow>
    length r \<le> limit"
proof (induction cs arbitrary: sel)
  case (Cons c cs)
  then show ?case
    by (cases c) (auto simp: Let_def bind_eq_Some_conv not_le split: if_splits)
qed auto

section \<open>The decision\<close>

definition tier1_candidates :: "Dispatcher \<Rightarrow> InternalTask \<Rightarrow> DispatchView \<Rightarrow> NodeId \<Rightarrow> ForwardCandidate list" where
  "tier1_candidates d task view target =
     \<lparr>fc_node_id = target, fc_drain_worker = None\<rparr>
     # take 1 (top_hrw_candidates (dv_members view) (worker_profile task) 2
         (\<lambda>i. i \<noteq> target \<and> node_below has_capacity (d_bl_capacity d) view i))"

lemma decide_view_cases:
  assumes "decide_view rng d now task view = Some dec"
  obtains
    (tier1) target where
      "select_warm_target rng d task view (worker_profile task) = Some (Some target)"
      "dec = materialize_candidates d task Tier1WarmTracking (tier1_candidates d task view target)"
  | (tier2) i where
      "select_warm_target rng d task view (worker_profile task) = Some None"
      "i \<in> set (dv_members view)" "node_below has_capacity (d_bl_capacity d) view i"
      "dec = materialize_candidates d task Tier2HrwBl
         (top_hrw_candidates (dv_members view) (worker_profile task) 2
            (node_below has_capacity (d_bl_capacity d) view))"
  | (tier3) cs where
      "select_warm_target rng d task view (worker_profile task) = Some None"
      "\<forall>i\<in>set (dv_members view). \<not> node_below has_capacity (d_bl_capacity d) view i"
      "tier3_candidates_view d now view task 2 = Some cs" "cs \<noteq> []"
      "dec = materialize_candidates d task Tier3DrainSwap cs"
  | (tier4)
      "select_warm_target rng d task view (worker_profile task) = Some None"
      "\<forall>i\<in>set (dv_members view). \<not> node_below has_capacity (d_bl_capacity d) view i"
      "tier3_enabled (d_config d) \<longrightarrow> tier3_candidates_view d now view task 2 = Some []"
      "dec = materialize_candidates d task Tier4Overflow
         (top_hrw_candidates (dv_members view) (worker_profile task) 2
            (node_below has_admission_capacity (d_queue_capacity d) view))"
proof -
  let ?hrw = "top_hrw_candidates (dv_members view) (worker_profile task) 2"
  note empty = top_hrw_candidates_empty [of 2 "dv_members view" "worker_profile task"]
  obtain warm where warm: "select_warm_target rng d task view (worker_profile task) = Some warm"
    using assms by (auto simp: decide_view_def Let_def bind_eq_Some_conv)
  show thesis
  proof (cases warm)
    case (Some target)
    then show thesis using assms warm
      by (intro tier1) (auto simp: decide_view_def tier1_candidates_def DEFAULT_FORWARD_CANDIDATES_def)
  next
    case None
    note eq = assms [unfolded decide_view_def Let_def warm None Option.bind.simps option.case
        DEFAULT_FORWARD_CANDIDATES_def]
    show thesis
    proof (cases "?hrw (node_below has_capacity (d_bl_capacity d) view) = []")
      case False
      then obtain i where "i \<in> set (dv_members view)" "node_below has_capacity (d_bl_capacity d) view i"
        using empty by auto
      then show thesis using eq False warm None by (intro tier2) auto
    next
      case True
      then have no: "\<forall>i\<in>set (dv_members view). \<not> node_below has_capacity (d_bl_capacity d) view i"
        using empty by simp
      obtain t3 where t3: "(if tier3_enabled (d_config d) then tier3_candidates_view d now view task 2
          else Some []) = Some t3"
        using eq True by (auto simp: bind_eq_Some_conv)
      show thesis
      proof (cases "t3 = []")
        case False
        then show thesis using eq True warm None no t3 by (intro tier3 [of t3]) (auto split: if_splits)
      next
        case t3_nil: True
        have "dec = materialize_candidates d task Tier4Overflow
            (?hrw (node_below has_admission_capacity (d_queue_capacity d) view))"
          using eq True t3 t3_nil by (auto simp: materialize_candidates_def split: if_splits)
        then show thesis using warm None no t3 t3_nil by (intro tier4) (auto split: if_splits)
      qed
    qed
  qed
qed

lemma decide_view_form:
  assumes "decide_view rng d now task view = Some dec"
  obtains tier cs where "dec = materialize_candidates d task tier cs" "length cs \<le> 2"
    "cs = [] \<longrightarrow> (\<forall>i\<in>set (dv_members view).
       \<not> node_below has_capacity (d_bl_capacity d) view i
       \<and> \<not> node_below has_admission_capacity (d_queue_capacity d) view i)"
  using assms
proof (cases rule: decide_view_cases)
  case (tier1 target)
  then show thesis by (intro that) (auto simp: tier1_candidates_def)
next
  case (tier2 i)
  then show thesis
    using top_hrw_candidates_length top_hrw_candidates_empty [of 2 "dv_members view"]
    by (intro that) auto
next
  case (tier3 cs)
  then show thesis
    using tier3_length [of d "worker_profile task" _ now 2 _ "[]" cs]
    by (intro that) (auto simp: tier3_candidates_view_def Let_def split: if_splits)
next
  case tier4
  then show thesis
    using top_hrw_candidates_length top_hrw_candidates_empty [of 2 "dv_members view"]
    by (intro that) auto
qed

lemma decide_view_total:
  assumes "view_bounded view" and "rng_in_range rng" and "costs_moderate (d_costs d)"
  shows "\<exists>dec. decide_view rng d now task view = Some dec"
proof -
  obtain warm where "select_warm_target rng d task view (worker_profile task) = Some warm"
    using select_warm_target_cases [OF assms(1,2)] by blast
  then show ?thesis
    using tier3_candidates_eq [OF assms(3), of 2 now view task]
    by (auto simp: decide_view_def Let_def DEFAULT_FORWARD_CANDIDATES_def split: option.splits)
qed

lemma node_below_admission:
  assumes "node_below has_capacity bl view i" and "bl \<le> cap"
  shows "node_below has_admission_capacity cap view i"
  using assms by (auto simp: node_below_def has_capacity_def has_admission_capacity_def list_ex_iff
      split: option.splits intro: less_le_trans)

lemma ticket_loop_count:
  "card {t. t < sum_list (map (\<lambda>c. unat (wc_warm_count c)) cs) \<and> ticket_loop t cs = Some i}
    = sum_list (map (\<lambda>c. unat (wc_warm_count c)) (filter (\<lambda>c. nsv_id (wc_node c) = i) cs))"
proof (induction cs)
  case (Cons c cs)
  let ?w = "unat (wc_warm_count c)" and ?S = "sum_list (map (\<lambda>c. unat (wc_warm_count c)) cs)"
  let ?own = "{t. t < ?w \<and> nsv_id (wc_node c) = i}"
  let ?later = "(\<lambda>t. ?w + t) ` {t. t < ?S \<and> ticket_loop t cs = Some i}"
  have "{t. t < ?w + ?S \<and> ticket_loop t (c # cs) = Some i} = ?own \<union> ?later"
  proof (rule set_eqI)
    fix t
    show "t \<in> {t. t < ?w + ?S \<and> ticket_loop t (c # cs) = Some i} \<longleftrightarrow> t \<in> ?own \<union> ?later"
    proof (cases "t < ?w")
      case False
      then obtain u where "t = ?w + u" using le_Suc_ex not_less by blast
      then show ?thesis by auto
    qed auto
  qed
  moreover have "card (?own \<union> ?later) = card ?own + card ?later"
    by (rule card_Un_disjoint) auto
  moreover have "card ?later = card {t. t < ?S \<and> ticket_loop t cs = Some i}"
    by (rule card_image) (simp add: inj_on_def)
  moreover have "card ?own = (if nsv_id (wc_node c) = i then ?w else 0)" by simp
  ultimately show ?case using Cons.IH by simp
qed simp

section \<open>Example cluster\<close>

definition example_worker :: "WorkerId \<Rightarrow> WorkerProfile option \<Rightarrow> nat \<Rightarrow> WorkerView" where
  "example_worker i p q = \<lparr>wv_id = i, wv_loaded_profile = p, wv_queue_depth = q\<rparr>"

definition example_node :: "NodeId \<Rightarrow> WorkerView list \<Rightarrow> NodeStateView" where
  "example_node i ws = \<lparr>nsv_id = i, nsv_accepts_new_renders = True, nsv_workers = ws\<rparr>"

definition example_cluster :: "NodeStateView list \<Rightarrow> ClusterView" where
  "example_cluster ns = \<lparr>cv_members = map nsv_id ns, cv_states = map (\<lambda>n. (nsv_id n, n)) ns,
     cv_generated_at = 0\<rparr>"

definition example_costs :: CostConfig where
  "example_costs = \<lparr>style_setup_cost = cost_fixed 5, source_load_cost = cost_fixed 5,
     render_cpu_cost = cost_fixed 5, render_resource_cost = cost_fixed 5,
     first_render_resource_cost = cost_fixed 5, hop_latency = 1, sla = 100\<rparr>"

definition example_dispatcher :: Dispatcher where
  "example_dispatcher = dispatcher_new \<lparr>sp_node_id = ''a'',
     sp_config = \<lparr>tier1_strategy = PowerOfTwo, tier3_enabled = True, drain_max_queue = 5\<rparr>,
     sp_costs = example_costs, sp_bl_capacity = 2, sp_queue_capacity = 8, sp_resolved_seed = 7\<rparr>"

definition example_rng :: "u64 RngOps" where
  "example_rng = \<lparr>rng_seed_from_u64 = (\<lambda>x. x), rng_range = (\<lambda>r n. (unat r mod n, r + 1))\<rparr>"

definition example_view :: DispatchView where
  "example_view = dispatch_view_new (example_cluster
     [example_node ''a'' [example_worker 0 (Some (example_profile 1)) 2],
      example_node ''b'' [example_worker 0 (Some (example_profile 1)) 1, example_worker 1 None 0]])
     (Some (example_node ''a'' [example_worker 0 (Some (example_profile 1)) 3]))"

lemma example_hypotheses:
  "rng_in_range example_rng" "view_bounded example_view"
  "costs_moderate (d_costs example_dispatcher)"
proof -
  show "rng_in_range example_rng" by (simp add: rng_in_range_def example_rng_def)
  show "view_bounded example_view" by code_simp
  show "costs_moderate (d_costs example_dispatcher)" by code_simp
qed

section \<open>Properties\<close>

text \<open>C16: Every decision the dispatcher returns is well formed.  A task is forwarded only if it was
  never forwarded before, to one or two nodes other than the dispatcher's own; a local decision
  carries at most one fallback, never the node itself and none at all for a forwarded task; a
  rejection has reason \<open>NoCapacity\<close> and is given only when no member of the view is below its
  soft or its hard queue limit.\<close>

theorem decision_well_formed:
  assumes "decide_view rng d now task view = Some dec"
  shows "case dec of
      Forward tier cs \<Rightarrow> it_forwarding_hops task = 0 \<and> cs \<noteq> [] \<and> length cs \<le> 2
        \<and> (\<forall>c\<in>set cs. fc_node_id c \<noteq> d_node_id d)
    | Local tier hint fallback \<Rightarrow> length fallback \<le> 1
        \<and> (\<forall>c\<in>set fallback. fc_node_id c \<noteq> d_node_id d)
        \<and> (it_forwarding_hops task \<noteq> 0 \<longrightarrow> fallback = [] )
    | Reject reason \<Rightarrow> reason = NoCapacity \<and> (\<forall>i\<in>set (dv_members view).
        \<not> node_below has_capacity (d_bl_capacity d) view i
        \<and> \<not> node_below has_admission_capacity (d_queue_capacity d) view i)"
proof -
  obtain tier cs where dec: "dec = materialize_candidates d task tier cs" and len: "length cs \<le> 2"
    and none: "cs = [] \<longrightarrow> (\<forall>i\<in>set (dv_members view).
       \<not> node_below has_capacity (d_bl_capacity d) view i
       \<and> \<not> node_below has_admission_capacity (d_queue_capacity d) view i)"
    using decide_view_form [OF assms] by blast
  have hops: "it_forwarding_hops task \<ge> 1 \<longleftrightarrow> it_forwarding_hops task \<noteq> 0"
    using word_less_1 [of "it_forwarding_hops task"] by (auto simp: not_less [symmetric])
  have short: "length (filter P cs) \<le> 2" for P using len length_filter_le le_trans by blast
  show ?thesis
  proof (cases cs)
    case Nil
    then show ?thesis using none by (simp add: dec materialize_candidates_def)
  next
    case (Cons c rest)
    then have "length rest \<le> 1" using len by simp
    then have "length (filter P rest) \<le> 1" for P using le_trans length_filter_le by blast
    then show ?thesis using Cons short by (simp add: dec materialize_candidates_def hops)
  qed
qed

theorem decision_well_formed_witness:
  "\<exists>cs. decide_view example_rng example_dispatcher 3 (example_task 1) example_view
      = Some (Forward Tier1WarmTracking cs) \<and> length cs \<le> 2"
proof -
  have eq: "decide_view example_rng example_dispatcher 3 (example_task 1) example_view
      = Some (Forward Tier1WarmTracking [\<lparr>fc_node_id = ''b'', fc_drain_worker = None\<rparr>])"
    by code_simp
  show ?thesis using decision_well_formed [OF eq] eq by simp
qed

text \<open>C14: The dispatcher always decides, and it serves whenever it can: with a generator that stays in
  its range, cost figures far from the overflow of durations, and a view of fewer than \<open>2 ^ 32\<close>
  workers, no branch panics, and if some member is below its hard queue limit the decision is not a
  rejection.\<close>

theorem decide_serves:
  assumes "rng_in_range rng" and "view_bounded view" and "costs_moderate (d_costs d)"
  shows "\<exists>dec. decide_view rng d now task view = Some dec
    \<and> ((\<exists>i\<in>set (dv_members view). node_below has_admission_capacity (d_queue_capacity d) view i)
        \<longrightarrow> (\<forall>reason. dec \<noteq> Reject reason))"
proof -
  obtain dec where dec: "decide_view rng d now task view = Some dec"
    using decide_view_total [OF assms(2,1,3)] by blast
  obtain tier cs where form: "dec = materialize_candidates d task tier cs"
    and none: "cs = [] \<longrightarrow> (\<forall>i\<in>set (dv_members view).
       \<not> node_below has_capacity (d_bl_capacity d) view i
       \<and> \<not> node_below has_admission_capacity (d_queue_capacity d) view i)"
    using decide_view_form [OF dec] by blast
  have "cs \<noteq> []" if "\<exists>i\<in>set (dv_members view). node_below has_admission_capacity (d_queue_capacity d) view i"
    using none that by blast
  then show ?thesis
    using dec by (auto simp: form materialize_candidates_def split: list.splits)
qed

theorem decide_serves_witness:
  "\<exists>dec. decide_view example_rng example_dispatcher 3 (example_task 2) example_view = Some dec
    \<and> (\<forall>reason. dec \<noteq> Reject reason)"
proof -
  have "''b'' \<in> set (dv_members example_view)
      \<and> node_below has_admission_capacity (d_queue_capacity example_dispatcher) example_view ''b''"
    by code_simp
  then show ?thesis
    using decide_serves [OF example_hypotheses, of 3 "example_task 2"] by blast
qed

text \<open>C26: Tier 1 finds a warm target exactly when there is one: the selected node accepts new
  renders, holds a worker with the task's profile loaded, and has usable capacity (such a worker
  below the soft limit, or a worker with nothing loaded); no target is selected only if no node of
  the view is like that.  The choice among several never panics under either strategy.\<close>

theorem warm_target_sound_and_complete:
  assumes "rng_in_range rng" and "view_bounded view"
  shows "case select_warm_target rng d task view p of
      None \<Rightarrow> False
    | Some None \<Rightarrow> \<forall>n\<in>set (dv_states view). \<not> warm_usable p (d_bl_capacity d) n
    | Some (Some target) \<Rightarrow> \<exists>n\<in>set (dv_states view). nsv_id n = target \<and> warm_usable p (d_bl_capacity d) n"
  using select_warm_target_cases [OF assms(2,1), of d p task]
proof (elim disjE conjE bexE)
  assume "warm_candidates d view p = []" "select_warm_target rng d task view p = Some None"
  then show ?thesis using warm_candidates_empty [OF assms(2)] by simp
next
  fix c
  assume c: "c \<in> set (warm_candidates d view p)"
    "select_warm_target rng d task view p = Some (Some (nsv_id (wc_node c)))"
  then obtain n where n: "n \<in> set (dv_states view)" "warm_candidate n p (d_bl_capacity d) = Some c"
    unfolding warm_candidates_set by blast
  then have "warm_usable p (d_bl_capacity d) n"
    using warm_candidate_None [OF view_boundedD [OF assms(2) n(1)]] by (metis option.distinct(1))
  then show ?thesis using c(2) n warm_candidate_Some(1) [OF n(2)] by auto
qed

theorem warm_target_witness:
  "select_warm_target example_rng example_dispatcher (example_task 1) example_view (example_profile 1)
     = Some (Some ''b'')
   \<and> (\<exists>n\<in>set (dv_states example_view). nsv_id n = ''b'' \<and> warm_usable (example_profile 1) 2 n)"
proof -
  have "select_warm_target example_rng example_dispatcher (example_task 1) example_view
      (example_profile 1) = Some (Some ''b'') \<and> d_bl_capacity example_dispatcher = 2"
    by code_simp
  then show ?thesis
    using warm_target_sound_and_complete [OF example_hypotheses(1,2),
        where d = example_dispatcher and task = "example_task 1" and p = "example_profile 1"] by simp
qed

text \<open>C20: The bounded insertion pass of the rendezvous tiers computes the first \<open>limit\<close> eligible
  members of the stable sort by descending weight, so equal weights keep the order of the members.\<close>

theorem top_hrw_candidates_is_sorted_prefix:
  "map fc_node_id (top_hrw_candidates members profile limit eligible) =
    take limit (sort_key (\<lambda>n. Reverse (unat (hrw_weight profile n))) (filter eligible members))"
  by (simp add: top_hrw_candidates_sort hrw_key_def [abs_def] comp_def)

text \<open>Tier 3 returns, in the ranking order, the first candidates that meet the SLA.  Each is an
  actual worker of a node that accepts renders, with a short queue, and never a worker that already
  holds the task's profile; its estimated completion is within the SLA deadline counted from the
  task's arrival.\<close>

theorem tier3_candidates_sound:
  assumes "costs_moderate (d_costs d)" and "0 < limit"
    and "tier3_candidates_view d now view task limit = Some cs"
  shows "cs = map drain_candidate (take limit
      (filter (tier3_feasible d (worker_profile task)
                 (instant_checked_add (it_arrived_at task) (sla (d_costs d))) now)
        (sort_key tier3_order (tier3_collect d view (worker_profile task)))))
    \<and> (\<forall>c\<in>set cs. \<exists>n w eta.
          (fc_node_id c, n) \<in> set (dv_state_entries view) \<and> nsv_accepts_new_renders n
          \<and> w \<in> set (nsv_workers n) \<and> fc_drain_worker c = Some (wv_id w)
          \<and> wv_queue_depth w < drain_max_queue (d_config d)
          \<and> wv_loaded_profile w \<noteq> Some (worker_profile task)
          \<and> estimate_drain_eta d w (worker_profile task) = Some eta
          \<and> within_sla (instant_checked_add (it_arrived_at task) (sla (d_costs d))) now eta)"
proof (intro conjI ballI)
  show eq: "cs = map drain_candidate (take limit
      (filter (tier3_feasible d (worker_profile task)
                 (instant_checked_add (it_arrived_at task) (sla (d_costs d))) now)
        (sort_key tier3_order (tier3_collect d view (worker_profile task)))))"
    using assms(3) tier3_candidates_eq [OF assms(1,2)] by simp
  fix c
  assume "c \<in> set cs"
  then obtain key nid w where t: "c = drain_candidate (key, nid, w)"
      "(key, nid, w) \<in> set (tier3_collect d view (worker_profile task))"
      "tier3_feasible d (worker_profile task)
         (instant_checked_add (it_arrived_at task) (sla (d_costs d))) now (key, nid, w)"
    unfolding eq by (auto dest!: in_set_takeD)
  obtain n where "(nid, n) \<in> set (dv_state_entries view)" "nsv_accepts_new_renders n"
      "w \<in> set (nsv_workers n)" "wv_queue_depth w < drain_max_queue (d_config d)"
      "wv_loaded_profile w \<noteq> Some (worker_profile task)"
    using tier3_collect_in [OF t(2)] by blast
  then show "\<exists>n w eta.
          (fc_node_id c, n) \<in> set (dv_state_entries view) \<and> nsv_accepts_new_renders n
          \<and> w \<in> set (nsv_workers n) \<and> fc_drain_worker c = Some (wv_id w)
          \<and> wv_queue_depth w < drain_max_queue (d_config d)
          \<and> wv_loaded_profile w \<noteq> Some (worker_profile task)
          \<and> estimate_drain_eta d w (worker_profile task) = Some eta
          \<and> within_sla (instant_checked_add (it_arrived_at task) (sla (d_costs d))) now eta"
    using t(3) by (auto simp: t(1) drain_candidate_def tier3_feasible_def split: option.splits)
qed

theorem tier3_candidates_sound_witness:
  "tier3_candidates_view example_dispatcher 3 example_view (example_task 2) 2 =
     Some [\<lparr>fc_node_id = ''b'', fc_drain_worker = Some 0\<rparr>, \<lparr>fc_node_id = ''a'', fc_drain_worker = Some 0\<rparr>]
   \<and> (\<exists>n w. (''b'', n) \<in> set (dv_state_entries example_view) \<and> w \<in> set (nsv_workers n)
        \<and> wv_id w = 0 \<and> wv_loaded_profile w \<noteq> Some (worker_profile (example_task 2)))"
proof -
  have eq: "tier3_candidates_view example_dispatcher 3 example_view (example_task 2) 2 =
     Some [\<lparr>fc_node_id = ''b'', fc_drain_worker = Some 0\<rparr>, \<lparr>fc_node_id = ''a'', fc_drain_worker = Some 0\<rparr>]"
    by code_simp
  show ?thesis
    using tier3_candidates_sound [OF example_hypotheses(3) _ eq] eq by auto
qed

text \<open>The weighted strategy is proportional: of the tickets below the total weight, the number
  that select a node id is the sum of the warm worker counts of the candidates with that id.\<close>

theorem weighted_random_proportional:
  "card {t. t < sum_list (map (\<lambda>c. unat (wc_warm_count c)) cs) \<and> ticket_loop t cs = Some i}
    = sum_list (map (\<lambda>c. unat (wc_warm_count c)) (filter (\<lambda>c. nsv_id (wc_node c) = i) cs))"
  by (rule ticket_loop_count)

end
