(* ===== verification/Warm_Plan.thy ===== *)
theory Warm_Plan
  imports Gossip_Codec Dispatcher
begin

text \<open>
  Predictive warm handoff, the model of \<^verbatim>\<open>crates/biei-core/src/warm_plan.rs\<close>: which profile, if
  any, an idle node prepares.  The style catalog's resolver is the argument \<open>resolve_latest\<close>,
  as it is in the source.
\<close>

section \<open>Definitions\<close>

definition MAX_CANDIDATE_PROFILES :: nat where
  "MAX_CANDIDATE_PROFILES = 64"

definition WARM_HRW_DEPTH :: nat where
  "WARM_HRW_DEPTH = 2"

datatype WarmSkip =
  Draining | NotAcceptingRenders | WarmInFlight | QueuesBusy | NoSpareSlot
| CandidateSetTooLarge | NoEligibleCandidate

record WarmReadiness =
  wr_draining :: bool
  wr_accepts_new_renders :: bool
  wr_warm_in_flight :: bool
  wr_reserved_slots :: nat

fun render_mode_as_u8 :: "RenderMode \<Rightarrow> u8" where
  "render_mode_as_u8 Static = 0"
| "render_mode_as_u8 Tile = 1"

fun scale_as_u8 :: "Scale \<Rightarrow> u8" where
  "scale_as_u8 X1 = 0"
| "scale_as_u8 X2 = 1"

definition warm_sort_key :: "WorkerProfile \<Rightarrow> string \<times> u8 \<times> u8" where
  "warm_sort_key profile =
     (revision_to_gossip_value (wp_style profile),
      render_mode_as_u8 (wp_render_mode profile), scale_as_u8 (wp_scale profile))"

type_synonym WarmKey = "StyleId \<times> RenderMode \<times> Scale"

definition profile_key :: "WorkerProfile \<Rightarrow> WarmKey" where
  "profile_key profile = (rev_id (wp_style profile), wp_render_mode profile, wp_scale profile)"

text \<open>The loop that collects the distinct keys in order of first appearance.\<close>

fun collect_keys :: "WorkerProfile list \<Rightarrow> WarmKey list \<Rightarrow> WarmKey list" where
  "collect_keys [] candidate_keys = candidate_keys"
| "collect_keys (profile # rest) candidate_keys =
     (if profile_key profile \<in> set candidate_keys then collect_keys rest candidate_keys
      else collect_keys rest (candidate_keys @ [profile_key profile]))"

definition warm_owners :: "NodeId \<Rightarrow> ClusterView \<Rightarrow> NodeId list" where
  "warm_owners local cluster =
     (let owners = filter (\<lambda>node_id. node_id = local
            \<or> (case map_of (cv_states cluster) node_id of
                 Some state \<Rightarrow> nsv_accepts_new_renders state | None \<Rightarrow> False))
            (cv_members cluster)
      in if local \<in> set owners then owners else owners @ [local])"

definition warm_outranks :: "WorkerProfile \<Rightarrow> u64 \<Rightarrow> nat \<Rightarrow> nat \<times> NodeId \<Rightarrow> bool" where
  "warm_outranks profile local_weight local_position entry =
     (case entry of (pos, node) \<Rightarrow>
        let weight = hrw_weight profile node
        in weight > local_weight \<or> weight = local_weight \<and> pos < local_position)"

text \<open>\<open>None\<close> is the panic of \<open>expect\<close> when the local node is not an owner.\<close>

definition warm_rank :: "WorkerProfile \<Rightarrow> NodeId \<Rightarrow> NodeId list \<Rightarrow> nat option" where
  "warm_rank profile local owners =
     (let local_weight = hrw_weight profile local
      in do {
        local_position \<leftarrow> position (\<lambda>node. node = local) owners;
        Some (1 + length (filter (warm_outranks profile local_weight local_position)
          (enumerate 0 owners))) })"

definition warm_better ::
  "nat \<times> u64 \<times> WorkerProfile \<Rightarrow> (nat \<times> u64 \<times> WorkerProfile) option \<Rightarrow> bool" where
  "warm_better key best =
     (case best of
        None \<Rightarrow> True
      | Some (best_rank, best_inv_weight, best_profile) \<Rightarrow>
          (case key of (rank, inv_weight, profile) \<Rightarrow>
             (rank, inv_weight, warm_sort_key profile)
               < (best_rank, best_inv_weight, warm_sort_key best_profile)))"

text \<open>One iteration of the selection loop; the outer option is the panic.\<close>

definition warm_step ::
  "NodeId \<Rightarrow> NodeId list \<Rightarrow> WorkerProfile list \<Rightarrow> (StyleId \<Rightarrow> u64 option) \<Rightarrow> WarmKey
   \<Rightarrow> (nat \<times> u64 \<times> WorkerProfile) option \<Rightarrow> (nat \<times> u64 \<times> WorkerProfile) option option" where
  "warm_step local owners already_loaded resolve_latest key best =
     (case key of (style_id, render_mode, scale) \<Rightarrow>
        (case resolve_latest style_id of
           None \<Rightarrow> Some best
         | Some version \<Rightarrow>
             let profile = \<lparr>wp_style = \<lparr>rev_id = style_id, rev_version = version\<rparr>,
                            wp_render_mode = render_mode, wp_scale = scale\<rparr>
             in if profile \<in> set already_loaded then Some best
                else do {
                  rank \<leftarrow> warm_rank profile local owners;
                  if rank > WARM_HRW_DEPTH then Some best
                  else
                    let cand = (rank, 0xFFFFFFFFFFFFFFFF - hrw_weight profile local, profile)
                    in Some (if warm_better cand best then Some cand else best) }))"

fun warm_loop ::
  "NodeId \<Rightarrow> NodeId list \<Rightarrow> WorkerProfile list \<Rightarrow> (StyleId \<Rightarrow> u64 option) \<Rightarrow> WarmKey list
   \<Rightarrow> (nat \<times> u64 \<times> WorkerProfile) option \<Rightarrow> (nat \<times> u64 \<times> WorkerProfile) option option" where
  "warm_loop local owners already_loaded resolve_latest [] best = Some best"
| "warm_loop local owners already_loaded resolve_latest (key # rest) best =
     do { best' \<leftarrow> warm_step local owners already_loaded resolve_latest key best;
          warm_loop local owners already_loaded resolve_latest rest best' }"

definition loaded_profiles :: "WorkerView list \<Rightarrow> WorkerProfile list" where
  "loaded_profiles local_workers = List.map_filter wv_loaded_profile local_workers"

definition plan_warm ::
  "NodeId \<Rightarrow> ClusterView \<Rightarrow> WorkerProfile list \<Rightarrow> WorkerView list \<Rightarrow> WarmReadiness
   \<Rightarrow> (StyleId \<Rightarrow> u64 option) \<Rightarrow> (WarmSkip + WorkerProfile) option" where
  "plan_warm local cluster peer_recommendations local_workers readiness resolve_latest =
     (if wr_draining readiness then Some (Inl Draining)
      else if \<not> wr_accepts_new_renders readiness then Some (Inl NotAcceptingRenders)
      else if wr_warm_in_flight readiness then Some (Inl WarmInFlight)
      else if list_ex (\<lambda>worker. wv_queue_depth worker > 0) local_workers then Some (Inl QueuesBusy)
      else
        let free_slots = length (filter (\<lambda>worker. wv_loaded_profile worker = None) local_workers)
        in if free_slots \<le> wr_reserved_slots readiness then Some (Inl NoSpareSlot)
           else
             let candidate_keys = collect_keys peer_recommendations []
             in if length candidate_keys > MAX_CANDIDATE_PROFILES then Some (Inl CandidateSetTooLarge)
                else do {
                  best \<leftarrow> warm_loop local (warm_owners local cluster)
                            (loaded_profiles local_workers) resolve_latest candidate_keys None;
                  Some (case best of
                          Some (_, _, profile) \<Rightarrow> Inr profile
                        | None \<Rightarrow> Inl NoEligibleCandidate) })"

section \<open>Keys and owners\<close>

lemma collect_keys_set: "set (collect_keys ps ks) = set ks \<union> profile_key ` set ps"
  by (induction ps ks rule: collect_keys.induct) auto

lemma collect_keys_distinct: "distinct ks \<Longrightarrow> distinct (collect_keys ps ks)"
  by (induction ps ks rule: collect_keys.induct) auto

lemma local_is_owner: "local \<in> set (warm_owners local cluster)"
  by (auto simp: warm_owners_def Let_def)

lemma warm_owners_distinct: "distinct (cv_members cluster) \<Longrightarrow> distinct (warm_owners local cluster)"
  by (auto simp: warm_owners_def Let_def)

lemma revision_to_gossip_value_inj:
  assumes "revision_to_gossip_value r = revision_to_gossip_value r'"
  shows "r = (r' :: StyleRevision)"
proof -
  have digits: "CHR ''@'' \<notin> set (show_nat n)" for n
    by (rule show_nat_no_char) (simp add: char_digit_def)
  have split: "rsplit_once (CHR ''@'') (revision_to_gossip_value x)
      = Some (rev_id x, show_nat (unat (rev_version x)))" for x :: StyleRevision
    using rsplit_once_append [OF digits] by (simp add: revision_to_gossip_value_def)
  have "Some (rev_id r, show_nat (unat (rev_version r))) = Some (rev_id r', show_nat (unat (rev_version r')))"
    unfolding split [symmetric] assms ..
  then show ?thesis
    using show_nat_inj by (cases r; cases r') (auto simp: word_unat_eq_iff)
qed

definition warm_order :: "nat \<times> u64 \<times> WorkerProfile \<Rightarrow> nat \<times> u64 \<times> string \<times> u8 \<times> u8" where
  "warm_order c = (case c of (rank, inv_weight, profile) \<Rightarrow> (rank, inv_weight, warm_sort_key profile))"

lemma warm_sort_key_inj:
  assumes "warm_sort_key p = warm_sort_key q"
  shows "p = (q :: WorkerProfile)"
proof -
  have "wp_style p = wp_style q"
    using assms by (intro revision_to_gossip_value_inj) (simp add: warm_sort_key_def)
  moreover have "wp_render_mode p = wp_render_mode q" "wp_scale p = wp_scale q"
    using assms by (cases "wp_render_mode p"; cases "wp_render_mode q"; simp add: warm_sort_key_def)
      (use assms in \<open>cases "wp_scale p"; cases "wp_scale q"; simp add: warm_sort_key_def\<close>)
  ultimately show ?thesis by (cases p; cases q) simp
qed

lemma warm_order_inj: "warm_order c = warm_order c' \<Longrightarrow> c = c'"
  by (auto simp: warm_order_def split: prod.splits dest: warm_sort_key_inj)

section \<open>The selection loop\<close>

definition warm_profile :: "WarmKey \<Rightarrow> u64 \<Rightarrow> WorkerProfile" where
  "warm_profile key version = (case key of (style_id, render_mode, scale) \<Rightarrow>
     \<lparr>wp_style = \<lparr>rev_id = style_id, rev_version = version\<rparr>, wp_render_mode = render_mode,
      wp_scale = scale\<rparr>)"

definition warm_entry ::
  "NodeId \<Rightarrow> NodeId list \<Rightarrow> WorkerProfile list \<Rightarrow> (StyleId \<Rightarrow> u64 option) \<Rightarrow> WarmKey
   \<Rightarrow> (nat \<times> u64 \<times> WorkerProfile) option" where
  "warm_entry local owners loaded resolve key =
     (case resolve (fst key) of
        None \<Rightarrow> None
      | Some version \<Rightarrow>
          let profile = warm_profile key version
          in if profile \<in> set loaded then None
             else case warm_rank profile local owners of
                    None \<Rightarrow> None
                  | Some rank \<Rightarrow>
                      if rank > WARM_HRW_DEPTH then None
                      else Some (rank, 0xFFFFFFFFFFFFFFFF - hrw_weight profile local, profile))"

definition warm_pick ::
  "(nat \<times> u64 \<times> WorkerProfile) option \<Rightarrow> nat \<times> u64 \<times> WorkerProfile \<Rightarrow> (nat \<times> u64 \<times> WorkerProfile) option" where
  "warm_pick best cand = (if warm_better cand best then Some cand else best)"

lemma warm_better_order:
  "warm_better cand None" "warm_better cand (Some best) \<longleftrightarrow> warm_order cand < warm_order best"
  by (auto simp: warm_better_def warm_order_def split: prod.splits)

lemma warm_pick_simps:
  "warm_pick None cand = Some cand"
  "warm_pick (Some best) cand = Some (if warm_order cand < warm_order best then cand else best)"
  by (simp_all add: warm_pick_def warm_better_order)

lemma warm_rank_owner:
  assumes "local \<in> set owners"
  shows "warm_rank profile local owners \<noteq> None"
  using assms position_None [of "\<lambda>node. node = local" owners]
  by (cases "position (\<lambda>node. node = local) owners") (auto simp: warm_rank_def Let_def)

lemma warm_step_eq:
  assumes "local \<in> set owners"
  shows "warm_step local owners loaded resolve key best =
    Some (case warm_entry local owners loaded resolve key of
            None \<Rightarrow> best | Some cand \<Rightarrow> warm_pick best cand)"
  using warm_rank_owner [OF assms, of "warm_profile key (the (resolve (fst key)))"]
  by (cases key) (auto simp: warm_step_def warm_entry_def warm_profile_def warm_pick_def Let_def
      split: option.splits)

lemma warm_loop_eq:
  assumes "local \<in> set owners"
  shows "warm_loop local owners loaded resolve keys best =
    Some (foldl warm_pick best (List.map_filter (warm_entry local owners loaded resolve) keys))"
  by (induction keys arbitrary: best)
    (auto simp: warm_step_eq [OF assms] List.map_filter_simps split: option.splits)

lemma warm_pick_fold:
  "case foldl warm_pick best cs of
     None \<Rightarrow> best = None \<and> cs = []
   | Some c \<Rightarrow> c \<in> set_option best \<union> set cs \<and> (\<forall>y\<in>set_option best \<union> set cs. warm_order c \<le> warm_order y)"
proof (induction cs arbitrary: best)
  case Nil
  then show ?case by (cases best) auto
next
  case (Cons x cs)
  define b where "b = warm_pick best x"
  have some: "b \<noteq> None" "set_option b \<subseteq> insert x (set_option best)"
    unfolding b_def by (cases best; simp add: warm_pick_simps)+
  have least: "warm_order c \<le> warm_order y"
    if "\<forall>z\<in>set_option b. warm_order c \<le> warm_order z" "y \<in> insert x (set_option best)" for c y
  proof -
    obtain z where z: "b = Some z" using some(1) by blast
    then have "warm_order c \<le> warm_order z" using that(1) by simp
    also have "\<dots> \<le> warm_order y"
      using z that(2) unfolding b_def
      by (cases best) (auto simp: warm_pick_simps not_less split: if_splits)
    finally show ?thesis .
  qed
  have step: "foldl warm_pick best (x # cs) = foldl warm_pick b cs" by (simp add: b_def)
  show ?case
  proof (cases "foldl warm_pick b cs")
    case None
    then show ?thesis using Cons.IH [of b] some(1) by simp
  next
    case (Some c)
    then have ih: "c \<in> set_option b \<union> set cs" "\<forall>y\<in>set_option b \<union> set cs. warm_order c \<le> warm_order y"
      using Cons.IH [of b] by simp_all
    have "c \<in> set_option best \<union> set (x # cs)" using ih(1) some(2) by auto
    moreover have "warm_order c \<le> warm_order y" if "y \<in> set_option best \<union> set (x # cs)" for y
    proof (cases "y \<in> set cs")
      case True
      then show ?thesis using ih(2) by simp
    next
      case False
      then have "y \<in> insert x (set_option best)" using that by auto
      then show ?thesis using ih(2) by (intro least) simp_all
    qed
    ultimately show ?thesis unfolding step Some option.case by (intro conjI ballI)
  qed
qed

lemma warm_pick_fold_cong:
  assumes "set cs = set cs'"
  shows "foldl warm_pick None cs = foldl warm_pick None cs'"
  using warm_pick_fold [of None cs] warm_pick_fold [of None cs'] assms
  by (auto split: option.splits intro!: warm_order_inj antisym)

section \<open>Rank and rendezvous order\<close>

lemma warm_rank_stable:
  assumes "position (\<lambda>node. node = local) owners = Some p"
  shows "warm_rank profile local owners = Some (1 + stable_rank (hrw_key profile) owners p)"
proof -
  have "owners ! p = local" using position_Some [OF assms] by simp
  then show ?thesis
    using assms by (simp add: warm_rank_def warm_outranks_def [abs_def] stable_rank_def Let_def hrw_key_def word_less_nat_alt
        word_unat_eq_iff)
qed

lemma warm_rank_top:
  assumes "distinct owners" and "warm_rank profile local owners = Some rank"
  shows "rank \<le> k \<longleftrightarrow> local \<in> set (take k (sort_key (hrw_key profile) owners))"
proof -
  obtain p where p: "position (\<lambda>node. node = local) owners = Some p"
    using assms(2) by (auto simp: warm_rank_def Let_def bind_eq_Some_conv)
  have "rank = 1 + stable_rank (hrw_key profile) owners p"
    using warm_rank_stable [OF p] assms(2) by simp
  moreover have "p < length owners" "owners ! p = local" using position_Some [OF p] by simp_all
  ultimately show ?thesis
    using take_sort_key_iff_rank [OF assms(1), of p k "hrw_key profile"] by auto
qed

section \<open>Properties\<close>

lemma plan_warm_open:
  assumes "\<not> wr_draining rd" "wr_accepts_new_renders rd" "\<not> wr_warm_in_flight rd"
    "\<not> list_ex (\<lambda>w. wv_queue_depth w > 0) ws"
    "wr_reserved_slots rd < length (filter (\<lambda>w. wv_loaded_profile w = None) ws)"
  shows "plan_warm local cluster recs ws rd resolve =
    (if card (profile_key ` set recs) > MAX_CANDIDATE_PROFILES then Some (Inl CandidateSetTooLarge)
     else Some (case foldl warm_pick None (List.map_filter
                  (warm_entry local (warm_owners local cluster) (loaded_profiles ws) resolve)
                  (collect_keys recs [])) of
                  Some (_, _, profile) \<Rightarrow> Inr profile | None \<Rightarrow> Inl NoEligibleCandidate))"
proof -
  have "length (collect_keys recs []) = card (profile_key ` set recs)"
    using distinct_card [OF collect_keys_distinct [of "[]" recs]] by (simp add: collect_keys_set)
  then show ?thesis
    using assms by (simp add: plan_warm_def Let_def warm_loop_eq [OF local_is_owner])
qed

lemma plan_warm_Inr_open:
  assumes "plan_warm local cluster recs ws rd resolve = Some (Inr p)"
  shows "\<not> wr_draining rd" "wr_accepts_new_renders rd" "\<not> wr_warm_in_flight rd"
    "\<not> list_ex (\<lambda>w. wv_queue_depth w > 0) ws"
    "wr_reserved_slots rd < length (filter (\<lambda>w. wv_loaded_profile w = None) ws)"
  using assms by (auto simp: plan_warm_def Let_def split: if_splits)

text \<open>C32: A node warms a profile only on spare capacity and only one it owns.  If the planner returns
  a profile, the node is serving, has no warm operation in flight, every local queue is empty and
  more slots are free than are reserved; the profile was recommended by a peer, carries the revision
  the local catalog resolves, is not loaded already, and the local node is among its first two owners
  in the order the dispatcher uses.\<close>

theorem plan_warm_sound:
  assumes "distinct (cv_members cluster)"
    and "plan_warm local cluster recs ws rd resolve = Some (Inr p)"
  shows "\<not> wr_draining rd \<and> wr_accepts_new_renders rd \<and> \<not> wr_warm_in_flight rd
    \<and> (\<forall>w\<in>set ws. wv_queue_depth w = 0)
    \<and> wr_reserved_slots rd < length (filter (\<lambda>w. wv_loaded_profile w = None) ws)
    \<and> profile_key p \<in> profile_key ` set recs
    \<and> resolve (rev_id (wp_style p)) = Some (rev_version (wp_style p))
    \<and> (\<forall>w\<in>set ws. wv_loaded_profile w \<noteq> Some p)
    \<and> local \<in> set (take WARM_HRW_DEPTH (sort_key (hrw_key p) (warm_owners local cluster)))"
proof -
  note gates = plan_warm_Inr_open [OF assms(2)]
  let ?owners = "warm_owners local cluster" and ?loaded = "loaded_profiles ws"
  let ?entries = "List.map_filter (warm_entry local ?owners ?loaded resolve) (collect_keys recs [])"
  obtain r i where "foldl warm_pick None ?entries = Some (r, i, p)"
    using assms(2) unfolding plan_warm_open [OF gates] by (auto split: if_splits option.splits)
  then have "(r, i, p) \<in> set ?entries" using warm_pick_fold [of None ?entries] by simp
  then obtain key where key: "key \<in> profile_key ` set recs"
      "warm_entry local ?owners ?loaded resolve key = Some (r, i, p)"
    unfolding set_map_filter collect_keys_set list.set Un_empty_left by blast
  then obtain version where v: "resolve (fst key) = Some version" "p = warm_profile key version"
      "p \<notin> set ?loaded" "warm_rank p local ?owners = Some r" "r \<le> WARM_HRW_DEPTH"
    by (auto simp: warm_entry_def Let_def split: option.splits if_splits)
  have "local \<in> set (take WARM_HRW_DEPTH (sort_key (hrw_key p) ?owners))"
    using warm_rank_top [OF warm_owners_distinct [OF assms(1)] v(4)] v(5) by simp
  moreover have "profile_key p = key" "rev_id (wp_style p) = fst key" "rev_version (wp_style p) = version"
    by (cases key; simp add: v(2) warm_profile_def profile_key_def)+
  moreover have "\<forall>w\<in>set ws. wv_loaded_profile w \<noteq> Some p"
    using v(3) by (auto simp: loaded_profiles_def set_map_filter)
  ultimately show ?thesis using gates key(1) v(1) by (auto simp: list_ex_iff)
qed

theorem plan_warm_sound_witness:
  "plan_warm ''a'' (example_cluster [example_node ''a'' [], example_node ''b'' []])
     [example_profile 3] [example_worker 0 None 0, example_worker 1 None 0]
     \<lparr>wr_draining = False, wr_accepts_new_renders = True, wr_warm_in_flight = False, wr_reserved_slots = 1\<rparr>
     (\<lambda>_. Some 7) = Some (Inr (example_profile 7))
   \<and> ''a'' \<in> set (take WARM_HRW_DEPTH (sort_key (hrw_key (example_profile 7))
        (warm_owners ''a'' (example_cluster [example_node ''a'' [], example_node ''b'' []]))))"
proof -
  let ?c = "example_cluster [example_node ''a'' [], example_node ''b'' []]"
  have eq: "plan_warm ''a'' ?c [example_profile 3] [example_worker 0 None 0, example_worker 1 None 0]
     \<lparr>wr_draining = False, wr_accepts_new_renders = True, wr_warm_in_flight = False, wr_reserved_slots = 1\<rparr>
     (\<lambda>_. Some 7) = Some (Inr (example_profile 7))"
    by (simp add: plan_warm_def Let_def example_cluster_def example_node_def example_worker_def
        example_profile_def warm_owners_def profile_key_def warm_step_def warm_rank_def
        warm_outranks_def warm_better_def loaded_profiles_def List.map_filter_def
        MAX_CANDIDATE_PROFILES_def WARM_HRW_DEPTH_def)
  have "distinct (cv_members ?c)" by (simp add: example_cluster_def example_node_def)
  from plan_warm_sound [OF this eq] eq show ?thesis by simp
qed

text \<open>The plan does not depend on the order or the multiplicity in which peers are heard: two
  recommendation lists with the same profiles give the same plan, and no plan panics.\<close>

theorem plan_warm_order_independent:
  assumes "set recs = set recs'"
  shows "plan_warm local cluster recs ws rd resolve = plan_warm local cluster recs' ws rd resolve
    \<and> plan_warm local cluster recs ws rd resolve \<noteq> None"
proof (cases "\<not> wr_draining rd \<and> wr_accepts_new_renders rd \<and> \<not> wr_warm_in_flight rd
    \<and> \<not> list_ex (\<lambda>w. wv_queue_depth w > 0) ws
    \<and> wr_reserved_slots rd < length (filter (\<lambda>w. wv_loaded_profile w = None) ws)")
  case True
  let ?e = "warm_entry local (warm_owners local cluster) (loaded_profiles ws) resolve"
  have "foldl warm_pick None (List.map_filter ?e (collect_keys recs []))
      = foldl warm_pick None (List.map_filter ?e (collect_keys recs' []))"
    by (rule warm_pick_fold_cong) (simp add: set_map_filter collect_keys_set assms)
  then show ?thesis using True by (simp add: plan_warm_open assms)
next
  case False
  then show ?thesis by (auto simp: plan_warm_def Let_def)
qed

theorem plan_warm_order_independent_witness:
  "plan_warm ''a'' (example_cluster [example_node ''a'' []]) [example_profile 3, example_profile 4]
     [example_worker 0 None 0] \<lparr>wr_draining = False, wr_accepts_new_renders = True,
       wr_warm_in_flight = False, wr_reserved_slots = 0\<rparr> (\<lambda>_. Some 7)
   = plan_warm ''a'' (example_cluster [example_node ''a'' []])
       [example_profile 4, example_profile 3, example_profile 4]
       [example_worker 0 None 0] \<lparr>wr_draining = False, wr_accepts_new_renders = True,
         wr_warm_in_flight = False, wr_reserved_slots = 0\<rparr> (\<lambda>_. Some 7)"
  by (rule plan_warm_order_independent [THEN conjunct1]) auto

end
