(* ===== verification/Recency.thy ===== *)
theory Recency
  imports Prelude
begin

text \<open>
  Least-recently-used lists.  A provider gives the operation that touches a key under a capacity and
  shows that it moves the key to the back and drops keys from the front; the locale concludes that
  a sequence of touches leaves exactly the most recently touched distinct keys, oldest first.
\<close>

definition last_n :: "nat \<Rightarrow> 'a list \<Rightarrow> 'a list" where
  "last_n n xs = drop (length xs - n) xs"

definition lru_touch :: "nat \<Rightarrow> 'k \<Rightarrow> 'k list \<Rightarrow> 'k list" where
  "lru_touch cap k q = last_n cap (filter (\<lambda>x. x \<noteq> k) q @ [k])"

lemma length_last_n [simp]: "length (last_n n xs) = min n (length xs)"
  by (simp add: last_n_def)

lemma set_last_n_subset: "set (last_n n xs) \<subseteq> set xs"
  by (simp add: last_n_def set_drop_subset)

lemma distinct_last_n: "distinct xs \<Longrightarrow> distinct (last_n n xs)"
  by (simp add: last_n_def)

lemma last_n_all: "length xs \<le> n \<Longrightarrow> last_n n xs = xs"
  by (simp add: last_n_def)

lemma last_n_append: "n \<le> length ys \<Longrightarrow> last_n n (xs @ ys) = last_n n ys"
  by (simp add: last_n_def)

lemma last_n_split: "xs = take (length xs - n) xs @ last_n n xs"
  by (simp add: last_n_def)

lemma last_n_snoc: "0 < n \<Longrightarrow> last_n n (xs @ [x]) = last_n (n - 1) xs @ [x]"
  by (cases n) (simp_all add: last_n_def)

lemma length_filter_neq: "distinct xs \<Longrightarrow> length xs - 1 \<le> length (filter (\<lambda>x. x \<noteq> k) xs)"
proof (induction xs)
  case (Cons x xs)
  show ?case
  proof (cases "x = k")
    case True
    then have "filter (\<lambda>x. x \<noteq> k) xs = xs" using Cons.prems by (auto simp: filter_id_conv)
    then show ?thesis using True by simp
  next
    case False
    then show ?thesis using Cons by (cases xs) auto
  qed
qed simp

lemma remdups_snoc: "remdups (ks @ [k]) = filter (\<lambda>x. x \<noteq> k) (remdups ks) @ [k]"
  by (induction ks) auto

lemma lru_touch_last_n:
  assumes "distinct r" and "0 < cap"
  shows "lru_touch cap k (last_n cap r) = last_n cap (filter (\<lambda>x. x \<noteq> k) r @ [k])"
proof (cases "length r \<le> cap")
  case True
  then show ?thesis by (simp add: lru_touch_def last_n_all)
next
  case False
  let ?old = "take (length r - cap) r" and ?new = "last_n cap r"
  have "cap - 1 \<le> length (filter (\<lambda>x. x \<noteq> k) ?new)"
    using length_filter_neq [OF distinct_last_n [OF assms(1)], of cap k] False by simp
  then have "cap \<le> length (filter (\<lambda>x. x \<noteq> k) ?new @ [k])" using assms(2) by simp
  then have "last_n cap (filter (\<lambda>x. x \<noteq> k) ?old @ filter (\<lambda>x. x \<noteq> k) ?new @ [k])
      = last_n cap (filter (\<lambda>x. x \<noteq> k) ?new @ [k])" by (rule last_n_append)
  moreover have "filter (\<lambda>x. x \<noteq> k) r = filter (\<lambda>x. x \<noteq> k) ?old @ filter (\<lambda>x. x \<noteq> k) ?new"
    by (metis filter_append last_n_split)
  ultimately show ?thesis by (simp add: lru_touch_def)
qed

section \<open>The interface\<close>

locale recency_list =
  fixes cap :: nat and touch :: "'k \<Rightarrow> 'k list \<Rightarrow> 'k list"
  assumes cap_pos: "0 < cap"
    and touch: "distinct q \<Longrightarrow> length q \<le> cap \<Longrightarrow> touch k q = lru_touch cap k q"
begin

lemma touch_distinct: "distinct q \<Longrightarrow> length q \<le> cap \<Longrightarrow> distinct (touch k q)"
  by (simp add: touch lru_touch_def distinct_last_n)

lemma touch_length: "distinct q \<Longrightarrow> length q \<le> cap \<Longrightarrow> length (touch k q) \<le> cap"
  by (simp add: touch lru_touch_def)

lemma touch_most_recent: "distinct q \<Longrightarrow> length q \<le> cap \<Longrightarrow> touch k q \<noteq> [] \<and> last (touch k q) = k"
  using cap_pos by (simp add: touch lru_touch_def last_n_snoc)

lemma touch_subset: "distinct q \<Longrightarrow> length q \<le> cap \<Longrightarrow> set (touch k q) \<subseteq> insert k (set q)"
  using set_last_n_subset [of cap "filter (\<lambda>x. x \<noteq> k) q @ [k]"]
  by (auto simp: touch lru_touch_def)

lemma touches_most_recent: "foldl (\<lambda>q k. touch k q) [] ks = last_n cap (remdups ks)"
proof (induction ks rule: rev_induct)
  case Nil
  then show ?case by (simp add: last_n_def)
next
  case (snoc k ks)
  have "touch k (last_n cap (remdups ks)) = lru_touch cap k (last_n cap (remdups ks))"
    by (rule touch) (simp_all add: distinct_last_n)
  also have "\<dots> = last_n cap (remdups (ks @ [k]))"
    unfolding remdups_snoc by (rule lru_touch_last_n) (simp_all add: cap_pos)
  finally show ?case by (simp add: snoc.IH)
qed

end

end
