(* ===== verification/Worker_Outcomes.thy ===== *)
theory Worker_Outcomes
  imports Domain_Types
begin

text \<open>
  The outcomes a worker reports, from \<^verbatim>\<open>crates/biei-core/src/worker.rs\<close>: every outcome carries
  the identity and timing header of its task.
\<close>

definition outcome_for :: "InternalTask \<Rightarrow> bool \<Rightarrow> TaskResult \<Rightarrow> TaskOutcome" where
  "outcome_for task had_source result =
     \<lparr>to_task_id = it_id task, to_request_id = it_request_id task, to_arrived_at = it_arrived_at task,
      to_had_source = had_source, to_deadline_stage = None, to_result = result\<rparr>"

definition response_timeout_outcome :: "InternalTask \<Rightarrow> TaskOutcome" where
  "response_timeout_outcome task =
     \<lparr>to_task_id = it_id task, to_request_id = it_request_id task, to_arrived_at = it_arrived_at task,
      to_had_source = has_source task, to_deadline_stage = None,
      to_result = Failed (renderer_error_to_string Timeout) RenderTimeout\<rparr>"

definition failed_outcome :: "InternalTask \<Rightarrow> bool \<Rightarrow> RendererError \<Rightarrow> TaskOutcome" where
  "failed_outcome task had_source error =
     outcome_for task had_source (Failed (renderer_error_to_string error) (from_renderer_error error))"

definition rejected_outcome :: "InternalTask \<Rightarrow> bool \<Rightarrow> RejectionReason \<Rightarrow> TaskOutcome" where
  "rejected_outcome task had_source reason = outcome_for task had_source (Rejected reason)"

definition deadline_rejected_outcome :: "InternalTask \<Rightarrow> bool \<Rightarrow> DeadlineStage \<Rightarrow> TaskOutcome" where
  "deadline_rejected_outcome task had_source stage =
     (rejected_outcome task had_source DeadlineExceeded)\<lparr>to_deadline_stage := Some stage\<rparr>"

end
