(* ===== verification/Worker_Pool.thy ===== *)
theory Worker_Pool
  imports Gossip_Codec Node_Config Recency Transition Worker_Outcomes "HOL-Library.Option_ord" "HOL-Library.Product_Lexorder"
begin

text \<open>
  The pool of renderer slots, the model of \<^verbatim>\<open>crates/biei-core/src/worker_pool.rs\<close> and of the
  prepared profile of \<^verbatim>\<open>crates/biei-core/src/renderer/mod.rs\<close>.  The pool's shared state is a
  record; an operation that locks the state or touches an atomic is a function from the record to
  the record.  The retry loop of a reservation is also given as a step relation, in which the steps
  of many callers interleave with each other, with completions and with changes of availability.
\<close>

section \<open>Data\<close>

record PreparedProfile =
  pp_revision :: StyleRevision
  pp_authorization_partition :: "CredentialCachePartition option"
  pp_style_json :: string
  pp_addlayer_source :: "AddLayerSource option"

datatype PickTier =
  WarmComfort | Fresh | WarmFull | AllocSwapIdle | WarmOverflow | WarmSaturated | ShortestQueue

text \<open>The derived order of the enumeration is the order of its variants.\<close>

fun pick_tier_index :: "PickTier \<Rightarrow> nat" where
  "pick_tier_index WarmComfort = 0"
| "pick_tier_index Fresh = 1"
| "pick_tier_index WarmFull = 2"
| "pick_tier_index AllocSwapIdle = 3"
| "pick_tier_index WarmOverflow = 4"
| "pick_tier_index WarmSaturated = 5"
| "pick_tier_index ShortestQueue = 6"

lemma pick_tier_index_inj: "pick_tier_index a = pick_tier_index b \<Longrightarrow> a = b"
  by (cases a; cases b; simp)

instantiation PickTier :: linorder
begin

definition less_eq_PickTier :: "PickTier \<Rightarrow> PickTier \<Rightarrow> bool" where
  "less_eq_PickTier a b \<longleftrightarrow> pick_tier_index a \<le> pick_tier_index b"

definition less_PickTier :: "PickTier \<Rightarrow> PickTier \<Rightarrow> bool" where
  "less_PickTier a b \<longleftrightarrow> pick_tier_index a < pick_tier_index b"

instance
  by standard (auto simp: less_eq_PickTier_def less_PickTier_def intro: pick_tier_index_inj)

end

record PickScore =
  sc_tier :: PickTier
  sc_source_miss :: bool
  sc_queue_depth :: nat
  sc_protected_singleton :: bool
  sc_shape_mismatch :: bool
  sc_profile_count :: reverse
  sc_last_seen :: "instant option"

text \<open>The derived order of the structure compares its fields in order.\<close>

definition pick_score_order ::
  "PickScore \<Rightarrow> PickTier \<times> bool \<times> nat \<times> bool \<times> bool \<times> reverse \<times> instant option" where
  "pick_score_order s =
     (sc_tier s, sc_source_miss s, sc_queue_depth s, sc_protected_singleton s, sc_shape_mismatch s,
      sc_profile_count s, sc_last_seen s)"

record PoolState =
  ps_loaded :: "WorkerProfile option list"
  ps_dispatch_generations :: "u64 list"
  ps_profile_counts :: "WorkerProfile \<rightharpoonup> nat"
  ps_last_used :: "instant option list"
  ps_addlayer_source_ids :: "string set list"
  ps_addlayer_source_lru :: "string list list"

record PickContext =
  pc_loaded :: "WorkerProfile option list"
  pc_addlayer_source_ids :: "string set list"
  pc_incoming_addlayer_source_id :: "string option"
  pc_incoming_profile :: WorkerProfile
  pc_bl_capacity :: nat
  pc_queue_capacity :: nat
  pc_profile_counts :: "WorkerProfile \<rightharpoonup> nat"
  pc_last_used :: "instant option list"

record WorkerCompletion =
  wk_worker_idx :: nat
  wk_dispatch_generation :: u64
  wk_clear_loaded_on_drop :: bool

text \<open>
  The handles of the workers are two lists, their queue depths and availability flags; the two
  semaphores are their numbers of available permits.
\<close>

record WorkerPool =
  pool_queue_depths :: "nat list"
  pool_available :: "bool list"
  pool_state :: PoolState
  pool_bl_capacity :: nat
  pool_queue_capacity :: nat
  pool_render_permits :: nat
  pool_render_permit_sem :: nat
  pool_native_render_permits :: nat
  pool_native_render_permit_sem :: nat

section \<open>Pool state\<close>

definition pool_state_new :: "nat \<Rightarrow> PoolState" where
  "pool_state_new n =
     \<lparr>ps_loaded = replicate n None, ps_dispatch_generations = replicate n 0,
      ps_profile_counts = Map.empty, ps_last_used = replicate n None,
      ps_addlayer_source_ids = replicate n {}, ps_addlayer_source_lru = replicate n []\<rparr>"

definition decrement_profile_count :: "WorkerProfile \<Rightarrow> PoolState \<Rightarrow> PoolState" where
  "decrement_profile_count profile s =
     (case ps_profile_counts s profile of
        Some count \<Rightarrow>
          s\<lparr>ps_profile_counts := (ps_profile_counts s)
              (profile := (if count - 1 = 0 then None else Some (count - 1)))\<rparr>
      | None \<Rightarrow> s)"

definition clear_addlayer_sources :: "nat \<Rightarrow> PoolState \<Rightarrow> PoolState" where
  "clear_addlayer_sources idx s =
     s\<lparr>ps_addlayer_source_ids := (ps_addlayer_source_ids s)[idx := {}],
       ps_addlayer_source_lru := (ps_addlayer_source_lru s)[idx := []]\<rparr>"

text \<open>\<open>self.loaded[idx].take()\<close> with the count of the previous profile released.\<close>

definition take_loaded :: "nat \<Rightarrow> PoolState \<Rightarrow> PoolState" where
  "take_loaded idx s =
     (case ps_loaded s ! idx of
        Some previous \<Rightarrow>
          decrement_profile_count previous (s\<lparr>ps_loaded := (ps_loaded s)[idx := None]\<rparr>)
      | None \<Rightarrow> s)"

definition increment_profile_count :: "WorkerProfile \<Rightarrow> PoolState \<Rightarrow> PoolState" where
  "increment_profile_count profile s =
     s\<lparr>ps_profile_counts := (ps_profile_counts s)
        (profile \<mapsto> (case ps_profile_counts s profile of Some n \<Rightarrow> n | None \<Rightarrow> 0) + 1)\<rparr>"

definition mark_loaded :: "instant \<Rightarrow> nat \<Rightarrow> WorkerProfile \<Rightarrow> PoolState \<Rightarrow> u64 \<times> PoolState" where
  "mark_loaded now idx profile s =
     (let generation = ps_dispatch_generations s ! idx + 1;
          s1 = s\<lparr>ps_dispatch_generations := (ps_dispatch_generations s)[idx := generation],
                 ps_last_used := (ps_last_used s)[idx := Some now]\<rparr>
      in if ps_loaded s1 ! idx = Some profile then (generation, s1)
         else
           let s2 = increment_profile_count profile
                      (clear_addlayer_sources idx (take_loaded idx s1))
           in (generation, s2\<lparr>ps_loaded := (ps_loaded s2)[idx := Some profile]\<rparr>))"

definition ADDLAYER_SOURCE_AFFINITY_CAPACITY :: nat where
  "ADDLAYER_SOURCE_AFFINITY_CAPACITY = 64"

text \<open>The eviction loop: while the set is full and the queue has a front.\<close>

fun evict_affinity :: "nat \<Rightarrow> string set \<Rightarrow> string list \<Rightarrow> string set \<times> string list" where
  "evict_affinity cap ids [] = (ids, [])"
| "evict_affinity cap ids (evicted # lru) =
     (if card ids \<ge> cap then evict_affinity cap (ids - {evicted}) lru else (ids, evicted # lru))"

definition touch_affinity :: "nat \<Rightarrow> string \<Rightarrow> string set \<Rightarrow> string list \<Rightarrow> string set \<times> string list" where
  "touch_affinity cap source_id ids lru =
     (if source_id \<in> ids then (ids, filter (\<lambda>cached. cached \<noteq> source_id) lru @ [source_id])
      else case evict_affinity cap ids lru of
             (ids', lru') \<Rightarrow> (insert source_id ids', lru' @ [source_id]))"

definition mark_addlayer_source :: "nat \<Rightarrow> string \<Rightarrow> PoolState \<Rightarrow> PoolState" where
  "mark_addlayer_source idx source_id s =
     (case touch_affinity ADDLAYER_SOURCE_AFFINITY_CAPACITY source_id
             (ps_addlayer_source_ids s ! idx) (ps_addlayer_source_lru s ! idx) of
        (ids, lru) \<Rightarrow>
          s\<lparr>ps_addlayer_source_ids := (ps_addlayer_source_ids s)[idx := ids],
            ps_addlayer_source_lru := (ps_addlayer_source_lru s)[idx := lru]\<rparr>)"

definition clear_loaded :: "nat \<Rightarrow> PoolState \<Rightarrow> PoolState" where
  "clear_loaded idx s =
     (let s1 = take_loaded idx s
      in clear_addlayer_sources idx (s1\<lparr>ps_last_used := (ps_last_used s1)[idx := None]\<rparr>))"

definition clear_loaded_if_latest :: "nat \<Rightarrow> u64 \<Rightarrow> PoolState \<Rightarrow> PoolState" where
  "clear_loaded_if_latest idx dispatch_generation s =
     (if ps_dispatch_generations s ! idx = dispatch_generation then clear_loaded idx s else s)"

section \<open>Completion guards\<close>

definition completion_new :: "nat \<Rightarrow> u64 \<Rightarrow> WorkerCompletion" where
  "completion_new idx dispatch_generation =
     \<lparr>wk_worker_idx = idx, wk_dispatch_generation = dispatch_generation,
      wk_clear_loaded_on_drop = True\<rparr>"

definition completion_drop :: "WorkerCompletion \<Rightarrow> WorkerPool \<Rightarrow> WorkerPool" where
  "completion_drop c pool =
     (let idx = wk_worker_idx c;
          pool1 = (if wk_clear_loaded_on_drop c
                   then pool\<lparr>pool_state :=
                     clear_loaded_if_latest idx (wk_dispatch_generation c) (pool_state pool)\<rparr>
                   else pool)
      in pool1\<lparr>pool_queue_depths :=
           (pool_queue_depths pool1)[idx := pool_queue_depths pool1 ! idx - 1]\<rparr>)"

fun unsuccessful :: "TaskResult \<Rightarrow> bool" where
  "unsuccessful (Completed _ _) = False"
| "unsuccessful (Rejected _) = True"
| "unsuccessful (Failed _ _) = True"

text \<open>\<open>finish\<close> consumes the guard, so its drop runs at the end.\<close>

definition completion_finish :: "WorkerCompletion \<Rightarrow> TaskOutcome \<Rightarrow> WorkerPool \<Rightarrow> WorkerPool" where
  "completion_finish c outcome pool =
     (let pool1 = (if unsuccessful (to_result outcome)
                   then pool\<lparr>pool_state := clear_loaded_if_latest (wk_worker_idx c)
                          (wk_dispatch_generation c) (pool_state pool)\<rparr>
                   else pool)
      in completion_drop (c\<lparr>wk_clear_loaded_on_drop := False\<rparr>) pool1)"

section \<open>Snapshots\<close>

definition snapshot_kvs :: "WorkerPool \<Rightarrow> NodeKvs" where
  "snapshot_kvs pool =
     foldl (\<lambda>out (i, depth). encode_worker_kvs out (word_of_nat i) (ps_loaded (pool_state pool) ! i) depth)
       [] (enumerate 0 (pool_queue_depths pool))"

definition snapshot_workers :: "WorkerPool \<Rightarrow> WorkerView list" where
  "snapshot_workers pool =
     map (\<lambda>(i, depth). \<lparr>wv_id = word_of_nat i, wv_loaded_profile = ps_loaded (pool_state pool) ! i,
                         wv_queue_depth = depth\<rparr>)
       (enumerate 0 (pool_queue_depths pool))"

section \<open>The pool\<close>

text \<open>
  \<open>spawn\<close>: the list gives the availability each renderer reports; starting the worker tasks has
  no effect on the pool's state.
\<close>

definition worker_pool_spawn :: "bool list \<Rightarrow> nat \<Rightarrow> nat \<Rightarrow> nat \<Rightarrow> nat \<Rightarrow> WorkerPool" where
  "worker_pool_spawn renderers bl_capacity queue_capacity render_permits native_render_permits =
     (let n = length renderers;
          permits = min (max render_permits 1) (max n 1);
          native_permits = min (max native_render_permits 1) permits
      in \<lparr>pool_queue_depths = replicate n 0, pool_available = renderers,
          pool_state = pool_state_new n, pool_bl_capacity = bl_capacity,
          pool_queue_capacity = max queue_capacity bl_capacity,
          pool_render_permits = permits, pool_render_permit_sem = permits,
          pool_native_render_permits = native_permits,
          pool_native_render_permit_sem = native_permits\<rparr>)"

definition render_permits_inuse :: "WorkerPool \<Rightarrow> nat" where
  "render_permits_inuse pool = pool_render_permits pool - pool_render_permit_sem pool"

definition native_render_permits_inuse :: "WorkerPool \<Rightarrow> nat" where
  "native_render_permits_inuse pool =
     pool_native_render_permits pool - pool_native_render_permit_sem pool"

definition has_available_worker :: "WorkerPool \<Rightarrow> bool" where
  "has_available_worker pool = list_ex (\<lambda>b. b) (pool_available pool)"

definition pick_tier :: "PickContext \<Rightarrow> nat \<Rightarrow> nat \<Rightarrow> PickTier" where
  "pick_tier ctx idx queue_depth =
     (let loaded_profile = pc_loaded ctx ! idx;
          warm = (loaded_profile = Some (pc_incoming_profile ctx));
          expand_threshold = max (usize_wrapping_mul (pc_bl_capacity ctx) 2 div 3) 1
      in case loaded_profile of
           None \<Rightarrow> Fresh
         | Some profile \<Rightarrow>
             if warm \<and> queue_depth < expand_threshold then WarmComfort
             else if warm \<and> queue_depth < pc_bl_capacity ctx then WarmFull
             else if profile \<noteq> pc_incoming_profile ctx \<and> queue_depth = 0 then AllocSwapIdle
             else if warm \<and> queue_depth < pc_queue_capacity ctx then WarmOverflow
             else if warm then WarmSaturated
             else ShortestQueue)"

definition pick_score :: "PickContext \<Rightarrow> nat \<Rightarrow> nat \<Rightarrow> PickScore" where
  "pick_score ctx idx queue_depth =
     (let tier = pick_tier ctx idx queue_depth;
          (protected_singleton, shape_mismatch, profile_count, last_seen) =
            (case (tier, pc_loaded ctx ! idx) of
               (AllocSwapIdle, Some profile) \<Rightarrow>
                 (let count = (case pc_profile_counts ctx profile of Some n \<Rightarrow> n | None \<Rightarrow> 0)
                  in (count \<le> 1,
                      wp_render_mode profile \<noteq> wp_render_mode (pc_incoming_profile ctx)
                        \<or> wp_scale profile \<noteq> wp_scale (pc_incoming_profile ctx),
                      Reverse count, pc_last_used ctx ! idx))
             | _ \<Rightarrow> (False, False, Reverse usize_max, None));
          source_miss = (case pc_incoming_addlayer_source_id ctx of
                           Some i \<Rightarrow> i \<notin> pc_addlayer_source_ids ctx ! idx
                         | None \<Rightarrow> False)
      in \<lparr>sc_tier = tier, sc_source_miss = source_miss, sc_queue_depth = queue_depth,
          sc_protected_singleton = protected_singleton, sc_shape_mismatch = shape_mismatch,
          sc_profile_count = profile_count, sc_last_seen = last_seen\<rparr>)"

definition pick_context :: "WorkerPool \<Rightarrow> InternalTask \<Rightarrow> string option \<Rightarrow> PickContext" where
  "pick_context pool task addlayer_source_id =
     (let s = pool_state pool
      in \<lparr>pc_loaded = ps_loaded s, pc_addlayer_source_ids = ps_addlayer_source_ids s,
          pc_incoming_addlayer_source_id = addlayer_source_id,
          pc_incoming_profile = worker_profile task, pc_bl_capacity = pool_bl_capacity pool,
          pc_queue_capacity = pool_queue_capacity pool, pc_profile_counts = ps_profile_counts s,
          pc_last_used = ps_last_used s\<rparr>)"

definition eligible_worker :: "WorkerPool \<Rightarrow> nat \<Rightarrow> bool" where
  "eligible_worker pool idx =
     (pool_available pool ! idx \<and> pool_queue_depths pool ! idx < pool_queue_capacity pool)"

definition best_available_worker :: "WorkerPool \<Rightarrow> InternalTask \<Rightarrow> string option \<Rightarrow> nat option" where
  "best_available_worker pool task addlayer_source_id =
     (let ctx = pick_context pool task addlayer_source_id
      in min_by_key (\<lambda>idx. pick_score_order (pick_score ctx idx (pool_queue_depths pool ! idx)))
           (filter (eligible_worker pool) [0..<length (pool_queue_depths pool)]))"

text \<open>
  \<open>try_reserve\<close> without interference: the exchange succeeds and the second look at the flag
  sees the first value.
\<close>

definition try_reserve :: "nat \<Rightarrow> WorkerPool \<Rightarrow> nat option \<times> WorkerPool" where
  "try_reserve idx pool =
     (if \<not> pool_available pool ! idx then (None, pool)
      else
        let current = pool_queue_depths pool ! idx
        in if current \<ge> pool_queue_capacity pool then (None, pool)
           else (Some current,
                 pool\<lparr>pool_queue_depths := (pool_queue_depths pool)[idx := current + 1]\<rparr>))"

partial_function (option) reserve_best_available ::
  "InternalTask \<Rightarrow> string option \<Rightarrow> WorkerPool \<Rightarrow> ((nat \<times> nat) option \<times> WorkerPool) option" where
  "reserve_best_available task addlayer_source_id pool =
     (case best_available_worker pool task addlayer_source_id of
        None \<Rightarrow> Some (None, pool)
      | Some idx \<Rightarrow>
          (case try_reserve idx pool of
             (Some depth, pool') \<Rightarrow> Some (Some (idx, depth), pool')
           | (None, pool') \<Rightarrow> reserve_best_available task addlayer_source_id pool'))"

section \<open>Processing a task\<close>

datatype WorkerReply = Outcome TaskOutcome | Redispatch InternalTask "PreparedProfile option"

text \<open>What ends the wait of a dispatched command.\<close>

datatype WaitEvent = Replied WorkerReply | Disconnected | DeadlinePassed | SendFailed

definition prepared_source_id ::
  "(string \<Rightarrow> string \<Rightarrow> u64) \<Rightarrow> PreparedProfile option \<Rightarrow> string option" where
  "prepared_source_id hasher prepared =
     (case prepared of
        Some pp \<Rightarrow> map_option (stable_source_id hasher) (pp_addlayer_source pp)
      | None \<Rightarrow> None)"

text \<open>The reservation of \<open>process\<close>: the hinted worker, or the best one.\<close>

definition reserve_worker ::
  "WorkerId option \<Rightarrow> InternalTask \<Rightarrow> string option \<Rightarrow> WorkerPool \<Rightarrow> ((nat \<times> nat) option \<times> WorkerPool) option" where
  "reserve_worker worker_hint task addlayer_source_id pool =
     (case worker_hint of
        Some wid \<Rightarrow>
          if unat wid < length (pool_queue_depths pool) then
            (case try_reserve (unat wid) pool of
               (Some depth, pool') \<Rightarrow> Some (Some (unat wid, depth), pool')
             | (None, pool') \<Rightarrow> Some (None, pool'))
          else reserve_best_available task addlayer_source_id pool
      | None \<Rightarrow> reserve_best_available task addlayer_source_id pool)"

text \<open>The commit of a reservation: the predicted profile and source, and the completion guard.\<close>

definition commit_reservation ::
  "instant \<Rightarrow> InternalTask \<Rightarrow> string option \<Rightarrow> nat \<Rightarrow> WorkerPool \<Rightarrow> WorkerCompletion \<times> WorkerPool" where
  "commit_reservation now task addlayer_source_id idx pool =
     (let (generation, s1) = mark_loaded now idx (worker_profile task) (pool_state pool);
          s2 = (case addlayer_source_id of
                  Some source_id \<Rightarrow> mark_addlayer_source idx source_id s1 | None \<Rightarrow> s1)
      in (completion_new idx generation, pool\<lparr>pool_state := s2\<rparr>))"

text \<open>
  \<open>process\<close>.  Each element of the list is one iteration of its loop: the clock reading of the
  dispatch and what the environment does with the pool until the wait ends.  An empty list is a
  caller still waiting: \<open>None\<close>.
\<close>

fun pool_process ::
  "(string \<Rightarrow> string \<Rightarrow> u64) \<Rightarrow> (instant \<times> (bool \<Rightarrow> WorkerCompletion \<Rightarrow> WorkerPool \<Rightarrow> WaitEvent \<times> WorkerPool)) list
   \<Rightarrow> InternalTask \<Rightarrow> PreparedProfile option \<Rightarrow> WorkerId option \<Rightarrow> WorkerPool
   \<Rightarrow> ((ProcessError + TaskOutcome) \<times> WorkerPool) option" where
  "pool_process hasher [] task prepared worker_hint pool = None"
| "pool_process hasher ((now, env) # rest) task prepared worker_hint pool =
     (let addlayer_source_id = prepared_source_id hasher prepared
      in do {
        (reserved, pool1) \<leftarrow> reserve_worker worker_hint task addlayer_source_id pool;
        case reserved of
          None \<Rightarrow> Some (Inl (QueueFull task), pool1)
        | Some (idx, pre_admit_depth) \<Rightarrow>
            (let admitted_at_overflow = (pre_admit_depth \<ge> pool_bl_capacity pool1);
                 (completion, pool2) = commit_reservation now task addlayer_source_id idx pool1
             in case env admitted_at_overflow completion pool2 of
                  (SendFailed, pool3) \<Rightarrow> Some (Inl (QueueFull task), completion_drop completion pool3)
                | (Disconnected, pool3) \<Rightarrow> Some (Inl QueueDisconnected, pool3)
                | (DeadlinePassed, pool3) \<Rightarrow> Some (Inr (response_timeout_outcome task), pool3)
                | (Replied (Outcome outcome), pool3) \<Rightarrow> Some (Inr outcome, pool3)
                | (Replied (Redispatch returned profile), pool3) \<Rightarrow>
                    pool_process hasher rest returned profile None pool3) })"

record WorkerShutdown =
  ws_joined :: nat
  ws_timed_out :: nat

text \<open>
  \<open>shutdown\<close>: per worker, \<open>None\<close> when its handle was taken before, otherwise whether its task
  ended before the deadline.
\<close>

definition pool_shutdown :: "bool option list \<Rightarrow> WorkerShutdown" where
  "pool_shutdown handles =
     foldl (\<lambda>outcome handle.
       case handle of
         None \<Rightarrow> outcome
       | Some True \<Rightarrow> outcome\<lparr>ws_joined := ws_joined outcome + 1\<rparr>
       | Some False \<Rightarrow> outcome\<lparr>ws_timed_out := ws_timed_out outcome + 1\<rparr>)
       \<lparr>ws_joined = 0, ws_timed_out = 0\<rparr> handles"

definition shutdown_is_complete :: "WorkerShutdown \<Rightarrow> bool" where
  "shutdown_is_complete w = (ws_timed_out w = 0)"

section \<open>The affinity list is a recency list\<close>

lemma evict_affinity_eq:
  "distinct lru \<Longrightarrow> 0 < cap \<Longrightarrow>
    evict_affinity cap (set lru) lru = (set (last_n (cap - 1) lru), last_n (cap - 1) lru)"
proof (induction lru)
  case (Cons k lru)
  show ?case
  proof (cases "cap \<le> Suc (length lru)")
    case True
    have "set (k # lru) - {k} = set lru" using Cons.prems by auto
    moreover have "last_n (cap - 1) (k # lru) = last_n (cap - 1) lru"
      using True Cons.prems(2) by (simp add: last_n_def Suc_diff_le)
    ultimately show ?thesis
      using True Cons distinct_card [OF Cons.prems(1)] by simp
  next
    case False
    then show ?thesis
      using distinct_card [OF Cons.prems(1)] by (simp add: last_n_all)
  qed
qed (simp add: last_n_def)

definition affinity_touch :: "string \<Rightarrow> string list \<Rightarrow> string list" where
  "affinity_touch source_id lru =
     snd (touch_affinity ADDLAYER_SOURCE_AFFINITY_CAPACITY source_id (set lru) lru)"

lemma touch_affinity_eq:
  assumes "distinct lru" and "length lru \<le> cap" and "0 < cap"
  shows "touch_affinity cap k (set lru) lru = (set (lru_touch cap k lru), lru_touch cap k lru)"
proof (cases "k \<in> set lru")
  case True
  have "length (filter (\<lambda>x. x \<noteq> k) lru) < length lru"
    using True length_filter_less [of k lru "\<lambda>x. x \<noteq> k"] by simp
  then have "lru_touch cap k lru = filter (\<lambda>x. x \<noteq> k) lru @ [k]"
    unfolding lru_touch_def by (intro last_n_all) (use assms(2) in simp)
  then show ?thesis using True by (auto simp: touch_affinity_def)
next
  case False
  then have "filter (\<lambda>x. x \<noteq> k) lru = lru" by (auto simp: filter_id_conv)
  then show ?thesis
    using False evict_affinity_eq [OF assms(1,3)] last_n_snoc [OF assms(3), of lru k]
    by (simp add: touch_affinity_def lru_touch_def)
qed

interpretation affinity: recency_list ADDLAYER_SOURCE_AFFINITY_CAPACITY affinity_touch
  by unfold_locales
    (simp_all add: affinity_touch_def touch_affinity_eq ADDLAYER_SOURCE_AFFINITY_CAPACITY_def)

section \<open>The state invariant\<close>

definition counts_exact :: "PoolState \<Rightarrow> bool" where
  "counts_exact s \<longleftrightarrow> (\<forall>p. ps_profile_counts s p =
     (let k = count_list (ps_loaded s) (Some p) in if k = 0 then None else Some k))"

definition affinity_ok :: "string set \<Rightarrow> string list \<Rightarrow> bool" where
  "affinity_ok ids lru \<longleftrightarrow> ids = set lru \<and> distinct lru
     \<and> length lru \<le> ADDLAYER_SOURCE_AFFINITY_CAPACITY"

definition pool_state_ok :: "nat \<Rightarrow> PoolState \<Rightarrow> bool" where
  "pool_state_ok n s \<longleftrightarrow>
     length (ps_loaded s) = n \<and> length (ps_dispatch_generations s) = n \<and> length (ps_last_used s) = n
     \<and> length (ps_addlayer_source_ids s) = n \<and> length (ps_addlayer_source_lru s) = n
     \<and> counts_exact s
     \<and> (\<forall>i<n. affinity_ok (ps_addlayer_source_ids s ! i) (ps_addlayer_source_lru s ! i))"

lemma count_list_update:
  "i < length xs \<Longrightarrow>
    count_list (xs[i := v]) y + (if xs ! i = y then 1 else 0) = count_list xs y + (if v = y then 1 else 0)"
proof (induction xs arbitrary: i)
  case (Cons x xs)
  show ?case
  proof (cases i)
    case (Suc n)
    then show ?thesis
      using Cons.IH [of n] Cons.prems by (cases "v = y"; cases "xs ! n = y") auto
  qed simp
qed simp

lemma take_loaded_simps [simp]:
  "ps_dispatch_generations (take_loaded i s) = ps_dispatch_generations s"
  "ps_last_used (take_loaded i s) = ps_last_used s"
  "ps_addlayer_source_ids (take_loaded i s) = ps_addlayer_source_ids s"
  "ps_addlayer_source_lru (take_loaded i s) = ps_addlayer_source_lru s"
  "ps_loaded (take_loaded i s) = (ps_loaded s)[i := None]"
  by (auto simp: take_loaded_def decrement_profile_count_def list_update_same_conv [symmetric]
      split: option.splits) (metis list_update_id)

lemma take_loaded_counts:
  assumes "counts_exact s" and "i < length (ps_loaded s)"
  shows "counts_exact (take_loaded i s)"
proof (cases "ps_loaded s ! i")
  case None
  then show ?thesis using assms(1) by (simp add: take_loaded_def)
next
  case (Some q)
  have upd: "count_list ((ps_loaded s)[i := None]) (Some p) + (if p = q then 1 else 0)
      = count_list (ps_loaded s) (Some p)" for p
    using count_list_update [OF assms(2), of None "Some p"] Some by auto
  have "count_list (ps_loaded s) (Some q) = Suc (count_list ((ps_loaded s)[i := None]) (Some q))"
    using upd [of q] by simp
  then have q: "ps_profile_counts s q = Some (Suc (count_list ((ps_loaded s)[i := None]) (Some q)))"
    using assms(1) by (simp add: counts_exact_def Let_def)
  have "ps_profile_counts s p = (let k = count_list ((ps_loaded s)[i := None]) (Some p)
      in if k = 0 then None else Some k)" if "p \<noteq> q" for p
    using assms(1) upd [of p] that by (simp add: counts_exact_def)
  then show ?thesis
    using q Some by (auto simp: counts_exact_def take_loaded_def decrement_profile_count_def Let_def)
qed

lemma set_loaded_counts:
  assumes "counts_exact s" and "i < length (ps_loaded s)" and "ps_loaded s ! i = None"
  shows "counts_exact ((increment_profile_count p s)\<lparr>ps_loaded := (ps_loaded s)[i := Some p]\<rparr>)"
proof -
  have upd: "count_list ((ps_loaded s)[i := Some p]) (Some q)
      = count_list (ps_loaded s) (Some q) + (if p = q then 1 else 0)" for q
    using count_list_update [OF assms(2), of "Some p" "Some q"] assms(3) by auto
  show ?thesis
    using assms(1) by (auto simp: counts_exact_def increment_profile_count_def Let_def upd
        split: option.splits)
qed

lemma counts_exact_cong:
  "ps_loaded s = ps_loaded s' \<Longrightarrow> ps_profile_counts s = ps_profile_counts s' \<Longrightarrow>
    counts_exact s \<longleftrightarrow> counts_exact s'"
  by (simp add: counts_exact_def)

lemma pool_state_new_ok: "pool_state_ok n (pool_state_new n)"
proof -
  have "count_list (replicate n None) (Some p) = 0" for p :: WorkerProfile
    by (induction n) auto
  then show ?thesis
    by (simp add: pool_state_ok_def pool_state_new_def counts_exact_def affinity_ok_def)
qed

lemma pool_state_okD:
  assumes "pool_state_ok n s"
  shows "length (ps_loaded s) = n" "length (ps_dispatch_generations s) = n"
    "length (ps_last_used s) = n" "length (ps_addlayer_source_ids s) = n"
    "length (ps_addlayer_source_lru s) = n" "counts_exact s"
    "i < n \<Longrightarrow> affinity_ok (ps_addlayer_source_ids s ! i) (ps_addlayer_source_lru s ! i)"
  using assms by (simp_all add: pool_state_ok_def)

lemma clear_addlayer_ok:
  assumes "pool_state_ok n s" and "i < n"
  shows "pool_state_ok n (clear_addlayer_sources i s)"
  using assms
  by (auto simp: pool_state_ok_def clear_addlayer_sources_def affinity_ok_def nth_list_update
      cong: counts_exact_cong)

lemma take_loaded_ok:
  assumes "pool_state_ok n s" and "i < n"
  shows "pool_state_ok n (take_loaded i s)"
  using assms take_loaded_counts [of s i] by (simp add: pool_state_ok_def)

lemma clear_loaded_ok:
  assumes "pool_state_ok n s" and "i < n"
  shows "pool_state_ok n (clear_loaded i s)"
proof -
  let ?s = "take_loaded i s"
  have "pool_state_ok n (?s\<lparr>ps_last_used := (ps_last_used ?s)[i := None]\<rparr>)"
    using take_loaded_ok [OF assms] by (simp add: pool_state_ok_def counts_exact_def)
  then show ?thesis unfolding clear_loaded_def Let_def by (rule clear_addlayer_ok [OF _ assms(2)])
qed

lemma clear_loaded_if_latest_ok:
  "pool_state_ok n s \<Longrightarrow> i < n \<Longrightarrow> pool_state_ok n (clear_loaded_if_latest i g s)"
  by (simp add: clear_loaded_if_latest_def clear_loaded_ok)

lemma mark_loaded_ok:
  assumes "pool_state_ok n s" and "i < n"
  shows "pool_state_ok n (snd (mark_loaded now i p s))"
proof -
  define s1 where "s1 = s\<lparr>ps_dispatch_generations :=
      (ps_dispatch_generations s)[i := ps_dispatch_generations s ! i + 1],
      ps_last_used := (ps_last_used s)[i := Some now]\<rparr>"
  define s2 where "s2 = clear_addlayer_sources i (take_loaded i s1)"
  have s1: "pool_state_ok n s1"
    using assms by (simp add: s1_def pool_state_ok_def counts_exact_def)
  then have s2: "pool_state_ok n s2"
    unfolding s2_def using assms(2) by (intro clear_addlayer_ok take_loaded_ok)
  have len: "length (ps_loaded s1) = n" using s1 by (rule pool_state_okD)
  then have none: "ps_loaded s2 ! i = None"
    using assms(2) by (simp add: s2_def clear_addlayer_sources_def)
  have "counts_exact ((increment_profile_count p s2)\<lparr>ps_loaded := (ps_loaded s2)[i := Some p]\<rparr>)"
    using s2 assms(2) none by (intro set_loaded_counts) (simp_all add: pool_state_ok_def)
  then have "pool_state_ok n ((increment_profile_count p s2)\<lparr>ps_loaded :=
      (ps_loaded (increment_profile_count p s2))[i := Some p]\<rparr>)"
    using s2 by (simp add: pool_state_ok_def increment_profile_count_def)
  then show ?thesis
    using s1 by (simp add: mark_loaded_def Let_def s1_def [symmetric] s2_def [symmetric])
qed

lemma mark_addlayer_source_ok:
  assumes "pool_state_ok n s" and "i < n"
  shows "pool_state_ok n (mark_addlayer_source i k s)"
proof -
  have aff: "affinity_ok (ps_addlayer_source_ids s ! i) (ps_addlayer_source_lru s ! i)"
    using assms by (rule pool_state_okD)
  define lru where "lru = ps_addlayer_source_lru s ! i"
  have "touch_affinity ADDLAYER_SOURCE_AFFINITY_CAPACITY k (ps_addlayer_source_ids s ! i) lru
      = (set (affinity_touch k lru), affinity_touch k lru)"
    using aff touch_affinity_eq [of lru ADDLAYER_SOURCE_AFFINITY_CAPACITY k] affinity.cap_pos
    by (simp add: affinity_ok_def affinity_touch_def lru_def)
  moreover have "affinity_ok (set (affinity_touch k lru)) (affinity_touch k lru)"
    using aff affinity.touch_distinct affinity.touch_length by (simp add: affinity_ok_def lru_def)
  ultimately show ?thesis
    using assms by (auto simp: mark_addlayer_source_def lru_def [symmetric] pool_state_ok_def
        counts_exact_def nth_list_update)
qed

lemmas pool_state_oks = pool_state_new_ok clear_loaded_if_latest_ok mark_loaded_ok
  mark_addlayer_source_ok

section \<open>Reservation\<close>

lemma best_available_worker_Some:
  assumes "best_available_worker pool task src = Some idx"
  shows "idx < length (pool_queue_depths pool)" "eligible_worker pool idx"
    "j < length (pool_queue_depths pool) \<Longrightarrow> eligible_worker pool j \<Longrightarrow>
       pick_score_order (pick_score (pick_context pool task src) idx (pool_queue_depths pool ! idx))
       \<le> pick_score_order (pick_score (pick_context pool task src) j (pool_queue_depths pool ! j))"
  using min_by_key_Some [OF assms [unfolded best_available_worker_def Let_def]] by auto

lemma best_available_worker_None:
  "best_available_worker pool task src = None \<longleftrightarrow>
    (\<forall>j<length (pool_queue_depths pool). \<not> eligible_worker pool j)"
  by (auto simp: best_available_worker_def Let_def filter_empty_conv)

lemma try_reserve_eq:
  "try_reserve idx pool = (if eligible_worker pool idx
    then (Some (pool_queue_depths pool ! idx), pool\<lparr>pool_queue_depths :=
      (pool_queue_depths pool)[idx := pool_queue_depths pool ! idx + 1]\<rparr>)
    else (None, pool))"
  by (auto simp: try_reserve_def eligible_worker_def Let_def)

text \<open>Without interference the retry loop returns after its first reservation.\<close>

lemma reserve_best_available_eq:
  "reserve_best_available task src pool =
    Some (case best_available_worker pool task src of
            None \<Rightarrow> (None, pool)
          | Some idx \<Rightarrow> (Some (idx, pool_queue_depths pool ! idx), pool\<lparr>pool_queue_depths :=
              (pool_queue_depths pool)[idx := pool_queue_depths pool ! idx + 1]\<rparr>))"
  using best_available_worker_Some(2) [of pool task src]
  by (subst reserve_best_available.simps) (auto simp: try_reserve_eq split: option.splits)

lemma reserve_worker_Some:
  assumes "reserve_worker hint task src pool = Some (Some (idx, pre), pool')"
  shows "idx < length (pool_queue_depths pool)" "eligible_worker pool idx"
    "pre = pool_queue_depths pool ! idx"
    "pool' = pool\<lparr>pool_queue_depths := (pool_queue_depths pool)[idx := pool_queue_depths pool ! idx + 1]\<rparr>"
proof -
  have "idx < length (pool_queue_depths pool) \<and> eligible_worker pool idx
    \<and> pre = pool_queue_depths pool ! idx
    \<and> pool' = pool\<lparr>pool_queue_depths := (pool_queue_depths pool)[idx := pool_queue_depths pool ! idx + 1]\<rparr>"
    using assms best_available_worker_Some(1,2) [of pool task src]
    by (auto simp: reserve_worker_def reserve_best_available_eq try_reserve_eq
        split: option.splits if_splits)
  then show "idx < length (pool_queue_depths pool)" "eligible_worker pool idx"
    "pre = pool_queue_depths pool ! idx"
    "pool' = pool\<lparr>pool_queue_depths := (pool_queue_depths pool)[idx := pool_queue_depths pool ! idx + 1]\<rparr>"
    by auto
qed

lemma reserve_worker_total: "\<exists>r pool'. reserve_worker hint task src pool = Some (r, pool')"
  by (auto simp: reserve_worker_def reserve_best_available_eq try_reserve_eq split: option.splits)

section \<open>The pool as a transition system\<close>

text \<open>A state is the pool and the completion guards that travel with accepted commands.\<close>

inductive pool_step :: "WorkerPool \<times> WorkerCompletion list \<Rightarrow> WorkerPool \<times> WorkerCompletion list \<Rightarrow> bool" where
  admit: "reserve_worker hint task src pool = Some (Some (idx, pre), pool1) \<Longrightarrow>
    commit_reservation now task src idx pool1 = (c, pool2) \<Longrightarrow>
    pool_step (pool, cs) (pool2, c # cs)"
| finish: "pool_step (pool, cs1 @ c # cs2) (completion_finish c outcome pool, cs1 @ cs2)"
| abandon: "pool_step (pool, cs1 @ c # cs2) (completion_drop c pool, cs1 @ cs2)"
| availability: "i < length (pool_available pool) \<Longrightarrow>
    pool_step (pool, cs) (pool\<lparr>pool_available := (pool_available pool)[i := b]\<rparr>, cs)"

inductive_cases pool_stepE: "pool_step s s'"

definition pool_init :: "WorkerPool \<times> WorkerCompletion list \<Rightarrow> bool" where
  "pool_init s \<longleftrightarrow> (\<exists>renderers bl cap permits native.
     s = (worker_pool_spawn renderers bl cap permits native, []))"

definition outstanding :: "nat \<Rightarrow> WorkerCompletion list \<Rightarrow> nat" where
  "outstanding i cs = length (filter (\<lambda>c. wk_worker_idx c = i) cs)"

definition pool_inv :: "WorkerPool \<times> WorkerCompletion list \<Rightarrow> bool" where
  "pool_inv s \<longleftrightarrow> (case s of (pool, cs) \<Rightarrow>
     let n = length (pool_queue_depths pool)
     in length (pool_available pool) = n \<and> pool_state_ok n (pool_state pool)
        \<and> (\<forall>c\<in>set cs. wk_worker_idx c < n)
        \<and> (\<forall>i<n. pool_queue_depths pool ! i = outstanding i cs
              \<and> pool_queue_depths pool ! i \<le> pool_queue_capacity pool))"

lemma outstanding_remove:
  "outstanding i (cs1 @ c # cs2) = outstanding i (cs1 @ cs2) + (if wk_worker_idx c = i then 1 else 0)"
  by (simp add: outstanding_def)

lemma completion_drop_simps:
  "pool_queue_depths (completion_drop c pool) =
     (pool_queue_depths pool)[wk_worker_idx c := pool_queue_depths pool ! wk_worker_idx c - 1]"
  "pool_available (completion_drop c pool) = pool_available pool"
  "pool_queue_capacity (completion_drop c pool) = pool_queue_capacity pool"
  "pool_state_ok n (pool_state pool) \<Longrightarrow> wk_worker_idx c < n \<Longrightarrow>
     pool_state_ok n (pool_state (completion_drop c pool))"
  by (auto simp: completion_drop_def Let_def clear_loaded_if_latest_ok)

lemma completion_finish_simps:
  "pool_queue_depths (completion_finish c outcome pool) =
     (pool_queue_depths pool)[wk_worker_idx c := pool_queue_depths pool ! wk_worker_idx c - 1]"
  "pool_available (completion_finish c outcome pool) = pool_available pool"
  "pool_queue_capacity (completion_finish c outcome pool) = pool_queue_capacity pool"
  "pool_state_ok n (pool_state pool) \<Longrightarrow> wk_worker_idx c < n \<Longrightarrow>
     pool_state_ok n (pool_state (completion_finish c outcome pool))"
  by (auto simp: completion_finish_def completion_drop_def Let_def clear_loaded_if_latest_ok)

lemma release_inv:
  assumes "pool_inv (pool, cs1 @ c # cs2)"
    and "pool_queue_depths pool' =
      (pool_queue_depths pool)[wk_worker_idx c := pool_queue_depths pool ! wk_worker_idx c - 1]"
    and "pool_available pool' = pool_available pool"
    and "pool_queue_capacity pool' = pool_queue_capacity pool"
    and "pool_state_ok (length (pool_queue_depths pool)) (pool_state pool')"
  shows "pool_inv (pool', cs1 @ cs2)"
  using assms by (auto simp: pool_inv_def Let_def nth_list_update outstanding_remove)

lemma commit_reservation_simps:
  assumes "commit_reservation now task src idx pool = (c, pool')"
  shows "wk_worker_idx c = idx" "pool_queue_depths pool' = pool_queue_depths pool"
    "pool_available pool' = pool_available pool" "pool_queue_capacity pool' = pool_queue_capacity pool"
    "pool_state_ok n (pool_state pool) \<Longrightarrow> idx < n \<Longrightarrow> pool_state_ok n (pool_state pool')"
proof -
  obtain g s1 where m: "mark_loaded now idx (worker_profile task) (pool_state pool) = (g, s1)"
    by fastforce
  note eq = assms [unfolded commit_reservation_def m Let_def prod.case]
  show "wk_worker_idx c = idx" "pool_queue_depths pool' = pool_queue_depths pool"
    "pool_available pool' = pool_available pool" "pool_queue_capacity pool' = pool_queue_capacity pool"
    using eq by (auto simp: completion_new_def)
  assume ok: "pool_state_ok n (pool_state pool)" "idx < n"
  have "pool_state_ok n s1" using mark_loaded_ok [OF ok, of now "worker_profile task"] m by simp
  then show "pool_state_ok n (pool_state pool')"
    using eq mark_addlayer_source_ok [OF _ ok(2)] by (auto split: option.splits)
qed

lemma admit_inv:
  assumes "pool_inv (pool, cs)"
    and "reserve_worker hint task src pool = Some (Some (idx, pre), pool1)"
    and "commit_reservation now task src idx pool1 = (c, pool2)"
  shows "pool_inv (pool2, c # cs)"
proof -
  note r = reserve_worker_Some [OF assms(2)] and c = commit_reservation_simps [OF assms(3)]
  have "pool_state_ok (length (pool_queue_depths pool)) (pool_state pool1)"
    using assms(1) by (simp add: pool_inv_def Let_def r(4))
  then have "pool_state_ok (length (pool_queue_depths pool)) (pool_state pool2)"
    using c(5) r(1) by blast
  then show ?thesis
    using assms(1) r c(1-4)
    by (auto simp: pool_inv_def Let_def nth_list_update outstanding_def eligible_worker_def)
qed

lemma pool_step_inv:
  assumes "pool_step s s'" and "pool_inv s"
  shows "pool_inv s'"
  using assms
proof (cases rule: pool_step.cases)
  case (admit hint task src pool idx pre pool1 now c pool2 cs)
  then show ?thesis using admit_inv assms(2) by blast
next
  case (finish pool cs1 c cs2 outcome)
  have inv: "pool_inv (pool, cs1 @ c # cs2)" using assms(2) finish(1) by simp
  have "pool_state_ok (length (pool_queue_depths pool)) (pool_state (completion_finish c outcome pool))"
    by (rule completion_finish_simps(4)) (use inv in \<open>simp_all add: pool_inv_def Let_def\<close>)
  then show ?thesis unfolding finish(2) by (rule release_inv [OF inv completion_finish_simps(1-3)])
next
  case (abandon pool cs1 c cs2)
  have inv: "pool_inv (pool, cs1 @ c # cs2)" using assms(2) abandon(1) by simp
  have "pool_state_ok (length (pool_queue_depths pool)) (pool_state (completion_drop c pool))"
    by (rule completion_drop_simps(4)) (use inv in \<open>simp_all add: pool_inv_def Let_def\<close>)
  then show ?thesis unfolding abandon(2) by (rule release_inv [OF inv completion_drop_simps(1-3)])
next
  case (availability i pool cs b)
  then show ?thesis using assms(2) by (auto simp: pool_inv_def Let_def)
qed

lemma pool_spawn_simps:
  "pool_queue_depths (worker_pool_spawn rs bl cap p np) = replicate (length rs) 0"
  "pool_available (worker_pool_spawn rs bl cap p np) = rs"
  "pool_state_ok (length rs) (pool_state (worker_pool_spawn rs bl cap p np))"
  by (simp_all only: worker_pool_spawn_def Let_def WorkerPool.simps pool_state_new_ok)

interpretation pool: inductive_invariant pool_init pool_step pool_inv
proof
  show "pool_inv s" if "pool_init s" for s
    using that by (auto simp: pool_init_def pool_inv_def pool_spawn_simps outstanding_def)
  show "pool_inv s'" if "pool_inv s" "pool_step s s'" for s s'
    using pool_step_inv that by blast
qed

section \<open>Properties\<close>

text \<open>C8: The accounting of the pool is exact in every state reachable from a spawned pool by
  admissions, finished and abandoned commands and availability changes.  The queue depth of each
  worker is the number of completion guards outstanding for it, at most the hard limit; the count of
  each profile is the number of workers that hold it, with no entry at zero; and each worker's source
  affinity is a list of at most 64 distinct sources with exactly its set.\<close>

theorem pool_accounting:
  assumes "pool_step\<^sup>*\<^sup>* (worker_pool_spawn renderers bl cap permits native, []) (pool, guards)"
  shows "(\<forall>i<length (pool_queue_depths pool).
      pool_queue_depths pool ! i = length (filter (\<lambda>c. wk_worker_idx c = i) guards)
      \<and> pool_queue_depths pool ! i \<le> pool_queue_capacity pool
      \<and> length (ps_addlayer_source_lru (pool_state pool) ! i) \<le> 64
      \<and> distinct (ps_addlayer_source_lru (pool_state pool) ! i)
      \<and> ps_addlayer_source_ids (pool_state pool) ! i = set (ps_addlayer_source_lru (pool_state pool) ! i))
    \<and> (\<forall>p. ps_profile_counts (pool_state pool) p =
      (let k = count_list (ps_loaded (pool_state pool)) (Some p) in if k = 0 then None else Some k))"
proof -
  have "pool_init (worker_pool_spawn renderers bl cap permits native, [])"
    unfolding pool_init_def by blast
  then have "pool_inv (pool, guards)" using assms by (rule pool.reachable_inv)
  then show ?thesis
    unfolding pool_inv_def Let_def pool_state_ok_def counts_exact_def affinity_ok_def
      outstanding_def ADDLAYER_SOURCE_AFFINITY_CAPACITY_def prod.case by blast
qed

definition example_pool :: WorkerPool where
  "example_pool = worker_pool_spawn [True, True] 1 2 2 1"

theorem pool_accounting_witness:
  "\<exists>pool guards. pool_step\<^sup>*\<^sup>* (example_pool, []) (pool, guards)
    \<and> guards = [completion_new 0 1] \<and> pool_queue_depths pool ! 0 = 1"
proof -
  define task where "task = example_task 1"
  obtain c pool2 where com: "commit_reservation 0 task None 0
      (example_pool\<lparr>pool_queue_depths := [1, 0]\<rparr>) = (c, pool2)"
    by fastforce
  have ex: "pool_queue_depths example_pool = [0, 0]" "pool_available example_pool = [True, True]"
    "pool_queue_capacity example_pool = 2" "pool_state example_pool = pool_state_new 2"
    by (simp_all add: example_pool_def worker_pool_spawn_def numeral_2_eq_2)
  have "reserve_worker (Some 0) task None example_pool
      = Some (Some (0, 0), example_pool\<lparr>pool_queue_depths := [1, 0]\<rparr>)"
    by (simp add: reserve_worker_def try_reserve_eq eligible_worker_def ex)
  then have st: "pool_step (example_pool, []) (pool2, [c])" using com by (rule pool_step.admit)
  then have "pool_step\<^sup>*\<^sup>* (worker_pool_spawn [True, True] 1 2 2 1, []) (pool2, [c])"
    by (simp add: example_pool_def)
  note acc = pool_accounting [OF this]
  have "c = completion_new 0 1"
    using com by (auto simp: commit_reservation_def mark_loaded_def Let_def ex pool_state_new_def
        completion_new_def)
  then have "pool_queue_depths pool2 ! 0 = 1"
    using acc commit_reservation_simps(2) [OF com] by (auto simp: completion_new_def)
  with st \<open>c = completion_new 0 1\<close> show ?thesis by blast
qed

text \<open>C31: A worker is chosen exactly when some available worker is below the hard limit, and the
  choice respects the documented tiers: no eligible worker has a better tier, and when an eligible
  worker is warm and below two thirds of the soft limit the chosen worker has the task's profile
  loaded.\<close>

theorem best_worker_choice:
  "case best_available_worker pool task src of
     None \<Rightarrow> \<forall>j<length (pool_queue_depths pool). \<not> eligible_worker pool j
   | Some idx \<Rightarrow> idx < length (pool_queue_depths pool) \<and> eligible_worker pool idx
      \<and> (\<forall>j<length (pool_queue_depths pool). eligible_worker pool j \<longrightarrow>
           pick_tier (pick_context pool task src) idx (pool_queue_depths pool ! idx)
             \<le> pick_tier (pick_context pool task src) j (pool_queue_depths pool ! j)
           \<and> (ps_loaded (pool_state pool) ! j = Some (worker_profile task)
               \<and> pool_queue_depths pool ! j < max (usize_wrapping_mul (pool_bl_capacity pool) 2 div 3) 1
             \<longrightarrow> ps_loaded (pool_state pool) ! idx = Some (worker_profile task)))"
proof (cases "best_available_worker pool task src")
  case None
  then show ?thesis using best_available_worker_None [of pool task src] by simp
next
  case (Some idx)
  let ?tier = "\<lambda>j. pick_tier (pick_context pool task src) j (pool_queue_depths pool ! j)"
  have le: "?tier idx \<le> ?tier j" if "j < length (pool_queue_depths pool)" "eligible_worker pool j" for j
    using best_available_worker_Some(3) [OF Some that]
    by (auto simp: pick_score_order_def pick_score_def Let_def split: prod.splits)
  have comfort: "?tier j = WarmComfort \<longleftrightarrow> ps_loaded (pool_state pool) ! j = Some (worker_profile task)
      \<and> pool_queue_depths pool ! j < max (usize_wrapping_mul (pool_bl_capacity pool) 2 div 3) 1" for j
    by (auto simp: pick_tier_def pick_context_def Let_def split: option.splits)
  have "t \<le> WarmComfort \<Longrightarrow> t = WarmComfort" for t :: PickTier
    by (cases t) (simp_all add: less_eq_PickTier_def)
  then show ?thesis
    using best_available_worker_Some(1,2) [OF Some] le comfort unfolding Some option.case by metis
qed

theorem best_worker_choice_witness:
  "best_available_worker example_pool (example_task 1) None = Some 0 \<and> eligible_worker example_pool 0"
proof -
  have "best_available_worker example_pool (example_task 1) None = Some 0"
    by code_simp
  then show ?thesis using best_worker_choice [of example_pool "example_task 1" None] by simp
qed



end
