(* ===== verification/Worker.thy ===== *)
theory Worker
  imports Worker_Pool
begin

text \<open>
  The worker of a renderer slot, from \<^verbatim>\<open>crates/biei-core/src/worker.rs\<close>: the source cache, the
  stages of a render with their deadline checks, the hard-wedge deadline, and the handling of one
  command by \<open>worker_loop\<close>.  The renderer is the trait object of \<^verbatim>\<open>renderer/mod.rs\<close>, a record of
  operations on an abstract actor; an operation that has not returned when the command is given up
  yields \<open>None\<close>.  Every reading of the clock and every wait is an argument, so the theorems hold for
  any timing.  The semaphores are seen only through what the wait for a permit returns.
\<close>

section \<open>Source cache\<close>

record SourceCache =
  sc_capacity :: nat
  sc_entries :: "SourceHash list"

definition source_cache_new :: "nat \<Rightarrow> SourceCache" where
  "source_cache_new capacity = \<lparr>sc_capacity = max capacity 1, sc_entries = []\<rparr>"

definition source_cache_contains :: "SourceCache \<Rightarrow> SourceHash \<Rightarrow> bool" where
  "source_cache_contains c h = list_ex (\<lambda>x. x = h) (sc_entries c)"

fun trim_front :: "nat \<Rightarrow> 'a list \<Rightarrow> 'a list" where
  "trim_front capacity [] = []"
| "trim_front capacity (x # xs) =
     (if length (x # xs) > capacity then trim_front capacity xs else x # xs)"

definition touch_entries :: "nat \<Rightarrow> SourceHash \<Rightarrow> SourceHash list \<Rightarrow> SourceHash list" where
  "touch_entries capacity h entries =
     (let entries1 = (case position (\<lambda>x. x = h) entries of
                        Some pos \<Rightarrow> take pos entries @ drop (Suc pos) entries
                      | None \<Rightarrow> entries)
      in trim_front capacity (entries1 @ [h]))"

definition source_cache_touch :: "SourceHash \<Rightarrow> SourceCache \<Rightarrow> SourceCache" where
  "source_cache_touch h c = c\<lparr>sc_entries := touch_entries (sc_capacity c) h (sc_entries c)\<rparr>"

definition source_cache_clear :: "SourceCache \<Rightarrow> SourceCache" where
  "source_cache_clear c = c\<lparr>sc_entries := []\<rparr>"

section \<open>The renderer interface\<close>

record RendererOutput =
  ro_output :: RenderOutput
  ro_source_setup_duration :: "duration option"

record 'r Renderer =
  rd_setup_profile :: "InternalTask \<Rightarrow> PreparedProfile option \<Rightarrow> 'r \<Rightarrow> (RendererError + unit) option \<times> 'r"
  rd_ensure_source :: "SourceHash \<Rightarrow> 'r \<Rightarrow> (RendererError + unit) option \<times> 'r"
  rd_render :: "InternalTask \<Rightarrow> 'r \<Rightarrow> (RendererError + RendererOutput) option \<times> 'r"
  rd_retire_after_current :: "'r \<Rightarrow> 'r"
  rd_is_available :: "'r \<Rightarrow> bool"
  rd_repair_if_needed :: "'r \<Rightarrow> (RendererError + bool) \<times> 'r"

section \<open>Stages\<close>

datatype StageFailure =
  StageDeadlineExceeded DeadlineStage
| StageRendererError DeadlineStage RendererError
| StagePermitClosed DeadlineStage

fun stage_code :: "DeadlineStage \<Rightarrow> u8" where
  "stage_code AcquireRenderPermit = 0"
| "stage_code StyleSwap = 1"
| "stage_code EnsureSource = 2"
| "stage_code AcquireNativeRenderPermit = 3"
| "stage_code Render = 4"

definition stage_from_code :: "u8 \<Rightarrow> DeadlineStage" where
  "stage_from_code code =
     (if code = 0 then AcquireRenderPermit else if code = 1 then StyleSwap
      else if code = 2 then EnsureSource else if code = 3 then AcquireNativeRenderPermit
      else Render)"

record StageSuccess =
  ss_output :: RenderOutput
  ss_started_at :: instant
  ss_native_render_started_at :: instant
  ss_native_render_completed_at :: instant
  ss_style_swap :: bool
  ss_cold_start :: bool
  ss_source_loaded :: bool
  ss_style_setup_duration :: "duration option"
  ss_source_setup_duration :: "duration option"

text \<open>What the worker keeps between commands, and the command's task and progress mark.\<close>

record 'r StageState =
  st_renderer :: 'r
  st_profile :: "(WorkerProfile \<times> CredentialCachePartition option) option"
  st_cache :: SourceCache
  st_task :: InternalTask
  st_progress :: u8

text \<open>
  How a stage ends: a value, a failure, an operation still pending when the command is given up, or
  a panic.
\<close>

datatype 'a StageRun = Ready 'a | Fails StageFailure | Pending | Panicked

datatype PermitWait = PermitGranted | PermitsClosed | PermitDeadline

text \<open>The readings of the clock and the waits of one run of the stages, in program order.\<close>

record StageClock =
  ck_permit_check :: instant
  ck_permit :: PermitWait
  ck_started :: instant
  ck_swap_check :: instant
  ck_setup_started :: instant
  ck_setup_done :: instant
  ck_source_check :: instant
  ck_source_started :: instant
  ck_source_done :: instant
  ck_native_check :: instant
  ck_native_permit :: PermitWait
  ck_native_started :: instant
  ck_render_check :: instant
  ck_render_done :: instant

definition check_deadline_at :: "instant \<Rightarrow> InternalTask \<Rightarrow> DeadlineStage \<Rightarrow> unit StageRun" where
  "check_deadline_at now task stage =
     (if now \<ge> it_deadline task then Fails (StageDeadlineExceeded stage) else Ready ())"

definition acquire_permit :: "instant \<Rightarrow> PermitWait \<Rightarrow> InternalTask \<Rightarrow> DeadlineStage \<Rightarrow> unit StageRun" where
  "acquire_permit now wait task stage =
     (case check_deadline_at now task stage of
        Ready _ \<Rightarrow>
          (case wait of
             PermitGranted \<Rightarrow> Ready ()
           | PermitsClosed \<Rightarrow> Fails (StagePermitClosed stage)
           | PermitDeadline \<Rightarrow> Fails (StageDeadlineExceeded stage))
      | r \<Rightarrow> r)"

definition enter_stage :: "DeadlineStage \<Rightarrow> 'r StageState \<Rightarrow> 'r StageState" where
  "enter_stage stage s = s\<lparr>st_progress := stage_code stage\<rparr>"

text \<open>The answer of a renderer operation as the end of a stage.\<close>

fun renderer_result :: "DeadlineStage \<Rightarrow> (RendererError + 'a) option \<Rightarrow> 'a StageRun" where
  "renderer_result stage None = Pending"
| "renderer_result stage (Some (Inl err)) = Fails (StageRendererError stage err)"
| "renderer_result stage (Some (Inr a)) = Ready a"

fun and_then :: "'a StageRun \<times> 's \<Rightarrow> ('a \<Rightarrow> 's \<Rightarrow> 'b StageRun \<times> 's) \<Rightarrow> 'b StageRun \<times> 's" where
  "and_then (Ready a, s) f = f a s"
| "and_then (Fails e, s) f = (Fails e, s)"
| "and_then (Pending, s) f = (Pending, s)"
| "and_then (Panicked, s) f = (Panicked, s)"

definition task_partition :: "InternalTask \<Rightarrow> CredentialCachePartition option" where
  "task_partition task = map_option cache_partition (it_authorization task)"

definition needs_style_swap :: "'r StageState \<Rightarrow> bool" where
  "needs_style_swap s =
     (case st_profile s of
        None \<Rightarrow> True
      | Some (profile, part) \<Rightarrow>
          profile \<noteq> worker_profile (st_task s) \<or> part \<noteq> task_partition (st_task s))"

definition style_swap_stage ::
  "'r Renderer \<Rightarrow> StageClock \<Rightarrow> PreparedProfile option \<Rightarrow> 'r StageState \<Rightarrow> duration StageRun \<times> 'r StageState" where
  "style_swap_stage R ck prepared s =
     (let s1 = enter_stage StyleSwap s
      in and_then (check_deadline_at (ck_swap_check ck) (st_task s1) StyleSwap, s1) (\<lambda>_ s1.
           let (res, r) = rd_setup_profile R (st_task s1) prepared (st_renderer s1)
           in and_then (renderer_result StyleSwap res, s1\<lparr>st_renderer := r\<rparr>) (\<lambda>_ s2.
                (Ready (ck_setup_done ck - ck_setup_started ck),
                 s2\<lparr>st_profile := Some (worker_profile (st_task s2), task_partition (st_task s2)),
                    st_cache := source_cache_clear (st_cache s2)\<rparr>))))"

definition swap_step ::
  "'r Renderer \<Rightarrow> StageClock \<Rightarrow> bool \<Rightarrow> PreparedProfile option \<Rightarrow> 'r StageState
   \<Rightarrow> duration option StageRun \<times> 'r StageState" where
  "swap_step R ck style_swap prepared s =
     (if style_swap
      then and_then (style_swap_stage R ck prepared s) (\<lambda>d s. (Ready (Some d), s))
      else (Ready None, s))"

text \<open>The source of the task: whether it was loaded, and how long that took.\<close>

definition source_stage ::
  "'r Renderer \<Rightarrow> StageClock \<Rightarrow> 'r StageState \<Rightarrow> (bool \<times> duration option) StageRun \<times> 'r StageState" where
  "source_stage R ck s =
     (let s1 = enter_stage EnsureSource s
      in and_then (check_deadline_at (ck_source_check ck) (st_task s1) EnsureSource, s1) (\<lambda>_ s1.
           case it_source (st_task s1) of
             None \<Rightarrow> (Ready (False, None), s1)
           | Some src \<Rightarrow>
               (let cached = source_cache_contains (st_cache s1) (src_hash src);
                    touch = (\<lambda>s. if src_policy src = Cacheable
                                 then s\<lparr>st_cache := source_cache_touch (src_hash src) (st_cache s)\<rparr>
                                 else s)
                in if cached then (Ready (False, None), touch s1)
                   else let (res, r) = rd_ensure_source R (src_hash src) (st_renderer s1)
                        in and_then (renderer_result EnsureSource res, s1\<lparr>st_renderer := r\<rparr>) (\<lambda>_ s2.
                             (Ready (True, Some (ck_source_done ck - ck_source_started ck)), touch s2)))))"

definition with_addlayer_source :: "AddLayerSource option \<Rightarrow> InternalTask \<Rightarrow> InternalTask" where
  "with_addlayer_source prepared task =
     (case (prepared, it_request task) of
        (Some source, StaticImage positioning width height overlays before_layer padding (Some addlayer)) \<Rightarrow>
          task\<lparr>it_request := StaticImage positioning width height overlays before_layer padding
                (Some (addlayer\<lparr>al_source := Some source\<rparr>))\<rparr>
      | _ \<Rightarrow> task)"

definition render_stage ::
  "'r Renderer \<Rightarrow> StageClock \<Rightarrow> AddLayerSource option \<Rightarrow> 'r StageState \<Rightarrow> RendererOutput StageRun \<times> 'r StageState" where
  "render_stage R ck prepared s =
     (let s1 = enter_stage AcquireNativeRenderPermit s
      in and_then (acquire_permit (ck_native_check ck) (ck_native_permit ck) (st_task s1)
                     AcquireNativeRenderPermit, s1) (\<lambda>_ s1.
           let s2 = enter_stage Render s1
           in and_then (check_deadline_at (ck_render_check ck) (st_task s2) Render, s2) (\<lambda>_ s2.
                let s3 = s2\<lparr>st_task := with_addlayer_source prepared (st_task s2)\<rparr>;
                    (res, r) = rd_render R (st_task s3) (st_renderer s3)
                in (renderer_result Render res, s3\<lparr>st_renderer := r\<rparr>))))"

text \<open>The two source set-up times; their sum panics on overflow.\<close>

fun join_durations :: "duration option \<Rightarrow> duration option \<Rightarrow> duration option option" where
  "join_durations (Some a) (Some b) = map_option Some (dur_add a b)"
| "join_durations (Some a) None = Some (Some a)"
| "join_durations None (Some b) = Some (Some b)"
| "join_durations None None = Some None"

definition run_stages ::
  "'r Renderer \<Rightarrow> StageClock \<Rightarrow> PreparedProfile option \<Rightarrow> 'r StageState \<Rightarrow> StageSuccess StageRun \<times> 'r StageState" where
  "run_stages R ck prepared s =
     (let style_swap = needs_style_swap s;
          cold_start = (st_profile s = None \<and> style_swap);
          prepared_addlayer_source = Option.bind prepared pp_addlayer_source;
          s1 = enter_stage AcquireRenderPermit s
      in and_then (acquire_permit (ck_permit_check ck) (ck_permit ck) (st_task s1) AcquireRenderPermit, s1)
           (\<lambda>_ s1.
         and_then (swap_step R ck style_swap prepared s1) (\<lambda>style_setup_duration s2.
         and_then (source_stage R ck s2) (\<lambda>(source_loaded, source_setup_duration) s3.
         and_then (render_stage R ck prepared_addlayer_source s3) (\<lambda>rendered s4.
           case join_durations source_setup_duration (ro_source_setup_duration rendered) of
             None \<Rightarrow> (Panicked, s4)
           | Some source_setup_duration' \<Rightarrow>
               (Ready \<lparr>ss_output = ro_output rendered, ss_started_at = ck_started ck,
                  ss_native_render_started_at = ck_native_started ck,
                  ss_native_render_completed_at = ck_render_done ck,
                  ss_style_swap = style_swap, ss_cold_start = cold_start,
                  ss_source_loaded = (source_loaded \<or> ro_source_setup_duration rendered \<noteq> None),
                  ss_style_setup_duration = style_setup_duration,
                  ss_source_setup_duration = source_setup_duration'\<rparr>, s4))))))"

section \<open>Commands\<close>

definition RENDERER_HARD_WEDGE_BUDGET_MULTIPLIER :: nat where
  "RENDERER_HARD_WEDGE_BUDGET_MULTIPLIER = 3"

definition hard_wedge_deadline :: "InternalTask \<Rightarrow> instant option" where
  "hard_wedge_deadline task =
     (let request_budget = saturating_duration_since (it_deadline task) (it_arrived_at task)
      in instant_checked_add (it_deadline task)
           (dur_saturating_mul request_budget (RENDERER_HARD_WEDGE_BUDGET_MULTIPLIER - 1)))"

fun renderer_error_invalidates_warm_state :: "RendererError \<Rightarrow> bool" where
  "renderer_error_invalidates_warm_state (StyleLoadFailed _ _) = True"
| "renderer_error_invalidates_warm_state (SetupFailed _ _) = True"
| "renderer_error_invalidates_warm_state (StyleNotReady _ _) = True"
| "renderer_error_invalidates_warm_state Timeout = True"
| "renderer_error_invalidates_warm_state ActorDead = True"
| "renderer_error_invalidates_warm_state _ = False"

definition completed_outcome ::
  "instant \<Rightarrow> InternalTask \<Rightarrow> bool \<Rightarrow> NodeId \<Rightarrow> WorkerId \<Rightarrow> RouteTier \<Rightarrow> bool \<Rightarrow> StageSuccess \<Rightarrow> TaskOutcome" where
  "completed_outcome now task had_source node_id worker_id route_tier admitted_at_overflow success =
     outcome_for task had_source (Completed
       \<lparr>ci_node_id = node_id, ci_worker_id = Some worker_id, ci_route_tier = route_tier,
        ci_started_at = ss_started_at success,
        ci_native_render_started_at = ss_native_render_started_at success,
        ci_native_render_completed_at = ss_native_render_completed_at success,
        ci_completed_at = now, ci_style_swap = ss_style_swap success,
        ci_cold_start = ss_cold_start success, ci_source_loaded = ss_source_loaded success,
        ci_admitted_at_overflow = admitted_at_overflow,
        ci_render_observation = Some (render_observation_from_task task
          (ss_style_setup_duration success) (ss_source_setup_duration success))\<rparr>
       (ss_output success))"

text \<open>The slot of a worker between commands; the flag is the one the pool reads.\<close>

record 'r WorkerSlot =
  wl_renderer :: 'r
  wl_profile :: "(WorkerProfile \<times> CredentialCachePartition option) option"
  wl_cache :: SourceCache
  wl_available :: bool

definition sync_availability :: "'r Renderer \<Rightarrow> 'r WorkerSlot \<Rightarrow> 'r WorkerSlot" where
  "sync_availability R slot =
     (case rd_repair_if_needed R (wl_renderer slot) of
        (Inr _, r) \<Rightarrow> slot\<lparr>wl_renderer := r, wl_available := rd_is_available R r\<rparr>
      | (Inl _, r) \<Rightarrow> slot\<lparr>wl_renderer := r, wl_available := False\<rparr>)"

text \<open>
  The effects of a command that others see, in order: the acknowledgement that the command was taken
  from the queue, stores to the availability flag, replies, and the end of the completion guard.
\<close>

datatype WorkerEffect =
  Started | Publish bool | Reply WorkerReply | FinishCompletion TaskOutcome | DropCompletion

text \<open>
  One command's environment: the stages, whether the response timer fired before they ended, and the
  clock when the outcome is built and at the last deadline comparison.
\<close>

record CommandClock =
  cc_stages :: StageClock
  cc_timer_fired :: bool
  cc_completed_at :: instant
  cc_end :: instant

definition stage_state_of :: "'r WorkerSlot \<Rightarrow> InternalTask \<Rightarrow> 'r StageState" where
  "stage_state_of slot task =
     \<lparr>st_renderer = wl_renderer slot, st_profile = wl_profile slot, st_cache = wl_cache slot,
      st_task = task, st_progress = stage_code AcquireRenderPermit\<rparr>"

definition slot_after_stages :: "'r WorkerSlot \<Rightarrow> 'r StageState \<Rightarrow> 'r WorkerSlot" where
  "slot_after_stages slot s =
     slot\<lparr>wl_renderer := st_renderer s, wl_profile := st_profile s, wl_cache := st_cache s\<rparr>"

text \<open>A renderer error after the stages: retirement on a timeout, repair, forgotten warm state.\<close>

definition handle_renderer_error ::
  "'r Renderer \<Rightarrow> RendererError \<Rightarrow> 'r WorkerSlot \<Rightarrow> WorkerEffect list \<times> 'r WorkerSlot" where
  "handle_renderer_error R err slot =
     (let (hide, slot1) =
            (if err = Timeout
             then ([Publish False],
                   slot\<lparr>wl_available := False, wl_renderer := rd_retire_after_current R (wl_renderer slot)\<rparr>)
             else ([], slot));
          slot2 = sync_availability R slot1;
          slot3 = (if renderer_error_invalidates_warm_state err
                   then slot2\<lparr>wl_profile := None, wl_cache := source_cache_clear (wl_cache slot2)\<rparr>
                   else slot2)
      in (hide @ [Publish (wl_available slot2)], slot3))"

fun is_completed :: "TaskResult \<Rightarrow> bool" where
  "is_completed (Completed _ _) = True"
| "is_completed _ = False"

text \<open>
  The outcome of a run of the stages.  A pending run was cut off by the hard-wedge deadline and is a
  timeout at the last stage entered.
\<close>

definition conclude ::
  "'r Renderer \<Rightarrow> WorkerId \<Rightarrow> NodeId \<Rightarrow> instant \<Rightarrow> bool \<Rightarrow> RouteTier \<Rightarrow> bool \<Rightarrow> StageSuccess StageRun
   \<Rightarrow> 'r StageState \<Rightarrow> 'r WorkerSlot \<Rightarrow> TaskOutcome \<times> WorkerEffect list \<times> 'r WorkerSlot" where
  "conclude R worker_id node_id now had_source route_tier admitted_at_overflow run s slot =
     (case run of
        Ready success \<Rightarrow>
          (completed_outcome now (st_task s) had_source node_id worker_id route_tier
             admitted_at_overflow success, [], slot)
      | Fails (StageDeadlineExceeded stage) \<Rightarrow>
          (deadline_rejected_outcome (st_task s) had_source stage, [], slot)
      | Fails (StageRendererError stage err) \<Rightarrow>
          (let (effects, slot') = handle_renderer_error R err slot
           in (failed_outcome (st_task s) had_source err, effects, slot'))
      | Fails (StagePermitClosed stage) \<Rightarrow> (failed_outcome (st_task s) had_source ActorDead, [], slot)
      | _ \<Rightarrow>
          (let (effects, slot') = handle_renderer_error R Timeout slot
           in (failed_outcome (st_task s) had_source Timeout, effects, slot')))"

definition run_command ::
  "'r Renderer \<Rightarrow> WorkerId \<Rightarrow> NodeId \<Rightarrow> CommandClock \<Rightarrow> InternalTask \<Rightarrow> PreparedProfile option \<Rightarrow> RouteTier
   \<Rightarrow> bool \<Rightarrow> 'r WorkerSlot \<Rightarrow> (WorkerEffect list \<times> 'r WorkerSlot) option" where
  "run_command R worker_id node_id cc task prepared route_tier admitted_at_overflow slot =
     (let had_source = has_source task;
          response_timeout = response_timeout_outcome task;
          (run, s) = run_stages R (cc_stages cc) prepared (stage_state_of slot task);
          response_deadline_elapsed = (cc_timer_fired cc \<or> run = Pending);
          (early, slot1) =
            (if response_deadline_elapsed
             then ([Publish False, Reply (Outcome response_timeout)],
                   (slot_after_stages slot s)\<lparr>wl_available := False\<rparr>)
             else ([], slot_after_stages slot s));
          (outcome, effects, slot2) =
            conclude R worker_id node_id (cc_completed_at cc) had_source route_tier
              admitted_at_overflow run s slot1;
          (late, slot3) =
            (if response_deadline_elapsed
             then (let slot3 = sync_availability R slot2 in ([Publish (wl_available slot3)], slot3))
             else ([], slot2));
          expired = (\<not> response_deadline_elapsed \<and> cc_end cc \<ge> it_deadline task
                     \<and> is_completed (to_result outcome))
      in if run = Panicked then None
         else Some (early @ effects @ late
                @ (if expired then [Reply (Outcome response_timeout)] else [])
                @ [FinishCompletion outcome]
                @ (if response_deadline_elapsed \<or> expired then [] else [Reply (Outcome outcome)]),
                slot3))"

text \<open>A \<open>Process\<close> command; \<open>None\<close> is a panic of the worker.\<close>

definition worker_process ::
  "'r Renderer \<Rightarrow> WorkerId \<Rightarrow> NodeId \<Rightarrow> CommandClock \<Rightarrow> InternalTask \<Rightarrow> PreparedProfile option \<Rightarrow> RouteTier
   \<Rightarrow> bool \<Rightarrow> 'r WorkerSlot \<Rightarrow> (WorkerEffect list \<times> 'r WorkerSlot) option" where
  "worker_process R worker_id node_id cc task prepared route_tier admitted_at_overflow slot =
     (let (repaired, slot1) =
            (if \<not> rd_is_available R (wl_renderer slot)
             then (let slot1 = sync_availability R slot in ([Publish (wl_available slot1)], slot1))
             else ([], slot))
      in if \<not> wl_available slot1
         then Some (Started # repaired @ [DropCompletion, Reply (Redispatch task prepared)], slot1)
         else case hard_wedge_deadline task of
                None \<Rightarrow> None
              | Some _ \<Rightarrow>
                  map_option (\<lambda>(effects, slot'). (Started # repaired @ effects, slot'))
                    (run_command R worker_id node_id cc task prepared route_tier
                       admitted_at_overflow slot1))"

text \<open>
  \<open>worker_loop\<close>: what \<open>select!\<close> yields, one input at a time.  The loop ends at \<open>Retire\<close>, when the
  channel closes, or with a panic; an exhausted list is a worker that still waits.
\<close>

datatype WorkerInput =
  RepairTick
| ProcessCmd CommandClock InternalTask "PreparedProfile option" RouteTier bool
| RetireCmd
| ChannelClosed

datatype LoopEnd = Waiting | Exited | LoopPanicked

fun worker_iterate ::
  "'r Renderer \<Rightarrow> WorkerId \<Rightarrow> NodeId \<Rightarrow> WorkerInput list \<Rightarrow> 'r WorkerSlot \<Rightarrow> WorkerEffect list list \<times> LoopEnd \<times> 'r WorkerSlot" where
  "worker_iterate R worker_id node_id [] slot = ([], Waiting, slot)"
| "worker_iterate R worker_id node_id (RepairTick # rest) slot =
     (let slot1 = sync_availability R slot;
          (trace, e, slot2) = worker_iterate R worker_id node_id rest slot1
      in ([Publish (wl_available slot1)] # trace, e, slot2))"
| "worker_iterate R worker_id node_id (ProcessCmd cc task prepared route_tier overflow # rest) slot =
     (case worker_process R worker_id node_id cc task prepared route_tier overflow slot of
        None \<Rightarrow> ([], LoopPanicked, slot)
      | Some (effects, slot1) \<Rightarrow>
          (let (trace, e, slot2) = worker_iterate R worker_id node_id rest slot1
           in (effects # trace, e, slot2)))"
| "worker_iterate R worker_id node_id (RetireCmd # rest) slot = ([], Exited, slot)"
| "worker_iterate R worker_id node_id (ChannelClosed # rest) slot = ([], Exited, slot)"

definition worker_loop ::
  "'r Renderer \<Rightarrow> WorkerId \<Rightarrow> NodeId \<Rightarrow> nat \<Rightarrow> bool \<Rightarrow> WorkerInput list \<Rightarrow> 'r \<Rightarrow> WorkerEffect list list \<times> LoopEnd \<times> 'r WorkerSlot" where
  "worker_loop R worker_id node_id source_cache_capacity available inputs renderer =
     (let slot = sync_availability R
            \<lparr>wl_renderer = renderer, wl_profile = None, wl_cache = source_cache_new source_cache_capacity,
             wl_available = available\<rparr>;
          (trace, e, slot') = worker_iterate R worker_id node_id inputs slot
      in ([Publish (wl_available slot)] # trace, e, slot'))"

section \<open>The source cache is a recency list\<close>

lemma trim_front_last_n: "trim_front cap xs = last_n cap xs"
proof (induction xs)
  case (Cons x xs)
  then show ?case by (auto simp: last_n_def Suc_diff_le)
qed (simp add: last_n_def)

lemma remove_position:
  "distinct xs \<Longrightarrow>
    (case position (\<lambda>x. x = h) xs of Some i \<Rightarrow> take i xs @ drop (Suc i) xs | None \<Rightarrow> xs)
      = filter (\<lambda>x. x \<noteq> h) xs"
proof (induction xs)
  case (Cons x xs)
  have "filter (\<lambda>y. y \<noteq> x) xs = xs" using Cons.prems by (auto simp: filter_id_conv)
  with Cons show ?case by (auto split: option.splits)
qed simp

lemma touch_entries_lru: "distinct q \<Longrightarrow> touch_entries cap h q = lru_touch cap h q"
  by (simp add: touch_entries_def remove_position trim_front_last_n lru_touch_def)

interpretation source_cache: recency_list "max capacity 1" "touch_entries (max capacity 1)" for capacity
  by unfold_locales (simp_all add: touch_entries_lru)

lemma source_cache_fold:
  "foldl (\<lambda>c h. source_cache_touch h c) c hs =
    c\<lparr>sc_entries := foldl (\<lambda>q h. touch_entries (sc_capacity c) h q) (sc_entries c) hs\<rparr>"
  by (induction hs arbitrary: c) (simp_all add: source_cache_touch_def)

text \<open>A worker's source cache holds exactly the most recently touched distinct sources, at most
  its capacity of them (at least one), oldest first, whatever the sequence of touches.\<close>

theorem source_cache_most_recent:
  "sc_entries (foldl (\<lambda>c h. source_cache_touch h c) (source_cache_new capacity) hs)
    = last_n (max capacity 1) (remdups hs)"
  using source_cache.touches_most_recent [of capacity hs]
  by (simp add: source_cache_fold source_cache_new_def)

section \<open>What the renderer is asked to do\<close>

text \<open>A renderer that also records the calls made to it.\<close>

datatype RendererCall = SetupCall InternalTask "PreparedProfile option" | SourceCall SourceHash | RenderCall InternalTask

definition logged :: "'r Renderer \<Rightarrow> ('r \<times> RendererCall list) Renderer" where
  "logged R =
     \<lparr>rd_setup_profile = (\<lambda>task prepared (r, calls).
        let (res, r') = rd_setup_profile R task prepared r in (res, r', calls @ [SetupCall task prepared])),
      rd_ensure_source = (\<lambda>h (r, calls).
        let (res, r') = rd_ensure_source R h r in (res, r', calls @ [SourceCall h])),
      rd_render = (\<lambda>task (r, calls).
        let (res, r') = rd_render R task r in (res, r', calls @ [RenderCall task])),
      rd_retire_after_current = (\<lambda>(r, calls). (rd_retire_after_current R r, calls)),
      rd_is_available = (\<lambda>(r, calls). rd_is_available R r),
      rd_repair_if_needed = (\<lambda>(r, calls).
        let (res, r') = rd_repair_if_needed R r in (res, r', calls))\<rparr>"

abbreviation calls :: "('r \<times> RendererCall list) StageState \<Rightarrow> RendererCall list" where
  "calls s \<equiv> snd (st_renderer s)"

lemma and_then_cases:
  assumes "and_then m f = (run, s')"
  obtains (ready) a s where "m = (Ready a, s)" "f a s = (run, s')"
    | (stop) r where "m = (r, s')" "\<not> (\<exists>a. r = Ready a)" "\<not> (\<exists>a. run = Ready a)"
  using assms by (cases m; cases "fst m") auto

lemma check_deadline_Ready: "check_deadline_at now task stage = Ready u \<longleftrightarrow> now < it_deadline task"
  by (simp add: check_deadline_at_def)

lemma acquire_permit_Ready:
  "acquire_permit now wait task stage = Ready u \<longleftrightarrow> now < it_deadline task \<and> wait = PermitGranted"
  by (auto simp: acquire_permit_def check_deadline_at_def split: PermitWait.splits)

lemmas stage_ready = check_deadline_Ready acquire_permit_Ready

lemma renderer_result_Ready: "renderer_result stage res = Ready a \<longleftrightarrow> res = Some (Inr a)"
  by (cases "(stage, res)" rule: renderer_result.cases) auto

lemma style_swap_stage_calls:
  assumes "style_swap_stage (logged R) ck prepared s = (run, s')"
  shows "st_task s' = st_task s"
    and "calls s' = calls s \<or> calls s' = calls s @ [SetupCall (st_task s) prepared]"
    and "run = Ready d \<Longrightarrow> calls s' = calls s @ [SetupCall (st_task s) prepared]
      \<and> st_profile s' = Some (worker_profile (st_task s), task_partition (st_task s))
      \<and> st_cache s' = source_cache_clear (st_cache s) \<and> ck_swap_check ck < it_deadline (st_task s)"
  using assms
  by (auto simp: style_swap_stage_def Let_def enter_stage_def logged_def stage_ready
      renderer_result_Ready elim!: and_then_cases split: prod.splits)

lemma source_stage_calls:
  assumes "source_stage (logged R) ck s = (run, s')"
  shows "st_task s' = st_task s" and "st_profile s' = st_profile s"
    and "calls s' = calls s \<or> (\<exists>h. calls s' = calls s @ [SourceCall h])"
    and "run = Ready d \<Longrightarrow> ck_source_check ck < it_deadline (st_task s)
      \<and> (\<forall>src. it_source (st_task s) = Some src \<longrightarrow>
           source_cache_contains (st_cache s) (src_hash src)
           \<or> calls s' = calls s @ [SourceCall (src_hash src)])"
  using assms
  by (auto simp: source_stage_def Let_def enter_stage_def logged_def stage_ready
      renderer_result_Ready elim!: and_then_cases split: prod.splits option.splits if_splits)

lemma render_stage_calls:
  assumes "render_stage (logged R) ck prepared s = (run, s')"
  shows "st_profile s' = st_profile s"
    and "calls s' = calls s \<or> calls s' = calls s @ [RenderCall (with_addlayer_source prepared (st_task s))]
      \<and> ck_native_check ck < it_deadline (st_task s) \<and> ck_native_permit ck = PermitGranted
      \<and> ck_render_check ck < it_deadline (st_task s)"
    and "run = Ready d \<Longrightarrow> calls s' \<noteq> calls s"
  using assms
  by (auto simp: render_stage_def Let_def enter_stage_def logged_def stage_ready
      elim!: and_then_cases split: prod.splits)

lemma needs_style_swap_iff:
  "needs_style_swap s \<longleftrightarrow>
    st_profile s \<noteq> Some (worker_profile (st_task s), task_partition (st_task s))"
  by (auto simp: needs_style_swap_def split: option.splits)

lemma swap_step_calls:
  assumes "swap_step (logged R) ck (needs_style_swap s) prepared s = (run, s')"
  shows "st_task s' = st_task s"
    and "set (calls s') \<subseteq> set (calls s) \<union> {SetupCall (st_task s) prepared}"
    and "run = Ready d \<Longrightarrow>
      st_profile s' = Some (worker_profile (st_task s), task_partition (st_task s))
      \<and> (if needs_style_swap s
          then SetupCall (st_task s) prepared \<in> set (calls s') \<and> sc_entries (st_cache s') = []
          else s' = s)"
proof (atomize (full), cases "needs_style_swap s")
  case False
  then show "st_task s' = st_task s
      \<and> set (calls s') \<subseteq> set (calls s) \<union> {SetupCall (st_task s) prepared}
      \<and> (run = Ready d \<longrightarrow>
        st_profile s' = Some (worker_profile (st_task s), task_partition (st_task s))
        \<and> (if needs_style_swap s
            then SetupCall (st_task s) prepared \<in> set (calls s') \<and> sc_entries (st_cache s') = []
            else s' = s))"
    using assms by (auto simp: swap_step_def needs_style_swap_iff)
next
  case True
  then show "st_task s' = st_task s
      \<and> set (calls s') \<subseteq> set (calls s) \<union> {SetupCall (st_task s) prepared}
      \<and> (run = Ready d \<longrightarrow>
        st_profile s' = Some (worker_profile (st_task s), task_partition (st_task s))
        \<and> (if needs_style_swap s
            then SetupCall (st_task s) prepared \<in> set (calls s') \<and> sc_entries (st_cache s') = []
            else s' = s))"
    using assms style_swap_stage_calls [of R ck prepared s]
    by (auto simp: swap_step_def source_cache_clear_def elim!: and_then_cases)
qed

lemma enter_stage_simps [simp]:
  "st_task (enter_stage stage s) = st_task s" "st_renderer (enter_stage stage s) = st_renderer s"
  "st_profile (enter_stage stage s) = st_profile s" "st_cache (enter_stage stage s) = st_cache s"
  "needs_style_swap (enter_stage stage s) = needs_style_swap s"
  by (simp_all add: enter_stage_def needs_style_swap_iff)

text \<open>A native render is preceded by all earlier stages.\<close>

lemma render_reached:
  assumes "run_stages (logged R) ck prepared s = (run, s')" and "calls s = []"
    and "RenderCall task' \<in> set (calls s')"
  obtains d s2 l s3 where
    "ck_permit_check ck < it_deadline (st_task s)" "ck_permit ck = PermitGranted"
    "swap_step (logged R) ck (needs_style_swap s) prepared (enter_stage AcquireRenderPermit s) = (Ready d, s2)"
    "source_stage (logged R) ck s2 = (Ready l, s3)"
    "calls s' = calls s3 @ [RenderCall (with_addlayer_source
       (Option.bind prepared pp_addlayer_source) (st_task s3))]"
    "st_profile s' = st_profile s3" "ck_native_permit ck = PermitGranted"
    "ck_native_check ck < it_deadline (st_task s3)" "ck_render_check ck < it_deadline (st_task s3)"
    "RenderCall task' \<notin> set (calls s3)"
  using assms(1) [unfolded run_stages_def Let_def]
proof (cases rule: and_then_cases)
  case stop
  then have "s' = enter_stage AcquireRenderPermit s" by simp
  then show ?thesis using assms(2,3) by simp
next
  case (ready u s1)
  then have s1: "s1 = enter_stage AcquireRenderPermit s" by simp
  note permit = ready(1) [unfolded prod.inject acquire_permit_Ready enter_stage_simps]
  note swap_calls = swap_step_calls [of R ck "enter_stage AcquireRenderPermit s",
      unfolded enter_stage_simps]
  from ready(2) [unfolded s1] show ?thesis
  proof (cases rule: and_then_cases)
    case stop
    then show ?thesis using assms(2,3) swap_calls(2) [OF stop(1)] by auto
  next
    case (ready d s2)
    note swap = ready(1)
    from ready(2) show ?thesis
    proof (cases rule: and_then_cases)
      case stop
      then show ?thesis
        using assms(2,3) swap_calls(2) [OF swap] source_stage_calls(3) [OF stop(1)] by auto
    next
      case (ready l s3)
      have new: "RenderCall task' \<notin> set (calls s3)"
        using assms(2) swap_calls(2) [OF swap] source_stage_calls(3) [OF ready(1)] by auto
      obtain r4 s4 where st4: "render_stage (logged R) ck (Option.bind prepared pp_addlayer_source) s3
          = (r4, s4)" by fastforce
      have "s4 = s'" using ready(2) st4 by (cases l; cases r4) (auto split: option.splits)
      then show ?thesis
        using that [OF _ _ swap ready(1)] permit render_stage_calls(1,2) [OF st4] new assms(3) by auto
    qed
  qed
qed


definition example_renderer :: "(RendererError + RendererOutput) option \<Rightarrow> nat Renderer" where
  "example_renderer answer =
     \<lparr>rd_setup_profile = (\<lambda>_ _ n. (Some (Inr ()), n + 1)), rd_ensure_source = (\<lambda>_ n. (Some (Inr ()), n)),
      rd_render = (\<lambda>_ n. (answer, n)), rd_retire_after_current = (\<lambda>n. 0),
      rd_is_available = (\<lambda>n. True), rd_repair_if_needed = (\<lambda>n. (Inr False, n))\<rparr>"

definition example_image :: "(RendererError + RendererOutput) option" where
  "example_image = Some (Inr \<lparr>ro_output = \<lparr>out_bytes = [1, 2], out_format = Png\<rparr>,
     ro_source_setup_duration = None\<rparr>)"

definition example_stage_clock :: "instant \<Rightarrow> StageClock" where
  "example_stage_clock t =
     \<lparr>ck_permit_check = t, ck_permit = PermitGranted, ck_started = t, ck_swap_check = t,
      ck_setup_started = t, ck_setup_done = t, ck_source_check = t, ck_source_started = t,
      ck_source_done = t, ck_native_check = t, ck_native_permit = PermitGranted,
      ck_native_started = t, ck_render_check = t, ck_render_done = t\<rparr>"

definition example_slot :: "nat WorkerSlot" where
  "example_slot = \<lparr>wl_renderer = 0, wl_profile = None, wl_cache = source_cache_new 2, wl_available = True\<rparr>"

definition logged_state :: "'r StageState \<Rightarrow> ('r \<times> RendererCall list) StageState" where
  "logged_state s = \<lparr>st_renderer = (st_renderer s, []), st_profile = st_profile s,
     st_cache = st_cache s, st_task = st_task s, st_progress = st_progress s\<rparr>"


section \<open>Replies\<close>

fun is_reply :: "WorkerEffect \<Rightarrow> bool" where
  "is_reply (Reply _) = True"
| "is_reply _ = False"

fun ends_guard :: "WorkerEffect \<Rightarrow> bool" where
  "ends_guard (FinishCompletion _) = True"
| "ends_guard DropCompletion = True"
| "ends_guard _ = False"

lemma handle_renderer_error_effects:
  assumes "handle_renderer_error R err slot = (effects, slot')"
  shows "\<forall>e\<in>set effects. \<exists>b. e = Publish b"
    and "err = Timeout \<Longrightarrow> \<exists>rest. effects = Publish False # rest"
    and "renderer_error_invalidates_warm_state err \<Longrightarrow> wl_profile slot' = None \<and> sc_entries (wl_cache slot') = []"
  using assms
  by (auto simp: handle_renderer_error_def Let_def source_cache_clear_def split: if_splits)

lemma conclude_effects:
  assumes "conclude R w n now src tier ov run s slot = (outcome, effects, slot')"
  shows "\<forall>e\<in>set effects. \<exists>b. e = Publish b" and "is_completed (to_result outcome) \<longleftrightarrow> (\<exists>a. run = Ready a)"
  using assms handle_renderer_error_effects(1) [of R _ slot]
  by (auto simp: conclude_def completed_outcome_def outcome_for_def deadline_rejected_outcome_def
      rejected_outcome_def failed_outcome_def Let_def
      split: StageRun.splits StageFailure.splits prod.splits)

lemma no_reply_filter:
  "\<forall>e\<in>set es. \<exists>b. e = Publish b \<Longrightarrow> filter is_reply es = [] \<and> filter ends_guard es = []"
  by (auto simp: filter_empty_conv)

definition answered :: "CommandClock \<Rightarrow> InternalTask \<Rightarrow> WorkerEffect list \<Rightarrow> bool" where
  "answered cc task effects \<longleftrightarrow>
     length (filter is_reply effects) = 1 \<and> length (filter ends_guard effects) = 1
     \<and> (\<forall>outcome. Reply (Outcome outcome) \<in> set effects \<and> is_completed (to_result outcome) \<longrightarrow>
           \<not> cc_timer_fired cc \<and> cc_end cc < it_deadline task)"

lemma timeout_not_completed: "\<not> is_completed (to_result (response_timeout_outcome task))"
  by (simp add: response_timeout_outcome_def)

lemma run_command_answered:
  assumes "run_command R w n cc task prepared tier ov slot = Some (effects, slot')"
  shows "answered cc task effects"
proof -
  obtain run s where run: "run_stages R (cc_stages cc) prepared (stage_state_of slot task) = (run, s)"
    by fastforce
  define late where "late \<longleftrightarrow> cc_timer_fired cc \<or> run = Pending"
  define slot1 where "slot1 = (if late then (slot_after_stages slot s)\<lparr>wl_available := False\<rparr>
      else slot_after_stages slot s)"
  obtain outcome es slot2 where con: "conclude R w n (cc_completed_at cc) (has_source task) tier ov run s slot1
      = (outcome, es, slot2)" by (metis prod_cases3)
  note ce = conclude_effects [OF con]
  note nr = no_reply_filter [OF ce(1)]
  have no: "Reply r \<notin> set es" for r using ce(1) by auto
  show ?thesis
    using assms con ce(2) nr no timeout_not_completed [of task]
    unfolding run_command_def Let_def run prod.case late_def [symmetric]
    by (cases late) (auto simp: answered_def slot1_def late_def split: if_splits prod.splits)
qed

lemma worker_process_answered:
  assumes "worker_process R w n cc task prepared tier ov slot = Some (effects, slot')"
  shows "answered cc task effects"
proof -
  have push: "answered cc task (Started # es @ effs) \<longleftrightarrow> answered cc task effs"
    if "es = [] \<or> (\<exists>b. es = [Publish b])" for es effs
    using that by (auto simp: answered_def)
  show ?thesis
    using assms run_command_answered [of R w n cc task prepared tier ov]
    by (auto simp: worker_process_def Let_def push split: if_splits option.splits)
      (auto simp: answered_def)
qed

fun ends_loop :: "WorkerInput \<Rightarrow> bool" where
  "ends_loop RetireCmd = True"
| "ends_loop ChannelClosed = True"
| "ends_loop _ = False"

fun input_answered :: "WorkerInput \<Rightarrow> WorkerEffect list \<Rightarrow> bool" where
  "input_answered (ProcessCmd cc task _ _ _) effects = answered cc task effects"
| "input_answered _ effects = (filter is_reply effects = [] \<and> filter ends_guard effects = [])"

lemma worker_iterate_answered:
  assumes "worker_iterate R w n inputs slot = (trace, e, slot')"
  shows "list_all2 input_answered (take (length trace) (takeWhile (\<lambda>i. \<not> ends_loop i) inputs)) trace
    \<and> (e \<noteq> LoopPanicked \<longrightarrow> length trace = length (takeWhile (\<lambda>i. \<not> ends_loop i) inputs))"
  using assms
proof (induction inputs arbitrary: slot trace)
  case (Cons i inputs)
  show ?case
  proof (cases i)
    case RepairTick
    then show ?thesis using Cons by (auto simp: Let_def split: prod.splits)
  next
    case (ProcessCmd cc task prepared tier ov)
    then show ?thesis
      using Cons worker_process_answered [of R w n cc task prepared tier ov slot]
      by (auto simp: Let_def split: prod.splits option.splits)
  qed (use Cons in auto)
qed simp

text \<open>C12: Every command a worker takes from its queue is answered exactly once and its completion
  guard ends exactly once, whatever the renderer does and whenever the timers fire; no command taken
  before retirement is skipped; and a completed render is reported as such only when the response
  timer had not fired and the deadline had not passed.\<close>

theorem every_command_answered:
  assumes "worker_loop R w n capacity available inputs renderer = (trace, e, slot)"
  shows "list_all2
      (\<lambda>input effects. case input of
         ProcessCmd cc task _ _ _ \<Rightarrow>
           length (filter is_reply effects) = 1 \<and> length (filter ends_guard effects) = 1
           \<and> (\<forall>outcome. Reply (Outcome outcome) \<in> set effects \<and> is_completed (to_result outcome) \<longrightarrow>
                \<not> cc_timer_fired cc \<and> cc_end cc < it_deadline task)
       | _ \<Rightarrow> filter is_reply effects = [])
      (take (length trace - 1) (takeWhile (\<lambda>i. \<not> ends_loop i) inputs)) (tl trace)
    \<and> (e \<noteq> LoopPanicked \<longrightarrow> length (tl trace) = length (takeWhile (\<lambda>i. \<not> ends_loop i) inputs))"
proof -
  obtain trace' slot0 where t: "worker_iterate R w n inputs slot0 = (trace', e, slot)" "tl trace = trace'"
    using assms by (auto simp: worker_loop_def Let_def split: prod.splits)
  have "length trace - 1 = length trace'" using t(2) by auto
  then show ?thesis
    using worker_iterate_answered [OF t(1)] t(2)
    by (auto elim!: list_all2_mono simp: answered_def split: WorkerInput.splits)
qed

definition example_command_clock :: "bool \<Rightarrow> instant \<Rightarrow> CommandClock" where
  "example_command_clock fired t =
     \<lparr>cc_stages = example_stage_clock t, cc_timer_fired = fired, cc_completed_at = t, cc_end = t\<rparr>"

theorem every_command_answered_witness:
  "\<exists>first effects.
    fst (worker_loop (example_renderer example_image) 0 ''a'' 2 True
      [ProcessCmd (example_command_clock True 5) (example_task 1) None Tier1WarmTracking False, RetireCmd] 0)
      = [first, effects]
    \<and> length (filter is_reply effects) = 1 \<and> length (filter ends_guard effects) = 1"
proof -
  let ?i = "[ProcessCmd (example_command_clock True 5) (example_task 1) None Tier1WarmTracking False, RetireCmd]"
  obtain trace e slot where loop: "worker_loop (example_renderer example_image) 0 ''a'' 2 True ?i 0
      = (trace, e, slot)" by (metis prod_cases3)
  have "fst (snd (worker_loop (example_renderer example_image) 0 ''a'' 2 True ?i 0)) = Exited"
    by code_simp
  then have "e = Exited" using loop by simp
  have "length (tl trace) = 1"
    using every_command_answered [OF loop] \<open>e = Exited\<close> by simp
  then obtain first effects where tr: "trace = [first, effects]"
    by (cases trace) (auto simp: length_Suc_conv)
  then show ?thesis using every_command_answered [OF loop] loop by auto
qed

lemma sync_availability_simps [simp]:
  "wl_profile (sync_availability R slot) = wl_profile slot"
  "wl_cache (sync_availability R slot) = wl_cache slot"
  by (auto simp: sync_availability_def split: prod.splits sum.splits)



end
