(* ===== verification/Reservation.thy ===== *)
theory Reservation
  imports Worker_Pool
begin

text \<open>
  The lock-free reservation of one worker's queue slot (\<^verbatim>\<open>worker_pool.rs\<close>, \<open>try_reserve\<close>, and
  the release of \<open>WorkerCompletion::drop\<close>) at the grain of its atomic operations.  Any number of
  calls run at once; each keeps the value it last read.  The theory shows that the depth counter is
  exact and within the hard limit at every interleaving, and that a call that runs alone does what
  the sequential \<^const>\<open>try_reserve\<close> of \<^theory_text>\<open>Worker_Pool\<close> does.
\<close>

section \<open>Calls and their atomic steps\<close>

text \<open>
  The program points of a call: before the first look at the availability flag, before the load of
  the depth, before the exchange (with the value \<open>current\<close>), before the second look (the slot is
  taken), before the compensating subtraction, returned \<open>None\<close>, returned \<open>Some current\<close> with the
  completion guard alive, guard dropped.
\<close>

datatype ReservePoint =
    RStart | RAvailable | RLoaded nat | RExchanged nat | RUndo | RNone | RHolding nat | RReleased

record SlotState =
  slot_depth :: nat
  slot_available :: bool
  slot_calls :: "ReservePoint list"

text \<open>
  One atomic operation of a call at a program point, as the new depth and the next point.  The
  boolean says whether the weak exchange fails spuriously.
\<close>

fun reserve_step :: "nat \<Rightarrow> bool \<Rightarrow> bool \<Rightarrow> nat \<Rightarrow> ReservePoint \<Rightarrow> (nat \<times> ReservePoint) option" where
  "reserve_step capacity spurious avail depth RStart =
     Some (depth, if avail then RAvailable else RNone)"
| "reserve_step capacity spurious avail depth RAvailable = Some (depth, RLoaded depth)"
| "reserve_step capacity spurious avail depth (RLoaded current) =
     Some (if current \<ge> capacity then (depth, RNone)
           else if depth = current \<and> \<not> spurious then (current + 1, RExchanged current)
           else (depth, RLoaded depth))"
| "reserve_step capacity spurious avail depth (RExchanged current) =
     Some (depth, if avail then RHolding current else RUndo)"
| "reserve_step capacity spurious avail depth RUndo = Some (depth - 1, RNone)"
| "reserve_step capacity spurious avail depth (RHolding current) = Some (depth - 1, RReleased)"
| "reserve_step capacity spurious avail depth RNone = None"
| "reserve_step capacity spurious avail depth RReleased = None"

inductive slot_step :: "nat \<Rightarrow> SlotState \<Rightarrow> SlotState \<Rightarrow> bool" for capacity :: nat where
  call: "i < length (slot_calls s) \<Longrightarrow>
    reserve_step capacity spurious (slot_available s) (slot_depth s) (slot_calls s ! i)
      = Some (depth', p') \<Longrightarrow>
    slot_step capacity s (s\<lparr>slot_depth := depth', slot_calls := (slot_calls s)[i := p']\<rparr>)"
| enter: "slot_step capacity s (s\<lparr>slot_calls := slot_calls s @ [RStart]\<rparr>)"
| flag: "slot_step capacity s (s\<lparr>slot_available := b\<rparr>)"

inductive_cases slot_stepE: "slot_step capacity s s'"

fun holds_slot :: "ReservePoint \<Rightarrow> bool" where
  "holds_slot (RExchanged current) = True"
| "holds_slot RUndo = True"
| "holds_slot (RHolding current) = True"
| "holds_slot p = False"

fun point_ok :: "nat \<Rightarrow> ReservePoint \<Rightarrow> bool" where
  "point_ok capacity (RExchanged current) = (current < capacity)"
| "point_ok capacity (RHolding current) = (current < capacity)"
| "point_ok capacity p = True"

definition slot_init :: "SlotState \<Rightarrow> bool" where
  "slot_init s \<longleftrightarrow> slot_depth s = 0 \<and> slot_calls s = []"

definition slot_inv :: "nat \<Rightarrow> SlotState \<Rightarrow> bool" where
  "slot_inv capacity s \<longleftrightarrow>
     slot_depth s = length (filter holds_slot (slot_calls s)) \<and> slot_depth s \<le> capacity
     \<and> list_all (point_ok capacity) (slot_calls s)"

section \<open>The counter is exact\<close>

lemma reserve_step_slot:
  assumes "reserve_step capacity spurious avail depth p = Some (depth', p')"
    and "depth \<le> capacity" and "holds_slot p \<Longrightarrow> 0 < depth" and "point_ok capacity p"
  shows "depth' + (if holds_slot p then 1 else 0) = depth + (if holds_slot p' then 1 else 0)"
    and "depth' \<le> capacity" and "point_ok capacity p'"
  using assms by (cases p; auto split: if_splits)+

lemma slot_step_inv:
  assumes "slot_step capacity s s'" and "slot_inv capacity s"
  shows "slot_inv capacity s'"
  using assms(1)
proof (cases rule: slot_step.cases)
  case (call i spurious depth' p')
  let ?p = "slot_calls s ! i"
  have mem: "?p \<in> set (slot_calls s)" using call(2) by simp
  then have pos: "0 < slot_depth s" if "holds_slot ?p"
    using assms(2) that by (auto simp: slot_inv_def length_greater_0_conv filter_empty_conv
        simp del: length_greater_0_conv intro!: length_pos_if_in_set [of ?p])
  have ok: "point_ok capacity ?p" "slot_depth s \<le> capacity"
    using assms(2) mem by (auto simp: slot_inv_def list_all_iff)
  note st = reserve_step_slot [OF call(3) ok(2) pos ok(1)]
  have "list_all (point_ok capacity) ((slot_calls s)[i := p'])"
    using assms(2) st(3) set_update_subset_insert [of "slot_calls s" i p']
    by (auto simp: slot_inv_def list_all_iff)
  then show ?thesis
    using st(1,2) length_filter_update [OF call(2), of holds_slot p'] assms(2)
    by (simp add: slot_inv_def call(1))
qed (use assms(2) in \<open>simp_all add: slot_inv_def\<close>)

interpretation slot: inductive_invariant slot_init "slot_step capacity" "slot_inv capacity"
  for capacity
proof
  show "slot_inv capacity s" if "slot_init s" for s
    using that by (simp add: slot_init_def slot_inv_def)
  show "slot_inv capacity s'" if "slot_inv capacity s" "slot_step capacity s s'" for s s'
    using slot_step_inv that by blast
qed

text \<open>C2: Reservation is exact and bounded at every interleaving of the atomic operations of any
  number of calls, spurious exchange failures and availability changes included: the depth of a
  worker's queue is the number of slots taken and not yet returned, never more than the hard limit;
  every admitted call saw a depth below the limit; and a call that must give a slot back finds the
  counter positive, so the subtraction cannot wrap.\<close>

theorem reservation_exact:
  assumes "slot_depth s0 = 0" and "slot_calls s0 = []" and "(slot_step capacity)\<^sup>*\<^sup>* s0 s"
  shows "slot_depth s = length (filter holds_slot (slot_calls s)) \<and> slot_depth s \<le> capacity
    \<and> (\<forall>i<length (slot_calls s).
         (holds_slot (slot_calls s ! i) \<longrightarrow> 0 < slot_depth s)
       \<and> (\<forall>current. slot_calls s ! i = RHolding current \<longrightarrow> current < capacity))"
proof -
  have inv: "slot_inv capacity s"
    using slot.reachable_inv assms by (simp add: slot_init_def)
  have "0 < slot_depth s" if "i < length (slot_calls s)" "holds_slot (slot_calls s ! i)" for i
    using inv that nth_mem [OF that(1)]
    by (auto simp: slot_inv_def simp del: length_greater_0_conv
        intro!: length_pos_if_in_set [of "slot_calls s ! i"])
  moreover have "current < capacity"
    if "i < length (slot_calls s)" "slot_calls s ! i = RHolding current" for i current
    using inv that nth_mem [OF that(1)] by (auto simp: slot_inv_def list_all_iff)
  ultimately show ?thesis using inv by (simp add: slot_inv_def)
qed

text \<open>A schedule: which call moves next, with the outcome of a weak exchange.\<close>

datatype SlotAction = Enter | Move nat bool | Flag bool

fun slot_action :: "nat \<Rightarrow> SlotAction \<Rightarrow> SlotState \<Rightarrow> SlotState" where
  "slot_action capacity Enter s = s\<lparr>slot_calls := slot_calls s @ [RStart]\<rparr>"
| "slot_action capacity (Flag b) s = s\<lparr>slot_available := b\<rparr>"
| "slot_action capacity (Move i spurious) s =
     (if i < length (slot_calls s) then
        (case reserve_step capacity spurious (slot_available s) (slot_depth s) (slot_calls s ! i) of
           None \<Rightarrow> s
         | Some (depth', p') \<Rightarrow> s\<lparr>slot_depth := depth', slot_calls := (slot_calls s)[i := p']\<rparr>)
      else s)"

lemma slot_action_steps: "(slot_step capacity)\<^sup>*\<^sup>* s (slot_action capacity a s)"
proof (cases a)
  case (Move i spurious)
  then show ?thesis by (auto split: option.splits intro!: r_into_rtranclp slot_step.call)
qed (auto intro: slot_step.intros)

lemma slot_schedule_steps: "(slot_step capacity)\<^sup>*\<^sup>* s (fold (slot_action capacity) as s)"
proof (induction as arbitrary: s)
  case (Cons a as)
  then show ?case using slot_action_steps rtranclp_trans by (fastforce simp: comp_def)
qed simp

text \<open>Two calls race for the only slot; the worker is retired between the exchange and the second
  look of the first, which gives the slot back.\<close>

definition example_race :: "SlotAction list" where
  "example_race = [Enter, Enter, Move 0 False, Move 1 False, Move 0 False, Move 1 False,
     Move 0 True, Move 0 False, Move 1 False, Move 1 False, Flag False, Move 0 False]"

theorem reservation_exact_witness:
  "let s = fold (slot_action 1) example_race \<lparr>slot_depth = 0, slot_available = True, slot_calls = []\<rparr>
   in slot_calls s = [RUndo, RNone] \<and> slot_depth s = 1 \<and> 0 < slot_depth s"
  using reservation_exact [OF _ _ slot_schedule_steps
      [of 1 "\<lparr>slot_depth = 0, slot_available = True, slot_calls = []\<rparr>" example_race]]
  by (simp add: example_race_def Let_def)

section \<open>A call on its own\<close>

fun run_call :: "nat \<Rightarrow> nat \<Rightarrow> bool \<Rightarrow> nat \<times> ReservePoint \<Rightarrow> nat \<times> ReservePoint" where
  "run_call 0 capacity avail dp = dp"
| "run_call (Suc n) capacity avail (depth, p) =
     (case p of RHolding current \<Rightarrow> (depth, p)
      | _ \<Rightarrow> (case reserve_step capacity False avail depth p of
               None \<Rightarrow> (depth, p) | Some dp \<Rightarrow> run_call n capacity avail dp))"

text \<open>The sequential \<open>try_reserve\<close> is what one undisturbed call of the atomic version does: in at
  most four atomic operations it returns the depth it saw and leaves it increased by one, or returns
  nothing and leaves the pool unchanged.\<close>

theorem try_reserve_refines:
  assumes "idx < length (pool_queue_depths pool)"
  shows "case try_reserve idx pool of
      (Some current, pool') \<Rightarrow>
        run_call 4 (pool_queue_capacity pool) (pool_available pool ! idx)
          (pool_queue_depths pool ! idx, RStart) = (pool_queue_depths pool' ! idx, RHolding current)
    | (None, pool') \<Rightarrow>
        run_call 4 (pool_queue_capacity pool) (pool_available pool ! idx)
          (pool_queue_depths pool ! idx, RStart) = (pool_queue_depths pool' ! idx, RNone)
        \<and> pool' = pool"
  using assms by (auto simp: try_reserve_def Let_def numeral_eq_Suc)

theorem try_reserve_refines_witness:
  "run_call 4 2 True (0, RStart) = (1, RHolding 0)
    \<and> try_reserve 0 (worker_pool_spawn [True] 1 2 1 1)
        = (Some 0, (worker_pool_spawn [True] 1 2 1 1)\<lparr>pool_queue_depths := [1]\<rparr>)"
proof -
  let ?pool = "worker_pool_spawn [True] 1 2 1 1"
  have p: "pool_queue_depths ?pool = [0]" "pool_available ?pool = [True]" "pool_queue_capacity ?pool = 2"
    by (simp_all add: worker_pool_spawn_def Let_def)
  then have "try_reserve 0 ?pool = (Some 0, ?pool\<lparr>pool_queue_depths := [1]\<rparr>)"
    by (simp add: try_reserve_def Let_def)
  then show ?thesis using try_reserve_refines [of 0 ?pool] p by simp
qed

end
