(* ===== verification/Render_Cache.thy ===== *)
theory Render_Cache
  imports Gossip_Codec Worker_Outcomes Transition
begin

text \<open>
  The rendered-image cache of a node, from \<^verbatim>\<open>crates/biei-core/src/render_cache.rs\<close>: the canonical
  key of a request, the authorisation of a hit, the election of one renderer per key, and the epoch
  that fences renders begun before an invalidation.  The cache store is a library: it is a partial
  map that may lose any entry at any time (capacity, time to live) and otherwise returns what was
  last inserted.  The hash that selects a flight shard is an argument.
\<close>

unbundle bit_operations_syntax

section \<open>Keys\<close>

datatype PositioningKey =
  CenterKey u64 u64 u64 u32 u32
| BboxKey u64 u64 u64 u64
| AutoKey

record LngLatKey =
  llk_lon :: u64
  llk_lat :: u64

record PathOverlayKey =
  pok_stroke_width :: "u32 option"
  pok_stroke_color :: "string option"
  pok_stroke_opacity :: "u32 option"
  pok_fill_color :: "string option"
  pok_fill_opacity :: "u32 option"
  pok_coordinates :: "LngLatKey list"

record GeoJsonOverlayKey =
  gok_feature_collection :: string

record PinOverlayKey =
  pik_size :: PinSize
  pik_label :: "string option"
  pik_color :: string
  pik_coordinate :: LngLatKey

datatype StaticOverlayKey = PathKey PathOverlayKey | GeoJsonKey GeoJsonOverlayKey | PinKey PinOverlayKey

datatype RenderRequestKey =
  TileKey u8 u32 u32 u16
| StaticImageKey PositioningKey u16 u16 "StaticOverlayKey list" "string option" Padding "string option"

record RenderCacheKey =
  rk_style_id :: string
  rk_style_version :: u64
  rk_request :: RenderRequestKey
  rk_scale :: Scale
  rk_output_format :: ImageFormat
  rk_source_hash :: "SourceHash option"

text \<open>Floating-point fields are their bit patterns, so \<open>to_bits\<close> is the identity.\<close>

fun positioning_key :: "Positioning \<Rightarrow> PositioningKey" where
  "positioning_key (Center lon lat zoom bearing pitch) = CenterKey lon lat zoom bearing pitch"
| "positioning_key (Bbox min_lon min_lat max_lon max_lat) = BboxKey min_lon min_lat max_lon max_lat"
| "positioning_key Auto = AutoKey"

definition lnglat_key :: "LngLat \<Rightarrow> LngLatKey" where
  "lnglat_key point = \<lparr>llk_lon = ll_lon point, llk_lat = ll_lat point\<rparr>"

definition path_overlay_key :: "PathOverlay \<Rightarrow> PathOverlayKey" where
  "path_overlay_key path =
     \<lparr>pok_stroke_width = po_stroke_width path, pok_stroke_color = po_stroke_color path,
      pok_stroke_opacity = po_stroke_opacity path, pok_fill_color = po_fill_color path,
      pok_fill_opacity = po_fill_opacity path,
      pok_coordinates = map lnglat_key (po_coordinates path)\<rparr>"

definition pin_overlay_key :: "PinOverlay \<Rightarrow> PinOverlayKey" where
  "pin_overlay_key pin =
     \<lparr>pik_size = pin_size pin, pik_label = pin_label pin, pik_color = pin_color pin,
      pik_coordinate = lnglat_key (pin_coordinate pin)\<rparr>"

definition geojson_overlay_key :: "GeoJsonOverlay \<Rightarrow> GeoJsonOverlayKey" where
  "geojson_overlay_key g = \<lparr>gok_feature_collection = go_feature_collection g\<rparr>"

fun static_overlay_key :: "StaticOverlay \<Rightarrow> StaticOverlayKey" where
  "static_overlay_key (Path path) = PathKey (path_overlay_key path)"
| "static_overlay_key (GeoJson g) = GeoJsonKey (geojson_overlay_key g)"
| "static_overlay_key (Pin pin) = PinKey (pin_overlay_key pin)"

text \<open>Each component of an added layer is framed by its length in bytes.\<close>

definition frame_component :: "string \<Rightarrow> string" where
  "frame_component component = show_nat (length component) @ '':'' @ component"

fun source_frames :: "AddLayerSource option \<Rightarrow> string" where
  "source_frames None = []"
| "source_frames (Some source) =
     frame_component (als_tileset_id source) @ frame_component (als_json source)"

definition addlayer_identity :: "AddLayer \<Rightarrow> string" where
  "addlayer_identity addlayer =
     frame_component (al_json addlayer) @ source_frames (al_source addlayer)"

fun render_request_key :: "RenderRequest \<Rightarrow> RenderRequestKey" where
  "render_request_key (TileRequest z x y tile_size) = TileKey z x y tile_size"
| "render_request_key (StaticImage positioning width height overlays before_layer padding addlayer) =
     StaticImageKey (positioning_key positioning) width height (map static_overlay_key overlays)
       before_layer padding (map_option addlayer_identity addlayer)"

definition cache_key_from_task :: "InternalTask \<Rightarrow> RenderCacheKey" where
  "cache_key_from_task task =
     \<lparr>rk_style_id = rev_id (it_style task), rk_style_version = rev_version (it_style task),
      rk_request = render_request_key (it_request task),
      rk_scale = pixel_ratio_to_scale (it_pixel_ratio task),
      rk_output_format = it_output_format task,
      rk_source_hash = map_option src_hash (it_source task)\<rparr>"

section \<open>Weights\<close>

text \<open>The compiler's sizes of the key types, in bytes, are an argument.\<close>

record KeySizes =
  size_of_cache_key :: nat
  size_of_overlay_key :: nat
  size_of_lnglat_key :: nat

definition usize_saturating_add :: "nat \<Rightarrow> nat \<Rightarrow> nat" where
  "usize_saturating_add a b = min (a + b) usize_max"

definition opt_len :: "string option \<Rightarrow> nat" where
  "opt_len o1 = (case o1 of None \<Rightarrow> 0 | Some s \<Rightarrow> length s)"

fun overlay_heap_size_bytes :: "KeySizes \<Rightarrow> StaticOverlayKey \<Rightarrow> nat" where
  "overlay_heap_size_bytes sz (PathKey path) =
     usize_saturating_add
       (usize_saturating_add (usize_saturating_mul (length (pok_coordinates path)) (size_of_lnglat_key sz))
         (opt_len (pok_stroke_color path)))
       (opt_len (pok_fill_color path))"
| "overlay_heap_size_bytes sz (GeoJsonKey g) = length (gok_feature_collection g)"
| "overlay_heap_size_bytes sz (PinKey pin) =
     usize_saturating_add (opt_len (pik_label pin)) (length (pik_color pin))"

fun request_heap_size_bytes :: "KeySizes \<Rightarrow> RenderRequestKey \<Rightarrow> nat" where
  "request_heap_size_bytes sz (TileKey _ _ _ _) = 0"
| "request_heap_size_bytes sz (StaticImageKey _ _ _ overlays before_layer _ addlayer) =
     usize_saturating_add
       (usize_saturating_add
         (usize_saturating_add (usize_saturating_mul (length overlays) (size_of_overlay_key sz))
           (sum_list (map (overlay_heap_size_bytes sz) overlays) mod 2 ^ 64))
         (opt_len before_layer))
       (opt_len addlayer)"

definition key_estimated_size_bytes :: "KeySizes \<Rightarrow> RenderCacheKey \<Rightarrow> nat" where
  "key_estimated_size_bytes sz key =
     usize_saturating_add (usize_saturating_add (size_of_cache_key sz) (length (rk_style_id key)))
       (request_heap_size_bytes sz (rk_request key))"

section \<open>Cached outputs\<close>

record CachedRenderOutput =
  co_output :: RenderOutput
  co_required_namespaces :: "NamespaceSet option"

definition namespaces_authorize :: "NamespaceSet option \<Rightarrow> NamespaceSet option \<Rightarrow> bool" where
  "namespaces_authorize required readable =
     (case (required, readable) of
        (None, None) \<Rightarrow> True
      | (Some required, Some readable) \<Rightarrow> namespace_set_allows readable required
      | _ \<Rightarrow> False)"

definition is_authorized_for :: "CachedRenderOutput \<Rightarrow> NamespaceSet option \<Rightarrow> bool" where
  "is_authorized_for cached readable = namespaces_authorize (co_required_namespaces cached) readable"

definition output_estimated_size_bytes :: "CachedRenderOutput \<Rightarrow> nat" where
  "output_estimated_size_bytes cached =
     length (out_bytes (co_output cached))
     + (case co_required_namespaces cached of
          None \<Rightarrow> 0 | Some ns \<Rightarrow> namespace_set_estimated_size_bytes ns)"

definition cache_weight :: "KeySizes \<Rightarrow> RenderCacheKey \<Rightarrow> CachedRenderOutput \<Rightarrow> u32" where
  "cache_weight sz key output =
     word_of_nat (min (max (usize_saturating_add (key_estimated_size_bytes sz key)
       (output_estimated_size_bytes output)) 1) u32_max)"

section \<open>The cache and its flights\<close>

definition RENDER_FLIGHT_SHARDS :: nat where
  "RENDER_FLIGHT_SHARDS = 16"

text \<open>A flight carries the version its followers watch.\<close>

record RenderOutputCacheInner =
  rc_cache :: "RenderCacheKey \<rightharpoonup> CachedRenderOutput"
  rc_in_flight :: "(RenderCacheKey \<rightharpoonup> u64) list"
  rc_invalidation_epoch :: u64

definition render_output_cache_new :: "u64 \<Rightarrow> RenderOutputCacheInner option" where
  "render_output_cache_new max_capacity_bytes =
     (if max_capacity_bytes = 0 then None
      else Some \<lparr>rc_cache = Map.empty, rc_in_flight = replicate RENDER_FLIGHT_SHARDS Map.empty,
                 rc_invalidation_epoch = 0\<rparr>)"

definition flight_shard :: "(RenderCacheKey \<Rightarrow> u64) \<Rightarrow> RenderCacheKey \<Rightarrow> nat" where
  "flight_shard hasher key = unat (hasher key AND word_of_nat (RENDER_FLIGHT_SHARDS - 1))"

record RenderFlightLeader =
  fl_key :: "RenderCacheKey option"
  fl_required_namespaces :: "NamespaceSet option"
  fl_invalidation_epoch :: u64

record RenderFlightFollower =
  ff_key :: RenderCacheKey
  ff_readable_namespaces :: "NamespaceSet option"
  ff_seen :: u64

datatype RenderCacheLookup =
  Disabled | Hit RenderOutput | Leader RenderFlightLeader | Wait RenderFlightFollower

text \<open>A look at the store.\<close>

definition cached_hit ::
  "RenderOutputCacheInner \<Rightarrow> RenderCacheKey \<Rightarrow> NamespaceSet option \<Rightarrow> RenderOutput option" where
  "cached_hit inner key readable =
     (case rc_cache inner key of
        Some output \<Rightarrow> if is_authorized_for output readable then Some (co_output output) else None
      | None \<Rightarrow> None)"

text \<open>
  The section under the lock of the key's shard: a second look, then the wait on a flight or the
  start of one, which is the outcome \<open>None\<close>.
\<close>

definition join_flight ::
  "(RenderCacheKey \<Rightarrow> u64) \<Rightarrow> RenderCacheKey \<Rightarrow> NamespaceSet option \<Rightarrow> RenderOutputCacheInner
   \<Rightarrow> RenderCacheLookup option \<times> RenderOutputCacheInner" where
  "join_flight hasher key readable inner =
     (case cached_hit inner key readable of
        Some output \<Rightarrow> (Some (Hit output), inner)
      | None \<Rightarrow>
          (let shard = flight_shard hasher key; in_flight = rc_in_flight inner ! shard
           in case in_flight key of
                Some version \<Rightarrow>
                  (Some (Wait \<lparr>ff_key = key, ff_readable_namespaces = readable, ff_seen = version\<rparr>), inner)
              | None \<Rightarrow>
                  (None, inner\<lparr>rc_in_flight := (rc_in_flight inner)[shard := in_flight(key \<mapsto> 0)]\<rparr>)))"

definition new_leader ::
  "RenderCacheKey \<Rightarrow> NamespaceSet option \<Rightarrow> RenderOutputCacheInner \<Rightarrow> RenderFlightLeader" where
  "new_leader key readable inner =
     \<lparr>fl_key = Some key, fl_required_namespaces = readable,
      fl_invalidation_epoch = rc_invalidation_epoch inner\<rparr>"

definition lookup_or_join_key ::
  "(RenderCacheKey \<Rightarrow> u64) \<Rightarrow> RenderCacheKey \<Rightarrow> NamespaceSet option \<Rightarrow> RenderOutputCacheInner
   \<Rightarrow> RenderCacheLookup \<times> RenderOutputCacheInner" where
  "lookup_or_join_key hasher key readable inner =
     (case cached_hit inner key readable of
        Some output \<Rightarrow> (Hit output, inner)
      | None \<Rightarrow>
          (case join_flight hasher key readable inner of
             (Some lookup, inner1) \<Rightarrow> (lookup, inner1)
           | (None, inner1) \<Rightarrow> (Leader (new_leader key readable inner1), inner1)))"

definition is_enabled_for :: "RenderOutputCacheInner option \<Rightarrow> InternalTask \<Rightarrow> bool" where
  "is_enabled_for cache task =
     (cache \<noteq> None \<and> (case it_source task of None \<Rightarrow> True | Some s \<Rightarrow> src_policy s = Cacheable))"

definition lookup_or_join ::
  "(RenderCacheKey \<Rightarrow> u64) \<Rightarrow> InternalTask \<Rightarrow> RenderOutputCacheInner option
   \<Rightarrow> RenderCacheLookup \<times> RenderOutputCacheInner option" where
  "lookup_or_join hasher task cache =
     (if \<not> is_enabled_for cache task then (Disabled, cache)
      else case cache of
             None \<Rightarrow> (Disabled, None)
           | Some inner \<Rightarrow>
               (let (lookup, inner') = lookup_or_join_key hasher (cache_key_from_task task)
                      (map_option readable_namespaces (it_authorization task)) inner
                in (lookup, Some inner')))"

definition follower_recheck ::
  "(RenderCacheKey \<Rightarrow> u64) \<Rightarrow> RenderFlightFollower \<Rightarrow> RenderOutputCacheInner
   \<Rightarrow> RenderCacheLookup \<times> RenderOutputCacheInner" where
  "follower_recheck hasher f inner =
     lookup_or_join_key hasher (ff_key f) (ff_readable_namespaces f) inner"

definition insert_from_outcome ::
  "RenderFlightLeader \<Rightarrow> TaskOutcome \<Rightarrow> RenderOutputCacheInner \<Rightarrow> bool \<times> RenderOutputCacheInner" where
  "insert_from_outcome leader outcome inner =
     (case to_result outcome of
        Completed _ output \<Rightarrow>
          (case fl_key leader of
             None \<Rightarrow> (False, inner)
           | Some key \<Rightarrow>
               if fl_invalidation_epoch leader \<noteq> rc_invalidation_epoch inner then (False, inner)
               else if (case rc_cache inner key of
                          Some existing \<Rightarrow> co_required_namespaces existing \<noteq> fl_required_namespaces leader
                        | None \<Rightarrow> False)
               then (False, inner)
               else (True, inner\<lparr>rc_cache := (rc_cache inner)(key \<mapsto>
                       \<lparr>co_output = output, co_required_namespaces = fl_required_namespaces leader\<rparr>)\<rparr>))
      | _ \<Rightarrow> (False, inner))"

definition leader_drop ::
  "(RenderCacheKey \<Rightarrow> u64) \<Rightarrow> RenderFlightLeader \<Rightarrow> RenderOutputCacheInner \<Rightarrow> RenderOutputCacheInner" where
  "leader_drop hasher leader inner =
     (case fl_key leader of
        None \<Rightarrow> inner
      | Some key \<Rightarrow>
          (let shard = flight_shard hasher key
           in inner\<lparr>rc_in_flight := (rc_in_flight inner)[shard := (rc_in_flight inner ! shard)(key := None)]\<rparr>))"

definition invalidate_style :: "StyleId \<Rightarrow> RenderOutputCacheInner \<Rightarrow> RenderOutputCacheInner" where
  "invalidate_style style_id inner =
     inner\<lparr>rc_invalidation_epoch := rc_invalidation_epoch inner + 1,
           rc_cache := (\<lambda>key. if rk_style_id key = style_id then None else rc_cache inner key)\<rparr>"

definition cache_hit_outcome :: "instant \<Rightarrow> NodeId \<Rightarrow> InternalTask \<Rightarrow> RenderOutput \<Rightarrow> TaskOutcome" where
  "cache_hit_outcome now node_id task output =
     \<lparr>to_task_id = it_id task, to_request_id = it_request_id task, to_arrived_at = it_arrived_at task,
      to_had_source = has_source task, to_deadline_stage = None,
      to_result = Completed
        \<lparr>ci_node_id = node_id, ci_worker_id = None, ci_route_tier = RenderCacheHit,
         ci_started_at = it_arrived_at task, ci_native_render_started_at = now,
         ci_native_render_completed_at = now, ci_completed_at = now, ci_style_swap = False,
         ci_cold_start = False, ci_source_loaded = False, ci_admitted_at_overflow = False,
         ci_render_observation = None\<rparr> output\<rparr>"

section \<open>Keys identify requests\<close>

lemma split_at_marker:
  assumes "xs @ c # ys = xs' @ c # ys'" and "c \<notin> set xs" and "c \<notin> set xs'"
  shows "xs = xs' \<and> ys = ys'"
  using assms
proof (induction xs arbitrary: xs')
  case Nil
  then show ?case by (cases xs') auto
next
  case (Cons x xs)
  then show ?case by (cases xs') auto
qed

lemma frame_component_inj:
  assumes "frame_component a @ x = frame_component b @ y"
  shows "a = b \<and> x = y"
proof -
  have colon: "CHR '':'' \<notin> set (show_nat n)" for n
  proof
    assume "CHR '':'' \<in> set (show_nat n)"
    then obtain d where "d < 10" "CHR '':'' = digit_char d" using show_nat_digits by blast
    then have "of_char (CHR '':'') = (48 + d :: nat)" by (simp add: digit_char_def)
    with \<open>d < 10\<close> show False by simp
  qed
  have "show_nat (length a) = show_nat (length b) \<and> a @ x = b @ y"
    by (rule split_at_marker [where c = "CHR '':''"]) (use assms colon in \<open>simp_all add: frame_component_def\<close>)
  then show ?thesis using show_nat_inj by (metis append_eq_append_conv)
qed

lemma source_frames_inj: "source_frames a = source_frames b \<Longrightarrow> a = b"
proof -
  have nonempty: "source_frames (Some s) \<noteq> []" for s by (simp add: frame_component_def)
  assume eq: "source_frames a = source_frames b"
  show "a = b"
  proof (cases a)
    case None
    then show ?thesis using eq nonempty by (cases b) auto
  next
    case (Some s)
    then obtain s' where b: "b = Some s'" using eq nonempty by (cases b) auto
    note inj = frame_component_inj [OF eq [unfolded Some b source_frames.simps]]
    have "als_json s = als_json s'"
      by (rule frame_component_inj [of _ "[]" _ "[]", unfolded append_Nil2, THEN conjunct1]) (rule inj [THEN conjunct2])
    with inj show ?thesis unfolding Some b by (metis AddLayerSource.equality old.unit.exhaust)
  qed
qed

lemma addlayer_identity_inj:
  "addlayer_identity a = addlayer_identity b \<Longrightarrow> al_json a = al_json b \<and> al_source a = al_source b"
  unfolding addlayer_identity_def using frame_component_inj source_frames_inj by blast

definition forget_addlayer_hash :: "RenderRequest \<Rightarrow> RenderRequest" where
  "forget_addlayer_hash r =
     (case r of
        StaticImage positioning width height overlays before_layer padding addlayer \<Rightarrow>
          StaticImage positioning width height overlays before_layer padding
            (map_option (\<lambda>a. a\<lparr>al_hash := 0\<rparr>) addlayer)
      | _ \<Rightarrow> r)"

lemma positioning_key_inj: "positioning_key a = positioning_key b \<longleftrightarrow> a = b"
  by (cases a; cases b) auto

lemma lnglat_key_inj: "lnglat_key a = lnglat_key b \<longleftrightarrow> a = b"
  by (cases a; cases b) (auto simp: lnglat_key_def)

lemma static_overlay_key_inj: "static_overlay_key a = static_overlay_key b \<longleftrightarrow> a = b"
proof -
  have "map lnglat_key xs = map lnglat_key ys \<longleftrightarrow> xs = ys" for xs ys
    using inj_map_eq_map [of lnglat_key] by (auto simp: inj_def lnglat_key_inj)
  then have "path_overlay_key p = path_overlay_key q \<longleftrightarrow> p = q" for p q
    by (cases p; cases q) (auto simp: path_overlay_key_def)
  moreover have "geojson_overlay_key p = geojson_overlay_key q \<longleftrightarrow> p = q" for p q
    by (cases p; cases q) (auto simp: geojson_overlay_key_def)
  moreover have "pin_overlay_key p = pin_overlay_key q \<longleftrightarrow> p = q" for p q
    by (cases p; cases q) (auto simp: pin_overlay_key_def lnglat_key_inj)
  ultimately show ?thesis by (cases a; cases b) auto
qed

lemma addlayer_identity_eq:
  "addlayer_identity a = addlayer_identity b \<longleftrightarrow> a\<lparr>al_hash := 0\<rparr> = b\<lparr>al_hash := 0\<rparr>"
proof -
  have "a\<lparr>al_hash := 0\<rparr> = b\<lparr>al_hash := 0\<rparr> \<longleftrightarrow> al_json a = al_json b \<and> al_source a = al_source b"
    by (cases a; cases b) simp
  moreover have "addlayer_identity a = addlayer_identity b" if "al_json a = al_json b \<and> al_source a = al_source b"
    using that unfolding addlayer_identity_def by (simp only:)
  ultimately show ?thesis using addlayer_identity_inj [of a b] by blast
qed

lemma render_request_key_eq:
  "render_request_key r = render_request_key r' \<longleftrightarrow> forget_addlayer_hash r = forget_addlayer_hash r'"
proof -
  have "map static_overlay_key xs = map static_overlay_key ys \<longleftrightarrow> xs = ys" for xs ys
    using inj_map_eq_map [of static_overlay_key] by (auto simp: inj_def static_overlay_key_inj)
  moreover have "map_option addlayer_identity x = map_option addlayer_identity y
      \<longleftrightarrow> map_option (\<lambda>a. a\<lparr>al_hash := 0\<rparr>) x = map_option (\<lambda>a. a\<lparr>al_hash := 0\<rparr>) y" for x y
    by (cases x; cases y) (simp_all add: addlayer_identity_eq)
  ultimately show ?thesis
    by (cases r; cases r') (auto simp: forget_addlayer_hash_def positioning_key_inj)
qed

text \<open>C19: The cache key is a faithful identity of a request.  Two tasks share a cache entry exactly
  when they agree on style revision, scale, output format, source and the whole request, overlays and
  added layer included; only the precomputed hash of the added layer is not compared, its content is.\<close>

theorem cache_key_identifies:
  "cache_key_from_task t = cache_key_from_task t' \<longleftrightarrow>
     it_style t = it_style t'
     \<and> forget_addlayer_hash (it_request t) = forget_addlayer_hash (it_request t')
     \<and> pixel_ratio_to_scale (it_pixel_ratio t) = pixel_ratio_to_scale (it_pixel_ratio t')
     \<and> it_output_format t = it_output_format t'
     \<and> map_option src_hash (it_source t) = map_option src_hash (it_source t')"
proof -
  have "it_style t = it_style t' \<longleftrightarrow>
      rev_id (it_style t) = rev_id (it_style t') \<and> rev_version (it_style t) = rev_version (it_style t')"
    by (cases "it_style t"; cases "it_style t'") auto
  then show ?thesis
    unfolding cache_key_from_task_def RenderCacheKey.ext_inject render_request_key_eq by blast
qed

section \<open>Flights as a transition system\<close>

text \<open>
  Requests interleave at the grain of the locks: an election under the shard lock, the later read of
  the epoch that completes the leader, insertions and invalidations under the mutation gate, dropped
  leaders, and entries lost by the store.  The last three components are history: every insertion
  with its leader, the number of invalidations, and for each style that number at its last one.
\<close>

record FlightSystem =
  fs_inner :: RenderOutputCacheInner
  fs_electing :: "(RenderCacheKey \<times> NamespaceSet option) list"
  fs_leaders :: "RenderFlightLeader list"
  fs_insertions :: "(RenderCacheKey \<times> RenderFlightLeader \<times> RenderOutput) list"
  fs_invalidations :: nat
  fs_last_invalidation :: "StyleId \<Rightarrow> nat"

inductive flight_step :: "(RenderCacheKey \<Rightarrow> u64) \<Rightarrow> FlightSystem \<Rightarrow> FlightSystem \<Rightarrow> bool"
  for hasher :: "RenderCacheKey \<Rightarrow> u64" where
  elect: "join_flight hasher key readable (fs_inner s) = (None, inner') \<Longrightarrow>
    flight_step hasher s (s\<lparr>fs_inner := inner', fs_electing := (key, readable) # fs_electing s\<rparr>)"
| lead: "fs_electing s = es @ (key, readable) # es' \<Longrightarrow>
    flight_step hasher s (s\<lparr>fs_electing := es @ es',
      fs_leaders := new_leader key readable (fs_inner s) # fs_leaders s\<rparr>)"
| insertion: "leader \<in> set (fs_leaders s) \<Longrightarrow> fl_key leader = Some key \<Longrightarrow>
    to_result outcome = Completed info output \<Longrightarrow>
    insert_from_outcome leader outcome (fs_inner s) = (True, inner') \<Longrightarrow>
    flight_step hasher s (s\<lparr>fs_inner := inner', fs_insertions := (key, leader, output) # fs_insertions s\<rparr>)"
| drop_leader: "fs_leaders s = ls @ leader # ls' \<Longrightarrow>
    flight_step hasher s (s\<lparr>fs_leaders := ls @ ls', fs_inner := leader_drop hasher leader (fs_inner s)\<rparr>)"
| invalidate: "fs_invalidations s < 2 ^ 64 - 1 \<Longrightarrow>
    flight_step hasher s (s\<lparr>fs_inner := invalidate_style style_id (fs_inner s),
      fs_invalidations := fs_invalidations s + 1,
      fs_last_invalidation := (fs_last_invalidation s)(style_id := fs_invalidations s + 1)\<rparr>)"
| evict: "flight_step hasher s (s\<lparr>fs_inner := (fs_inner s)\<lparr>rc_cache := (rc_cache (fs_inner s))(key := None)\<rparr>\<rparr>)"

definition flight_init :: "FlightSystem \<Rightarrow> bool" where
  "flight_init s \<longleftrightarrow> (\<exists>capacity inner. render_output_cache_new capacity = Some inner \<and>
     s = \<lparr>fs_inner = inner, fs_electing = [], fs_leaders = [], fs_insertions = [],
          fs_invalidations = 0, fs_last_invalidation = (\<lambda>_. 0)\<rparr>)"

text \<open>The keys being rendered.\<close>

definition flight_keys :: "FlightSystem \<Rightarrow> RenderCacheKey list" where
  "flight_keys s = map fst (fs_electing s) @ map (the \<circ> fl_key) (fs_leaders s)"

definition shards_exact :: "(RenderCacheKey \<Rightarrow> u64) \<Rightarrow> (RenderCacheKey \<rightharpoonup> u64) list \<Rightarrow> RenderCacheKey list \<Rightarrow> bool" where
  "shards_exact hasher shards keys \<longleftrightarrow>
     length shards = RENDER_FLIGHT_SHARDS
     \<and> (\<forall>i<RENDER_FLIGHT_SHARDS. dom (shards ! i) = {k \<in> set keys. flight_shard hasher k = i})"

definition entry_ok :: "FlightSystem \<Rightarrow> RenderCacheKey \<Rightarrow> CachedRenderOutput \<Rightarrow> bool" where
  "entry_ok s key entry \<longleftrightarrow> (\<exists>leader. (key, leader, co_output entry) \<in> set (fs_insertions s)
     \<and> fl_required_namespaces leader = co_required_namespaces entry
     \<and> fs_last_invalidation s (rk_style_id key) \<le> unat (fl_invalidation_epoch leader))"

definition flight_inv :: "(RenderCacheKey \<Rightarrow> u64) \<Rightarrow> FlightSystem \<Rightarrow> bool" where
  "flight_inv hasher s \<longleftrightarrow>
     distinct (flight_keys s) \<and> (\<forall>l\<in>set (fs_leaders s). fl_key l \<noteq> None)
     \<and> shards_exact hasher (rc_in_flight (fs_inner s)) (flight_keys s)
     \<and> fs_invalidations s < 2 ^ 64
     \<and> rc_invalidation_epoch (fs_inner s) = word_of_nat (fs_invalidations s)
     \<and> (\<forall>style. fs_last_invalidation s style \<le> fs_invalidations s)
     \<and> (\<forall>key entry. rc_cache (fs_inner s) key = Some entry \<longrightarrow> entry_ok s key entry)"

lemma flight_shard_less: "flight_shard hasher key < RENDER_FLIGHT_SHARDS"
proof -
  have "hasher key AND word_of_nat (RENDER_FLIGHT_SHARDS - 1) = take_bit 4 (hasher key)"
    by (simp add: RENDER_FLIGHT_SHARDS_def take_bit_eq_mask mask_eq_exp_minus_1)
  then have "flight_shard hasher key = take_bit 4 (unat (hasher key))"
    by (simp add: flight_shard_def unsigned_take_bit_eq)
  then show ?thesis by (simp add: RENDER_FLIGHT_SHARDS_def take_bit_eq_mod)
qed

lemma shards_insert:
  assumes "shards_exact hasher shards keys"
  shows "shards_exact hasher (shards[flight_shard hasher k := (shards ! flight_shard hasher k)(k \<mapsto> v)]) (k # keys)"
  using assms flight_shard_less [of hasher k] by (auto simp: shards_exact_def nth_list_update)

lemma shards_remove:
  assumes "shards_exact hasher shards keys" and "set keys' = set keys - {k}"
  shows "shards_exact hasher (shards[flight_shard hasher k := (shards ! flight_shard hasher k)(k := None)]) keys'"
  using assms flight_shard_less [of hasher k] by (auto simp: shards_exact_def nth_list_update)

lemma shards_lookup:
  assumes "shards_exact hasher shards keys"
  shows "(shards ! flight_shard hasher k) k = None \<longleftrightarrow> k \<notin> set keys"
proof -
  have "dom (shards ! flight_shard hasher k) = {x \<in> set keys. flight_shard hasher x = flight_shard hasher k}"
    using assms flight_shard_less [of hasher k] by (simp add: shards_exact_def)
  then show ?thesis by (metis (mono_tags, lifting) domIff mem_Collect_eq)
qed

lemma shards_cong: "set keys = set keys' \<Longrightarrow> shards_exact hasher sh keys \<longleftrightarrow> shards_exact hasher sh keys'"
  by (simp add: shards_exact_def)

lemma join_flight_None:
  assumes "join_flight hasher key readable inner = (None, inner')"
  shows "(rc_in_flight inner ! flight_shard hasher key) key = None"
    and "inner' = inner\<lparr>rc_in_flight := (rc_in_flight inner)[flight_shard hasher key :=
      (rc_in_flight inner ! flight_shard hasher key)(key \<mapsto> 0)]\<rparr>"
  using assms by (auto simp: join_flight_def Let_def split: option.splits)

lemma insert_from_outcome_True:
  assumes "insert_from_outcome leader outcome inner = (True, inner')"
    and "fl_key leader = Some key" and "to_result outcome = Completed info output"
  shows "fl_invalidation_epoch leader = rc_invalidation_epoch inner"
    and "inner' = inner\<lparr>rc_cache := (rc_cache inner)(key \<mapsto>
      \<lparr>co_output = output, co_required_namespaces = fl_required_namespaces leader\<rparr>)\<rparr>"
  using assms by (auto simp: insert_from_outcome_def split: if_splits)

lemma flight_init_inv: "flight_init s \<Longrightarrow> flight_inv hasher s"
  by (auto simp: flight_init_def flight_inv_def flight_keys_def shards_exact_def
      render_output_cache_new_def split: if_splits)

lemma entry_ok_mono:
  assumes "entry_ok s key entry" and "set (fs_insertions s) \<subseteq> set (fs_insertions s')"
    and "fs_last_invalidation s' (rk_style_id key) = fs_last_invalidation s (rk_style_id key)"
  shows "entry_ok s' key entry"
proof -
  obtain leader where "(key, leader, co_output entry) \<in> set (fs_insertions s)"
    "fl_required_namespaces leader = co_required_namespaces entry"
    "fs_last_invalidation s (rk_style_id key) \<le> unat (fl_invalidation_epoch leader)"
    using assms(1) by (auto simp: entry_ok_def)
  then show ?thesis unfolding entry_ok_def assms(3) using assms(2) by (intro exI conjI) (rule subsetD)
qed

lemma flight_invD:
  assumes "flight_inv hasher s"
  shows "distinct (flight_keys s)" "\<forall>l\<in>set (fs_leaders s). fl_key l \<noteq> None"
    "shards_exact hasher (rc_in_flight (fs_inner s)) (flight_keys s)" "fs_invalidations s < 2 ^ 64"
    "rc_invalidation_epoch (fs_inner s) = word_of_nat (fs_invalidations s)"
    "fs_last_invalidation s style \<le> fs_invalidations s"
    "rc_cache (fs_inner s) key = Some entry \<Longrightarrow> entry_ok s key entry"
  using assms by (simp_all add: flight_inv_def)

lemma elect_inv:
  assumes inv: "flight_inv hasher s" and join: "join_flight hasher key readable (fs_inner s) = (None, inner')"
  shows "flight_inv hasher (s\<lparr>fs_inner := inner', fs_electing := (key, readable) # fs_electing s\<rparr>)"
    (is "flight_inv hasher ?s'")
proof -
  note j = join_flight_None [OF join]
  have keys: "flight_keys ?s' = key # flight_keys s" by (simp add: flight_keys_def)
  have "key \<notin> set (flight_keys s)" using shards_lookup [OF flight_invD(3) [OF inv]] j(1) by blast
  then have "distinct (flight_keys ?s')" using flight_invD(1) [OF inv] keys by simp
  moreover have "shards_exact hasher (rc_in_flight (fs_inner ?s')) (flight_keys ?s')"
    unfolding keys using shards_insert [OF flight_invD(3) [OF inv], of key 0] by (simp add: j(2))
  moreover have "entry_ok ?s' k e" if "rc_cache (fs_inner ?s') k = Some e" for k e
    by (rule entry_ok_mono [OF flight_invD(7) [OF inv]]) (use that in \<open>simp_all add: j(2)\<close>)
  ultimately show ?thesis using inv by (simp add: flight_inv_def j(2))
qed

lemma lead_inv:
  assumes inv: "flight_inv hasher s" and split: "fs_electing s = es @ (key, readable) # es'"
  shows "flight_inv hasher (s\<lparr>fs_electing := es @ es',
      fs_leaders := new_leader key readable (fs_inner s) # fs_leaders s\<rparr>)" (is "flight_inv hasher ?s'")
proof -
  have sets: "set (flight_keys ?s') = set (flight_keys s)"
    by (auto simp: flight_keys_def split new_leader_def)
  have "distinct (flight_keys ?s')"
    using flight_invD(1) [OF inv] by (auto simp: flight_keys_def split new_leader_def)
  moreover have "shards_exact hasher (rc_in_flight (fs_inner ?s')) (flight_keys ?s')"
    using flight_invD(3) [OF inv] shards_cong [OF sets] by simp
  moreover have "entry_ok ?s' k e" if "rc_cache (fs_inner ?s') k = Some e" for k e
    by (rule entry_ok_mono [OF flight_invD(7) [OF inv]]) (use that in simp_all)
  ultimately show ?thesis using inv by (simp add: flight_inv_def new_leader_def)
qed

lemma insertion_inv:
  assumes inv: "flight_inv hasher s" and key: "fl_key leader = Some key"
    and completed: "to_result outcome = Completed info output"
    and ins: "insert_from_outcome leader outcome (fs_inner s) = (True, inner')"
  shows "flight_inv hasher (s\<lparr>fs_inner := inner',
      fs_insertions := (key, leader, output) # fs_insertions s\<rparr>)" (is "flight_inv hasher ?s'")
proof -
  note i = insert_from_outcome_True [OF ins key completed]
  have "entry_ok ?s' k e" if "rc_cache (fs_inner ?s') k = Some e" for k e
  proof (cases "k = key")
    case True
    have "fs_last_invalidation s (rk_style_id key) \<le> unat (fl_invalidation_epoch leader)"
      using flight_invD(4-6) [OF inv] by (simp add: i(1) unsigned_of_nat take_bit_nat_eq_self)
    then show ?thesis using that True by (auto simp: i(2) entry_ok_def)
  next
    case False
    show ?thesis
      by (rule entry_ok_mono [OF flight_invD(7) [OF inv]]) (use that False in \<open>auto simp: i(2)\<close>)
  qed
  then show ?thesis using inv by (simp add: flight_inv_def flight_keys_def i(2))
qed

lemma drop_leader_inv:
  assumes inv: "flight_inv hasher s" and split: "fs_leaders s = ls @ leader # ls'"
  shows "flight_inv hasher (s\<lparr>fs_leaders := ls @ ls', fs_inner := leader_drop hasher leader (fs_inner s)\<rparr>)"
    (is "flight_inv hasher ?s'")
proof -
  obtain key where key: "fl_key leader = Some key" using flight_invD(2) [OF inv] split by auto
  have sets: "set (flight_keys ?s') = set (flight_keys s) - {key}" "distinct (flight_keys ?s')"
    using flight_invD(1) [OF inv] by (auto simp: flight_keys_def split key)
  have "shards_exact hasher (rc_in_flight (fs_inner ?s')) (flight_keys ?s')"
    using shards_remove [OF flight_invD(3) [OF inv] sets(1)] by (simp add: leader_drop_def key Let_def)
  moreover have "entry_ok ?s' k e" if "rc_cache (fs_inner ?s') k = Some e" for k e
    by (rule entry_ok_mono [OF flight_invD(7) [OF inv]])
      (use that in \<open>simp_all add: leader_drop_def key Let_def\<close>)
  ultimately show ?thesis
    using inv sets(2) by (simp add: flight_inv_def leader_drop_def key Let_def split)
qed

lemma invalidate_inv:
  assumes inv: "flight_inv hasher s" and room: "fs_invalidations s < 2 ^ 64 - 1"
  shows "flight_inv hasher (s\<lparr>fs_inner := invalidate_style style_id (fs_inner s),
      fs_invalidations := fs_invalidations s + 1,
      fs_last_invalidation := (fs_last_invalidation s)(style_id := fs_invalidations s + 1)\<rparr>)"
    (is "flight_inv hasher ?s'")
proof -
  have "entry_ok ?s' k e" if "rc_cache (fs_inner ?s') k = Some e" for k e
    by (rule entry_ok_mono [OF flight_invD(7) [OF inv]])
      (use that in \<open>auto simp: invalidate_style_def split: if_splits\<close>)
  moreover have "fs_last_invalidation ?s' style \<le> fs_invalidations ?s'" for style
    using flight_invD(6) [OF inv, of style] by simp
  ultimately show ?thesis
    using inv room by (simp add: flight_inv_def flight_keys_def invalidate_style_def)
qed

lemma evict_inv:
  assumes inv: "flight_inv hasher s"
  shows "flight_inv hasher
    (s\<lparr>fs_inner := (fs_inner s)\<lparr>rc_cache := (rc_cache (fs_inner s))(key := None)\<rparr>\<rparr>)"
    (is "flight_inv hasher ?s'")
proof -
  have "entry_ok ?s' k e" if "rc_cache (fs_inner ?s') k = Some e" for k e
    by (rule entry_ok_mono [OF flight_invD(7) [OF inv]]) (use that in \<open>auto split: if_splits\<close>)
  then show ?thesis using inv by (simp add: flight_inv_def flight_keys_def)
qed

lemma flight_step_inv:
  assumes "flight_step hasher s s'" and "flight_inv hasher s"
  shows "flight_inv hasher s'"
  using assms(1)
proof (cases rule: flight_step.cases)
  case (elect key readable inner')
  show ?thesis unfolding elect(1) by (rule elect_inv [OF assms(2) elect(2)])
next
  case (lead es key readable es')
  show ?thesis unfolding lead(1) by (rule lead_inv [OF assms(2) lead(2)])
next
  case (insertion leader key outcome info out inner')
  show ?thesis unfolding insertion(1) by (rule insertion_inv [OF assms(2) insertion(3-5)])
next
  case (drop_leader ls leader ls')
  show ?thesis unfolding drop_leader(1) by (rule drop_leader_inv [OF assms(2) drop_leader(2)])
next
  case (invalidate style_id)
  show ?thesis unfolding invalidate(1) by (rule invalidate_inv [OF assms(2) invalidate(2)])
next
  case (evict key)
  show ?thesis unfolding evict by (rule evict_inv [OF assms(2)])
qed

interpretation flight: inductive_invariant flight_init "flight_step hasher" "flight_inv hasher" for hasher
  by unfold_locales (rule flight_init_inv, assumption, rule flight_step_inv, assumption+)

text \<open>C22: At any interleaving, at most one request renders a key at a time: the keys of the flights
  under way are distinct, a key is registered in its shard exactly while it is being rendered, and
  once its leader is dropped the next request for the key is served or elected, not left waiting.\<close>

theorem single_flight:
  assumes "flight_init s0" and "(flight_step hasher)\<^sup>*\<^sup>* s0 s"
  shows "distinct (flight_keys s)
    \<and> (\<forall>key. (rc_in_flight (fs_inner s) ! flight_shard hasher key) key \<noteq> None
         \<longleftrightarrow> key \<in> set (flight_keys s))
    \<and> (\<forall>leader\<in>set (fs_leaders s). \<forall>readable.
         case fst (lookup_or_join_key hasher (the (fl_key leader)) readable
                     (leader_drop hasher leader (fs_inner s))) of
           Hit _ \<Rightarrow> True | Leader _ \<Rightarrow> True | _ \<Rightarrow> False)"
proof -
  have inv: "flight_inv hasher s" using assms by (rule flight.reachable_inv)
  have "case fst (lookup_or_join_key hasher (the (fl_key leader)) readable
                     (leader_drop hasher leader (fs_inner s))) of
           Hit _ \<Rightarrow> True | Leader _ \<Rightarrow> True | _ \<Rightarrow> False" if mem: "leader \<in> set (fs_leaders s)" for leader readable
  proof -
    obtain key where key: "fl_key leader = Some key" using flight_invD(2) [OF inv] mem by auto
    have "length (rc_in_flight (fs_inner s)) = RENDER_FLIGHT_SHARDS"
      using flight_invD(3) [OF inv] by (simp add: shards_exact_def)
    then have "(rc_in_flight (leader_drop hasher leader (fs_inner s)) ! flight_shard hasher key) key = None"
      using flight_shard_less [of hasher key] by (simp add: leader_drop_def key Let_def)
    then show ?thesis
      by (simp add: key lookup_or_join_key_def join_flight_def Let_def split: option.splits)
  qed
  moreover have "(rc_in_flight (fs_inner s) ! flight_shard hasher key) key \<noteq> None \<longleftrightarrow> key \<in> set (flight_keys s)" for key
    using shards_lookup [OF flight_invD(3) [OF inv], of key] by simp
  ultimately show ?thesis using flight_invD(1) [OF inv] by blast
qed

text \<open>C7: A cache hit is authorised and fresh.  Whatever the interleaving, bytes returned from the
  cache were inserted for the same key by a leader whose recorded namespaces are covered by the
  reader's grants (or neither has any), and that leader read the invalidation epoch after the last
  invalidation of the style: a render begun before an invalidation is never served after it.\<close>

theorem cache_hit_authorized_and_fresh:
  assumes "flight_init s0" and "(flight_step hasher)\<^sup>*\<^sup>* s0 s"
    and "cached_hit (fs_inner s) key readable = Some output"
  shows "\<exists>leader. (key, leader, output) \<in> set (fs_insertions s)
    \<and> (case (fl_required_namespaces leader, readable) of
         (None, None) \<Rightarrow> True
       | (Some required, Some reader) \<Rightarrow> namespace_set_allows reader required
       | _ \<Rightarrow> False)
    \<and> fs_last_invalidation s (rk_style_id key) \<le> unat (fl_invalidation_epoch leader)"
proof -
  have inv: "flight_inv hasher s" using assms(1,2) by (rule flight.reachable_inv)
  obtain entry where e: "rc_cache (fs_inner s) key = Some entry" "is_authorized_for entry readable"
    "co_output entry = output"
    using assms(3) by (auto simp: cached_hit_def split: option.splits if_splits)
  obtain leader where l: "(key, leader, co_output entry) \<in> set (fs_insertions s)"
    "fl_required_namespaces leader = co_required_namespaces entry"
    "fs_last_invalidation s (rk_style_id key) \<le> unat (fl_invalidation_epoch leader)"
    using flight_invD(7) [OF inv e(1)] by (auto simp: entry_ok_def)
  show ?thesis
  proof (intro exI conjI)
    show "(key, leader, output) \<in> set (fs_insertions s)" using l(1) unfolding e(3) .
    show "case (fl_required_namespaces leader, readable) of
         (None, None) \<Rightarrow> True
       | (Some required, Some reader) \<Rightarrow> namespace_set_allows reader required
       | _ \<Rightarrow> False"
      using e(2) unfolding l(2) is_authorized_for_def namespaces_authorize_def .
    show "fs_last_invalidation s (rk_style_id key) \<le> unat (fl_invalidation_epoch leader)" by (rule l(3))
  qed
qed

section \<open>Example\<close>

text \<open>One request is elected, renders and inserts.\<close>

abbreviation example_key :: RenderCacheKey where
  "example_key \<equiv> cache_key_from_task (example_task 1)"

definition example_inner :: RenderOutputCacheInner where
  "example_inner = \<lparr>rc_cache = Map.empty, rc_in_flight = replicate 16 Map.empty, rc_invalidation_epoch = 0\<rparr>"

definition example_system :: FlightSystem where
  "example_system = \<lparr>fs_inner = example_inner, fs_electing = [], fs_leaders = [], fs_insertions = [],
     fs_invalidations = 0, fs_last_invalidation = (\<lambda>_. 0)\<rparr>"

definition example_outcome :: TaskOutcome where
  "example_outcome = cache_hit_outcome 7 ''a'' (example_task 1) \<lparr>out_bytes = [1, 2], out_format = Png\<rparr>"

lemma example_init: "flight_init example_system"
  unfolding flight_init_def
  by (rule exI [of _ 1], rule exI [of _ example_inner])
    (simp add: render_output_cache_new_def example_inner_def example_system_def RENDER_FLIGHT_SHARDS_def)

definition example_leader :: RenderFlightLeader where
  "example_leader = \<lparr>fl_key = Some example_key, fl_required_namespaces = None, fl_invalidation_epoch = 0\<rparr>"

definition example_rendering :: FlightSystem where
  "example_rendering = example_system\<lparr>fs_inner := example_inner\<lparr>rc_in_flight :=
     (rc_in_flight example_inner)[3 := [example_key \<mapsto> 0]]\<rparr>, fs_leaders := [example_leader]\<rparr>"

lemma example_shard: "flight_shard (\<lambda>_. 3) key = 3"
  by (simp add: flight_shard_def RENDER_FLIGHT_SHARDS_def)

lemma example_elected: "(flight_step (\<lambda>_. 3))\<^sup>*\<^sup>* example_system example_rendering"
proof -
  let ?inner = "example_inner\<lparr>rc_in_flight := (rc_in_flight example_inner)[3 := [example_key \<mapsto> 0]]\<rparr>"
  let ?s1 = "example_system\<lparr>fs_inner := ?inner, fs_electing := [(example_key, None)]\<rparr>"
  have "join_flight (\<lambda>_. 3) example_key None (fs_inner example_system) = (None, ?inner)"
    by (simp add: join_flight_def cached_hit_def example_system_def example_inner_def example_shard Let_def)
  from flight_step.elect [OF this] have "flight_step (\<lambda>_. 3) example_system ?s1"
    by (simp add: example_system_def)
  moreover have "fs_electing ?s1 = [] @ (example_key, None) # []" by simp
  from flight_step.lead [OF this] have "flight_step (\<lambda>_. 3) ?s1 example_rendering"
    by (simp add: new_leader_def example_rendering_def example_leader_def example_system_def example_inner_def)
  ultimately show ?thesis by auto
qed

theorem single_flight_witness:
  "distinct (flight_keys example_rendering) \<and> flight_keys example_rendering = [example_key]"
  using single_flight [OF example_init example_elected]
  by (simp add: flight_keys_def example_rendering_def example_system_def example_leader_def)

theorem cache_hit_authorized_and_fresh_witness:
  "\<exists>s. (flight_step (\<lambda>_. 3))\<^sup>*\<^sup>* example_system s
    \<and> cached_hit (fs_inner s) example_key None = Some \<lparr>out_bytes = [1, 2], out_format = Png\<rparr>
    \<and> (\<exists>leader. (example_key, leader, \<lparr>out_bytes = [1, 2], out_format = Png\<rparr>) \<in> set (fs_insertions s))"
proof -
  let ?out = "\<lparr>out_bytes = [1, 2], out_format = Png\<rparr>"
  obtain info where completed: "to_result example_outcome = Completed info ?out"
    by (simp add: example_outcome_def cache_hit_outcome_def)
  let ?inner = "(fs_inner example_rendering)\<lparr>rc_cache := [example_key \<mapsto>
      \<lparr>co_output = ?out, co_required_namespaces = None\<rparr>]\<rparr>"
  have ins: "insert_from_outcome example_leader example_outcome (fs_inner example_rendering) = (True, ?inner)"
    by (simp add: insert_from_outcome_def completed example_leader_def example_rendering_def
        example_system_def example_inner_def)
  define s where "s = example_rendering\<lparr>fs_inner := ?inner, fs_insertions := [(example_key, example_leader, ?out)]\<rparr>"
  have "flight_step (\<lambda>_. 3) example_rendering s"
    using flight_step.insertion [OF _ _ completed ins]
    by (simp add: s_def example_rendering_def example_leader_def example_system_def)
  then have steps: "(flight_step (\<lambda>_. 3))\<^sup>*\<^sup>* example_system s" using example_elected by simp
  have hit: "cached_hit (fs_inner s) example_key None = Some ?out"
    by (simp add: s_def cached_hit_def is_authorized_for_def namespaces_authorize_def)
  show ?thesis
    using steps hit cache_hit_authorized_and_fresh [OF example_init steps hit] by blast
qed

end
