(* ===== verification/Style_Catalog.thy ===== *)
theory Style_Catalog
  imports Gossip_Codec Transition "HOL-Library.AList"
begin

text \<open>
  The style catalog of a node, from \<^verbatim>\<open>crates/biei-core/src/style_catalog.rs\<close>: which revision of
  a style is current, when its content must be fetched again, how refresh hints fence fetches that
  are under way, and how revisions seen by peers are adopted.  SHA-256, the JSON codec and the URL
  parser are libraries and arguments of the definitions that use them.  The maps of the catalog are
  association lists with distinct keys, because their sizes bound them.  The sum of an instant and a
  duration panics on overflow: \<open>None\<close>.
\<close>

unbundle bit_operations_syntax

section \<open>Constants\<close>

definition MIN_STYLE_REVALIDATE_INTERVAL :: duration where
  "MIN_STYLE_REVALIDATE_INTERVAL = 10 * 10 ^ 9"

definition MAX_REVALIDATION_GENERATIONS :: nat where
  "MAX_REVALIDATION_GENERATIONS = 4096"

definition MAX_PENDING_STYLE_HINTS :: nat where
  "MAX_PENDING_STYLE_HINTS = 4096"

definition STYLE_REVISION_GOSSIP_SLOTS :: nat where
  "STYLE_REVISION_GOSSIP_SLOTS = 16"

definition MAX_STYLE_REVISION_GOSSIP_BYTES :: nat where
  "MAX_STYLE_REVISION_GOSSIP_BYTES = 1024"

definition STYLE_REVISION_GOSSIP_KEY_PREFIX :: string where
  "STYLE_REVISION_GOSSIP_KEY_PREFIX = ''observed-style-revision-v1-''"

definition RESERVED_VERSION_BIT :: u64 where
  "RESERVED_VERSION_BIT = push_bit 63 1"

definition INITIAL_STYLE_VERSION :: u64 where
  "INITIAL_STYLE_VERSION = 1"

section \<open>Content versions\<close>

datatype Json =
  JNull | JBool bool | JNumber string | JString string
| JArray "Json list" | JObject "(string \<times> Json) list"

text \<open>The operations of the URL library that the code calls.\<close>

record 'u UrlOps =
  url_parse :: "string \<Rightarrow> 'u option"
  url_query_pairs :: "'u \<Rightarrow> (string \<times> string) list"
  url_set_pairs :: "'u \<Rightarrow> (string \<times> string) list \<Rightarrow> 'u"
  url_to_string :: "'u \<Rightarrow> string"

fun contains_substring :: "string \<Rightarrow> string \<Rightarrow> bool" where
  "contains_substring pat [] = (pat = [])"
| "contains_substring pat (c # cs) = (take (length pat) (c # cs) = pat \<or> contains_substring pat cs)"

definition normalize_url :: "'u UrlOps \<Rightarrow> string \<Rightarrow> string" where
  "normalize_url U s =
     (if contains_substring ''access_token'' s then
        case url_parse U s of
          None \<Rightarrow> s
        | Some url \<Rightarrow>
            (let retained = filter (\<lambda>(name, v). name \<noteq> ''access_token'') (url_query_pairs U url)
             in if length retained = length (url_query_pairs U url) then s
                else url_to_string U (url_set_pairs U url retained))
      else s)"

fun normalize_credential_urls :: "'u UrlOps \<Rightarrow> Json \<Rightarrow> Json" where
  "normalize_credential_urls U (JArray vs) = JArray (map (normalize_credential_urls U) vs)"
| "normalize_credential_urls U (JObject kvs) =
     JObject (map (\<lambda>(k, v). (k, normalize_credential_urls U v)) kvs)"
| "normalize_credential_urls U (JString s) = JString (normalize_url U s)"
| "normalize_credential_urls U JNull = JNull"
| "normalize_credential_urls U (JBool b) = JBool b"
| "normalize_credential_urls U (JNumber n) = JNumber n"

fun from_be_bytes :: "bytes \<Rightarrow> nat" where
  "from_be_bytes bs = foldl (\<lambda>acc b. acc * 256 + unat b) 0 bs"

text \<open>\<open>parse\<close> and \<open>print\<close> are the JSON library, \<open>sha256\<close> the digest.\<close>

definition style_content_version ::
  "'u UrlOps \<Rightarrow> (string \<Rightarrow> Json option) \<Rightarrow> (Json \<Rightarrow> bytes option) \<Rightarrow> (bytes \<Rightarrow> bytes) \<Rightarrow> string \<Rightarrow> u64" where
  "style_content_version U parse print sha256 style_json =
     (let canonical =
            (case parse style_json of
               Some style \<Rightarrow>
                 (case print (normalize_credential_urls U style) of
                    Some bs \<Rightarrow> bs | None \<Rightarrow> as_bytes style_json)
             | None \<Rightarrow> as_bytes style_json);
          digest = sha256 canonical
      in word_of_nat (from_be_bytes (take 8 digest)) OR RESERVED_VERSION_BIT)"

section \<open>Revision observations\<close>

record StyleRevisionObservation =
  sro_schema_version :: u8
  sro_hint_id :: string
  sro_style_id :: string
  sro_version :: u64

text \<open>The JSON codec of observations and the digest.\<close>

record CatalogLib =
  lib_ser :: "StyleRevisionObservation \<Rightarrow> string option"
  lib_de :: "string \<Rightarrow> StyleRevisionObservation option"
  lib_sha256 :: "bytes \<Rightarrow> bytes"

definition OBSERVATION_SCHEMA_VERSION :: u8 where
  "OBSERVATION_SCHEMA_VERSION = 1"

definition observation_new :: "string \<Rightarrow> StyleId \<Rightarrow> u64 \<Rightarrow> StyleRevisionObservation" where
  "observation_new hint_id style_id version =
     \<lparr>sro_schema_version = OBSERVATION_SCHEMA_VERSION, sro_hint_id = hint_id,
      sro_style_id = style_id, sro_version = version\<rparr>"

definition observation_encode :: "CatalogLib \<Rightarrow> StyleRevisionObservation \<Rightarrow> string option" where
  "observation_encode L o1 =
     (if sro_schema_version o1 \<noteq> OBSERVATION_SCHEMA_VERSION \<or> sro_hint_id o1 = [] \<or> sro_style_id o1 = []
         \<or> sro_version o1 AND RESERVED_VERSION_BIT = 0
      then None
      else case lib_ser L o1 of
             None \<Rightarrow> None
           | Some encoded \<Rightarrow>
               if length encoded \<le> MAX_STYLE_REVISION_GOSSIP_BYTES then Some encoded else None)"

definition observation_decode :: "CatalogLib \<Rightarrow> string \<Rightarrow> StyleRevisionObservation option" where
  "observation_decode L encoded =
     (if length encoded > MAX_STYLE_REVISION_GOSSIP_BYTES then None
      else case lib_de L encoded of
             None \<Rightarrow> None
           | Some o1 \<Rightarrow> map_option (\<lambda>_. o1) (observation_encode L o1))"

definition style_revision_gossip_key :: "nat \<Rightarrow> string" where
  "style_revision_gossip_key slot =
     STYLE_REVISION_GOSSIP_KEY_PREFIX @ (if slot < 10 then ''0'' else []) @ show_nat slot"

definition stable_revision_slot :: "CatalogLib \<Rightarrow> string \<Rightarrow> nat" where
  "stable_revision_slot L hint_id =
     (let digest = lib_sha256 L (as_bytes hint_id)
      in from_be_bytes [digest ! 0, digest ! 1] mod STYLE_REVISION_GOSSIP_SLOTS)"

definition observation_gossip_key :: "CatalogLib \<Rightarrow> StyleRevisionObservation \<Rightarrow> string" where
  "observation_gossip_key L o1 = style_revision_gossip_key (stable_revision_slot L (sro_hint_id o1))"

section \<open>State\<close>

record ObservedStyle =
  os_version :: u64
  os_previous :: "u64 option"
  os_bootstrap :: "u64 option"
  os_last_observed_at :: instant
  os_revalidate_after :: instant
  os_pending_revalidation :: bool

record ClusterObservedStyle =
  cos_version :: u64
  cos_previous :: "u64 option"

record StyleDefinition =
  sd_style_url :: string
  sd_version :: u64

record RevalidationFence =
  rf_generation :: "u64 option"
  rf_requests :: u64

datatype RevalidationRequest = Accepted | AcceptedWithoutFence | AlreadyDue

fun applied_to_observed_style :: "RevalidationRequest \<Rightarrow> bool" where
  "applied_to_observed_style Accepted = True"
| "applied_to_observed_style AcceptedWithoutFence = True"
| "applied_to_observed_style AlreadyDue = False"

record StyleCatalog =
  cat_by_id :: "(StyleId \<times> StyleDefinition) list"
  cat_observed :: "(StyleId \<times> ObservedStyle) list"
  cat_cluster_observed :: "(StyleId \<times> ClusterObservedStyle) list"
  cat_pending_hints :: "(StyleId \<times> string) list"
  cat_revision_announcements :: "(nat \<times> (string \<times> string)) list"
  cat_revalidation_generations :: "(StyleId \<times> u64) list"
  cat_revalidation_requests :: u64
  cat_namespace_templates :: "(string \<times> string) list"
  cat_default_template :: "string option"
  cat_minimum_revalidation_interval :: duration

definition style_catalog_new :: "duration \<Rightarrow> StyleCatalog" where
  "style_catalog_new interval =
     \<lparr>cat_by_id = [], cat_observed = [], cat_cluster_observed = [], cat_pending_hints = [],
      cat_revision_announcements = [], cat_revalidation_generations = [], cat_revalidation_requests = 0,
      cat_namespace_templates = [], cat_default_template = None,
      cat_minimum_revalidation_interval = interval\<rparr>"

definition or_else :: "'a option \<Rightarrow> 'a option \<Rightarrow> 'a option" where
  "or_else a b = (case a of None \<Rightarrow> b | Some x \<Rightarrow> Some x)"

text \<open>The template for an id and what replaces \<open>{style_id}\<close> in it.\<close>

definition template_for :: "StyleCatalog \<Rightarrow> StyleId \<Rightarrow> (string \<times> string) option" where
  "template_for c style_id =
     (let default = map_option (\<lambda>template. (template, style_id)) (cat_default_template c)
      in case split_once (CHR ''/'') style_id of
           Some (ns, rest) \<Rightarrow>
             (case map_of (cat_namespace_templates c) ns of
                Some template \<Rightarrow> Some (template, rest) | None \<Rightarrow> default)
         | None \<Rightarrow> default)"

text \<open>The version configured for a style before any content was seen.\<close>

definition configured_version :: "StyleCatalog \<Rightarrow> StyleId \<Rightarrow> u64 option" where
  "configured_version c style_id =
     or_else (map_option sd_version (map_of (cat_by_id c) style_id))
       (map_option (\<lambda>_. INITIAL_STYLE_VERSION) (template_for c style_id))"

definition latest_version :: "StyleCatalog \<Rightarrow> StyleId \<Rightarrow> u64 option" where
  "latest_version c style_id =
     or_else (map_option cos_version (map_of (cat_cluster_observed c) style_id))
       (or_else (map_option os_version (map_of (cat_observed c) style_id))
         (configured_version c style_id))"

definition accepts_version :: "StyleCatalog \<Rightarrow> StyleId \<Rightarrow> u64 \<Rightarrow> bool" where
  "accepts_version c style_id version =
     ((case map_of (cat_cluster_observed c) style_id of
         Some observed \<Rightarrow> cos_version observed = version \<or> cos_previous observed = Some version
       | None \<Rightarrow> False)
      \<or> (case map_of (cat_observed c) style_id of
           Some observed \<Rightarrow>
             os_version observed = version \<or> os_previous observed = Some version
             \<or> os_bootstrap observed = Some version
         | None \<Rightarrow> False)
      \<or> (map_of (cat_cluster_observed c) style_id = None \<and> map_of (cat_observed c) style_id = None
         \<and> latest_version c style_id = Some version))"

definition needs_revalidation :: "instant \<Rightarrow> StyleCatalog \<Rightarrow> StyleId \<Rightarrow> bool" where
  "needs_revalidation now c style_id =
     (let local = map_of (cat_observed c) style_id
      in (case map_of (cat_cluster_observed c) style_id of
            Some cluster \<Rightarrow>
              (case local of None \<Rightarrow> True | Some local \<Rightarrow> os_version local \<noteq> cos_version cluster)
          | None \<Rightarrow> False)
         \<or> (case local of None \<Rightarrow> True | Some observed \<Rightarrow> now \<ge> os_revalidate_after observed))"

definition has_pending_revalidation :: "StyleCatalog \<Rightarrow> StyleId \<Rightarrow> bool" where
  "has_pending_revalidation c style_id =
     (map_of (cat_pending_hints c) style_id \<noteq> None
      \<or> (case map_of (cat_observed c) style_id of
           Some observed \<Rightarrow> os_pending_revalidation observed | None \<Rightarrow> False))"

definition is_current_cluster_revision :: "StyleCatalog \<Rightarrow> StyleRevision \<Rightarrow> bool" where
  "is_current_cluster_revision c revision =
     (case map_of (cat_cluster_observed c) (rev_id revision) of
        Some observed \<Rightarrow> cos_version observed = rev_version revision | None \<Rightarrow> False)"

definition hint_is_impossible_since :: "StyleCatalog \<Rightarrow> RevalidationFence \<Rightarrow> bool" where
  "hint_is_impossible_since c fence = (cat_revalidation_requests c = rf_requests fence)"

section \<open>Operations\<close>

definition upsert_definition :: "StyleId \<Rightarrow> StyleDefinition \<Rightarrow> StyleCatalog \<Rightarrow> StyleCatalog" where
  "upsert_definition style_id definition1 c = c\<lparr>cat_by_id := AList.update style_id definition1 (cat_by_id c)\<rparr>"

definition set_url_template :: "string \<Rightarrow> StyleCatalog \<Rightarrow> StyleCatalog" where
  "set_url_template template c = c\<lparr>cat_default_template := Some template\<rparr>"

definition add_namespace_template :: "string \<Rightarrow> string \<Rightarrow> StyleCatalog \<Rightarrow> StyleCatalog" where
  "add_namespace_template ns template c =
     c\<lparr>cat_namespace_templates := AList.update ns template (cat_namespace_templates c)\<rparr>"

definition observed_version :: "StyleCatalog \<Rightarrow> StyleId \<Rightarrow> u64 option" where
  "observed_version c style_id = map_option os_version (map_of (cat_observed c) style_id)"

definition revalidation_fence :: "StyleCatalog \<Rightarrow> StyleId \<Rightarrow> RevalidationFence" where
  "revalidation_fence c style_id =
     \<lparr>rf_generation = map_of (cat_revalidation_generations c) style_id,
      rf_requests = cat_revalidation_requests c\<rparr>"

definition fetch_is_current :: "StyleCatalog \<Rightarrow> StyleId \<Rightarrow> RevalidationFence \<Rightarrow> bool" where
  "fetch_is_current c style_id fence =
     (if hint_is_impossible_since c fence then True
      else case map_of (cat_revalidation_generations c) style_id of
             Some current \<Rightarrow> Some current = rf_generation fence
           | None \<Rightarrow> False)"

text \<open>The observation of a style after a fetch: whether its version changed, and the new entry.\<close>

definition observe ::
  "StyleCatalog \<Rightarrow> StyleId \<Rightarrow> u64 \<Rightarrow> instant \<Rightarrow> instant \<Rightarrow> bool \<Rightarrow> bool \<times> ObservedStyle" where
  "observe c style_id version observed_at revalidate_after current =
     (case map_of (cat_observed c) style_id of
        Some observed \<Rightarrow>
          if os_version observed = version
          then (False, observed\<lparr>os_last_observed_at := observed_at,
                  os_revalidate_after := revalidate_after, os_pending_revalidation := \<not> current\<rparr>)
          else (True, \<lparr>os_version = version, os_previous = Some (os_version observed),
                  os_bootstrap = None, os_last_observed_at = observed_at,
                  os_revalidate_after = revalidate_after, os_pending_revalidation = \<not> current\<rparr>)
      | None \<Rightarrow>
          (True, \<lparr>os_version = version, os_previous = None,
             os_bootstrap = (case configured_version c style_id of
                               Some bootstrap \<Rightarrow> if bootstrap \<noteq> version then Some bootstrap else None
                             | None \<Rightarrow> None),
             os_last_observed_at = observed_at, os_revalidate_after = revalidate_after,
             os_pending_revalidation = \<not> current\<rparr>))"

text \<open>What a current fetch does to the transition the catalog waits for; \<open>None\<close> is a panic.\<close>

definition settle_hint :: "CatalogLib \<Rightarrow> StyleId \<Rightarrow> u64 \<Rightarrow> StyleCatalog \<Rightarrow> StyleCatalog option" where
  "settle_hint L style_id version c =
     (case map_of (cat_pending_hints c) style_id of
        Some hint_id \<Rightarrow>
          (let observation = observation_new hint_id style_id version;
               slot = stable_revision_slot L hint_id
           in map_option (\<lambda>encoded.
                c\<lparr>cat_pending_hints := AList.delete style_id (cat_pending_hints c),
                  cat_revision_announcements :=
                    AList.update slot (observation_gossip_key L observation, encoded)
                      (cat_revision_announcements c),
                  cat_cluster_observed :=
                    AList.update style_id \<lparr>cos_version = version, cos_previous = None\<rparr>
                      (cat_cluster_observed c)\<rparr>)
                (observation_encode L observation))
      | None \<Rightarrow>
          Some (case map_of (cat_cluster_observed c) style_id of
                  Some cluster \<Rightarrow>
                    if cos_version cluster \<noteq> version
                    then c\<lparr>cat_cluster_observed := AList.delete style_id (cat_cluster_observed c)\<rparr>
                    else c
                | None \<Rightarrow> c))"

definition record_observed_for_generation ::
  "CatalogLib \<Rightarrow> instant \<Rightarrow> StyleId \<Rightarrow> u64 \<Rightarrow> duration \<Rightarrow> RevalidationFence \<Rightarrow> StyleCatalog
   \<Rightarrow> (bool \<times> StyleCatalog) option" where
  "record_observed_for_generation L observed_at style_id version served_freshness fence c =
     (case (instant_checked_add observed_at (max served_freshness (cat_minimum_revalidation_interval c)),
            instant_checked_add observed_at (cat_minimum_revalidation_interval c)) of
        (Some full_freshness, Some stay_due) \<Rightarrow>
          (let current = fetch_is_current c style_id fence;
               revalidate_after = (if current then full_freshness else stay_due);
               (changed, entry) = observe c style_id version observed_at revalidate_after current;
               c1 = c\<lparr>cat_observed := AList.update style_id entry (cat_observed c)\<rparr>
           in if current then map_option (\<lambda>c2. (changed, c2)) (settle_hint L style_id version c1)
              else Some (changed, c1))
      | _ \<Rightarrow> None)"

definition record_observed ::
  "CatalogLib \<Rightarrow> instant \<Rightarrow> StyleId \<Rightarrow> u64 \<Rightarrow> duration \<Rightarrow> StyleCatalog \<Rightarrow> (bool \<times> StyleCatalog) option" where
  "record_observed L observed_at style_id version served_freshness c =
     record_observed_for_generation L observed_at style_id version served_freshness
       (revalidation_fence c style_id) c"

definition store_hint :: "StyleId \<Rightarrow> string option \<Rightarrow> StyleCatalog \<Rightarrow> bool \<times> StyleCatalog" where
  "store_hint style_id hint_id c =
     (case hint_id of
        None \<Rightarrow> (True, c)
      | Some h \<Rightarrow>
          if map_of (cat_pending_hints c) style_id \<noteq> None
             \<or> length (cat_pending_hints c) < MAX_PENDING_STYLE_HINTS
          then (True, c\<lparr>cat_pending_hints := AList.update style_id h (cat_pending_hints c)\<rparr>)
          else (False, c))"

definition advance_generation :: "StyleId \<Rightarrow> StyleCatalog \<Rightarrow> RevalidationRequest \<times> StyleCatalog" where
  "advance_generation style_id c =
     (case map_of (cat_revalidation_generations c) style_id of
        Some generation \<Rightarrow>
          (Accepted, c\<lparr>cat_revalidation_generations :=
             AList.update style_id (generation + 1) (cat_revalidation_generations c)\<rparr>)
      | None \<Rightarrow>
          if length (cat_revalidation_generations c) < MAX_REVALIDATION_GENERATIONS
          then (Accepted, c\<lparr>cat_revalidation_generations :=
                  AList.update style_id 1 (cat_revalidation_generations c)\<rparr>)
          else (AcceptedWithoutFence, c))"

definition request_revalidation_inner ::
  "StyleId \<Rightarrow> string option \<Rightarrow> StyleCatalog \<Rightarrow> (RevalidationRequest \<times> StyleCatalog) option" where
  "request_revalidation_inner style_id hint_id c =
     (let c1 = c\<lparr>cat_revalidation_requests := cat_revalidation_requests c + 1\<rparr>;
          (hint_stored, c2) = store_hint style_id hint_id c1
      in case map_of (cat_observed c2) style_id of
           None \<Rightarrow> Some (if hint_stored then AlreadyDue else AcceptedWithoutFence, c2)
         | Some observed \<Rightarrow>
             map_option (\<lambda>earliest.
               let (outcome, c3) = advance_generation style_id c2;
                   observed' = observed\<lparr>os_revalidate_after := min (os_revalidate_after observed) earliest,
                                        os_pending_revalidation := True\<rparr>;
                   c4 = c3\<lparr>cat_observed := AList.update style_id observed' (cat_observed c3)\<rparr>
               in (if hint_stored then outcome else AcceptedWithoutFence, c4))
               (instant_checked_add (os_last_observed_at observed) (cat_minimum_revalidation_interval c2)))"

definition apply_cluster_observation ::
  "CatalogLib \<Rightarrow> StyleRevisionObservation \<Rightarrow> StyleCatalog \<Rightarrow> bool \<times> StyleCatalog" where
  "apply_cluster_observation L observation c =
     (if observation_encode L observation = None then (False, c)
      else let style_id = sro_style_id observation
           in if map_of (cat_pending_hints c) style_id \<noteq> Some (sro_hint_id observation) then (False, c)
              else let previous = (case latest_version c style_id of
                                     Some old \<Rightarrow> if old \<noteq> sro_version observation then Some old else None
                                   | None \<Rightarrow> None)
                   in (previous \<noteq> None,
                       c\<lparr>cat_cluster_observed :=
                           AList.update style_id
                             \<lparr>cos_version = sro_version observation, cos_previous = previous\<rparr>
                             (cat_cluster_observed c),
                         cat_pending_hints := AList.delete style_id (cat_pending_hints c)\<rparr>))"

definition revision_gossip_kvs :: "StyleCatalog \<Rightarrow> (string \<times> string) list" where
  "revision_gossip_kvs c = map snd (cat_revision_announcements c)"

definition accepts_revision :: "StyleCatalog \<Rightarrow> StyleRevision \<Rightarrow> bool" where
  "accepts_revision c revision = accepts_version c (rev_id revision) (rev_version revision)"

definition revalidation_blocks_output_cache :: "instant \<Rightarrow> StyleCatalog \<Rightarrow> StyleRevision \<Rightarrow> bool" where
  "revalidation_blocks_output_cache now c revision =
     (\<not> is_current_cluster_revision c revision
      \<and> (has_pending_revalidation c (rev_id revision) \<or> needs_revalidation now c (rev_id revision)))"

definition is_bootstrap_revision :: "StyleCatalog \<Rightarrow> StyleRevision \<Rightarrow> bool" where
  "is_bootstrap_revision c revision =
     (case map_of (cat_observed c) (rev_id revision) of
        Some observed \<Rightarrow> os_bootstrap observed = Some (rev_version revision) | None \<Rightarrow> False)"

text \<open>\<open>str::replace\<close> of a non-empty pattern, left to right.\<close>

function replace_all :: "string \<Rightarrow> string \<Rightarrow> string \<Rightarrow> string" where
  "replace_all pat subst s =
     (case s of
        [] \<Rightarrow> []
      | c # cs \<Rightarrow>
          if pat \<noteq> [] \<and> take (length pat) s = pat then subst @ replace_all pat subst (drop (length pat) s)
          else c # replace_all pat subst cs)"
  by pat_completeness auto
termination by (relation "measure (\<lambda>(pat, subst, s). length s)") auto

declare replace_all.simps [simp del]

definition definition_for_revision :: "StyleCatalog \<Rightarrow> StyleRevision \<Rightarrow> StyleDefinition option" where
  "definition_for_revision c revision =
     (if \<not> accepts_version c (rev_id revision) (rev_version revision) then None
      else case map_of (cat_by_id c) (rev_id revision) of
             Some definition1 \<Rightarrow>
               Some \<lparr>sd_style_url = sd_style_url definition1, sd_version = rev_version revision\<rparr>
           | None \<Rightarrow>
               map_option (\<lambda>(template, subst).
                 \<lparr>sd_style_url = replace_all ''{style_id}'' subst template,
                  sd_version = rev_version revision\<rparr>)
                 (template_for c (rev_id revision)))"

section \<open>The catalog as a transition system\<close>

datatype CatalogOp =
  OpUpsert StyleId StyleDefinition
| OpTemplate string
| OpNamespace string string
| OpRecord instant StyleId u64 duration RevalidationFence
| OpHint StyleId "string option"
| OpApply StyleRevisionObservation

fun catalog_op :: "CatalogLib \<Rightarrow> CatalogOp \<Rightarrow> StyleCatalog \<Rightarrow> StyleCatalog option" where
  "catalog_op L (OpUpsert s d) c = Some (upsert_definition s d c)"
| "catalog_op L (OpTemplate t) c = Some (set_url_template t c)"
| "catalog_op L (OpNamespace n t) c = Some (add_namespace_template n t c)"
| "catalog_op L (OpRecord t s v d fence) c = map_option snd (record_observed_for_generation L t s v d fence c)"
| "catalog_op L (OpHint s h) c = map_option snd (request_revalidation_inner s h c)"
| "catalog_op L (OpApply o1) c = Some (snd (apply_cluster_observation L o1 c))"

fun catalog_run :: "CatalogLib \<Rightarrow> CatalogOp list \<Rightarrow> StyleCatalog \<Rightarrow> StyleCatalog option" where
  "catalog_run L [] c = Some c"
| "catalog_run L (op # ops) c = Option.bind (catalog_op L op c) (catalog_run L ops)"

definition generations_observed :: "StyleCatalog \<Rightarrow> bool" where
  "generations_observed c \<longleftrightarrow> (\<forall>s. map_of (cat_observed c) s = None \<longrightarrow>
     map_of (cat_revalidation_generations c) s = None)"

definition floor_kept :: "StyleCatalog \<Rightarrow> bool" where
  "floor_kept c \<longleftrightarrow> (\<forall>s o1. map_of (cat_observed c) s = Some o1 \<longrightarrow>
     os_last_observed_at o1 + cat_minimum_revalidation_interval c \<le> os_revalidate_after o1)"

definition sizes_bounded :: "StyleCatalog \<Rightarrow> bool" where
  "sizes_bounded c \<longleftrightarrow>
     length (cat_pending_hints c) \<le> MAX_PENDING_STYLE_HINTS
     \<and> length (cat_revalidation_generations c) \<le> MAX_REVALIDATION_GENERATIONS
     \<and> distinct (map fst (cat_revision_announcements c))
     \<and> (\<forall>(slot, key, encoded)\<in>set (cat_revision_announcements c).
          slot < STYLE_REVISION_GOSSIP_SLOTS \<and> key = style_revision_gossip_key slot)"

definition catalog_inv :: "StyleCatalog \<Rightarrow> bool" where
  "catalog_inv c \<longleftrightarrow> generations_observed c \<and> floor_kept c \<and> sizes_bounded c"

lemma map_of_update [simp]: "map_of (AList.update k v m) = (map_of m)(k \<mapsto> v)"
  by (rule update_conv')

lemma map_of_delete [simp]: "map_of (AList.delete k m) = (map_of m)(k := None)"
  by (rule delete_conv')

lemma length_update:
  "length (AList.update k v m) = (if map_of m k = None then Suc (length m) else length m)"
  by (induction m) auto

lemma length_delete: "length (AList.delete k m) \<le> length m"
  by (simp add: AList.delete_eq)

lemma set_update_subset: "set (AList.update k v m) \<subseteq> insert (k, v) (set m)"
  by (induction m) auto

lemma store_hint_simps:
  assumes "store_hint s h c = (b, c')"
  shows "cat_revalidation_generations c' = cat_revalidation_generations c"
    "cat_revalidation_requests c' = cat_revalidation_requests c"
    "cat_observed c' = cat_observed c" "cat_cluster_observed c' = cat_cluster_observed c"
    "cat_minimum_revalidation_interval c' = cat_minimum_revalidation_interval c"
    "cat_revision_announcements c' = cat_revision_announcements c"
    "length (cat_pending_hints c) \<le> MAX_PENDING_STYLE_HINTS \<Longrightarrow>
      length (cat_pending_hints c') \<le> MAX_PENDING_STYLE_HINTS"
  using assms by (auto simp: store_hint_def length_update split: option.splits if_splits)

lemma advance_generation_simps:
  assumes "advance_generation s c = (r, c')"
  shows "cat_revalidation_requests c' = cat_revalidation_requests c"
    "cat_observed c' = cat_observed c" "cat_pending_hints c' = cat_pending_hints c"
    "cat_minimum_revalidation_interval c' = cat_minimum_revalidation_interval c"
    "cat_revision_announcements c' = cat_revision_announcements c"
    "s' \<noteq> s \<Longrightarrow> map_of (cat_revalidation_generations c') s' = map_of (cat_revalidation_generations c) s'"
    "length (cat_revalidation_generations c) \<le> MAX_REVALIDATION_GENERATIONS \<Longrightarrow>
      length (cat_revalidation_generations c') \<le> MAX_REVALIDATION_GENERATIONS"
    "map_of (cat_revalidation_generations c) s' = Some g \<Longrightarrow>
      map_of (cat_revalidation_generations c') s' = Some (if s' = s then g + 1 else g)"
  using assms by (auto simp: advance_generation_def length_update split: option.splits if_splits)

lemma settle_hint_simps:
  assumes "settle_hint L s v c = Some c'"
  shows "cat_revalidation_generations c' = cat_revalidation_generations c"
    "cat_revalidation_requests c' = cat_revalidation_requests c" "cat_observed c' = cat_observed c"
    "cat_minimum_revalidation_interval c' = cat_minimum_revalidation_interval c"
    "map_of (cat_pending_hints c') = (map_of (cat_pending_hints c))(s := None)"
    "sizes_bounded c \<Longrightarrow> sizes_bounded c'"
proof -
  show "cat_revalidation_generations c' = cat_revalidation_generations c"
    "cat_revalidation_requests c' = cat_revalidation_requests c" "cat_observed c' = cat_observed c"
    "cat_minimum_revalidation_interval c' = cat_minimum_revalidation_interval c"
    "map_of (cat_pending_hints c') = (map_of (cat_pending_hints c))(s := None)"
    using assms by (auto simp: settle_hint_def Let_def fun_eq_iff split: option.splits if_splits)
  have slot: "stable_revision_slot L h < STYLE_REVISION_GOSSIP_SLOTS" for h
    by (simp add: stable_revision_slot_def Let_def STYLE_REVISION_GOSSIP_SLOTS_def)
  assume ok: "sizes_bounded c"
  show "sizes_bounded c'"
  proof (cases "map_of (cat_pending_hints c) s")
    case None
    then show ?thesis
      using assms ok by (auto simp: settle_hint_def sizes_bounded_def split: option.splits if_splits)
  next
    case (Some h)
    then obtain encoded where c': "c' = c\<lparr>cat_pending_hints := AList.delete s (cat_pending_hints c),
        cat_revision_announcements := AList.update (stable_revision_slot L h)
          (observation_gossip_key L (observation_new h s v), encoded) (cat_revision_announcements c),
        cat_cluster_observed := AList.update s \<lparr>cos_version = v, cos_previous = None\<rparr>
          (cat_cluster_observed c)\<rparr>"
      using assms by (auto simp: settle_hint_def Let_def)
    have "distinct (map fst (cat_revision_announcements c'))"
      using ok by (simp add: c' sizes_bounded_def distinct_update)
    moreover have "slot < STYLE_REVISION_GOSSIP_SLOTS \<and> key = style_revision_gossip_key slot"
      if "(slot, key, e) \<in> set (cat_revision_announcements c')" for slot key e
      using that ok slot set_update_subset [of "stable_revision_slot L h"]
      by (fastforce simp: c' sizes_bounded_def observation_gossip_key_def observation_new_def)
    ultimately show ?thesis
      using ok length_delete [of s "cat_pending_hints c"] by (auto simp: c' sizes_bounded_def)
  qed
qed

lemma instant_checked_add_Some: "instant_checked_add t d = Some u \<Longrightarrow> u = t + d"
  by (simp add: instant_checked_add_def split: if_splits)

lemma observe_simps:
  "os_last_observed_at (snd (observe c s v t ra cur)) = t"
  "os_revalidate_after (snd (observe c s v t ra cur)) = ra"
  "os_pending_revalidation (snd (observe c s v t ra cur)) = (\<not> cur)"
  "os_version (snd (observe c s v t ra cur)) = v"
  by (auto simp: observe_def split: option.splits)

lemma record_simps:
  assumes "record_observed_for_generation L t s v d fence c = Some (changed, c')"
  defines "cur \<equiv> fetch_is_current c s fence" and "m \<equiv> cat_minimum_revalidation_interval c"
  shows "map_of (cat_observed c') = (map_of (cat_observed c))
      (s \<mapsto> snd (observe c s v t (if cur then t + max d m else t + m) cur))"
    and "cat_revalidation_generations c' = cat_revalidation_generations c"
    and "cat_revalidation_requests c' = cat_revalidation_requests c"
    and "cat_minimum_revalidation_interval c' = m"
    and "map_of (cat_pending_hints c') =
      (if cur then (map_of (cat_pending_hints c))(s := None) else map_of (cat_pending_hints c))"
    and "sizes_bounded c \<Longrightarrow> sizes_bounded c'"
proof -
  obtain full stay where t: "instant_checked_add t (max d m) = Some full" "instant_checked_add t m = Some stay"
    using assms(1) by (auto simp: record_observed_for_generation_def m_def split: option.splits)
  define entry where "entry = snd (observe c s v t (if cur then full else stay) cur)"
  define c1 where "c1 = c\<lparr>cat_observed := AList.update s entry (cat_observed c)\<rparr>"
  have c': "if cur then settle_hint L s v c1 = Some c' else c' = c1"
    using assms(1) t
    by (auto simp: record_observed_for_generation_def m_def [symmetric] cur_def [symmetric] Let_def
        c1_def entry_def split: prod.splits if_splits)
  have sz: "sizes_bounded c \<Longrightarrow> sizes_bounded c1" by (simp add: c1_def sizes_bounded_def)
  note full = instant_checked_add_Some [OF t(1)] instant_checked_add_Some [OF t(2)]
  show "map_of (cat_observed c') = (map_of (cat_observed c))
      (s \<mapsto> snd (observe c s v t (if cur then t + max d m else t + m) cur))"
    and "cat_revalidation_generations c' = cat_revalidation_generations c"
    and "cat_revalidation_requests c' = cat_revalidation_requests c"
    and "cat_minimum_revalidation_interval c' = m"
    and "map_of (cat_pending_hints c') =
      (if cur then (map_of (cat_pending_hints c))(s := None) else map_of (cat_pending_hints c))"
    and "sizes_bounded c \<Longrightarrow> sizes_bounded c'"
    using c' settle_hint_simps [of L s v c1 c'] sz
    by (cases cur; simp add: c1_def entry_def full m_def)+
qed

lemma request_simps:
  assumes "request_revalidation_inner s h c = Some (r, c')"
  defines "m \<equiv> cat_minimum_revalidation_interval c"
  shows "map_of (cat_observed c') = (case map_of (cat_observed c) s of
        None \<Rightarrow> map_of (cat_observed c)
      | Some o1 \<Rightarrow> (map_of (cat_observed c))(s \<mapsto> o1\<lparr>os_revalidate_after :=
          min (os_revalidate_after o1) (os_last_observed_at o1 + m), os_pending_revalidation := True\<rparr>))"
    and "cat_revalidation_requests c' = cat_revalidation_requests c + 1"
    and "cat_minimum_revalidation_interval c' = m"
    and "s' \<noteq> s \<or> map_of (cat_observed c) s = None \<Longrightarrow>
      map_of (cat_revalidation_generations c') s' = map_of (cat_revalidation_generations c) s'"
    and "map_of (cat_observed c) s \<noteq> None \<Longrightarrow> map_of (cat_revalidation_generations c) s = Some g \<Longrightarrow>
      map_of (cat_revalidation_generations c') s = Some (g + 1)"
    and "sizes_bounded c \<Longrightarrow> sizes_bounded c'"
proof -
  define c1 where "c1 = c\<lparr>cat_revalidation_requests := cat_revalidation_requests c + 1\<rparr>"
  obtain b c2 where st: "store_hint s h c1 = (b, c2)" by fastforce
  obtain r3 c3 where ad: "advance_generation s c2 = (r3, c3)" by fastforce
  note st' = store_hint_simps [OF st, unfolded c1_def, simplified]
  note ad' = advance_generation_simps [OF ad]
  have c': "case map_of (cat_observed c) s of
      None \<Rightarrow> c' = c2
    | Some o1 \<Rightarrow> c' = c3\<lparr>cat_observed := AList.update s (o1\<lparr>os_revalidate_after :=
        min (os_revalidate_after o1) (os_last_observed_at o1 + m), os_pending_revalidation := True\<rparr>) (cat_observed c3)\<rparr>"
    using assms(1) st st' ad
    by (auto simp: request_revalidation_inner_def c1_def [symmetric] Let_def m_def
        dest!: instant_checked_add_Some split: option.splits)
  have sz: "sizes_bounded c \<Longrightarrow> sizes_bounded c2" "sizes_bounded c \<Longrightarrow> sizes_bounded c3"
    using st' ad' by (simp_all add: sizes_bounded_def)
  show "map_of (cat_observed c') = (case map_of (cat_observed c) s of
        None \<Rightarrow> map_of (cat_observed c)
      | Some o1 \<Rightarrow> (map_of (cat_observed c))(s \<mapsto> o1\<lparr>os_revalidate_after :=
          min (os_revalidate_after o1) (os_last_observed_at o1 + m), os_pending_revalidation := True\<rparr>))"
    and "cat_revalidation_requests c' = cat_revalidation_requests c + 1"
    and "cat_minimum_revalidation_interval c' = m"
    and "s' \<noteq> s \<or> map_of (cat_observed c) s = None \<Longrightarrow>
      map_of (cat_revalidation_generations c') s' = map_of (cat_revalidation_generations c) s'"
    and "map_of (cat_observed c) s \<noteq> None \<Longrightarrow> map_of (cat_revalidation_generations c) s = Some g \<Longrightarrow>
      map_of (cat_revalidation_generations c') s = Some (g + 1)"
    and "sizes_bounded c \<Longrightarrow> sizes_bounded c'"
    using c' st' ad' sz by (auto simp: m_def sizes_bounded_def split: option.splits)
qed

lemma apply_simps:
  "cat_observed (snd (apply_cluster_observation L o1 c)) = cat_observed c"
  "cat_revalidation_generations (snd (apply_cluster_observation L o1 c)) = cat_revalidation_generations c"
  "cat_revalidation_requests (snd (apply_cluster_observation L o1 c)) = cat_revalidation_requests c"
  "cat_minimum_revalidation_interval (snd (apply_cluster_observation L o1 c)) = cat_minimum_revalidation_interval c"
  "sizes_bounded c \<Longrightarrow> sizes_bounded (snd (apply_cluster_observation L o1 c))"
  using length_delete [of "sro_style_id o1" "cat_pending_hints c"]
  by (auto simp: apply_cluster_observation_def Let_def sizes_bounded_def)

lemma catalog_op_inv:
  assumes "catalog_op L op c = Some c'" and "catalog_inv c"
  shows "catalog_inv c'"
proof (cases op)
  case (OpRecord t s v d fence)
  then obtain ch where r: "record_observed_for_generation L t s v d fence c = Some (ch, c')"
    using assms(1) by auto
  show ?thesis
    using assms(2) record_simps [OF r]
    by (auto simp: catalog_inv_def generations_observed_def floor_kept_def observe_simps)
next
  case (OpHint s h)
  then obtain rr where r: "request_revalidation_inner s h c = Some (rr, c')" using assms(1) by auto
  note q = request_simps [OF r]
  have "generations_observed c'"
    using assms(2) q(1,4) by (auto simp: catalog_inv_def generations_observed_def split: option.splits if_splits)
  moreover have "floor_kept c'"
    using assms(2) q(1,3) by (auto simp: catalog_inv_def floor_kept_def split: option.splits if_splits)
  ultimately show ?thesis using assms(2) q(6) by (simp add: catalog_inv_def)
next
  case (OpApply o1)
  then have c': "c' = snd (apply_cluster_observation L o1 c)" using assms(1) by simp
  show ?thesis
    using assms(2) apply_simps
    by (simp add: c' catalog_inv_def generations_observed_def floor_kept_def)
qed (use assms in \<open>auto simp: catalog_inv_def generations_observed_def floor_kept_def sizes_bounded_def
      upsert_definition_def set_url_template_def add_namespace_template_def\<close>)

definition catalog_step :: "CatalogLib \<Rightarrow> StyleCatalog \<Rightarrow> StyleCatalog \<Rightarrow> bool" where
  "catalog_step L c c' \<longleftrightarrow> (\<exists>op. catalog_op L op c = Some c')"

lemma style_catalog_new_inv: "catalog_inv (style_catalog_new interval)"
  by (simp add: catalog_inv_def style_catalog_new_def generations_observed_def floor_kept_def
      sizes_bounded_def)

interpretation catalog: inductive_invariant "\<lambda>c. \<exists>interval. c = style_catalog_new interval"
    "catalog_step L" catalog_inv for L
  by unfold_locales (auto simp: style_catalog_new_inv catalog_step_def intro: catalog_op_inv)

lemma catalog_run_steps: "catalog_run L ops c = Some c' \<Longrightarrow> (catalog_step L)\<^sup>*\<^sup>* c c'"
proof (induction ops arbitrary: c)
  case (Cons op ops)
  then obtain c1 where "catalog_op L op c = Some c1" "catalog_run L ops c1 = Some c'"
    by (auto simp: bind_eq_Some_conv)
  then show ?case using Cons.IH by (metis catalog_step_def converse_rtranclp_into_rtranclp)
qed simp

lemma catalog_run_inv: "catalog_run L ops (style_catalog_new interval) = Some c \<Longrightarrow> catalog_inv c"
  using catalog.reachable_inv catalog_run_steps by blast

definition example_lib :: CatalogLib where
  "example_lib = \<lparr>lib_ser = (\<lambda>o1. Some (sro_hint_id o1 @ sro_style_id o1)), lib_de = (\<lambda>_. None),
     lib_sha256 = (\<lambda>_. replicate 32 0)\<rparr>"

definition example_observation :: StyleRevisionObservation where
  "example_observation = observation_new ''h'' ''acme/streets'' 9223372036854775813"

text \<open>A template, a first fetch, then a hint that waits for its observation.\<close>

definition example_ops :: "CatalogOp list" where
  "example_ops = [OpTemplate ''u'', OpRecord 5 ''acme/streets'' 9223372036854775809 100
     \<lparr>rf_generation = None, rf_requests = 0\<rparr>]"

definition example_catalog :: StyleCatalog where
  "example_catalog = (style_catalog_new 10)\<lparr>cat_default_template := Some ''u'',
     cat_observed := [(''acme/streets'', \<lparr>os_version = 9223372036854775809, os_previous = None,
       os_bootstrap = Some 1, os_last_observed_at = 5, os_revalidate_after = 105,
       os_pending_revalidation = False\<rparr>)]\<rparr>"

lemmas example_defs = example_catalog_def style_catalog_new_def record_observed_for_generation_def
  request_revalidation_inner_def store_hint_def advance_generation_def Let_def set_url_template_def
  fetch_is_current_def hint_is_impossible_since_def revalidation_fence_def settle_hint_def observe_def
  instant_checked_add_def instant_max_def MAX_REVALIDATION_GENERATIONS_def MAX_PENDING_STYLE_HINTS_def

lemma example_catalog: "catalog_run example_lib example_ops (style_catalog_new 10) = Some example_catalog"
  by (simp add: example_ops_def example_defs configured_version_def template_for_def
      or_else_def INITIAL_STYLE_VERSION_def)

section \<open>Hints fence fetches\<close>

fun hint_for :: "StyleId \<Rightarrow> CatalogOp \<Rightarrow> bool" where
  "hint_for s (OpHint s' _) = (s' = s)"
| "hint_for s _ = False"

fun is_hint :: "CatalogOp \<Rightarrow> bool" where
  "is_hint (OpHint _ _) = True"
| "is_hint _ = False"

lemma catalog_op_counts:
  assumes "catalog_op L op c = Some c'" and "generations_observed c"
  shows "cat_revalidation_requests c' = cat_revalidation_requests c + (if is_hint op then 1 else 0)"
    and "map_of (cat_revalidation_generations c) s = Some g \<Longrightarrow>
      map_of (cat_revalidation_generations c') s = Some (g + (if hint_for s op then 1 else 0))"
proof (atomize (full), cases op)
  case (OpHint s' h)
  then obtain rr where r: "request_revalidation_inner s' h c = Some (rr, c')" using assms(1) by auto
  have "map_of (cat_observed c) s \<noteq> None" if "map_of (cat_revalidation_generations c) s = Some g"
    using that assms(2) by (auto simp: generations_observed_def)
  then show "cat_revalidation_requests c' = cat_revalidation_requests c + (if is_hint op then 1 else 0)
    \<and> (map_of (cat_revalidation_generations c) s = Some g \<longrightarrow>
      map_of (cat_revalidation_generations c') s = Some (g + (if hint_for s op then 1 else 0)))"
    using OpHint request_simps(2,4,5) [OF r] by auto
qed (use assms(1) apply_simps in \<open>auto simp: upsert_definition_def set_url_template_def
      add_namespace_template_def dest: record_simps(2,3)\<close>)

lemma catalog_run_counts:
  assumes "catalog_run L ops c = Some c'" and "catalog_inv c"
  shows "cat_revalidation_requests c' = cat_revalidation_requests c + word_of_nat (length (filter is_hint ops))
    \<and> (map_of (cat_revalidation_generations c) s = Some g \<longrightarrow>
         map_of (cat_revalidation_generations c') s = Some (g + word_of_nat (length (filter (hint_for s) ops))))"
  using assms
proof (induction ops arbitrary: c g)
  case (Cons op ops)
  then obtain c1 where op: "catalog_op L op c = Some c1" and run: "catalog_run L ops c1 = Some c'"
    by (auto simp: bind_eq_Some_conv)
  have "generations_observed c" using Cons.prems(2) by (simp add: catalog_inv_def)
  note one = catalog_op_counts [OF op this]
  note IH = Cons.IH [OF run catalog_op_inv [OF op Cons.prems(2)]]
  show ?case
    using one(1) one(2) [of s g] IH [of "g + (if hint_for s op then 1 else 0)"]
    by (auto simp: algebra_simps)
qed simp

lemma word_of_nat_nonzero: "0 < n \<Longrightarrow> n < 2 ^ 64 \<Longrightarrow> (word_of_nat n :: u64) \<noteq> 0"
  by (simp add: word_of_nat_eq_0_iff nat_dvd_not_less)

lemma length_filter_pos: "x \<in> set xs \<Longrightarrow> P x \<Longrightarrow> 0 < length (filter P xs)"
  by (auto simp: filter_empty_conv)

lemma hint_makes_stale:
  assumes "catalog_inv c" and "catalog_run L ops c = Some c'" and "length ops < 2 ^ 64"
    and "OpHint s h \<in> set ops"
  shows "\<not> fetch_is_current c' s (revalidation_fence c s)"
proof -
  note counts = catalog_run_counts [OF assms(2,1)]
  have n: "0 < length (filter is_hint ops)" "0 < length (filter (hint_for s) ops)"
    "length (filter is_hint ops) < 2 ^ 64" "length (filter (hint_for s) ops) < 2 ^ 64"
    using length_filter_pos [OF assms(4)] assms(3) le_less_trans [OF length_filter_le] by simp_all
  have "cat_revalidation_requests c' \<noteq> cat_revalidation_requests c"
    using counts word_of_nat_nonzero [OF n(1,3)] by simp
  moreover have "map_of (cat_revalidation_generations c') s \<noteq> map_of (cat_revalidation_generations c) s"
    if "map_of (cat_revalidation_generations c) s = Some g" for g
    using counts that word_of_nat_nonzero [OF n(2,4)] by auto
  ultimately show ?thesis
    by (cases "map_of (cat_revalidation_generations c) s")
      (auto simp: fetch_is_current_def revalidation_fence_def hint_is_impossible_since_def
        split: option.splits)
qed

lemma no_hint_current:
  assumes "catalog_inv c" and "catalog_run L ops c = Some c'" and "\<forall>op\<in>set ops. \<not> is_hint op"
  shows "fetch_is_current c' s (revalidation_fence c s)"
  using catalog_run_counts [OF assms(2,1)] assms(3)
  by (simp add: fetch_is_current_def revalidation_fence_def hint_is_impossible_since_def)

text \<open>C13: A refresh hint is never lost to a fetch that was already under way.  Take any catalog reached
  from an empty one, a fetch that captures its fence there, and any operations before it completes.
  If a hint for the style is among them, the completed fetch leaves the style marked as awaiting
  revalidation and due again at the minimum interval, whatever the bounded fence map could hold.  If
  no hint at all is among them, the fetch settles the style for the whole served freshness.\<close>

theorem hint_fences_fetch:
  assumes "catalog_run L before (style_catalog_new interval) = Some c"
    and "catalog_run L ops c = Some c'" and "length ops < 2 ^ 64"
    and "record_observed_for_generation L now style version freshness (revalidation_fence c style) c'
      = Some (changed, c'')"
  shows "((\<exists>hint. OpHint style hint \<in> set ops) \<longrightarrow>
        has_pending_revalidation c'' style
        \<and> (\<exists>entry. map_of (cat_observed c'') style = Some entry \<and> os_version entry = version
             \<and> os_revalidate_after entry = now + cat_minimum_revalidation_interval c'))
    \<and> ((\<forall>op\<in>set ops. \<not> is_hint op) \<longrightarrow>
        \<not> has_pending_revalidation c'' style
        \<and> (\<exists>entry. map_of (cat_observed c'') style = Some entry \<and> os_version entry = version
             \<and> os_revalidate_after entry = now + max freshness (cat_minimum_revalidation_interval c')))"
proof -
  have inv: "catalog_inv c" using assms(1) by (rule catalog_run_inv)
  note rec = record_simps [OF assms(4)]
  show ?thesis
    using hint_makes_stale [OF inv assms(2,3)] no_hint_current [OF inv assms(2)] rec(1,5)
    by (auto simp: has_pending_revalidation_def observe_simps)
qed

theorem hint_fences_fetch_witness:
  "\<exists>c' c'' changed. catalog_run example_lib [OpHint ''acme/streets'' None] example_catalog = Some c'
    \<and> record_observed_for_generation example_lib 20 ''acme/streets'' 9223372036854775809 100
        (revalidation_fence example_catalog ''acme/streets'') c' = Some (changed, c'')
    \<and> has_pending_revalidation c'' ''acme/streets''"
proof -
  let ?ops = "[OpHint ''acme/streets'' None]"
  have "catalog_run example_lib ?ops example_catalog \<noteq> None" by (simp add: example_defs)
  then obtain c' where c': "catalog_run example_lib ?ops example_catalog = Some c'" by auto
  have "Option.bind (catalog_run example_lib ?ops example_catalog)
      (record_observed_for_generation example_lib 20 ''acme/streets'' 9223372036854775809 100
        (revalidation_fence example_catalog ''acme/streets'')) \<noteq> None" by (simp add: example_defs)
  then obtain changed c'' where r: "record_observed_for_generation example_lib 20 ''acme/streets''
      9223372036854775809 100 (revalidation_fence example_catalog ''acme/streets'') c' = Some (changed, c'')"
    unfolding c' by auto
  show ?thesis using hint_fences_fetch [OF example_catalog c' _ r] c' r by auto
qed



section \<open>Acceptance of revisions\<close>

lemma latest_accepted: "latest_version c style = Some v \<Longrightarrow> accepts_version c style v"
  by (auto simp: latest_version_def accepts_version_def or_else_def split: option.splits)

lemma configured_record:
  assumes "record_observed_for_generation L now style v d fence c = Some (changed, c')"
  shows "changed \<longleftrightarrow> observed_version c style \<noteq> Some v"
  using assms by (auto simp: record_observed_for_generation_def Let_def observe_def observed_version_def
      split: option.splits if_splits prod.splits)

text \<open>Recording a fetch never strands requests in flight.  Afterwards the fetched version is
  accepted, and so is the version this process observed before it or, on the first observation, the
  configured placeholder; whatever version the catalog resolves as latest is accepted; and a change is
  reported exactly when the content differs from the last observation.\<close>

theorem record_keeps_revisions:
  assumes "record_observed_for_generation L now style v d fence c = Some (changed, c')"
  shows "accepts_version c' style v
    \<and> (\<forall>old. observed_version c style = Some old \<longrightarrow> accepts_version c' style old)
    \<and> (observed_version c style = None \<longrightarrow>
         (\<forall>placeholder. configured_version c style = Some placeholder \<longrightarrow> accepts_version c' style placeholder))
    \<and> (\<forall>latest. latest_version c' style = Some latest \<longrightarrow> accepts_version c' style latest)
    \<and> (changed \<longleftrightarrow> observed_version c style \<noteq> Some v)"
proof -
  obtain ra cur where o1: "map_of (cat_observed c') style = Some (snd (observe c style v now ra cur))"
    using record_simps(1) [OF assms] by fastforce
  have "accepts_version c' style v"
    using o1 by (simp add: accepts_version_def observe_simps)
  moreover have "accepts_version c' style old" if "observed_version c style = Some old" for old
    using o1 that by (auto simp: accepts_version_def observe_def observed_version_def split: if_splits)
  moreover have "accepts_version c' style b"
    if "observed_version c style = None" "configured_version c style = Some b" for b
    using o1 that by (auto simp: accepts_version_def observe_def observed_version_def)
  ultimately show ?thesis using latest_accepted configured_record [OF assms] by blast
qed

theorem record_keeps_revisions_witness:
  "\<exists>changed c'. record_observed_for_generation example_lib 20 ''acme/streets'' 9223372036854775817 100
      (revalidation_fence example_catalog ''acme/streets'') example_catalog = Some (changed, c')
    \<and> accepts_version c' ''acme/streets'' 9223372036854775809"
proof -
  have "record_observed_for_generation example_lib 20 ''acme/streets'' 9223372036854775817 100
      (revalidation_fence example_catalog ''acme/streets'') example_catalog \<noteq> None" by (simp add: example_defs)
  then obtain changed c' where r: "record_observed_for_generation example_lib 20 ''acme/streets'' 9223372036854775817 100
      (revalidation_fence example_catalog ''acme/streets'') example_catalog = Some (changed, c')" by auto
  have "observed_version example_catalog ''acme/streets'' = Some 9223372036854775809"
    by (simp add: example_defs observed_version_def)
  then show ?thesis using record_keeps_revisions [OF r] r by blast
qed

text \<open>C37: A peer's observation is adopted only for the exact hint this process waits for, and at most
  once: then it becomes the latest version, the version that was latest stays accepted, and hearing
  the same observation again changes nothing.  Any other observation leaves the catalog as it was, so
  a retained older announcement cannot roll a style back.\<close>

theorem cluster_observation_once:
  "case apply_cluster_observation L o1 c of (changed, c') \<Rightarrow>
     if observation_encode L o1 \<noteq> None
        \<and> map_of (cat_pending_hints c) (sro_style_id o1) = Some (sro_hint_id o1)
     then latest_version c' (sro_style_id o1) = Some (sro_version o1)
        \<and> (\<forall>old. latest_version c (sro_style_id o1) = Some old \<longrightarrow> accepts_version c' (sro_style_id o1) old)
        \<and> (changed \<longleftrightarrow> (\<exists>old. latest_version c (sro_style_id o1) = Some old \<and> old \<noteq> sro_version o1))
        \<and> apply_cluster_observation L o1 c' = (False, c')
     else \<not> changed \<and> c' = c"
  by (auto simp: apply_cluster_observation_def Let_def latest_version_def [of "_\<lparr>cat_cluster_observed := _,
      cat_pending_hints := _\<rparr>"] accepts_version_def or_else_def split: option.splits)

theorem cluster_observation_once_witness:
  "let c = the (catalog_op example_lib (OpHint ''acme/streets'' (Some ''h'')) example_catalog);
       c' = snd (apply_cluster_observation example_lib example_observation c)
   in latest_version c' ''acme/streets'' = Some 9223372036854775813
      \<and> accepts_version c' ''acme/streets'' 9223372036854775809
      \<and> apply_cluster_observation example_lib example_observation c' = (False, c')"
proof -
  define c where "c = the (catalog_op example_lib (OpHint ''acme/streets'' (Some ''h'')) example_catalog)"
  have o1: "sro_style_id example_observation = ''acme/streets''" "sro_hint_id example_observation = ''h''"
    "sro_version example_observation = 9223372036854775813"
    by (simp_all add: example_observation_def observation_new_def)
  have "observation_encode example_lib example_observation \<noteq> None"
    "map_of (cat_pending_hints c) ''acme/streets'' = Some ''h''"
    "latest_version c ''acme/streets'' = Some 9223372036854775809"
    by (simp_all add: c_def example_defs observation_encode_def example_observation_def
        observation_new_def example_lib_def OBSERVATION_SCHEMA_VERSION_def RESERVED_VERSION_BIT_def
        MAX_STYLE_REVISION_GOSSIP_BYTES_def latest_version_def or_else_def)
  then show ?thesis
    using cluster_observation_once [of example_lib example_observation c]
    unfolding c_def [symmetric] Let_def
    by (cases "apply_cluster_observation example_lib example_observation c") (simp add: o1)
qed

section \<open>Credentials in content versions\<close>

definition url_laws :: "'u UrlOps \<Rightarrow> bool" where
  "url_laws U \<longleftrightarrow> (\<forall>u. url_parse U (url_to_string U u) = Some u)
     \<and> (\<forall>u ps. ps \<in> set (subseqs (url_query_pairs U u)) \<longrightarrow> url_query_pairs U (url_set_pairs U u ps) = ps)"

fun json_strings :: "Json \<Rightarrow> string list" where
  "json_strings (JString s) = [s]"
| "json_strings (JArray vs) = concat (map json_strings vs)"
| "json_strings (JObject kvs) = concat (map (\<lambda>(k, v). json_strings v) kvs)"
| "json_strings _ = []"

lemma filter_in_subseqs: "filter P xs \<in> set (subseqs xs)"
  by (induction xs) (auto simp: Let_def)

lemma normalize_url_token_free:
  assumes "url_laws U" and "contains_substring ''access_token'' (normalize_url U s)"
    and "url_parse U (normalize_url U s) = Some u"
  shows "''access_token'' \<notin> fst ` set (url_query_pairs U u)"
proof (cases "\<exists>v. contains_substring ''access_token'' s \<and> url_parse U s = Some v
    \<and> length (filter (\<lambda>(name, v). name \<noteq> ''access_token'') (url_query_pairs U v)) \<noteq> length (url_query_pairs U v)")
  case True
  then obtain v where v: "contains_substring ''access_token'' s" "url_parse U s = Some v"
    "normalize_url U s = url_to_string U (url_set_pairs U v
       (filter (\<lambda>(name, v). name \<noteq> ''access_token'') (url_query_pairs U v)))"
    by (auto simp: normalize_url_def Let_def)
  then have "url_query_pairs U u = filter (\<lambda>(name, v). name \<noteq> ''access_token'') (url_query_pairs U v)"
    using assms(1,3) filter_in_subseqs unfolding url_laws_def by fastforce
  then show ?thesis by auto
next
  case False
  then have same: "normalize_url U s = s" by (auto simp: normalize_url_def Let_def split: option.splits)
  then have len: "length (filter (\<lambda>(name, v). name \<noteq> ''access_token'') (url_query_pairs U u))
      = length (url_query_pairs U u)" using False assms by auto
  have "(case p of (name, v) \<Rightarrow> name \<noteq> ''access_token'')" if "p \<in> set (url_query_pairs U u)" for p
    using length_filter_less [OF that, of "\<lambda>(name, v). name \<noteq> ''access_token''"] len by auto
  then show ?thesis by fastforce
qed

lemma json_strings_normalize:
  "json_strings (normalize_credential_urls U j) = map (normalize_url U) (json_strings j)"
proof (induction j)
  case (JArray vs)
  then show ?case by (induction vs) auto
next
  case (JObject kvs)
  have "json_strings (normalize_credential_urls U v) = map (normalize_url U) (json_strings v)"
    if "(k, v) \<in> set kvs" for k v
    using JObject that by fastforce
  then show ?case
    by (auto simp: map_concat intro!: arg_cong [where f = concat] map_cong)
qed auto


text \<open>A URL library with two URLs, one of them with a token.\<close>

definition example_urls :: "bool UrlOps" where
  "example_urls =
     \<lparr>url_parse = (\<lambda>s. if s = ''x?access_token=k'' then Some True else if s = ''x'' then Some False else None),
      url_query_pairs = (\<lambda>b. if b then [(''access_token'', ''k'')] else []),
      url_set_pairs = (\<lambda>_ ps. ps \<noteq> []),
      url_to_string = (\<lambda>b. if b then ''x?access_token=k'' else ''x'')\<rparr>"


end
