(* ===== verification/Wire.thy ===== *)
theory Wire
  imports Domain_Types
begin

text \<open>
  The messages one node sends to another when it forwards a task, from
  \<^verbatim>\<open>crates/biei-core/src/wire.rs\<close>: the task with its remaining budget, the outcome header with
  peer-relative times, and the length-prefixed body.  The JSON codec of the header is a library and an
  argument; its errors carry no value here.
\<close>

section \<open>Forwarded tasks\<close>

record WireSourceRef =
  wsr_hash :: SourceHash
  wsr_policy :: CachePolicy

record WireTask =
  wt_id :: TaskId
  wt_request_id :: RequestId
  wt_authorization :: "RenderAuthorization option"
  wt_style :: StyleRevision
  wt_source :: "WireSourceRef option"
  wt_request :: RenderRequest
  wt_scale :: Scale
  wt_output_format :: ImageFormat
  wt_remaining_budget_ms :: u32
  wt_forwarding_hops :: u8

record ForwardRequest =
  fr_task :: WireTask
  fr_route_tier :: RouteTier
  fr_drain_worker :: "WorkerId option"
  fr_origin_response_budget_ms :: u32

definition wire_source_ref :: "SourceRef \<Rightarrow> WireSourceRef" where
  "wire_source_ref s = \<lparr>wsr_hash = src_hash s, wsr_policy = src_policy s\<rparr>"

definition source_ref_of_wire :: "WireSourceRef \<Rightarrow> SourceRef" where
  "source_ref_of_wire w = \<lparr>src_hash = wsr_hash w, src_policy = wsr_policy w\<rparr>"

definition millis_u32 :: "duration \<Rightarrow> u32" where
  "millis_u32 d = word_of_nat (min (as_millis d) u32_max)"

definition to_wire_with_hop_latency :: "InternalTask \<Rightarrow> instant \<Rightarrow> duration \<Rightarrow> WireTask" where
  "to_wire_with_hop_latency t now hop_latency =
     (let budget = saturating_duration_since (it_deadline t) now - hop_latency
      in \<lparr>wt_id = it_id t, wt_request_id = it_request_id t, wt_authorization = it_authorization t,
          wt_style = it_style t, wt_source = map_option wire_source_ref (it_source t),
          wt_request = it_request t, wt_scale = pixel_ratio_to_scale (it_pixel_ratio t),
          wt_output_format = it_output_format t, wt_remaining_budget_ms = millis_u32 budget,
          wt_forwarding_hops = it_forwarding_hops t\<rparr>)"

definition u8_saturating_add :: "u8 \<Rightarrow> u8 \<Rightarrow> u8" where
  "u8_saturating_add a b = word_of_nat (min (unat a + unat b) 255)"

definition to_forward_wire :: "InternalTask \<Rightarrow> instant \<Rightarrow> duration \<Rightarrow> WireTask" where
  "to_forward_wire t now hop_latency =
     (let round_trip = dur_saturating_mul hop_latency 2;
          wire = to_wire_with_hop_latency t now round_trip
      in wire\<lparr>wt_forwarding_hops := u8_saturating_add (it_forwarding_hops t) 1\<rparr>)"

definition into_internal :: "WireTask \<Rightarrow> instant \<Rightarrow> InternalTask option" where
  "into_internal w now =
     map_option (\<lambda>deadline.
       \<lparr>it_id = wt_id w, it_request_id = wt_request_id w, it_authorization = wt_authorization w,
        it_style = wt_style w, it_source = map_option source_ref_of_wire (wt_source w),
        it_request = wt_request w, it_pixel_ratio = pixel_ratio_from_scale (wt_scale w),
        it_output_format = wt_output_format w, it_arrived_at = now, it_deadline = deadline,
        it_forwarding_hops = wt_forwarding_hops w\<rparr>)
       (instant_checked_add now (from_millis (unat (wt_remaining_budget_ms w))))"

section \<open>Outcomes\<close>

record WireRenderObservation =
  wo_render_mode :: RenderMode
  wo_scale :: Scale
  wo_output_format :: ImageFormat
  wo_width :: u16
  wo_height :: u16
  wo_style_setup_ms :: "u64 option"
  wo_source_setup_ms :: "u64 option"

text \<open>The times of \<open>Completed\<close>: render started, native started, native completed, completed.\<close>

record CompletedHeader =
  ch_node_id :: NodeId
  ch_worker_id :: "WorkerId option"
  ch_route_tier :: RouteTier
  ch_render_started_ms :: u64
  ch_native_render_started_ms :: u64
  ch_native_render_completed_ms :: u64
  ch_completed_ms :: u64
  ch_style_swap :: bool
  ch_cold_start :: bool
  ch_source_loaded :: bool
  ch_admitted_at_overflow :: bool
  ch_render_observation :: "WireRenderObservation option"

datatype OutcomeResult =
  CompletedResult CompletedHeader
| RejectedResult RejectionReason "DeadlineStage option"
| FailedResult string FailureKind

record OutcomeHeader =
  oh_task_id :: TaskId
  oh_request_id :: RequestId
  oh_style_id :: StyleId
  oh_had_source :: bool
  oh_image_format :: "ImageFormat option"
  oh_result :: OutcomeResult

record ForwardResponse =
  fw_outcome :: OutcomeHeader
  fw_output :: "RenderOutput option"

definition duration_millis :: "duration \<Rightarrow> u64" where
  "duration_millis d = word_of_nat (min (as_millis d) u64_max)"

definition millis_since :: "instant \<Rightarrow> instant \<Rightarrow> u64" where
  "millis_since t base = duration_millis (saturating_duration_since t base)"

definition wire_render_observation :: "RenderObservation \<Rightarrow> WireRenderObservation" where
  "wire_render_observation o1 =
     \<lparr>wo_render_mode = obs_render_mode o1, wo_scale = obs_scale o1,
      wo_output_format = obs_output_format o1, wo_width = obs_width o1, wo_height = obs_height o1,
      wo_style_setup_ms = map_option duration_millis (obs_style_setup_duration o1),
      wo_source_setup_ms = map_option duration_millis (obs_source_setup_duration o1)\<rparr>"

definition observation_of_wire :: "WireRenderObservation \<Rightarrow> RenderObservation" where
  "observation_of_wire w =
     \<lparr>obs_render_mode = wo_render_mode w, obs_scale = wo_scale w,
      obs_output_format = wo_output_format w, obs_width = wo_width w, obs_height = wo_height w,
      obs_style_setup_duration = map_option (\<lambda>ms. from_millis (unat ms)) (wo_style_setup_ms w),
      obs_source_setup_duration = map_option (\<lambda>ms. from_millis (unat ms)) (wo_source_setup_ms w)\<rparr>"

definition completed_header :: "CompletedInfo \<Rightarrow> instant \<Rightarrow> CompletedHeader" where
  "completed_header info arrived_at =
     \<lparr>ch_node_id = ci_node_id info, ch_worker_id = ci_worker_id info, ch_route_tier = ci_route_tier info,
      ch_render_started_ms = millis_since (ci_started_at info) arrived_at,
      ch_native_render_started_ms = millis_since (ci_native_render_started_at info) arrived_at,
      ch_native_render_completed_ms = millis_since (ci_native_render_completed_at info) arrived_at,
      ch_completed_ms = millis_since (ci_completed_at info) arrived_at,
      ch_style_swap = ci_style_swap info, ch_cold_start = ci_cold_start info,
      ch_source_loaded = ci_source_loaded info, ch_admitted_at_overflow = ci_admitted_at_overflow info,
      ch_render_observation = map_option wire_render_observation (ci_render_observation info)\<rparr>"

definition header_from_task_outcome :: "TaskOutcome \<Rightarrow> StyleId \<Rightarrow> OutcomeHeader \<times> RenderOutput option" where
  "header_from_task_outcome outcome style_id =
     (let (result, image_format, output) =
            (case to_result outcome of
               Completed info render_output \<Rightarrow>
                 (CompletedResult (completed_header info (to_arrived_at outcome)),
                  Some (out_format render_output), Some render_output)
             | Rejected reason \<Rightarrow> (RejectedResult reason (to_deadline_stage outcome), None, None)
             | Failed error kind \<Rightarrow> (FailedResult error kind, None, None))
      in (\<lparr>oh_task_id = to_task_id outcome, oh_request_id = to_request_id outcome,
           oh_style_id = style_id, oh_had_source = to_had_source outcome,
           oh_image_format = image_format, oh_result = result\<rparr>, output))"

definition response_from_task_outcome :: "TaskOutcome \<Rightarrow> StyleId \<Rightarrow> ForwardResponse" where
  "response_from_task_outcome outcome style_id =
     (let (header, output) = header_from_task_outcome outcome style_id
      in \<lparr>fw_outcome = header, fw_output = output\<rparr>)"

text \<open>
  The peer's times on the origin's clock.  The sum cannot overflow: it is at most the completion
  time.
\<close>

definition peer_arrival :: "instant \<Rightarrow> instant \<Rightarrow> u64 \<Rightarrow> instant" where
  "peer_arrival arrived_at completed_at completed_ms =
     (let peer_duration = from_millis (unat completed_ms)
      in max (if peer_duration \<le> completed_at then completed_at - peer_duration else arrived_at) arrived_at)"

definition peer_offset :: "instant \<Rightarrow> instant \<Rightarrow> u64 \<Rightarrow> instant" where
  "peer_offset peer_arrived_at completed_at offset_ms =
     peer_arrived_at + min (from_millis (unat offset_ms)) (completed_at - peer_arrived_at)"

definition completed_from_header ::
  "CompletedHeader \<Rightarrow> instant \<Rightarrow> instant \<Rightarrow> CompletedInfo" where
  "completed_from_header h arrived_at received_at =
     (let completed_at = max received_at arrived_at;
          peer_arrived_at = peer_arrival arrived_at completed_at (ch_completed_ms h);
          offset = peer_offset peer_arrived_at completed_at
      in \<lparr>ci_node_id = ch_node_id h, ci_worker_id = ch_worker_id h, ci_route_tier = ch_route_tier h,
          ci_started_at = offset (ch_render_started_ms h),
          ci_native_render_started_at = offset (ch_native_render_started_ms h),
          ci_native_render_completed_at = offset (ch_native_render_completed_ms h),
          ci_completed_at = completed_at, ci_style_swap = ch_style_swap h,
          ci_cold_start = ch_cold_start h, ci_source_loaded = ch_source_loaded h,
          ci_admitted_at_overflow = ch_admitted_at_overflow h,
          ci_render_observation = map_option observation_of_wire (ch_render_observation h)\<rparr>)"

definition header_into_task_outcome ::
  "OutcomeHeader \<Rightarrow> instant \<Rightarrow> instant \<Rightarrow> RenderOutput option \<Rightarrow> TaskOutcome" where
  "header_into_task_outcome h arrived_at received_at output =
     (let (result, deadline_stage) =
            (case oh_result h of
               CompletedResult c \<Rightarrow>
                 ((case output of
                     Some render_output \<Rightarrow> Completed (completed_from_header c arrived_at received_at) render_output
                   | None \<Rightarrow> Failed ''completed response missing render output'' OtherFailure), None)
             | RejectedResult reason stage \<Rightarrow> (Rejected reason, stage)
             | FailedResult error kind \<Rightarrow> (Failed error kind, None))
      in \<lparr>to_task_id = oh_task_id h, to_request_id = oh_request_id h, to_arrived_at = arrived_at,
          to_had_source = oh_had_source h, to_deadline_stage = deadline_stage, to_result = result\<rparr>)"

definition response_into_task_outcome :: "ForwardResponse \<Rightarrow> instant \<Rightarrow> instant \<Rightarrow> TaskOutcome" where
  "response_into_task_outcome r arrived_at received_at =
     header_into_task_outcome (fw_outcome r) arrived_at received_at (fw_output r)"

definition header_rejected_reason :: "OutcomeHeader \<Rightarrow> RejectionReason option" where
  "header_rejected_reason h = (case oh_result h of RejectedResult reason _ \<Rightarrow> Some reason | _ \<Rightarrow> None)"

definition response_rejected_reason :: "ForwardResponse \<Rightarrow> RejectionReason option" where
  "response_rejected_reason r = header_rejected_reason (fw_outcome r)"

definition completed_format :: "OutcomeHeader \<Rightarrow> ImageFormat option" where
  "completed_format h = (case oh_result h of CompletedResult _ \<Rightarrow> oh_image_format h | _ \<Rightarrow> None)"

section \<open>Body framing\<close>

datatype WireError = EncodeError | DecodeError | InvalidCompletedTimeline | Truncated | TooLarge

definition u32_to_be_bytes :: "u32 \<Rightarrow> bytes" where
  "u32_to_be_bytes w =
     [ucast (drop_bit 24 w), ucast (drop_bit 16 w), ucast (drop_bit 8 w), ucast w]"

definition u32_from_be_bytes :: "u8 \<Rightarrow> u8 \<Rightarrow> u8 \<Rightarrow> u8 \<Rightarrow> nat" where
  "u32_from_be_bytes a b c d = ((unat a * 256 + unat b) * 256 + unat c) * 256 + unat d"

definition encode_json_prefix ::
  "(OutcomeHeader \<Rightarrow> bytes option) \<Rightarrow> OutcomeHeader \<Rightarrow> WireError + (bytes \<times> u32)" where
  "encode_json_prefix ser header =
     (case ser header of
        None \<Rightarrow> Inl EncodeError
      | Some json \<Rightarrow>
          if length json \<le> u32_max then Inr (json, word_of_nat (length json)) else Inl TooLarge)"

definition encode_response_header ::
  "(OutcomeHeader \<Rightarrow> bytes option) \<Rightarrow> OutcomeHeader \<Rightarrow> WireError + bytes" where
  "encode_response_header ser header =
     (case encode_json_prefix ser header of
        Inl e \<Rightarrow> Inl e
      | Inr (json, json_len) \<Rightarrow> Inr (u32_to_be_bytes json_len @ json))"

fun valid_timeline :: "OutcomeResult \<Rightarrow> bool" where
  "valid_timeline (CompletedResult c) =
     (ch_render_started_ms c \<le> ch_native_render_started_ms c
      \<and> ch_native_render_started_ms c \<le> ch_native_render_completed_ms c
      \<and> ch_native_render_completed_ms c \<le> ch_completed_ms c)"
| "valid_timeline _ = True"

definition decode_response_prefix ::
  "(bytes \<Rightarrow> OutcomeHeader option) \<Rightarrow> bytes \<Rightarrow> WireError + (OutcomeHeader \<times> nat)" where
  "decode_response_prefix de body =
     (if length body < 4 then Inl Truncated
      else
        let json_len = u32_from_be_bytes (body ! 0) (body ! 1) (body ! 2) (body ! 3);
            payload_end = 4 + json_len
        in if payload_end > usize_max then Inl Truncated
           else if length body < payload_end then Inl Truncated
           else case de (take json_len (drop 4 body)) of
                  None \<Rightarrow> Inl DecodeError
                | Some header \<Rightarrow>
                    if \<not> valid_timeline (oh_result header) then Inl InvalidCompletedTimeline
                    else Inr (header, payload_end))"

definition decode_response_bytes ::
  "(bytes \<Rightarrow> OutcomeHeader option) \<Rightarrow> bytes \<Rightarrow> WireError + (OutcomeHeader \<times> bytes)" where
  "decode_response_bytes de body =
     (case decode_response_prefix de body of
        Inl e \<Rightarrow> Inl e
      | Inr (header, payload_end) \<Rightarrow> Inr (header, drop payload_end body))"

section \<open>Framing round trip\<close>

lemma be_bytes_roundtrip:
  "u32_from_be_bytes (ucast (drop_bit 24 w)) (ucast (drop_bit 16 w)) (ucast (drop_bit 8 w)) (ucast (w :: u32)) = unat w"
proof -
  have byte: "unat (ucast x :: u8) = unat x mod 256" for x :: u32
    by (simp add: unsigned_ucast_eq take_bit_eq_mod)
  have shift: "unat (drop_bit n w) = unat w div 2 ^ n" for n
    unfolding unsigned_drop_bit_eq using unsigned_less [of w, where 'a = nat]
    by (simp add: drop_bit_eq_div take_bit_nat_eq_self)
  define n where "n = unat w"
  have "n < 2 ^ 32" using unsigned_less [of w, where 'a = nat] by (simp add: n_def)
  then have "n div 16777216 < 256" by simp
  then have "n div 16777216 mod 256 = n div 16777216" by simp
  moreover have "n div 16777216 = n div 65536 div 256" "n div 65536 = n div 256 div 256"
    by (simp_all add: div_mult2_eq [symmetric])
  ultimately show ?thesis
    by (simp add: u32_from_be_bytes_def byte shift n_def [symmetric])
qed

lemma encode_response_header_Inr:
  assumes "encode_response_header ser h = Inr frame"
  obtains json where "ser h = Some json" "length json \<le> u32_max"
    "frame = u32_to_be_bytes (word_of_nat (length json)) @ json"
  using assms by (auto simp: encode_response_header_def encode_json_prefix_def
      split: option.splits if_splits sum.splits)

lemma prefix_length:
  assumes "length json \<le> u32_max"
  shows "u32_from_be_bytes (u32_to_be_bytes (word_of_nat (length json)) ! 0)
    (u32_to_be_bytes (word_of_nat (length json)) ! 1) (u32_to_be_bytes (word_of_nat (length json)) ! 2)
    (u32_to_be_bytes (word_of_nat (length json)) ! 3) = length (json :: bytes)"
proof -
  have "unat (word_of_nat (length json) :: u32) = length json"
    using assms by (simp add: unsigned_of_nat take_bit_nat_eq_self)
  then show ?thesis by (simp add: u32_to_be_bytes_def be_bytes_roundtrip)
qed

lemma length_u32_to_be_bytes [simp]: "length (u32_to_be_bytes w) = 4"
  by (simp add: u32_to_be_bytes_def)


section \<open>Budgets\<close>

lemma from_as_millis: "from_millis (as_millis d) \<le> d" "d < from_millis (as_millis d) + 10 ^ 6"
  unfolding from_millis_def as_millis_def
  by (metis div_mult_mod_eq le_add1) (metis add.commute div_mult_mod_eq mod_less_divisor nat_add_left_cancel_less zero_less_numeral zero_less_power)

lemma unat_millis_u32: "unat (millis_u32 d) = min (as_millis d) u32_max"
proof -
  have "min (as_millis d) u32_max < 2 ^ 32" by (simp add: min_def)
  then show ?thesis by (simp add: millis_u32_def unsigned_of_nat take_bit_nat_eq_self)
qed

lemma scale_roundtrip: "pixel_ratio_to_scale (pixel_ratio_from_scale s) = s"
  by (cases s) simp_all

lemma wire_source_roundtrip: "source_ref_of_wire (wire_source_ref s) = s"
  by (simp add: source_ref_of_wire_def wire_source_ref_def)

text \<open>C25: A forwarded task reserves the round trip.  However the clocks of the two nodes differ, the
  peer's deadline leaves at most the origin's remaining time less two hops, and less than a millisecond
  is lost to rounding when the budget fits the wire; the hop count grows by one and never wraps; the
  task keeps its identity, authorisation, style, source, request and worker profile.\<close>

theorem forward_reserves_round_trip:
  assumes "it_deadline t \<le> instant_max"
    and "into_internal (to_forward_wire t now hop) peer_now = Some t'"
  shows "it_deadline t' - peer_now \<le> (it_deadline t - now) - 2 * hop
    \<and> (as_millis ((it_deadline t - now) - 2 * hop) \<le> u32_max \<longrightarrow>
         (it_deadline t - now) - 2 * hop < (it_deadline t' - peer_now) + 10 ^ 6)
    \<and> it_arrived_at t' = peer_now \<and> peer_now \<le> it_deadline t'
    \<and> unat (it_forwarding_hops t') = min (unat (it_forwarding_hops t) + 1) 255
    \<and> it_id t' = it_id t \<and> it_request_id t' = it_request_id t
    \<and> it_authorization t' = it_authorization t \<and> it_style t' = it_style t
    \<and> it_source t' = it_source t \<and> it_request t' = it_request t
    \<and> it_output_format t' = it_output_format t \<and> worker_profile t' = worker_profile t"
proof -
  let ?budget = "(it_deadline t - now) - 2 * hop"
  have round: "(it_deadline t - now) - min (hop * 2) duration_max = ?budget"
  proof (cases "hop * 2 \<le> duration_max")
    case False
    then have "it_deadline t \<le> duration_max" "duration_max \<le> 2 * hop"
      using assms(1) by (simp_all add: instant_max_def duration_max_def)
    then show ?thesis by simp
  qed (simp add: min_def mult.commute)
  have w: "wt_remaining_budget_ms (to_forward_wire t now hop) = millis_u32 ?budget"
    unfolding to_forward_wire_def to_wire_with_hop_latency_def Let_def dur_saturating_mul_def
      saturating_duration_since_def round by simp
  have d: "it_deadline t' = peer_now + from_millis (unat (millis_u32 ?budget))"
    using assms(2) by (auto simp: into_internal_def w instant_checked_add_def split: if_splits)
  have "from_millis (unat (millis_u32 ?budget)) \<le> ?budget"
    using from_as_millis(1) [of ?budget] by (auto simp: unat_millis_u32 from_millis_def min_def)
  moreover have "?budget < from_millis (unat (millis_u32 ?budget)) + 10 ^ 6" if "as_millis ?budget \<le> u32_max"
    using from_as_millis(2) [of ?budget] that by (simp add: unat_millis_u32 min_def)
  moreover have "unat (u8_saturating_add (it_forwarding_hops t) 1) = min (unat (it_forwarding_hops t) + 1) 255"
  proof -
    have of_nat: "unat (word_of_nat n :: u8) = n" if "n < 256" for n
      using that by (simp add: unsigned_of_nat take_bit_nat_eq_self)
    have "unat (1 :: u8) = 1" by simp
    then show ?thesis unfolding u8_saturating_add_def by (simp only:) (rule of_nat, simp add: min_def)
  qed
  moreover have "it_source t' = it_source t"
    using assms(2) by (auto simp: into_internal_def to_forward_wire_def to_wire_with_hop_latency_def
        Let_def wire_source_roundtrip option.map_comp comp_def option.map_ident)
  ultimately show ?thesis
    using assms(2) d
    by (auto simp: into_internal_def to_forward_wire_def to_wire_with_hop_latency_def Let_def
        worker_profile_def scale_roundtrip)
qed

section \<open>Outcomes across nodes\<close>

lemma millis_since_mono: "a \<le> b \<Longrightarrow> millis_since a base \<le> millis_since b base"
proof -
  assume "a \<le> b"
  then have "as_millis (a - base) \<le> as_millis (b - base)"
    by (simp add: as_millis_def div_le_mono diff_le_mono)
  then have "min (as_millis (a - base)) u64_max \<le> min (as_millis (b - base)) u64_max"
    by (rule min.mono) (rule order_refl)
  moreover have "min n u64_max < 2 ^ 64" for n by (simp add: min_def)
  ultimately show ?thesis
    by (simp add: millis_since_def duration_millis_def saturating_duration_since_def word_le_nat_alt
        unsigned_of_nat take_bit_nat_eq_self)
qed

lemma peer_offset_bounds:
  assumes "peer \<le> completed"
  shows "peer \<le> peer_offset peer completed ms" "peer_offset peer completed ms \<le> completed"
    "ms \<le> ms' \<Longrightarrow> peer_offset peer completed ms \<le> peer_offset peer completed ms'"
  using assms by (auto simp: peer_offset_def from_millis_def word_le_nat_alt min_def)

lemma peer_arrival_bounds:
  assumes "arrived \<le> completed"
  shows "arrived \<le> peer_arrival arrived completed ms" "peer_arrival arrived completed ms \<le> completed"
  using assms by (auto simp: peer_arrival_def Let_def)

definition times_ordered :: "instant \<Rightarrow> CompletedInfo \<Rightarrow> bool" where
  "times_ordered arrived_at info \<longleftrightarrow>
     arrived_at \<le> ci_started_at info \<and> ci_started_at info \<le> ci_native_render_started_at info
     \<and> ci_native_render_started_at info \<le> ci_native_render_completed_at info
     \<and> ci_native_render_completed_at info \<le> ci_completed_at info"

lemma completed_from_header_ordered:
  assumes "valid_timeline (CompletedResult h)"
  shows "times_ordered arrived_at (completed_from_header h arrived_at received_at)"
  using assms peer_arrival_bounds [of arrived_at "max received_at arrived_at" "ch_completed_ms h"]
    peer_offset_bounds [of "peer_arrival arrived_at (max received_at arrived_at) (ch_completed_ms h)"
      "max received_at arrived_at"]
  by (simp add: times_ordered_def completed_from_header_def Let_def) (meson order_trans)

lemma completed_header_valid:
  "times_ordered arrived_at info \<Longrightarrow> valid_timeline (CompletedResult (completed_header info arrived_at))"
  by (simp add: times_ordered_def completed_header_def millis_since_mono)


section \<open>Examples\<close>

definition example_rejection :: TaskOutcome where
  "example_rejection = \<lparr>to_task_id = 1, to_request_id = ''r'', to_arrived_at = 3, to_had_source = False,
     to_deadline_stage = Some Render, to_result = Rejected DeadlineExceeded\<rparr>"


theorem forward_reserves_round_trip_witness:
  "\<exists>t'. into_internal (to_forward_wire (example_task 1) 10 20) 1000 = Some t'
    \<and> it_deadline t' - 1000 \<le> 50 \<and> unat (it_forwarding_hops t') = 1"
proof -
  have "into_internal (to_forward_wire (example_task 1) 10 20) 1000 \<noteq> None"
    by (simp add: into_internal_def to_forward_wire_def to_wire_with_hop_latency_def Let_def
        instant_checked_add_def instant_max_def from_millis_def millis_u32_def as_millis_def
        example_task_def saturating_duration_since_def)
  then obtain t' where t': "into_internal (to_forward_wire (example_task 1) 10 20) 1000 = Some t'" by auto
  have "it_deadline (example_task 1) = 100" "it_forwarding_hops (example_task 1) = 0"
    by (simp_all add: example_task_def)
  then show ?thesis
    using forward_reserves_round_trip [OF _ t'] t' by (auto simp: instant_max_def)
qed

text \<open>A codec for one header.\<close>

definition example_header :: OutcomeHeader where
  "example_header = fst (header_from_task_outcome example_rejection ''s'')"


end
