(* ===== verification/Publisher.thy ===== *)
theory Publisher
  imports Worker_Pool Style_Catalog
begin

text \<open>
  The gossip publisher of a node, from the task that \<open>Node::spawn\<close> starts in
  \<^verbatim>\<open>crates/biei-core/src/node.rs\<close>: each round it encodes the pool's workers, the catalog's
  announcements and the admission flag, and hands the bus only the pairs that changed since the last
  round.  The bus stores what it is given (\<open>GossipBus::set_many\<close>).  Peers that decode the stored
  pairs see exactly the node's state of the last round.
\<close>

section \<open>Rounds\<close>

definition bool_to_string :: "bool \<Rightarrow> string" where
  "bool_to_string b = (if b then ''true'' else ''false'')"

definition extend_kvs :: "NodeKvs \<Rightarrow> (string \<times> string) list \<Rightarrow> NodeKvs" where
  "extend_kvs m kvs = btree_extend m kvs"

definition published_kvs :: "WorkerPool \<Rightarrow> StyleCatalog \<Rightarrow> bool \<Rightarrow> NodeKvs" where
  "published_kvs pool catalog accepts_new_renders =
     btree_insert RENDER_ADMISSION_GOSSIP_KEY (bool_to_string accepts_new_renders)
       (extend_kvs (snapshot_kvs pool) (revision_gossip_kvs catalog))"

text \<open>The pairs that differ from the last round.\<close>

definition changed_kvs :: "NodeKvs \<Rightarrow> NodeKvs \<Rightarrow> NodeKvs" where
  "changed_kvs last_sent kvs = filter (\<lambda>(k, v). map_of last_sent k \<noteq> Some v) kvs"

definition publish_round ::
  "WorkerPool \<times> StyleCatalog \<times> bool \<Rightarrow> NodeKvs \<times> NodeKvs \<Rightarrow> NodeKvs \<times> NodeKvs" where
  "publish_round snap state =
     (case (snap, state) of
        ((pool, catalog, accepts), (last_sent, store)) \<Rightarrow>
          (let kvs = published_kvs pool catalog accepts;
               changed = changed_kvs last_sent kvs
           in (kvs, if changed \<noteq> [] then extend_kvs store changed else store)))"

definition publisher :: "(WorkerPool \<times> StyleCatalog \<times> bool) list \<Rightarrow> NodeKvs \<times> NodeKvs" where
  "publisher rounds = fold publish_round rounds ([], [])"

section \<open>Encoded snapshots\<close>

lemma sorted_keys_distinct: "sorted_wrt (<) (map fst (m :: NodeKvs)) \<Longrightarrow> distinct (map fst m)"
  by (simp add: strict_sorted_iff)

lemma extend_kvs_simps:
  assumes "sorted_wrt (<) (map fst m)"
  shows "sorted_wrt (<) (map fst (extend_kvs m kvs))"
    "set (map fst (extend_kvs m kvs)) = set (map fst m) \<union> set (map fst kvs)"
    "map_of (extend_kvs m kvs) = map_of m ++ map_of (rev kvs)"
  unfolding extend_kvs_def by (fact btree_extend_simps [OF assms])+

lemma encode_worker_kvs_simps:
  assumes "sorted_wrt (<) (map fst m)"
  shows "sorted_wrt (<) (map fst (encode_worker_kvs m w p q))"
    "set (map fst (encode_worker_kvs m w p q)) = set (map fst m) \<union> worker_key w ` set worker_fields"
    "encodes_worker (map_of (encode_worker_kvs m w p q)) w p q"
    "w' \<noteq> w \<Longrightarrow> map_of (encode_worker_kvs m w p q) (worker_key w' f) = map_of m (worker_key w' f)"
proof -
  have inj: "worker_key w' f = worker_key w'' f' \<longleftrightarrow> w' = w'' \<and> f = f'" for w' w'' f f'
    using worker_key_inj by blast
  have srt: "sorted_wrt (<) (map fst (btree_insert k v l))" if "sorted_wrt (<) (map fst l)"
    for k v and l :: NodeKvs using that by (rule btree_insert_simps)
  have mo: "map_of (btree_insert k v l) = (map_of l)(k \<mapsto> v)" if "sorted_wrt (<) (map fst l)"
    for k v and l :: NodeKvs using that by (rule btree_insert_simps)
  show "sorted_wrt (<) (map fst (encode_worker_kvs m w p q))"
    using assms by (cases p) (simp_all add: encode_worker_kvs_def Let_def srt)
  show "set (map fst (encode_worker_kvs m w p q)) = set (map fst m) \<union> worker_key w ` set worker_fields"
    by (cases p) (auto simp: encode_worker_kvs_def Let_def btree_insert_keys)
  show "encodes_worker (map_of (encode_worker_kvs m w p q)) w p q"
    using assms by (cases p) (simp_all add: encodes_worker_def encode_worker_kvs_def Let_def mo srt inj)
  show "w' \<noteq> w \<Longrightarrow> map_of (encode_worker_kvs m w p q) (worker_key w' f) = map_of m (worker_key w' f)"
    using assms by (cases p) (simp_all add: encode_worker_kvs_def Let_def mo srt inj)
qed

lemma word_of_nat_neq: "i < n \<Longrightarrow> n < 2 ^ 32 \<Longrightarrow> (word_of_nat i :: u32) \<noteq> word_of_nat n"
proof
  assume "i < n" "n < 2 ^ 32" and "(word_of_nat i :: u32) = word_of_nat n"
  then have "unat (word_of_nat i :: u32) = unat (word_of_nat n :: u32)" by simp
  with \<open>i < n\<close> \<open>n < 2 ^ 32\<close> show False
    by (simp add: unsigned_of_nat take_bit_nat_eq_self)
qed

lemma snapshot_fold:
  fixes ld :: "WorkerProfile option list" and ds :: "nat list"
  assumes "length ds \<le> 2 ^ 32"
  defines "F \<equiv> foldl (\<lambda>out (i, depth). encode_worker_kvs out (word_of_nat i) (ld ! i) depth) [] (enumerate 0 ds)"
  shows "sorted_wrt (<) (map fst F)
    \<and> set (map fst F) = (\<Union>i<length ds. worker_key (word_of_nat i) ` set worker_fields)
    \<and> (\<forall>i<length ds. encodes_worker (map_of F) (word_of_nat i) (ld ! i) (ds ! i))"
  using assms(1) unfolding F_def
proof (induction ds rule: rev_induct)
  case (snoc d ds)
  let ?F = "foldl (\<lambda>out (i, depth). encode_worker_kvs out (word_of_nat i) (ld ! i) depth) [] (enumerate 0 ds)"
  let ?n = "length ds"
  have IH: "sorted_wrt (<) (map fst ?F)"
    "set (map fst ?F) = (\<Union>i<?n. worker_key (word_of_nat i) ` set worker_fields)"
    "\<forall>i<?n. encodes_worker (map_of ?F) (word_of_nat i) (ld ! i) (ds ! i)"
    using snoc by simp_all
  have F': "foldl (\<lambda>out (i, depth). encode_worker_kvs out (word_of_nat i) (ld ! i) depth) []
      (enumerate 0 (ds @ [d])) = encode_worker_kvs ?F (word_of_nat ?n) (ld ! ?n) d"
    by (simp add: enumerate_append_eq)
  note e = encode_worker_kvs_simps [OF IH(1), where w = "word_of_nat ?n" and p = "ld ! ?n" and q = d]
  have "encodes_worker (map_of (encode_worker_kvs ?F (word_of_nat ?n) (ld ! ?n) d)) (word_of_nat i) (ld ! i) ((ds @ [d]) ! i)"
    if "i < length (ds @ [d])" for i
  proof (cases "i = ?n")
    case False
    then have "i < ?n" using that by simp
    then have "(word_of_nat i :: u32) \<noteq> word_of_nat ?n" using snoc.prems by (intro word_of_nat_neq) simp_all
    then show ?thesis using IH(3) \<open>i < ?n\<close> by (simp add: encodes_worker_def e(4) nth_append)
  qed (simp add: e(3))
  then show ?case unfolding F' using e(1,2) IH(2) by (auto simp: lessThan_Suc)
qed simp

section \<open>The store follows the node\<close>

lemma catalog_keys_skip:
  assumes "catalog_inv c"
  shows "\<forall>k\<in>fst ` set (revision_gossip_kvs c). strip_prefix ''worker.'' k = None"
  using assms
  by (auto simp: catalog_inv_def sizes_bounded_def revision_gossip_kvs_def style_revision_gossip_key_def
      STYLE_REVISION_GOSSIP_KEY_PREFIX_def)

lemma catalog_keys_skip_worker:
  assumes "catalog_inv c"
  shows "map_of (rev (revision_gossip_kvs c)) (worker_key w f) = None"
  using catalog_keys_skip [OF assms] worker_key_strip [of w f]
  by (auto simp: map_of_eq_None_iff)

text \<open>What a round publishes: every worker's fields, the admission flag, and no other worker key.\<close>

lemma published_kvs_shape:
  assumes n: "length (pool_queue_depths pool) = n" "n \<le> 2 ^ 32" and c: "catalog_inv c"
  shows "sorted_wrt (<) (map fst (published_kvs pool c b))"
    and "\<forall>k\<in>fst ` set (published_kvs pool c b). gossip_key (word_of_nat ` {..<n}) k"
    and "i < n \<Longrightarrow> encodes_worker (map_of (published_kvs pool c b)) (word_of_nat i)
           (ps_loaded (pool_state pool) ! i) (pool_queue_depths pool ! i)"
    and "map_of (published_kvs pool c b) RENDER_ADMISSION_GOSSIP_KEY = Some (bool_to_string b)"
proof -
  have le: "length (pool_queue_depths pool) \<le> 2 ^ 32" using n by simp
  note snap = snapshot_fold [OF le, of "ps_loaded (pool_state pool)", folded snapshot_kvs_def]
  note ext = extend_kvs_simps [OF conjunct1 [OF snap], of "revision_gossip_kvs c"]
  note ins = btree_insert_simps(3) [OF ext(1), of RENDER_ADMISSION_GOSSIP_KEY "bool_to_string b"]
  show "sorted_wrt (<) (map fst (published_kvs pool c b))"
    unfolding published_kvs_def by (rule btree_insert_simps(2) [OF ext(1)])
  have "set (map fst (published_kvs pool c b)) = insert RENDER_ADMISSION_GOSSIP_KEY
      ((\<Union>i<n. worker_key (word_of_nat i) ` set worker_fields) \<union> fst ` set (revision_gossip_kvs c))"
    unfolding published_kvs_def using ext(2) snap n(1) by (simp add: btree_insert_keys)
  then show "\<forall>k\<in>fst ` set (published_kvs pool c b). gossip_key (word_of_nat ` {..<n}) k"
    using catalog_keys_skip [OF c] by (auto simp: gossip_key_def)
  show "map_of (published_kvs pool c b) RENDER_ADMISSION_GOSSIP_KEY = Some (bool_to_string b)"
    unfolding published_kvs_def ins by simp
  have same: "map_of (published_kvs pool c b) (worker_key w f) = map_of (snapshot_kvs pool) (worker_key w f)" for w f
    unfolding published_kvs_def ins ext(3)
    by (simp add: worker_key_neq_admission catalog_keys_skip_worker [OF c] map_add_def)
  show "encodes_worker (map_of (published_kvs pool c b)) (word_of_nat i)
           (ps_loaded (pool_state pool) ! i) (pool_queue_depths pool ! i)" if "i < n"
    using snap that n(1) by (simp add: encodes_worker_def same)
qed

text \<open>A round leaves the store with the published value of every key of that round.\<close>

lemma changed_kvs_overlay:
  assumes d: "distinct (map fst kvs)" and agree: "\<forall>k v. map_of sent k = Some v \<longrightarrow> map_of store k = Some v"
    and srt: "sorted_wrt (<) (map fst store)" and k: "map_of kvs k = Some v"
  shows "map_of (extend_kvs store (changed_kvs sent kvs)) k = Some v"
proof -
  let ?ch = "changed_kvs sent kvs"
  have d': "distinct (map fst ?ch)" using d unfolding changed_kvs_def by (rule distinct_map_filter)
  then have rev: "map_of (rev ?ch) = map_of ?ch"
    by (subst map_of_inject_set) (simp_all add: rev_map [symmetric])
  show ?thesis
  proof (cases "map_of sent k = Some v")
    case True
    have "(k, v') \<notin> set ?ch" for v'
    proof
      assume "(k, v') \<in> set ?ch"
      then have "(k, v') \<in> set kvs" "map_of sent k \<noteq> Some v'" by (auto simp: changed_kvs_def)
      with True k d show False by simp
    qed
    then have "map_of ?ch k = None" by (metis map_of_SomeD not_None_eq)
    then show ?thesis using True agree by (simp add: extend_kvs_simps(3) [OF srt] rev map_add_def)
  next
    case False
    then have "(k, v) \<in> set ?ch" using k by (auto simp: changed_kvs_def map_of_SomeD)
    then have "map_of ?ch k = Some v" using d' by simp
    then show ?thesis by (simp add: extend_kvs_simps(3) [OF srt] rev map_add_def)
  qed
qed

definition round_ok :: "nat \<Rightarrow> WorkerPool \<times> StyleCatalog \<times> bool \<Rightarrow> bool" where
  "round_ok n snap \<longleftrightarrow> (case snap of (pool, c, b) \<Rightarrow>
     length (pool_queue_depths pool) = n \<and> catalog_inv c)"

definition store_inv :: "nat \<Rightarrow> NodeKvs \<times> NodeKvs \<Rightarrow> bool" where
  "store_inv n state \<longleftrightarrow> (case state of (sent, store) \<Rightarrow>
     sorted_wrt (<) (map fst store)
     \<and> (\<forall>k\<in>fst ` set store. gossip_key (word_of_nat ` {..<n}) k)
     \<and> (\<forall>k v. map_of sent k = Some v \<longrightarrow> map_of store k = Some v))"

lemma ball_union: "A \<subseteq> B \<union> C \<Longrightarrow> \<forall>x\<in>B. P x \<Longrightarrow> \<forall>x\<in>C. P x \<Longrightarrow> \<forall>x\<in>A. P x"
  by blast

lemma publish_round_inv:
  assumes "n \<le> 2 ^ 32" and "round_ok n snap" and "store_inv n state"
  shows "store_inv n (publish_round snap state)"
proof -
  obtain pool c b where snap: "snap = (pool, c, b)" by (cases snap)
  obtain sent store where state: "state = (sent, store)" by (cases state)
  have ok: "length (pool_queue_depths pool) = n" "catalog_inv c"
    using assms(2) by (simp_all add: round_ok_def snap)
  note shape = published_kvs_shape [OF ok(1) assms(1) ok(2), where b = b]
  let ?kvs = "published_kvs pool c b"
  have inv: "sorted_wrt (<) (map fst store)" "\<forall>k\<in>fst ` set store. gossip_key (word_of_nat ` {..<n}) k"
    "\<forall>k v. map_of sent k = Some v \<longrightarrow> map_of store k = Some v"
    using assms(3) by (simp_all add: store_inv_def state)
  have d: "distinct (map fst ?kvs)" using shape(1) by (rule sorted_keys_distinct)
  have "fst ` set (changed_kvs sent ?kvs) \<subseteq> fst ` set ?kvs" by (auto simp: changed_kvs_def)
  then have "fst ` set (extend_kvs store (changed_kvs sent ?kvs)) \<subseteq> fst ` set store \<union> fst ` set ?kvs"
    using extend_kvs_simps(2) [OF inv(1), of "changed_kvs sent ?kvs"] by auto
  then have keys: "\<forall>k\<in>fst ` set (extend_kvs store (changed_kvs sent ?kvs)). gossip_key (word_of_nat ` {..<n}) k"
    by (rule ball_union [OF _ inv(2) shape(2)])
  have "publish_round snap state = (?kvs, extend_kvs store (changed_kvs sent ?kvs))"
    by (simp add: publish_round_def snap state Let_def extend_kvs_def btree_extend_def)
  then show ?thesis
    using extend_kvs_simps(1) [OF inv(1)] keys changed_kvs_overlay [OF d inv(3,1)]
    by (simp add: store_inv_def)
qed

lemma publisher_inv:
  assumes "n \<le> 2 ^ 32" and "\<forall>snap\<in>set rounds. round_ok n snap"
  shows "store_inv n (publisher rounds)"
proof -
  have "store_inv n state \<Longrightarrow> store_inv n (fold publish_round rounds state)" for state
    using assms(2)
    by (induction rounds arbitrary: state) (simp_all add: publish_round_inv [OF assms(1)])
  then show ?thesis unfolding publisher_def by (simp add: store_inv_def)
qed

lemma sorted_worker_ids: "n \<le> 2 ^ 32 \<Longrightarrow> sorted_wrt (<) (map (word_of_nat :: nat \<Rightarrow> u32) [0..<n])"
  by (auto simp: sorted_wrt_map sorted_wrt_iff_nth_less word_less_nat_alt unsigned_of_nat take_bit_nat_eq_self)

definition round_valid :: "WorkerPool \<Rightarrow> bool" where
  "round_valid pool \<longleftrightarrow>
     (\<forall>q\<in>set (pool_queue_depths pool). q < 2 ^ 64)
     \<and> (\<forall>i<length (pool_queue_depths pool). \<forall>p. ps_loaded (pool_state pool) ! i = Some p \<longrightarrow>
          valid_revision (wp_style p))"

section \<open>Properties\<close>

text \<open>
  C23: after any number of publisher rounds, decoding the pairs that the deltas left in the bus
  gives the node's state of the last round: its admission flag and, for each worker in id order, the
  loaded profile and the queue depth.  The deltas lose nothing, stale values of earlier rounds do not
  survive, and the catalog's announcements never decode as workers.
\<close>

theorem published_state_roundtrip:
  assumes n: "n \<le> 2 ^ 32" and ok: "\<forall>snap\<in>set (rounds @ [(pool, c, b)]). round_ok n snap"
    and valid: "round_valid pool"
  shows "from_kvs i (snd (publisher (rounds @ [(pool, c, b)]))) =
           \<lparr>nsv_id = i, nsv_accepts_new_renders = b, nsv_workers = snapshot_workers pool\<rparr>"
proof -
  obtain store where pub: "publisher (rounds @ [(pool, c, b)]) = (published_kvs pool c b, store)"
    by (cases "fold publish_round rounds ([], [])") (simp add: publisher_def publish_round_def Let_def)
  have inv: "sorted_wrt (<) (map fst store)" "\<forall>k\<in>fst ` set store. gossip_key (word_of_nat ` {..<n}) k"
    "\<And>k v. map_of (published_kvs pool c b) k = Some v \<Longrightarrow> map_of store k = Some v"
    using publisher_inv [OF n ok] by (simp_all add: store_inv_def pub)
  have len: "length (pool_queue_depths pool) = n" and c: "catalog_inv c"
    using ok by (simp_all add: round_ok_def)
  note shape = published_kvs_shape [OF len n c, where b = b]
  let ?ids = "map (word_of_nat :: nat \<Rightarrow> u32) [0..<n]"
  let ?p = "\<lambda>w. ps_loaded (pool_state pool) ! unat w" and ?q = "\<lambda>w. pool_queue_depths pool ! unat w"
  have unat: "unat (word_of_nat j :: u32) = j" if "j < n" for j
    using that n by (simp add: unsigned_of_nat take_bit_nat_eq_self)
  have enc: "encodes_worker (map_of store) w (?p w) (?q w)" if "w \<in> set ?ids" for w
    using that shape(3) inv(3) unat by (auto simp: encodes_worker_def)
  have "from_kvs i store = \<lparr>nsv_id = i,
     nsv_accepts_new_renders = (map_of store RENDER_ADMISSION_GOSSIP_KEY = Some ''true''),
     nsv_workers = map (\<lambda>w. \<lparr>wv_id = w, wv_loaded_profile = ?p w, wv_queue_depth = ?q w\<rparr>) ?ids\<rparr>"
  proof (rule from_kvs_encoded [OF sorted_keys_distinct [OF inv(1)] _ sorted_worker_ids [OF n] enc])
    show "\<forall>k\<in>fst ` set store. gossip_key (set ?ids) k"
      using inv(2) by (simp add: atLeast0LessThan)
  qed (use valid len unat in \<open>auto simp: round_valid_def\<close>)
  moreover have "map_of store RENDER_ADMISSION_GOSSIP_KEY = Some (bool_to_string b)"
    using inv(3) shape(4) .
  ultimately show ?thesis
    using unat by (simp add: pub snapshot_workers_def enumerate_eq_zip len list_eq_iff_nth_eq bool_to_string_def)
qed

definition example_rounds :: "(WorkerPool \<times> StyleCatalog \<times> bool) list" where
  "example_rounds = [(example_pool, style_catalog_new 10, True)]"

definition example_busy_pool :: WorkerPool where
  "example_busy_pool = example_pool\<lparr>pool_queue_depths := [1, 0],
     pool_state := (pool_state example_pool)\<lparr>ps_loaded := [Some (example_profile 7), None]\<rparr>\<rparr>"

theorem published_state_roundtrip_witness:
  "from_kvs ''n1'' (snd (publisher (example_rounds @ [(example_busy_pool, style_catalog_new 10, False)]))) =
     \<lparr>nsv_id = ''n1'', nsv_accepts_new_renders = False,
      nsv_workers = [\<lparr>wv_id = 0, wv_loaded_profile = Some (example_profile 7), wv_queue_depth = 1\<rparr>,
                     \<lparr>wv_id = 1, wv_loaded_profile = None, wv_queue_depth = 0\<rparr>]\<rparr>"
proof -
  have "\<forall>snap\<in>set (example_rounds @ [(example_busy_pool, style_catalog_new 10, False)]). round_ok 2 snap"
    by (simp add: example_rounds_def round_ok_def example_busy_pool_def example_pool_def pool_spawn_simps
        style_catalog_new_inv)
  moreover have "round_valid example_busy_pool"
    by (simp add: round_valid_def example_busy_pool_def less_Suc_eq all_conj_distrib example_profile_def
        valid_revision_def)
  ultimately show ?thesis
    using published_state_roundtrip [of 2 example_rounds example_busy_pool "style_catalog_new 10" False "''n1''"]
    by (simp add: snapshot_workers_def example_busy_pool_def)
qed

end
