(* ===== verification/View_Cache.thy ===== *)
theory View_Cache
  imports Domain_Types Transition
begin

text \<open>
  The node's cache of the cluster view, \<^verbatim>\<open>crates/biei-core/src/node/view_cache.rs\<close>: one loader at
  a time, waiting calls woken through a watch channel, hits valid for one membership epoch.  Calls of
  \<open>get_or_load\<close> interleave at their lock regions and awaits; a call is a program point and a step of
  it is a function of the shared state.
\<close>

section \<open>State\<close>

definition MAX_TTL :: duration where
  "MAX_TTL = from_millis 100"

definition MIN_TTL :: duration where
  "MIN_TTL = from_millis 1"

definition cluster_view_cache_ttl :: "duration \<Rightarrow> duration" where
  "cluster_view_cache_ttl publish_interval = max (min publish_interval MAX_TTL) MIN_TTL"

record CachedClusterView =
  cc_expires_at :: instant
  cc_gossip_epoch :: u64
  cc_view :: ClusterView

record ClusterViewCacheState =
  cs_cached :: "CachedClusterView option"
  cs_loading :: bool

text \<open>
  The watch channel is its value and the number of changes sent; a receiver remembers the number it
  has seen, and \<open>changed\<close> is ready when the two differ.
\<close>

record ClusterViewCache =
  vc_ttl :: duration
  vc_state :: ClusterViewCacheState
  vc_changed :: u64
  vc_sent :: nat

definition view_cache_new :: "duration \<Rightarrow> ClusterViewCache" where
  "view_cache_new ttl = \<lparr>vc_ttl = ttl, vc_state = \<lparr>cs_cached = None, cs_loading = False\<rparr>,
     vc_changed = 0, vc_sent = 0\<rparr>"

definition usable_cached_view ::
  "ClusterViewCacheState \<Rightarrow> duration \<Rightarrow> u64 \<Rightarrow> instant \<Rightarrow> ClusterView option" where
  "usable_cached_view state stale_grace gossip_epoch now =
     (case cs_cached state of
        None \<Rightarrow> None
      | Some cached \<Rightarrow>
          if cc_gossip_epoch cached \<noteq> gossip_epoch then None
          else
            (let bounded_stale = cs_loading state
                   \<and> (case instant_checked_add (cc_expires_at cached) stale_grace of
                        None \<Rightarrow> False | Some stale_until \<Rightarrow> stale_until > now)
             in if cc_expires_at cached > now \<or> bounded_stale then Some (cc_view cached) else None))"

definition set_loading :: "bool \<Rightarrow> ClusterViewCache \<Rightarrow> ClusterViewCache" where
  "set_loading b cache = cache\<lparr>vc_state := (vc_state cache)\<lparr>cs_loading := b\<rparr>\<rparr>"

definition send_modify :: "ClusterViewCache \<Rightarrow> ClusterViewCache" where
  "send_modify cache = cache\<lparr>vc_changed := vc_changed cache + 1, vc_sent := vc_sent cache + 1\<rparr>"

text \<open>The locked region of \<open>ClusterViewLoad::complete\<close>; \<open>None\<close> when the expiry is not representable.\<close>

definition store_loaded :: "instant \<Rightarrow> ClusterView \<Rightarrow> u64 \<Rightarrow> ClusterViewCache \<Rightarrow> ClusterViewCache option" where
  "store_loaded now view gossip_epoch cache =
     map_option (\<lambda>expires_at.
         cache\<lparr>vc_state := \<lparr>cs_cached = Some \<lparr>cc_expires_at = expires_at, cc_gossip_epoch = gossip_epoch,
                                         cc_view = view\<rparr>,
                            cs_loading = False\<rparr>\<rparr>)
       (instant_checked_add now (vc_ttl cache))"

section \<open>Calls\<close>

text \<open>
  The program points of \<open>get_or_load\<close>: the head of the loop; before the first look at the cache;
  before \<open>subscribe\<close>; before the second look, with the changes seen by the receiver; chosen as the
  loader, before reading the epoch; awaiting \<open>gossip.view()\<close>; before the second read of the epoch;
  before \<open>complete\<close>; before its notification; in the drop of an unfinished load, before the lock and
  before the notification, with whether the loop continues; awaiting a change; returned.
\<close>

datatype ViewPoint =
    VEnter | VCheck | VSubscribe | VElect nat | VEpoch | VLoad u64 | VLoaded u64 ClusterView
  | VComplete u64 ClusterView | VNotify ClusterView | VDrop bool | VDropNotify bool | VWait nat
  | VReturned "ClusterView option"

text \<open>What an await sees: the call is polled, the bus answers, the timer fires, or the future is dropped.\<close>

datatype ViewEvent = Poll | Delivers ClusterView | Timeout | Cancel

definition look :: "ClusterViewCache \<Rightarrow> u64 \<Rightarrow> instant \<Rightarrow> ClusterView option" where
  "look cache epoch now = usable_cached_view (vc_state cache) (vc_ttl cache) epoch now"

definition polled :: "ViewEvent \<Rightarrow> 'a option \<Rightarrow> 'a option" where
  "polled ev r = (case ev of Poll \<Rightarrow> r | _ \<Rightarrow> None)"

lemma polled_Some: "polled ev r = Some x \<longleftrightarrow> ev = Poll \<and> r = Some x"
  by (simp add: polled_def split: ViewEvent.splits)

fun get_or_load_step ::
  "instant \<Rightarrow> u64 \<Rightarrow> instant \<Rightarrow> ViewEvent \<Rightarrow> ClusterViewCache \<Rightarrow> ViewPoint \<Rightarrow>
   (ClusterViewCache \<times> ViewPoint) option" where
  "get_or_load_step now epoch deadline ev cache VEnter =
     polled ev (Some (cache, if now \<ge> deadline then VReturned None else VCheck))"
| "get_or_load_step now epoch deadline ev cache VCheck =
     polled ev (Some (cache, case look cache epoch now of
                               Some view \<Rightarrow> VReturned (Some view) | None \<Rightarrow> VSubscribe))"
| "get_or_load_step now epoch deadline ev cache VSubscribe =
     polled ev (Some (cache, VElect (vc_sent cache)))"
| "get_or_load_step now epoch deadline ev cache (VElect seen) =
     polled ev
       (case look cache epoch now of
          Some view \<Rightarrow> Some (cache, VReturned (Some view))
        | None \<Rightarrow> if cs_loading (vc_state cache) then Some (cache, VWait seen)
                  else Some (set_loading True cache, VEpoch))"
| "get_or_load_step now epoch deadline ev cache VEpoch = polled ev (Some (cache, VLoad epoch))"
| "get_or_load_step now epoch deadline ev cache (VLoad gossip_epoch) =
     (case ev of
        Delivers view \<Rightarrow> Some (cache, VLoaded gossip_epoch view)
      | Timeout \<Rightarrow> if now \<ge> deadline then Some (cache, VDrop False) else None
      | Cancel \<Rightarrow> Some (cache, VDrop False)
      | Poll \<Rightarrow> None)"
| "get_or_load_step now epoch deadline ev cache (VLoaded gossip_epoch view) =
     polled ev (Some (cache, if epoch \<noteq> gossip_epoch then VDrop True else VComplete gossip_epoch view))"
| "get_or_load_step now epoch deadline ev cache (VComplete gossip_epoch view) =
     polled ev (map_option (\<lambda>cache'. (cache', VNotify view)) (store_loaded now view gossip_epoch cache))"
| "get_or_load_step now epoch deadline ev cache (VNotify view) =
     polled ev (Some (send_modify cache, VReturned (Some view)))"
| "get_or_load_step now epoch deadline ev cache (VDrop again) =
     polled ev (Some (set_loading False cache, VDropNotify again))"
| "get_or_load_step now epoch deadline ev cache (VDropNotify again) =
     polled ev (Some (send_modify cache, if again then VEnter else VReturned None))"
| "get_or_load_step now epoch deadline ev cache (VWait seen) =
     (case ev of
        Poll \<Rightarrow> if seen \<noteq> vc_sent cache then Some (cache, VEnter) else None
      | Timeout \<Rightarrow> if now \<ge> deadline then Some (cache, VReturned None) else None
      | Cancel \<Rightarrow> Some (cache, VReturned None)
      | Delivers view \<Rightarrow> None)"
| "get_or_load_step now epoch deadline ev cache (VReturned r) = None"

text \<open>
  All calls of a node, the clock and the membership epoch.  \<open>snapshot_at e\<close> says which views are
  decoded from the members of epoch \<open>e\<close>; the bus answers a load with a view of an epoch that was
  current at some moment of the load, and the epoch and the clock never go back.
\<close>

record ViewSystem =
  vy_cache :: ClusterViewCache
  vy_now :: instant
  vy_epoch :: u64
  vy_calls :: "(instant \<times> ViewPoint) list"

fun bus_answers :: "(u64 \<Rightarrow> ClusterView \<Rightarrow> bool) \<Rightarrow> u64 \<Rightarrow> ViewEvent \<Rightarrow> ViewPoint \<Rightarrow> bool" where
  "bus_answers snapshot_at epoch (Delivers view) (VLoad e) =
     (\<exists>e'. e \<le> e' \<and> e' \<le> epoch \<and> snapshot_at e' view)"
| "bus_answers snapshot_at epoch ev p = True"

inductive view_step :: "(u64 \<Rightarrow> ClusterView \<Rightarrow> bool) \<Rightarrow> ViewSystem \<Rightarrow> ViewSystem \<Rightarrow> bool"
  for snapshot_at where
  call: "i < length (vy_calls s) \<Longrightarrow> vy_calls s ! i = (deadline, p) \<Longrightarrow>
    bus_answers snapshot_at (vy_epoch s) ev p \<Longrightarrow>
    get_or_load_step (vy_now s) (vy_epoch s) deadline ev (vy_cache s) p = Some (cache', p') \<Longrightarrow>
    view_step snapshot_at s (s\<lparr>vy_cache := cache', vy_calls := (vy_calls s)[i := (deadline, p')]\<rparr>)"
| enter: "view_step snapshot_at s (s\<lparr>vy_calls := vy_calls s @ [(deadline, VEnter)]\<rparr>)"
| tick: "vy_now s \<le> now \<Longrightarrow> view_step snapshot_at s (s\<lparr>vy_now := now\<rparr>)"
| membership: "vy_epoch s \<le> epoch \<Longrightarrow> view_step snapshot_at s (s\<lparr>vy_epoch := epoch\<rparr>)"

definition view_init :: "ViewSystem \<Rightarrow> bool" where
  "view_init s \<longleftrightarrow> (\<exists>interval. vy_cache s = view_cache_new (cluster_view_cache_ttl interval)) \<and> vy_calls s = []"

section \<open>Invariant\<close>

fun loads_view :: "ViewPoint \<Rightarrow> bool" where
  "loads_view VEpoch = True"
| "loads_view (VLoad e) = True"
| "loads_view (VLoaded e v) = True"
| "loads_view (VComplete e v) = True"
| "loads_view (VDrop again) = True"
| "loads_view p = False"

fun notifies :: "ViewPoint \<Rightarrow> bool" where
  "notifies (VNotify v) = True"
| "notifies (VDropNotify again) = True"
| "notifies p = False"

fun point_inv :: "(u64 \<Rightarrow> ClusterView \<Rightarrow> bool) \<Rightarrow> u64 \<Rightarrow> nat \<Rightarrow> ViewPoint \<Rightarrow> bool" where
  "point_inv snapshot_at epoch sent (VElect seen) = (seen \<le> sent)"
| "point_inv snapshot_at epoch sent (VWait seen) = (seen \<le> sent)"
| "point_inv snapshot_at epoch sent (VLoad e) = (e \<le> epoch)"
| "point_inv snapshot_at epoch sent (VLoaded e v) =
     (e \<le> epoch \<and> (\<exists>e'. e \<le> e' \<and> e' \<le> epoch \<and> snapshot_at e' v))"
| "point_inv snapshot_at epoch sent (VComplete e v) = (e \<le> epoch \<and> snapshot_at e v)"
| "point_inv snapshot_at epoch sent (VNotify v) = (\<exists>e\<le>epoch. snapshot_at e v)"
| "point_inv snapshot_at epoch sent (VReturned (Some v)) = (\<exists>e\<le>epoch. snapshot_at e v)"
| "point_inv snapshot_at epoch sent p = True"

definition cached_inv :: "(u64 \<Rightarrow> ClusterView \<Rightarrow> bool) \<Rightarrow> u64 \<Rightarrow> instant \<Rightarrow> ClusterViewCache \<Rightarrow> bool" where
  "cached_inv snapshot_at epoch now cache \<longleftrightarrow>
     (case cs_cached (vc_state cache) of
        None \<Rightarrow> True
      | Some c \<Rightarrow> snapshot_at (cc_gossip_epoch c) (cc_view c) \<and> cc_gossip_epoch c \<le> epoch
                  \<and> cc_expires_at c \<le> now + vc_ttl cache)"

abbreviation points :: "ViewSystem \<Rightarrow> ViewPoint list" where
  "points s \<equiv> map snd (vy_calls s)"

definition wakeup_inv :: "ViewSystem \<Rightarrow> bool" where
  "wakeup_inv s \<longleftrightarrow> (VWait (vc_sent (vy_cache s)) \<in> set (points s) \<longrightarrow>
     cs_loading (vc_state (vy_cache s)) \<or> (\<exists>p\<in>set (points s). notifies p))"

definition loader_inv :: "ViewSystem \<Rightarrow> bool" where
  "loader_inv s \<longleftrightarrow>
     length (filter loads_view (points s)) = (if cs_loading (vc_state (vy_cache s)) then 1 else 0)"

definition view_inv :: "(u64 \<Rightarrow> ClusterView \<Rightarrow> bool) \<Rightarrow> ViewSystem \<Rightarrow> bool" where
  "view_inv snapshot_at s \<longleftrightarrow>
     loader_inv s \<and> wakeup_inv s
     \<and> cached_inv snapshot_at (vy_epoch s) (vy_now s) (vy_cache s)
     \<and> (\<forall>p\<in>set (points s). point_inv snapshot_at (vy_epoch s) (vc_sent (vy_cache s)) p)
     \<and> vc_ttl (vy_cache s) \<le> MAX_TTL"

lemma look_Some:
  assumes "look cache epoch now = Some v"
  shows "\<exists>c. cs_cached (vc_state cache) = Some c \<and> cc_view c = v \<and> cc_gossip_epoch c = epoch
    \<and> now < cc_expires_at c + vc_ttl cache"
  using assms
  by (auto simp: look_def usable_cached_view_def Let_def instant_checked_add_def
      split: option.splits if_splits)

text \<open>The effect of one step of a call on the shared state and on its own point.\<close>

lemmas view_step_simps = polled_Some set_loading_def send_modify_def store_loaded_def

lemma get_or_load_step_shared:
  assumes "get_or_load_step now epoch deadline ev cache p = Some (cache', p')"
  shows "vc_ttl cache' = vc_ttl cache"
    and "vc_sent cache' = vc_sent cache + (if notifies p then 1 else 0)"
    and "loads_view p \<longrightarrow> cs_loading (vc_state cache) \<Longrightarrow>
      (if cs_loading (vc_state cache') then 1 else 0) + (if loads_view p then 1 else 0)
       = (if cs_loading (vc_state cache) then 1 else 0) + (if loads_view p' then 1 else (0::nat))"
    and "cs_loading (vc_state cache) \<Longrightarrow> cs_loading (vc_state cache') \<or> notifies p'"
    and "p' = VWait seen \<Longrightarrow> cs_loading (vc_state cache') \<and> \<not> notifies p"
  using assms
  by (cases p; auto simp: view_step_simps split: option.splits if_splits ViewEvent.splits)+

lemma get_or_load_step_values:
  assumes st: "get_or_load_step now epoch deadline ev cache p = Some (cache', p')"
    and bus: "bus_answers snapshot_at epoch ev p"
    and pt: "point_inv snapshot_at epoch (vc_sent cache) p" and ca: "cached_inv snapshot_at epoch now cache"
  shows "point_inv snapshot_at epoch (vc_sent cache') p'" and "cached_inv snapshot_at epoch now cache'"
proof -
  have hit: "\<exists>e\<le>epoch. snapshot_at e v" if "look cache epoch now = Some v" for v
    using look_Some [OF that] ca by (auto simp: cached_inv_def)
  show "point_inv snapshot_at epoch (vc_sent cache') p'"
    using st bus pt hit
    by (cases p; auto simp: view_step_simps split: option.splits if_splits ViewEvent.splits)
  show "cached_inv snapshot_at epoch now cache'"
    using st pt ca
    by (cases p; auto simp: view_step_simps cached_inv_def instant_checked_add_def
        split: option.splits if_splits ViewEvent.splits)
qed

lemma point_inv_mono:
  assumes "point_inv snapshot_at epoch sent p" and "epoch \<le> epoch'" and "sent \<le> sent'"
  shows "point_inv snapshot_at epoch' sent' p"
proof (cases p)
  case (VReturned r)
  then show ?thesis using assms by (cases r) (auto intro: order_trans)
qed (use assms in \<open>auto intro: order_trans\<close>)

lemma filter_loads_pos:
  assumes "loader_inv s" and "i < length (vy_calls s)" and "loads_view (points s ! i)"
  shows "cs_loading (vc_state (vy_cache s))"
proof -
  have "points s ! i \<in> set (filter loads_view (points s))" using assms(2,3) by simp
  then have "0 < length (filter loads_view (points s))" by (rule length_pos_if_in_set)
  then show ?thesis using assms(1) by (simp add: loader_inv_def split: if_splits)
qed

lemma wakeup_call:
  assumes st: "get_or_load_step now epoch deadline ev (vy_cache s) p = Some (cache', p')"
    and i: "i < length (points s)" "points s ! i = p" and inv: "wakeup_inv s"
    and seen: "\<And>q. q \<in> set (points s) \<Longrightarrow> \<forall>n. q = VWait n \<longrightarrow> n \<le> vc_sent (vy_cache s)"
    and waits: "VWait (vc_sent cache') \<in> set ((points s)[i := p'])"
  shows "cs_loading (vc_state cache') \<or> (\<exists>q\<in>set ((points s)[i := p']). notifies q)"
proof -
  note sh = get_or_load_step_shared [OF st]
  have p': "p' \<in> set ((points s)[i := p'])" using i(1) by (rule set_update_memI)
  have keep: "q \<in> set ((points s)[i := p'])" if "q \<in> set (points s)" "q \<noteq> p" for q
    using that i by (metis in_set_conv_nth length_list_update nth_list_update_neq)
  show ?thesis
  proof (cases "p' = VWait (vc_sent cache')")
    case True
    then show ?thesis using sh(5) by blast
  next
    case False
    then have old: "VWait (vc_sent cache') \<in> set (points s)"
      using waits set_update_subset_insert [of "points s" i p'] by auto
    then have "\<not> notifies p" using seen [OF old] sh(2) by auto
    then have "VWait (vc_sent (vy_cache s)) \<in> set (points s)" using old sh(2) by simp
    then consider "cs_loading (vc_state (vy_cache s))" | q where "q \<in> set (points s)" "notifies q"
      using inv by (auto simp: wakeup_inv_def)
    then show ?thesis
    proof cases
      case 1
      then show ?thesis using sh(4) p' by blast
    next
      case 2
      then show ?thesis using keep \<open>\<not> notifies p\<close> by blast
    qed
  qed
qed

lemma view_call_inv:
  assumes inv: "view_inv snapshot_at s" and i: "i < length (vy_calls s)" "vy_calls s ! i = (deadline, p)"
    and bus: "bus_answers snapshot_at (vy_epoch s) ev p"
    and st: "get_or_load_step (vy_now s) (vy_epoch s) deadline ev (vy_cache s) p = Some (cache', p')"
  shows "view_inv snapshot_at (s\<lparr>vy_cache := cache', vy_calls := (vy_calls s)[i := (deadline, p')]\<rparr>)"
    (is "view_inv _ ?s'")
proof -
  note sh = get_or_load_step_shared [OF st]
  have pi: "i < length (points s)" "points s ! i = p" using i by simp_all
  have pts: "points ?s' = (points s)[i := p']" by (simp add: map_update)
  have parts: "loader_inv s" "wakeup_inv s" "cached_inv snapshot_at (vy_epoch s) (vy_now s) (vy_cache s)"
    "\<forall>p\<in>set (points s). point_inv snapshot_at (vy_epoch s) (vc_sent (vy_cache s)) p"
    using inv unfolding view_inv_def by blast+
  have p: "point_inv snapshot_at (vy_epoch s) (vc_sent (vy_cache s)) p"
    using parts(4) pi nth_mem by blast
  note val = get_or_load_step_values [OF st bus p parts(3)]
  have "loads_view p \<longrightarrow> cs_loading (vc_state (vy_cache s))"
    using filter_loads_pos [OF parts(1) i(1)] pi(2) by simp
  from sh(3) [OF this] have "loader_inv ?s'"
    using length_filter_update [OF pi(1), of loads_view p'] parts(1) pi(2)
    unfolding loader_inv_def pts by (simp split: if_splits)
  moreover have "wakeup_inv ?s'"
  proof -
    have "\<forall>n. q = VWait n \<longrightarrow> n \<le> vc_sent (vy_cache s)" if "q \<in> set (points s)" for q
      using parts(4) that by auto
    from wakeup_call [OF st pi parts(2) this] show ?thesis unfolding wakeup_inv_def pts by simp
  qed
  moreover have "\<forall>q\<in>set (points ?s'). point_inv snapshot_at (vy_epoch s) (vc_sent cache') q"
  proof
    fix q
    assume "q \<in> set (points ?s')"
    then consider "q = p'" | "q \<in> set (points s)"
      using set_update_subset_insert [of "points s" i p'] unfolding pts by auto
    then show "point_inv snapshot_at (vy_epoch s) (vc_sent cache') q"
    proof cases
      case 2
      with parts(4) have "point_inv snapshot_at (vy_epoch s) (vc_sent (vy_cache s)) q" by (rule bspec)
      from point_inv_mono [OF this order_refl] show ?thesis using sh(2) by simp
    qed (simp add: val(1))
  qed
  ultimately show ?thesis using val(2) sh(1) inv by (simp add: view_inv_def)
qed

lemma view_step_inv:
  assumes "view_step snapshot_at s s'" and inv: "view_inv snapshot_at s"
  shows "view_inv snapshot_at s'"
  using assms(1)
proof (cases rule: view_step.cases)
  case (call i deadline p ev cache' p')
  then show ?thesis using view_call_inv [OF inv] by simp
next
  case (enter deadline)
  then show ?thesis using inv by (auto simp: view_inv_def loader_inv_def wakeup_inv_def)
next
  case (tick now)
  then show ?thesis using inv
    by (auto simp: view_inv_def loader_inv_def wakeup_inv_def cached_inv_def split: option.splits)
next
  case (membership epoch)
  have "point_inv snapshot_at epoch (vc_sent (vy_cache s)) p" if "p \<in> set (points s)" for p
  proof -
    have "point_inv snapshot_at (vy_epoch s) (vc_sent (vy_cache s)) p"
      using inv that unfolding view_inv_def by blast
    then show ?thesis using membership(2) order_refl by (rule point_inv_mono)
  qed
  then show ?thesis using inv membership
    by (auto simp: view_inv_def loader_inv_def wakeup_inv_def cached_inv_def split: option.splits)
qed

interpretation view: inductive_invariant view_init "view_step snapshot_at" "view_inv snapshot_at"
  for snapshot_at
proof
  show "view_inv snapshot_at s" if "view_init s" for s
    using that
    by (auto simp: view_init_def view_inv_def loader_inv_def wakeup_inv_def cached_inv_def view_cache_new_def
        cluster_view_cache_ttl_def MAX_TTL_def MIN_TTL_def from_millis_def)
  show "view_inv snapshot_at s'" if "view_inv snapshot_at s" "view_step snapshot_at s s'" for s s'
    using view_step_inv that by blast
qed

section \<open>Properties\<close>

text \<open>
  C21: at every interleaving of calls, membership changes, timeouts and dropped futures, at most one
  call loads the view; and a call that looks at the cache is served only a view decoded from the
  members of the current epoch (a removed member is never routed to from the cache), no later than
  one time to live, at most 100 ms, after its expiry.
\<close>

theorem view_cache_safe:
  assumes "view_init s0" and "(view_step snapshot_at)\<^sup>*\<^sup>* s0 s"
  shows "length (filter loads_view (points s)) \<le> 1
    \<and> (look (vy_cache s) (vy_epoch s) (vy_now s) = Some v \<longrightarrow>
         snapshot_at (vy_epoch s) v
         \<and> (\<exists>c. cs_cached (vc_state (vy_cache s)) = Some c \<and> cc_view c = v
              \<and> cc_expires_at c \<le> vy_now s + MAX_TTL \<and> vy_now s < cc_expires_at c + MAX_TTL))"
proof -
  have inv: "view_inv snapshot_at s" using assms by (rule view.reachable_inv)
  then have "length (filter loads_view (points s)) \<le> 1" by (simp add: view_inv_def loader_inv_def)
  moreover have "snapshot_at (vy_epoch s) v
      \<and> (\<exists>c. cs_cached (vc_state (vy_cache s)) = Some c \<and> cc_view c = v
           \<and> cc_expires_at c \<le> vy_now s + MAX_TTL \<and> vy_now s < cc_expires_at c + MAX_TTL)"
    if "look (vy_cache s) (vy_epoch s) (vy_now s) = Some v"
    using look_Some [OF that] inv by (auto simp: view_inv_def cached_inv_def)
  ultimately show ?thesis by blast
qed

text \<open>
  C27: no wakeup is lost: whenever a call waits for a change and none has been sent since it
  subscribed, another call holds the load or is about to send the notification.
\<close>

theorem view_cache_no_lost_wakeup:
  assumes "view_init s0" and "(view_step snapshot_at)\<^sup>*\<^sup>* s0 s"
    and "i < length (vy_calls s)" and "points s ! i = VWait (vc_sent (vy_cache s))"
  shows "\<exists>j<length (vy_calls s). j \<noteq> i \<and> (loads_view (points s ! j) \<or> notifies (points s ! j))"
proof -
  have inv: "view_inv snapshot_at s" using assms(1,2) by (rule view.reachable_inv)
  have "VWait (vc_sent (vy_cache s)) \<in> set (points s)"
    using assms(3,4) by (metis length_map nth_mem)
  then consider "cs_loading (vc_state (vy_cache s))" | "\<exists>p\<in>set (points s). notifies p"
    using inv by (auto simp: view_inv_def wakeup_inv_def)
  then have "\<exists>p\<in>set (points s). loads_view p \<or> notifies p"
  proof cases
    case 1
    then have "length (filter loads_view (points s)) = 1"
      using inv by (simp add: view_inv_def loader_inv_def)
    then have "filter loads_view (points s) \<noteq> []" by (metis length_0_conv zero_neq_one)
    then show ?thesis by (auto simp: filter_empty_conv)
  qed blast
  then obtain j where "j < length (points s)" "loads_view (points s ! j) \<or> notifies (points s ! j)"
    by (metis in_set_conv_nth)
  moreover from this assms(4) have "j \<noteq> i" by auto
  ultimately show ?thesis by auto
qed

text \<open>The event that an await of a call sees once its deadline has passed.\<close>

fun deadline_event :: "ViewPoint \<Rightarrow> ViewEvent" where
  "deadline_event (VLoad e) = Timeout"
| "deadline_event (VWait seen) = Timeout"
| "deadline_event p = Poll"

fun steps_left :: "ViewPoint \<Rightarrow> nat" where
  "steps_left (VReturned r) = 0"
| "steps_left VEnter = 1"
| "steps_left (VWait seen) = 1"
| "steps_left (VNotify v) = 1"
| "steps_left (VDropNotify again) = 2"
| "steps_left (VComplete e v) = 2"
| "steps_left (VDrop again) = 3"
| "steps_left (VLoad e) = 4"
| "steps_left (VLoaded e v) = 4"
| "steps_left VEpoch = 5"
| "steps_left (VElect seen) = 6"
| "steps_left VSubscribe = 7"
| "steps_left VCheck = 8"

text \<open>
  A call alone after its deadline, at whatever times, epochs and states of the cache its steps find
  (the environment of each step is an element of the list); the result is its point at the end.
\<close>

fun late_run :: "instant \<Rightarrow> (instant \<times> u64 \<times> ClusterViewCache) list \<Rightarrow> ViewPoint \<Rightarrow> ViewPoint" where
  "late_run deadline [] p = p"
| "late_run deadline ((now, epoch, cache) # envs) p =
     (case get_or_load_step now epoch deadline (deadline_event p) cache p of
        None \<Rightarrow> p
      | Some (_, p') \<Rightarrow> late_run deadline envs p')"

lemma late_step:
  assumes "deadline \<le> now" and "now + vc_ttl cache \<le> instant_max" and "\<not> (\<exists>r. p = VReturned r)"
  shows "\<exists>cache' p'. get_or_load_step now epoch deadline (deadline_event p) cache p = Some (cache', p')
    \<and> steps_left p' < steps_left p"
  using assms
  by (cases p) (simp_all add: polled_def store_loaded_def instant_checked_add_def split: option.splits)


section \<open>Witnesses\<close>

definition example_cluster_view :: ClusterView where
  "example_cluster_view = \<lparr>cv_members = [''n1''], cv_states = [], cv_generated_at = 0\<rparr>"

definition example_view_init :: ViewSystem where
  "example_view_init = \<lparr>vy_cache = view_cache_new MAX_TTL, vy_now = 0, vy_epoch = 3, vy_calls = []\<rparr>"

text \<open>A schedule: which call takes its next step, and what its await sees.\<close>

fun view_run ::
  "(u64 \<Rightarrow> ClusterView \<Rightarrow> bool) \<Rightarrow> (nat \<times> ViewEvent) list \<Rightarrow> ViewSystem \<Rightarrow> ViewSystem option" where
  "view_run snapshot_at [] s = Some s"
| "view_run snapshot_at ((i, ev) # sched) s =
     (if i < length (vy_calls s) \<and> bus_answers snapshot_at (vy_epoch s) ev (snd (vy_calls s ! i)) then
        (case get_or_load_step (vy_now s) (vy_epoch s) (fst (vy_calls s ! i)) ev (vy_cache s)
                (snd (vy_calls s ! i)) of
           None \<Rightarrow> None
         | Some (cache', p') \<Rightarrow>
             view_run snapshot_at sched
               (s\<lparr>vy_cache := cache', vy_calls := (vy_calls s)[i := (fst (vy_calls s ! i), p')]\<rparr>))
      else None)"

lemma view_run_steps: "view_run snapshot_at sched s = Some s' \<Longrightarrow> (view_step snapshot_at)\<^sup>*\<^sup>* s s'"
proof (induction snapshot_at sched s rule: view_run.induct)
  case (2 snapshot_at i ev sched s)
  let ?s1 = "\<lambda>cache' p'. s\<lparr>vy_cache := cache', vy_calls := (vy_calls s)[i := (fst (vy_calls s ! i), p')]\<rparr>"
  from "2.prems" obtain cache' p' where
    g: "i < length (vy_calls s)" "bus_answers snapshot_at (vy_epoch s) ev (snd (vy_calls s ! i))"
      "get_or_load_step (vy_now s) (vy_epoch s) (fst (vy_calls s ! i)) ev (vy_cache s)
         (snd (vy_calls s ! i)) = Some (cache', p')"
    and run: "view_run snapshot_at sched (?s1 cache' p') = Some s'"
    by (auto split: if_splits option.splits)
  have "view_step snapshot_at s (?s1 cache' p')"
    using g(1) prod.collapse [symmetric] g(2,3) by (rule view_step.call)
  moreover have "(view_step snapshot_at)\<^sup>*\<^sup>* (?s1 cache' p') s'"
    using "2.IH" [OF _ g(3) refl run] g(1,2) by simp
  ultimately show ?case by (rule converse_rtranclp_into_rtranclp)
qed simp

definition example_two_calls :: ViewSystem where
  "example_two_calls = example_view_init\<lparr>vy_calls := [(50, VEnter), (60, VEnter)]\<rparr>"

lemma example_two_calls_reached:
  "view_init example_view_init" "(view_step snapshot_at)\<^sup>*\<^sup>* example_view_init example_two_calls"
proof -
  show "view_init example_view_init"
    by (auto simp: view_init_def example_view_init_def cluster_view_cache_ttl_def MAX_TTL_def MIN_TTL_def
        from_millis_def intro!: exI [where x = "from_millis 100"])
  let ?s = "example_view_init\<lparr>vy_calls := [(50, VEnter)]\<rparr>"
  have "view_step snapshot_at example_view_init ?s" "view_step snapshot_at ?s example_two_calls"
    using view_step.enter [of snapshot_at example_view_init 50] view_step.enter [of snapshot_at ?s 60]
    by (simp_all add: example_view_init_def example_two_calls_def)
  then show "(view_step snapshot_at)\<^sup>*\<^sup>* example_view_init example_two_calls"
    by (meson converse_rtranclp_into_rtranclp rtranclp.rtrancl_refl)
qed

definition example_schedule :: "(nat \<times> ViewEvent) list" where
  "example_schedule = replicate 5 (0, Poll) @ replicate 4 (1, Poll)"

definition example_waiting :: ViewSystem where
  "example_waiting = example_two_calls
     \<lparr>vy_cache := set_loading True (view_cache_new MAX_TTL),
      vy_calls := [(50, VLoad 3), (60, VWait 0)]\<rparr>"

lemmas example_view_defs = example_two_calls_def example_view_init_def view_cache_new_def
  look_def usable_cached_view_def set_loading_def store_loaded_def polled_def

lemma example_waiting_run:
  "view_run (\<lambda>e v. e = 3) example_schedule example_two_calls = Some example_waiting"
  by (simp add: example_schedule_def example_waiting_def example_view_defs numeral_eq_Suc)

theorem view_cache_no_lost_wakeup_witness:
  "points example_waiting ! 1 = VWait (vc_sent (vy_cache example_waiting))
   \<and> (\<exists>j<length (vy_calls example_waiting). j \<noteq> 1
        \<and> (loads_view (points example_waiting ! j) \<or> notifies (points example_waiting ! j)))"
proof -
  have "(view_step (\<lambda>e v. e = 3))\<^sup>*\<^sup>* example_view_init example_waiting"
    using example_two_calls_reached(2) view_run_steps [OF example_waiting_run] by (rule rtranclp_trans)
  moreover have "1 < length (vy_calls example_waiting)"
    "points example_waiting ! 1 = VWait (vc_sent (vy_cache example_waiting))"
    by (simp_all add: example_waiting_def example_view_defs)
  ultimately show ?thesis
    using view_cache_no_lost_wakeup [OF example_two_calls_reached(1)] by blast
qed

definition example_loaded :: ViewSystem where
  "example_loaded = example_waiting
     \<lparr>vy_cache := (view_cache_new MAX_TTL)\<lparr>vc_state := \<lparr>cs_cached = Some \<lparr>cc_expires_at = MAX_TTL,
          cc_gossip_epoch = 3, cc_view = example_cluster_view\<rparr>, cs_loading = False\<rparr>\<rparr>,
      vy_calls := [(50, VNotify example_cluster_view), (60, VWait 0)]\<rparr>"

lemma example_loaded_run:
  "view_run (\<lambda>e v. e = 3) [(0, Delivers example_cluster_view), (0, Poll), (0, Poll)] example_waiting
     = Some example_loaded"
  by (simp add: example_loaded_def example_waiting_def example_view_defs MAX_TTL_def from_millis_def
      instant_checked_add_def instant_max_def)

theorem view_cache_safe_witness:
  "look (vy_cache example_loaded) (vy_epoch example_loaded) (vy_now example_loaded) = Some example_cluster_view
   \<and> vy_epoch example_loaded = 3
   \<and> length (filter loads_view (points example_loaded)) \<le> 1"
proof -
  have "(view_step (\<lambda>e v. e = 3))\<^sup>*\<^sup>* example_view_init example_loaded"
    using example_two_calls_reached(2) view_run_steps [OF example_waiting_run]
      view_run_steps [OF example_loaded_run] by (meson rtranclp_trans)
  moreover have "look (vy_cache example_loaded) (vy_epoch example_loaded) (vy_now example_loaded) = Some example_cluster_view"
    by (simp add: example_loaded_def example_waiting_def example_view_defs MAX_TTL_def from_millis_def)
  ultimately show ?thesis
    using view_cache_safe [OF example_two_calls_reached(1), where v = example_cluster_view] by blast
qed


end
