(* ===== verification/Node.thy ===== *)
theory Node
  imports Dispatcher Node_Config Worker_Pool Render_Cache Style_Catalog Wire View_Cache "HOL-Library.State_Monad"
begin

text \<open>
  The request handlers of a node, \<^verbatim>\<open>crates/biei-core/src/node.rs\<close>: cache, view, dispatch, local
  rendering, forwarding with failover.  A handler runs in the state monad of \<^theory_text>\<open>State_Monad\<close>; its
  state is a tick and the effects so far.  Each read of a clock, of shared state or of an awaited
  result is an observation of the environment at the current tick, so a theorem for every
  environment covers every interleaving with other requests, every health change and every answer
  of the pool, the peers and the profile preparer.
\<close>

section \<open>Nodes\<close>

definition MIN_FORWARD_BUDGET_MS :: nat where
  "MIN_FORWARD_BUDGET_MS = 200"

definition MAX_FORWARDING_HOPS :: u8 where
  "MAX_FORWARDING_HOPS = 1"

datatype CacheMissAdmission = MayForward | RequiresLocalRenderer

definition requires_local_renderer :: "CacheMissAdmission \<Rightarrow> bool" where
  "requires_local_renderer a = (a = RequiresLocalRenderer)"

datatype DispatcherEntropy = Production | Deterministic u64

definition entropy_resolve :: "DispatcherEntropy \<Rightarrow> NodeId \<Rightarrow> u64" where
  "entropy_resolve e node_id =
     (let node_hash = foldl (\<lambda>hash byte. (hash XOR ucast byte) * 0x100000001b3)
            (0xcbf29ce484222325 :: u64) (as_bytes node_id);
          policy = (case e of
                      Production \<Rightarrow> 0x53b85adf17b683e9
                    | Deterministic run_seed \<Rightarrow> 0x9a6816cb6fc27d31 XOR splitmix64_finalize run_seed)
      in splitmix64_finalize (node_hash XOR policy))"

text \<open>The parts of \<open>NodeInner\<close> that do not change, with the generator and hasher of its libraries;
  \<open>n_output_cache\<close> says whether the output cache has a capacity.\<close>

record 'r Node =
  n_id :: NodeId
  n_dispatcher :: Dispatcher
  n_hop_latency :: duration
  n_rng :: "'r RngOps"
  n_hasher :: "RenderCacheKey \<Rightarrow> u64"
  n_output_cache :: bool

text \<open>\<open>Node::spawn\<close>: the resolved configuration reaches the dispatcher, the pool and the view cache.\<close>

definition node_spawn ::
  "NodeId \<Rightarrow> ResolvedNodeConfig \<Rightarrow> DispatcherEntropy \<Rightarrow> bool list \<Rightarrow> 'r RngOps \<Rightarrow> (RenderCacheKey \<Rightarrow> u64)
   \<Rightarrow> 'r Node \<times> WorkerPool \<times> ClusterViewCache" where
  "node_spawn i config entropy renderers rng hasher =
     (let queue_limits = rn_queue_limits config
      in (\<lparr>n_id = i,
           n_dispatcher = dispatcher_new
             \<lparr>sp_node_id = i, sp_config = rn_routing config, sp_costs = rn_costs config,
              sp_bl_capacity = ql_soft queue_limits, sp_queue_capacity = ql_hard queue_limits,
              sp_resolved_seed = entropy_resolve entropy i\<rparr>,
           n_hop_latency = hop_latency (rn_costs config), n_rng = rng, n_hasher = hasher,
           n_output_cache = (rn_render_output_cache_capacity_bytes config \<noteq> 0)\<rparr>,
          worker_pool_spawn renderers (ql_soft queue_limits) (ql_hard queue_limits)
            (rn_render_permits config) (rn_native_render_permits config),
          view_cache_new (cluster_view_cache_ttl (gc_publish_interval (rn_gossip config)))))"

section \<open>Outcomes\<close>

record TaskMeta =
  tm_task_id :: TaskId
  tm_request_id :: RequestId
  tm_arrived_at :: instant
  tm_had_source :: bool

definition meta_of :: "InternalTask \<Rightarrow> TaskMeta" where
  "meta_of task = \<lparr>tm_task_id = it_id task, tm_request_id = it_request_id task,
     tm_arrived_at = it_arrived_at task, tm_had_source = has_source task\<rparr>"

definition meta_outcome :: "TaskMeta \<Rightarrow> TaskResult \<Rightarrow> TaskOutcome" where
  "meta_outcome m result = \<lparr>to_task_id = tm_task_id m, to_request_id = tm_request_id m,
     to_arrived_at = tm_arrived_at m, to_had_source = tm_had_source m, to_deadline_stage = None,
     to_result = result\<rparr>"

definition meta_reject :: "TaskMeta \<Rightarrow> RejectionReason \<Rightarrow> TaskOutcome" where
  "meta_reject m reason = meta_outcome m (Rejected reason)"

definition meta_fail :: "TaskMeta \<Rightarrow> string \<Rightarrow> FailureKind \<Rightarrow> TaskOutcome" where
  "meta_fail m error kind = meta_outcome m (Failed error kind)"

definition preparation_error_outcome :: "TaskMeta \<Rightarrow> ProfilePreparationError \<Rightarrow> TaskOutcome" where
  "preparation_error_outcome m err =
     (case failure_kind err of
        Some kind \<Rightarrow> meta_fail m (preparation_error_to_string err) kind
      | None \<Rightarrow> meta_reject m UnknownStyle)"

fun process_error_outcome :: "TaskMeta \<Rightarrow> ProcessError \<Rightarrow> TaskOutcome" where
  "process_error_outcome m (QueueFull _) = meta_reject m QueueFullReason"
| "process_error_outcome m (RenderAdmissionClosed _) = meta_reject m RendererDegraded"
| "process_error_outcome m QueueDisconnected = meta_fail m ''worker queue disconnected'' OtherFailure"

definition forward_budget_too_small :: "instant \<Rightarrow> InternalTask \<Rightarrow> bool" where
  "forward_budget_too_small now task =
     (saturating_duration_since (it_deadline task) now < from_millis MIN_FORWARD_BUDGET_MS)"

section \<open>The environment and the effects\<close>

datatype ForwardError = Retryable string | Fatal string

text \<open>What the send under its timeout gives: the timer, the peer's response, or an error.\<close>

datatype SendResult = SendTimedOut | SendOk ForwardResponse | SendErr ForwardError

text \<open>
  What \<open>WorkerPool::process\<close> gives; the task a full queue returns is the task it was given
  (lemma \<open>pool_process_result\<close> below).
\<close>

datatype PoolResult = PoolOutcome TaskOutcome | PoolQueueFull | PoolDisconnected

text \<open>
  What a read finds at one tick.  \<open>ob_view\<close> is the result of the view cache's \<open>get_or_load\<close>,
  \<open>ob_cache\<close> the content of the output cache.
\<close>

record Observation =
  ob_now :: instant
  ob_draining :: bool
  ob_render_admission :: bool
  ob_pool :: WorkerPool
  ob_catalog :: StyleCatalog
  ob_cache :: RenderOutputCacheInner
  ob_view :: "ClusterView option"
  ob_prepare :: "ProfilePreparationError + PreparedProfile option"
  ob_process :: PoolResult
  ob_send :: SendResult

datatype NodeEffect =
    PreparedCall InternalTask
  | ProfilePrepare duration bool
  | PoolProcess InternalTask "PreparedProfile option" RouteTier "WorkerId option" PoolResult
  | MarkStyleLoadFailed StyleRevision "RenderAuthorization option"
  | SendTo NodeId ForwardRequest SendResult
  | CacheLookup RenderCacheLookup "RenderOutputCacheInner option"
  | CacheStore RenderOutputCacheInner
  | DropLeader RenderFlightLeader
  | CacheHitCount | CacheMissCount | CacheCoalesced | CacheInsertCount | RenderAdmissionShed
  | ForwardRetryable | ForwardFatal | ForwardUnconvergedStyle | ForwardSuccess
  | RecordIngress TaskOutcome | RecordForwarded TaskOutcome

record NodeRun =
  nr_tick :: nat
  nr_effects :: "NodeEffect list"

type_synonym 'a handler = "(NodeRun, 'a) state"
type_synonym environment = "nat \<Rightarrow> Observation"

definition sense :: "environment \<Rightarrow> Observation handler" where
  "sense env = do {
     r \<leftarrow> State_Monad.get;
     State_Monad.set (r\<lparr>nr_tick := nr_tick r + 1\<rparr>);
     State_Monad.return (env (nr_tick r)) }"

definition emit :: "NodeEffect \<Rightarrow> unit handler" where
  "emit e = State_Monad.update (\<lambda>r. r\<lparr>nr_effects := nr_effects r @ [e]\<rparr>)"

definition skip :: "unit handler" where
  "skip = State_Monad.return ()"

section \<open>Admission\<close>

definition can_start_render :: "environment \<Rightarrow> bool handler" where
  "can_start_render env = do {
     ob \<leftarrow> sense env;
     State_Monad.return (\<not> ob_draining ob \<and> ob_render_admission ob \<and> has_available_worker (ob_pool ob)) }"

definition local_dispatch_state :: "'r Node \<Rightarrow> environment \<Rightarrow> NodeStateView handler" where
  "local_dispatch_state n env = do {
     accepts \<leftarrow> can_start_render env;
     ob \<leftarrow> sense env;
     State_Monad.return \<lparr>nsv_id = n_id n, nsv_accepts_new_renders = accepts,
       nsv_workers = snapshot_workers (ob_pool ob)\<rparr> }"

definition renderer_degraded_reason :: "RejectionReason handler" where
  "renderer_degraded_reason = do { emit RenderAdmissionShed; State_Monad.return RendererDegraded }"

definition renderer_degraded_reject :: "InternalTask \<Rightarrow> TaskOutcome handler" where
  "renderer_degraded_reject task = do {
     reason \<leftarrow> renderer_degraded_reason;
     State_Monad.return (meta_reject (meta_of task) reason) }"

text \<open>\<open>shutdown\<close> closes local admission for good, then joins the workers.\<close>

definition node_shutdown :: "bool option list \<Rightarrow> bool \<Rightarrow> bool \<times> WorkerShutdown" where
  "node_shutdown handles draining = (True, pool_shutdown handles)"

definition record_ingress_outcome :: "TaskOutcome \<Rightarrow> TaskOutcome handler" where
  "record_ingress_outcome outcome = do { emit (RecordIngress outcome); State_Monad.return outcome }"

definition record_forwarded_outcome :: "TaskOutcome \<Rightarrow> TaskOutcome handler" where
  "record_forwarded_outcome outcome = do { emit (RecordForwarded outcome); State_Monad.return outcome }"

section \<open>The output cache\<close>

text \<open>The gate of a miss that can only be rendered here.\<close>

definition miss_shed :: "environment \<Rightarrow> CacheMissAdmission \<Rightarrow> bool handler" where
  "miss_shed env admission =
     (if requires_local_renderer admission then do {
        ok \<leftarrow> can_start_render env;
        State_Monad.return (\<not> ok) }
      else State_Monad.return False)"

text \<open>
  The loop over lookups.  A follower sees \<open>wakeups\<close> changes before its deadline fires; after each
  it looks again with the key it kept.
\<close>

fun settle_lookup ::
  "'r Node \<Rightarrow> environment \<Rightarrow> InternalTask \<Rightarrow> CacheMissAdmission \<Rightarrow> nat \<Rightarrow> bool \<Rightarrow> RenderCacheLookup
   \<Rightarrow> (TaskOutcome + RenderFlightLeader option) handler" where
  "settle_lookup n env task admission wakeups joined Disabled = do {
     shed \<leftarrow> miss_shed env admission;
     if shed then do { o1 \<leftarrow> renderer_degraded_reject task; State_Monad.return (Inl o1) }
     else State_Monad.return (Inr None) }"
| "settle_lookup n env task admission wakeups joined (Hit output1) = do {
     emit CacheHitCount;
     ob \<leftarrow> sense env;
     State_Monad.return (Inl (cache_hit_outcome (ob_now ob) (n_id n) task output1)) }"
| "settle_lookup n env task admission wakeups joined (Leader leader) = do {
     shed \<leftarrow> miss_shed env admission;
     if shed then do {
       emit (DropLeader leader);
       o1 \<leftarrow> renderer_degraded_reject task;
       State_Monad.return (Inl o1) }
     else do {
       emit CacheMissCount;
       State_Monad.return (Inr (Some leader)) } }"
| "settle_lookup n env task admission 0 joined (Wait follower) = do {
     (if joined then skip else emit CacheCoalesced);
     State_Monad.return (Inl (meta_reject (meta_of task) DeadlineExceeded)) }"
| "settle_lookup n env task admission (Suc wakeups) joined (Wait follower) = do {
     (if joined then skip else emit CacheCoalesced);
     ob \<leftarrow> sense env;
     case follower_recheck (n_hasher n) follower (ob_cache ob) of
       (lookup, inner') \<Rightarrow> do {
         emit (CacheLookup lookup (Some inner'));
         settle_lookup n env task admission wakeups True lookup } }"

definition acquire_render_output_cache ::
  "'r Node \<Rightarrow> environment \<Rightarrow> nat \<Rightarrow> InternalTask \<Rightarrow> CacheMissAdmission
   \<Rightarrow> (TaskOutcome + RenderFlightLeader option) handler" where
  "acquire_render_output_cache n env wakeups task admission = do {
     ob \<leftarrow> sense env;
     if revalidation_blocks_output_cache (ob_now ob) (ob_catalog ob) (it_style task) then do {
       shed \<leftarrow> miss_shed env admission;
       if shed then do { o1 \<leftarrow> renderer_degraded_reject task; State_Monad.return (Inl o1) }
       else do { emit CacheMissCount; State_Monad.return (Inr None) } }
     else do {
       ob2 \<leftarrow> sense env;
       case lookup_or_join (n_hasher n) task
              (if n_output_cache n then Some (ob_cache ob2) else None) of
         (lookup, cache') \<Rightarrow> do {
           emit (CacheLookup lookup cache');
           settle_lookup n env task admission wakeups False lookup } } }"

definition maybe_insert_render_output_cache ::
  "environment \<Rightarrow> RenderFlightLeader option \<Rightarrow> TaskOutcome \<Rightarrow> unit handler" where
  "maybe_insert_render_output_cache env flight outcome =
     (case flight of
        None \<Rightarrow> skip
      | Some leader \<Rightarrow> do {
          ob \<leftarrow> sense env;
          case insert_from_outcome leader outcome (ob_cache ob) of
            (inserted, inner') \<Rightarrow> do {
              emit (CacheStore inner');
              if inserted then emit CacheInsertCount else skip } })"

text \<open>The flight guard goes out of scope when the handler returns.\<close>

definition drop_flight :: "RenderFlightLeader option \<Rightarrow> unit handler" where
  "drop_flight flight = (case flight of None \<Rightarrow> skip | Some leader \<Rightarrow> emit (DropLeader leader))"

section \<open>Local rendering\<close>

definition prepare_local_profile ::
  "environment \<Rightarrow> InternalTask \<Rightarrow> (ProfilePreparationError + PreparedProfile option) handler" where
  "prepare_local_profile env task = do {
     started \<leftarrow> sense env;
     emit (PreparedCall task);
     ob \<leftarrow> sense env;
     ended \<leftarrow> sense env;
     emit (ProfilePrepare (saturating_duration_since (ob_now ended) (ob_now started))
       (case ob_prepare ob of Inr _ \<Rightarrow> True | Inl _ \<Rightarrow> False));
     State_Monad.return (ob_prepare ob) }"

definition process_local_task ::
  "environment \<Rightarrow> InternalTask \<Rightarrow> PreparedProfile option \<Rightarrow> RouteTier \<Rightarrow> WorkerId option
   \<Rightarrow> (ProcessError + TaskOutcome) handler" where
  "process_local_task env task prepared tier hint = do {
     ok \<leftarrow> can_start_render env;
     if \<not> ok then State_Monad.return (Inl (RenderAdmissionClosed task))
     else do {
       ob \<leftarrow> sense env;
       emit (PoolProcess task prepared tier hint (ob_process ob));
       case ob_process ob of
         PoolQueueFull \<Rightarrow> State_Monad.return (Inl (QueueFull task))
       | PoolDisconnected \<Rightarrow> State_Monad.return (Inl QueueDisconnected)
       | PoolOutcome outcome \<Rightarrow> do {
           (case to_result outcome of
              Failed _ StyleUnavailableKind \<Rightarrow>
                emit (MarkStyleLoadFailed (it_style task) (it_authorization task))
            | _ \<Rightarrow> skip);
           State_Monad.return (Inr outcome) } } }"

section \<open>Forwarding\<close>

text \<open>What the loop over candidates has seen: the last retryable rejection, transport failures, style skew.\<close>

record ForwardSeen =
  seen_rejection :: "RejectionReason option"
  seen_transport_failure :: bool
  seen_unconverged_style :: bool

definition forward_request :: "'r Node \<Rightarrow> InternalTask \<Rightarrow> RouteTier \<Rightarrow> WorkerId option \<Rightarrow> instant \<Rightarrow> ForwardRequest" where
  "forward_request n task tier drain_worker send_started_at =
     \<lparr>fr_task = to_forward_wire task send_started_at (n_hop_latency n),
      fr_route_tier = tier, fr_drain_worker = drain_worker,
      fr_origin_response_budget_ms =
        millis_u32 (saturating_duration_since (it_deadline task) send_started_at)\<rparr>"

text \<open>A candidate ends the loop with an outcome (\<open>Inl\<close>) or leaves it to the next one (\<open>Inr\<close>).\<close>

definition answer_candidate ::
  "environment \<Rightarrow> InternalTask \<Rightarrow> SendResult \<Rightarrow> ForwardSeen \<Rightarrow> (TaskOutcome + ForwardSeen) handler" where
  "answer_candidate env task sent seen =
     (case sent of
        SendTimedOut \<Rightarrow> State_Monad.return (Inl (meta_reject (meta_of task) DeadlineExceeded))
      | SendOk resp \<Rightarrow>
          (case response_rejected_reason resp of
             Some reason \<Rightarrow>
               if is_retryable_at_forward reason then do {
                 emit ForwardRetryable;
                 State_Monad.return (Inr (seen\<lparr>seen_rejection := Some reason\<rparr>)) }
               else do {
                 skewed \<leftarrow> (if reason = UnknownStyle then do {
                              ob \<leftarrow> sense env;
                              State_Monad.return (accepts_revision (ob_catalog ob) (it_style task)) }
                            else State_Monad.return False);
                 if skewed then do {
                   emit ForwardUnconvergedStyle;
                   State_Monad.return (Inr (seen\<lparr>seen_unconverged_style := True\<rparr>)) }
                 else do {
                   emit ForwardSuccess;
                   ob \<leftarrow> sense env;
                   State_Monad.return (Inl (response_into_task_outcome resp (it_arrived_at task) (ob_now ob))) } }
           | None \<Rightarrow> do {
               emit ForwardSuccess;
               ob \<leftarrow> sense env;
               State_Monad.return (Inl (response_into_task_outcome resp (it_arrived_at task) (ob_now ob))) })
      | SendErr (Retryable _) \<Rightarrow> do {
          emit ForwardRetryable;
          State_Monad.return (Inr (seen\<lparr>seen_transport_failure := True\<rparr>)) }
      | SendErr (Fatal _) \<Rightarrow> do {
          emit ForwardFatal;
          State_Monad.return (Inr (seen\<lparr>seen_transport_failure := True\<rparr>)) })"

fun forward_candidates ::
  "'r Node \<Rightarrow> environment \<Rightarrow> InternalTask \<Rightarrow> RouteTier \<Rightarrow> ForwardCandidate list \<Rightarrow> ForwardSeen
   \<Rightarrow> (TaskOutcome + ForwardSeen) handler" where
  "forward_candidates n env task tier [] seen = State_Monad.return (Inr seen)"
| "forward_candidates n env task tier (c # cs) seen = do {
     ob \<leftarrow> sense env;
     if forward_budget_too_small (ob_now ob) task
     then State_Monad.return (Inl (meta_reject (meta_of task) DeadlineTooClose))
     else do {
       started \<leftarrow> sense env;
       sent \<leftarrow> sense env;
       emit (SendTo (fc_node_id c) (forward_request n task tier (fc_drain_worker c) (ob_now started))
         (ob_send sent));
       r \<leftarrow> answer_candidate env task (ob_send sent) seen;
       case r of
         Inl outcome \<Rightarrow> State_Monad.return (Inl outcome)
       | Inr seen' \<Rightarrow> forward_candidates n env task tier cs seen' } }"

definition exhaustion_reason :: "ForwardSeen \<Rightarrow> RejectionReason" where
  "exhaustion_reason seen =
     (case seen_rejection seen of
        Some reason \<Rightarrow> reason
      | None \<Rightarrow> if seen_unconverged_style seen then NoCapacity
                else if seen_transport_failure seen then ForwardFailed else NoCapacity)"

definition overflow_fallback ::
  "environment \<Rightarrow> InternalTask \<Rightarrow> RejectionReason \<Rightarrow> TaskOutcome handler" where
  "overflow_fallback env task reason = do {
     ok \<leftarrow> can_start_render env;
     if \<not> ok then State_Monad.return (meta_reject (meta_of task) reason)
     else do {
       ob \<leftarrow> sense env;
       if ob_now ob \<ge> it_deadline task then State_Monad.return (meta_reject (meta_of task) DeadlineExceeded)
       else do {
         prepared \<leftarrow> prepare_local_profile env task;
         case prepared of
           Inl err \<Rightarrow> State_Monad.return (preparation_error_outcome (meta_of task) err)
         | Inr profile \<Rightarrow> do {
             r \<leftarrow> process_local_task env task profile Tier4Overflow None;
             case r of
               Inr outcome \<Rightarrow> State_Monad.return outcome
             | Inl (RenderAdmissionClosed t) \<Rightarrow> renderer_degraded_reject t
             | Inl QueueDisconnected \<Rightarrow>
                 State_Monad.return (process_error_outcome (meta_of task) QueueDisconnected)
             | Inl (QueueFull _) \<Rightarrow> State_Monad.return (meta_reject (meta_of task) reason) } } } }"

definition forward_with_failover ::
  "'r Node \<Rightarrow> environment \<Rightarrow> InternalTask \<Rightarrow> RouteTier \<Rightarrow> ForwardCandidate list \<Rightarrow> TaskOutcome handler" where
  "forward_with_failover n env task tier candidates =
     (if it_forwarding_hops task \<ge> MAX_FORWARDING_HOPS
      then State_Monad.return (meta_reject (meta_of task) HopLimitExceeded)
      else do {
        ob \<leftarrow> sense env;
        if forward_budget_too_small (ob_now ob) task
        then State_Monad.return (meta_reject (meta_of task) DeadlineTooClose)
        else do {
          r \<leftarrow> forward_candidates n env task tier candidates
                 \<lparr>seen_rejection = None, seen_transport_failure = False, seen_unconverged_style = False\<rparr>;
          case r of
            Inl outcome \<Rightarrow> State_Monad.return outcome
          | Inr seen \<Rightarrow> overflow_fallback env task (exhaustion_reason seen) } })"

section \<open>Handlers\<close>

definition process_local_route ::
  "'r Node \<Rightarrow> environment \<Rightarrow> InternalTask \<Rightarrow> RouteTier \<Rightarrow> WorkerId option \<Rightarrow> ForwardCandidate list
   \<Rightarrow> TaskOutcome handler" where
  "process_local_route n env task tier hint fallback = do {
     ok \<leftarrow> can_start_render env;
     if \<not> ok then
       (if fallback = [] then renderer_degraded_reject task
        else forward_with_failover n env task tier fallback)
     else do {
       prepared \<leftarrow> prepare_local_profile env task;
       case prepared of
         Inl err \<Rightarrow> State_Monad.return (preparation_error_outcome (meta_of task) err)
       | Inr profile \<Rightarrow> do {
           r \<leftarrow> process_local_task env task profile tier hint;
           case r of
             Inr outcome \<Rightarrow> State_Monad.return outcome
           | Inl (RenderAdmissionClosed t) \<Rightarrow>
               if fallback \<noteq> [] then forward_with_failover n env t tier fallback
               else renderer_degraded_reject t
           | Inl (QueueFull t) \<Rightarrow>
               if fallback \<noteq> [] then forward_with_failover n env t tier fallback
               else State_Monad.return (process_error_outcome (meta_of task) (QueueFull t))
           | Inl QueueDisconnected \<Rightarrow>
               State_Monad.return (process_error_outcome (meta_of task) QueueDisconnected) } } }"

text \<open>A handler's result is \<open>None\<close> where the code panics on an unrepresentable time.\<close>

definition run_decision ::
  "'r Node \<Rightarrow> environment \<Rightarrow> InternalTask \<Rightarrow> bool \<Rightarrow> Decision \<Rightarrow> TaskOutcome handler" where
  "run_decision n env task local_renderer_available decision =
     (case decision of
        Local tier hint fallback \<Rightarrow> process_local_route n env task tier hint fallback
      | Forward tier candidates \<Rightarrow> forward_with_failover n env task tier candidates
      | Reject reason \<Rightarrow> do {
          reason' \<leftarrow> (if reason = NoCapacity \<and> \<not> local_renderer_available
                     then renderer_degraded_reason else State_Monad.return reason);
          State_Monad.return (meta_reject (meta_of task) reason') })"

definition route_incoming ::
  "'r Node \<Rightarrow> environment \<Rightarrow> InternalTask \<Rightarrow> RenderFlightLeader option \<Rightarrow> TaskOutcome option handler" where
  "route_incoming n env task flight = do {
     ob \<leftarrow> sense env;
     case ob_view ob of
       None \<Rightarrow> do {
         o1 \<leftarrow> record_ingress_outcome (meta_reject (meta_of task) DeadlineExceeded);
         State_Monad.return (Some o1) }
     | Some view \<Rightarrow> do {
         ob2 \<leftarrow> sense env;
         if ob_now ob2 \<ge> it_deadline task then do {
           o1 \<leftarrow> record_ingress_outcome (meta_reject (meta_of task) DeadlineExceeded);
           State_Monad.return (Some o1) }
         else do {
           local_state \<leftarrow> local_dispatch_state n env;
           ob3 \<leftarrow> sense env;
           case decide_with_local_state (n_rng n) (n_dispatcher n) (ob_now ob3) task view local_state of
             None \<Rightarrow> State_Monad.return None
           | Some decision \<Rightarrow> do {
               outcome \<leftarrow> run_decision n env task (nsv_accepts_new_renders local_state) decision;
               maybe_insert_render_output_cache env flight outcome;
               o1 \<leftarrow> record_ingress_outcome outcome;
               State_Monad.return (Some o1) } } } }"

definition handle_incoming_inner ::
  "'r Node \<Rightarrow> environment \<Rightarrow> nat \<Rightarrow> InternalTask \<Rightarrow> TaskOutcome option handler" where
  "handle_incoming_inner n env wakeups task = do {
     ob \<leftarrow> sense env;
     if ob_now ob \<ge> it_deadline task then do {
       o1 \<leftarrow> record_ingress_outcome (meta_reject (meta_of task) DeadlineExceeded);
       State_Monad.return (Some o1) }
     else do {
       acquired \<leftarrow> acquire_render_output_cache n env wakeups task MayForward;
       case acquired of
         Inl outcome \<Rightarrow> do {
           o1 \<leftarrow> record_ingress_outcome outcome;
           State_Monad.return (Some o1) }
       | Inr flight \<Rightarrow> do {
           r \<leftarrow> route_incoming n env task flight;
           drop_flight flight;
           State_Monad.return r } } }"

definition wire_meta :: "WireTask \<Rightarrow> instant \<Rightarrow> TaskMeta" where
  "wire_meta w now = \<lparr>tm_task_id = wt_id w, tm_request_id = wt_request_id w, tm_arrived_at = now,
     tm_had_source = (wt_source w \<noteq> None \<or> has_addlayer_source (wt_request w))\<rparr>"

definition render_forwarded ::
  "'r Node \<Rightarrow> environment \<Rightarrow> TaskMeta \<Rightarrow> InternalTask \<Rightarrow> RouteTier \<Rightarrow> WorkerId option
   \<Rightarrow> RenderFlightLeader option \<Rightarrow> TaskOutcome handler" where
  "render_forwarded n env m task tier drain_worker flight = do {
     prepared \<leftarrow> prepare_local_profile env task;
     case prepared of
       Inl err \<Rightarrow> record_forwarded_outcome (preparation_error_outcome m err)
     | Inr profile \<Rightarrow> do {
         r \<leftarrow> process_local_task env task profile tier drain_worker;
         outcome \<leftarrow> (case r of
                      Inr o1 \<Rightarrow> State_Monad.return o1
                    | Inl (RenderAdmissionClosed t) \<Rightarrow> renderer_degraded_reject t
                    | Inl err \<Rightarrow> State_Monad.return (process_error_outcome m err));
         maybe_insert_render_output_cache env flight outcome;
         record_forwarded_outcome outcome } }"

definition handle_forwarded_inner ::
  "'r Node \<Rightarrow> environment \<Rightarrow> nat \<Rightarrow> ForwardRequest \<Rightarrow> TaskOutcome option handler" where
  "handle_forwarded_inner n env wakeups fwd = do {
     ob \<leftarrow> sense env;
     let w = fr_task fwd;
     let m = wire_meta w (ob_now ob);
     ob2 \<leftarrow> sense env;
     if \<not> accepts_revision (ob_catalog ob2) (wt_style w) then do {
       o1 \<leftarrow> record_forwarded_outcome (meta_reject m UnknownStyle);
       State_Monad.return (Some o1) }
     else case into_internal w (ob_now ob) of
       None \<Rightarrow> State_Monad.return None
     | Some task \<Rightarrow>
         if ob_now ob \<ge> it_deadline task then do {
           o1 \<leftarrow> record_forwarded_outcome (meta_reject m DeadlineExceeded);
           State_Monad.return (Some o1) }
         else do {
           acquired \<leftarrow> acquire_render_output_cache n env wakeups task RequiresLocalRenderer;
           case acquired of
             Inl outcome \<Rightarrow> do {
               o1 \<leftarrow> record_forwarded_outcome outcome;
               State_Monad.return (Some o1) }
           | Inr flight \<Rightarrow> do {
               o1 \<leftarrow> render_forwarded n env m task (fr_route_tier fwd) (fr_drain_worker fwd) flight;
               drop_flight flight;
               State_Monad.return (Some o1) } } }"

end
