(* ===== verification/Node_Safety.thy ===== *)
theory Node_Safety
  imports Node
begin

text \<open>
  What the request handlers of a node do to the world, for every environment: at most one forwarding
  hop, candidates in order, no work started after a worker or a peer took the task, every outcome
  recorded once, every flight released.  The proofs use a small logic of effect traces.
\<close>

section \<open>Traces\<close>

text \<open>
  \<open>runs m P\<close>: every run of \<open>m\<close> appends some effects \<open>es\<close>, and \<open>P\<close> holds of its result and \<open>es\<close>,
  whatever the environment answers.
\<close>

definition runs :: "'a handler \<Rightarrow> ('a \<Rightarrow> NodeEffect list \<Rightarrow> bool) \<Rightarrow> bool" where
  "runs m P \<longleftrightarrow> (\<forall>r. \<exists>es. nr_effects (snd (run_state m r)) = nr_effects r @ es \<and> P (fst (run_state m r)) es)"

named_theorems runs_rules

lemma runs_return [runs_rules]: "P a [] \<Longrightarrow> runs (State_Monad.return a) P"
  by (simp add: runs_def State_Monad.return_def)

lemma runs_observe [runs_rules]: "(\<And>ob. P ob []) \<Longrightarrow> runs (sense env) P"
  by (simp add: runs_def sense_def State_Monad.return_def State_Monad.bind_def State_Monad.get_def
      State_Monad.set_def)

lemma runs_emit [runs_rules]: "P () [e] \<Longrightarrow> runs (emit e) P"
  by (simp add: runs_def emit_def State_Monad.update_def State_Monad.bind_def State_Monad.get_def
      State_Monad.set_def)

lemma runs_skip [runs_rules]: "P () [] \<Longrightarrow> runs skip P"
  by (simp add: skip_def runs_return)

lemma runs_bind [runs_rules]:
  assumes "runs m (\<lambda>a es. runs (k a) (\<lambda>b es'. Q b (es @ es')))"
  shows "runs (State_Monad.bind m k) Q"
  unfolding runs_def
proof
  fix r
  obtain a r1 where m: "run_state m r = (a, r1)" by (cases "run_state m r")
  obtain b r2 where k: "run_state (k a) r1 = (b, r2)" by (cases "run_state (k a) r1")
  from assms m obtain es where es: "nr_effects r1 = nr_effects r @ es"
    and k': "runs (k a) (\<lambda>b es'. Q b (es @ es'))"
    unfolding runs_def by (metis fst_conv snd_conv)
  from k' k obtain es' where "nr_effects r2 = nr_effects r1 @ es'" "Q b (es @ es')"
    unfolding runs_def by (metis fst_conv snd_conv)
  then show "\<exists>es. nr_effects (snd (run_state (State_Monad.bind m k) r)) = nr_effects r @ es
      \<and> Q (fst (run_state (State_Monad.bind m k) r)) es"
    using es m k by (auto simp: State_Monad.bind_def)
qed

lemma runs_mono: "runs m P \<Longrightarrow> (\<And>a es. P a es \<Longrightarrow> Q a es) \<Longrightarrow> runs m Q"
  unfolding runs_def by blast

lemma runs_conj: "runs m P \<Longrightarrow> runs m Q \<Longrightarrow> runs m (\<lambda>a es. P a es \<and> Q a es)"
  unfolding runs_def by (metis same_append_eq)

lemma runsD: "runs m P \<Longrightarrow> run_state m \<lparr>nr_tick = t, nr_effects = []\<rparr> = (a, r) \<Longrightarrow> P a (nr_effects r)"
  unfolding runs_def by (metis NodeRun.select_convs(2) append_Nil fst_conv snd_conv)

lemma runs_if [runs_rules]:
  "(c \<Longrightarrow> runs a Q) \<Longrightarrow> (\<not> c \<Longrightarrow> runs b Q) \<Longrightarrow> runs (if c then a else b) Q"
  by simp

lemma runs_option [runs_rules]:
  "(x = None \<Longrightarrow> runs a Q) \<Longrightarrow> (\<And>y. x = Some y \<Longrightarrow> runs (f y) Q) \<Longrightarrow>
   runs (case x of None \<Rightarrow> a | Some y \<Rightarrow> f y) Q"
  by (cases x) simp_all

lemma runs_sum [runs_rules]:
  "(\<And>y. x = Inl y \<Longrightarrow> runs (f y) Q) \<Longrightarrow> (\<And>y. x = Inr y \<Longrightarrow> runs (g y) Q) \<Longrightarrow>
   runs (case x of Inl y \<Rightarrow> f y | Inr y \<Rightarrow> g y) Q"
  by (cases x) simp_all

lemma runs_prod [runs_rules]:
  "(\<And>y z. x = (y, z) \<Longrightarrow> runs (f y z) Q) \<Longrightarrow> runs (case x of (y, z) \<Rightarrow> f y z) Q"
  by (cases x) simp

section \<open>Work\<close>

text \<open>The effects that may start a native render: a command to the local pool and a send to a peer.\<close>

fun is_work :: "NodeEffect \<Rightarrow> bool" where
  "is_work (PoolProcess task prepared tier hint r) = True"
| "is_work (SendTo target fwd r) = True"
| "is_work e = False"

definition work :: "NodeEffect list \<Rightarrow> NodeEffect list" where
  "work es = filter is_work es"

text \<open>
  Work that was taken or may have been: a worker accepted the command, a peer answered with
  anything but a rejection that leaves the task to others, or the wait for it timed out.
\<close>

fun taken :: "NodeEffect \<Rightarrow> bool" where
  "taken (PoolProcess task prepared tier hint r) = (r \<noteq> PoolQueueFull)"
| "taken (SendTo target fwd (SendOk resp)) =
     (case response_rejected_reason resp of
        Some reason \<Rightarrow> \<not> is_retryable_at_forward reason \<and> reason \<noteq> UnknownStyle
      | None \<Rightarrow> True)"
| "taken (SendTo target fwd SendTimedOut) = True"
| "taken e = False"

fun send_target :: "NodeEffect \<Rightarrow> NodeId option" where
  "send_target (SendTo target fwd r) = Some target"
| "send_target e = None"

definition targets :: "NodeEffect list \<Rightarrow> NodeId list" where
  "targets es = List.map_filter send_target es"

definition sends_ok :: "(ForwardRequest \<Rightarrow> bool) \<Rightarrow> NodeEffect list \<Rightarrow> bool" where
  "sends_ok ok es = list_all (\<lambda>e. case e of SendTo target fwd r \<Rightarrow> ok fwd | _ \<Rightarrow> True) es"

definition untaken :: "NodeEffect list \<Rightarrow> bool" where
  "untaken es \<longleftrightarrow> (\<forall>e\<in>set es. \<not> taken e)"

definition taken_last :: "NodeEffect list \<Rightarrow> bool" where
  "taken_last es \<longleftrightarrow> (\<forall>e\<in>set (butlast (work es)). \<not> taken e)"

lemma work_simps [simp]:
  "work [] = []" "work (es @ es') = work es @ work es'"
  "work (e # es) = (if is_work e then e # work es else work es)"
  by (simp_all add: work_def)

lemma targets_simps [simp]:
  "targets [] = []" "targets (es @ es') = targets es @ targets es'"
  "targets (e # es) = (case send_target e of None \<Rightarrow> targets es | Some t \<Rightarrow> t # targets es)"
  by (simp_all add: targets_def map_filter_simps List.map_filter_def split: option.splits)

lemma sends_ok_simps [simp]:
  "sends_ok ok []" "sends_ok ok (es @ es') \<longleftrightarrow> sends_ok ok es \<and> sends_ok ok es'"
  "sends_ok ok (e # es) \<longleftrightarrow> (case e of SendTo target fwd r \<Rightarrow> ok fwd | _ \<Rightarrow> True) \<and> sends_ok ok es"
  by (simp_all add: sends_ok_def)

lemma untaken_simps [simp]:
  "untaken []" "untaken (es @ es') \<longleftrightarrow> untaken es \<and> untaken es'"
  "untaken (e # es) \<longleftrightarrow> \<not> taken e \<and> untaken es"
  by (auto simp: untaken_def)

lemma taken_last_append: "untaken es \<Longrightarrow> taken_last es' \<Longrightarrow> taken_last (es @ es')"
  by (auto simp: taken_last_def untaken_def work_def butlast_append dest: in_set_butlastD)

lemma taken_last_quiet: "taken_last es \<Longrightarrow> work es' = [] \<Longrightarrow> taken_last (es @ es')"
  by (simp add: taken_last_def)

lemma taken_last_untaken: "untaken es \<Longrightarrow> taken_last es"
  by (auto simp: taken_last_def untaken_def work_def dest: in_set_butlastD)

lemma taken_last_single: "work es = [e] \<or> work es = [] \<Longrightarrow> taken_last es"
  by (auto simp: taken_last_def)

text \<open>Effects that neither record an outcome nor touch the output cache.\<close>

fun plain :: "NodeEffect \<Rightarrow> bool" where
  "plain (RecordIngress o1) = False"
| "plain (RecordForwarded o1) = False"
| "plain (DropLeader l) = False"
| "plain (CacheLookup l c) = False"
| "plain CacheHitCount = False"
| "plain e = True"

abbreviation plains :: "NodeEffect list \<Rightarrow> bool" where
  "plains es \<equiv> list_all plain es"

section \<open>Local rendering and forwarding\<close>

lemma runs_can_start [runs_rules]: "(\<And>b. P b []) \<Longrightarrow> runs (can_start_render env) P"
  unfolding can_start_render_def by (intro runs_rules) simp

lemma runs_local_state [runs_rules]: "(\<And>st. P st []) \<Longrightarrow> runs (local_dispatch_state n env) P"
  unfolding local_dispatch_state_def by (intro runs_rules) simp

lemma runs_degraded_reason [runs_rules]:
  "P RendererDegraded [RenderAdmissionShed] \<Longrightarrow> runs renderer_degraded_reason P"
  unfolding renderer_degraded_reason_def by (intro runs_rules) simp

lemma runs_degraded_reject [runs_rules]:
  "P (meta_reject (meta_of task) RendererDegraded) [RenderAdmissionShed] \<Longrightarrow>
   runs (renderer_degraded_reject task) P"
  unfolding renderer_degraded_reject_def by (intro runs_rules) simp

lemma runs_prepare [runs_rules]:
  "(\<And>r d ok. P r [PreparedCall task, ProfilePrepare d ok]) \<Longrightarrow> runs (prepare_local_profile env task) P"
  unfolding prepare_local_profile_def by (intro runs_rules) simp

lemma process_local_task_trace:
  "runs (process_local_task env task prepared tier hint) (\<lambda>r es.
     plains es \<and> targets es = [] \<and> taken_last es \<and> sends_ok ok es
     \<and> (\<forall>t. r = Inl (QueueFull t) \<or> r = Inl (RenderAdmissionClosed t) \<longrightarrow> t = task \<and> untaken es))"
  unfolding process_local_task_def
  apply (intro runs_rules)
   apply (simp add: taken_last_def)
  subgoal for _ ob
    by (cases "ob_process ob")
      (auto intro!: runs_rules simp: taken_last_def split: TaskResult.splits FailureKind.splits)
  done

lemma answer_candidate_trace:
  "runs (answer_candidate env task sent seen) (\<lambda>r es.
     plains es \<and> work es = [] \<and> targets es = [] \<and> sends_ok ok es
     \<and> (\<forall>seen'. r = Inr seen' \<longrightarrow> \<not> taken (SendTo target fwd sent)))"
  unfolding answer_candidate_def
  apply (cases sent)
    apply (auto intro!: runs_rules split: option.splits ForwardError.splits)
  done

lemma taken_is_work: "taken e \<Longrightarrow> is_work e"
  by (cases e) simp_all

lemma quiet_untaken: "work es = [] \<Longrightarrow> untaken es"
  using taken_is_work by (auto simp: work_def untaken_def filter_empty_conv)

text \<open>A request built for a candidate: one hop more than the task, its tier and its identity.\<close>

definition built_for :: "'r Node \<Rightarrow> InternalTask \<Rightarrow> RouteTier \<Rightarrow> ForwardRequest \<Rightarrow> bool" where
  "built_for n task tier fwd \<longleftrightarrow> (\<exists>drain_worker now. fwd = forward_request n task tier drain_worker now)"

text \<open>The traces of forwarding \<open>task\<close> along a candidate list.\<close>

definition forwards ::
  "'r Node \<Rightarrow> InternalTask \<Rightarrow> RouteTier \<Rightarrow> ForwardCandidate list \<Rightarrow> NodeEffect list \<Rightarrow> bool" where
  "forwards n task tier cs es \<longleftrightarrow>
     plains es \<and> taken_last es \<and> sends_ok (built_for n task tier) es
     \<and> (\<exists>k\<le>length cs. targets es = map fc_node_id (take k cs))"

lemma forwards_Nil: "forwards n task tier cs []"
  by (auto simp: forwards_def taken_last_def)

lemma forwards_quiet:
  "plains es \<Longrightarrow> targets es = [] \<Longrightarrow> taken_last es \<Longrightarrow> sends_ok (built_for n task tier) es \<Longrightarrow>
   forwards n task tier cs es"
  by (auto simp: forwards_def)

lemma forwards_send:
  assumes "forwards n task tier cs es'" and "plains es" and "work es = []" and "targets es = []"
    and "sends_ok (built_for n task tier) es" and "\<not> taken (SendTo (fc_node_id c) fwd sent)"
    and "built_for n task tier fwd"
  shows "forwards n task tier (c # cs) (SendTo (fc_node_id c) fwd sent # es @ es')"
proof -
  obtain k where "k \<le> length cs" "targets es' = map fc_node_id (take k cs)"
    using assms(1) by (auto simp: forwards_def)
  then have "\<exists>k\<le>length (c # cs). fc_node_id c # targets es' = map fc_node_id (take k (c # cs))"
    by (intro exI [of _ "Suc k"]) simp
  moreover have "taken_last ((SendTo (fc_node_id c) fwd sent # es) @ es')"
    using assms quiet_untaken by (intro taken_last_append) (simp_all add: forwards_def)
  ultimately show ?thesis using assms by (simp add: forwards_def)
qed

lemma forward_candidates_trace:
  "runs (forward_candidates n env task tier cs seen) (\<lambda>r es.
     forwards n task tier cs es \<and> (\<forall>seen'. r = Inr seen' \<longrightarrow> untaken es))"
proof (induction cs arbitrary: seen)
  case Nil
  show ?case by (auto intro!: runs_rules forwards_Nil)
next
  case (Cons c cs)
  have step: "runs (answer_candidate env task sent seen)
      (\<lambda>r es. runs (case r of Inl outcome \<Rightarrow> State_Monad.return (Inl outcome)
                   | Inr seen' \<Rightarrow> forward_candidates n env task tier cs seen')
      (\<lambda>b es'. forwards n task tier (c # cs) (SendTo (fc_node_id c) fwd sent # es @ es')
         \<and> (\<forall>seen'. b = Inr seen' \<longrightarrow> untaken (SendTo (fc_node_id c) fwd sent # es @ es'))))"
    if "built_for n task tier fwd" for sent fwd
  proof (rule runs_mono [OF answer_candidate_trace
        [of _ _ _ _ "built_for n task tier" "fc_node_id c" fwd]])
    fix r :: "TaskOutcome + ForwardSeen" and es
    assume a: "plains es \<and> work es = [] \<and> targets es = [] \<and> sends_ok (built_for n task tier) es
      \<and> (\<forall>seen'. r = Inr seen' \<longrightarrow> \<not> taken (SendTo (fc_node_id c) fwd sent))"
    show "runs (case r of Inl outcome \<Rightarrow> State_Monad.return (Inl outcome)
                   | Inr seen' \<Rightarrow> forward_candidates n env task tier cs seen')
      (\<lambda>b es'. forwards n task tier (c # cs) (SendTo (fc_node_id c) fwd sent # es @ es')
         \<and> (\<forall>seen'. b = Inr seen' \<longrightarrow> untaken (SendTo (fc_node_id c) fwd sent # es @ es')))"
    proof (cases r)
      case (Inl outcome)
      have "\<exists>k\<le>length (c # cs). [fc_node_id c] = map fc_node_id (take k (c # cs))"
        by (intro exI [of _ 1]) simp
      then show ?thesis using Inl a that
        by (auto intro!: runs_rules simp: forwards_def taken_last_def)
    next
      case (Inr seen')
      then show ?thesis using a that quiet_untaken [of es]
        by (auto intro!: runs_mono [OF Cons.IH] forwards_send)
    qed
  qed
  have built: "built_for n task tier (forward_request n task tier w now)" for w now
    unfolding built_for_def by blast
  show ?case unfolding forward_candidates.simps
    apply (intro runs_bind runs_observe runs_if runs_return runs_emit)
     apply (simp add: forwards_Nil)
    apply (simp only: append_Nil append_Cons)
    apply (rule step [OF built])
    done
qed

lemma overflow_fallback_trace:
  "runs (overflow_fallback env task reason) (\<lambda>r es.
     plains es \<and> targets es = [] \<and> taken_last es \<and> sends_ok ok es)"
  unfolding overflow_fallback_def
  apply (intro runs_rules)
      apply (simp_all add: taken_last_def)
  apply (rule runs_mono [OF process_local_task_trace [of _ _ _ _ _ ok]])
  apply (auto intro!: runs_rules simp: taken_last_def split: ProcessError.splits)
  done

lemma forwards_append:
  assumes "forwards n task tier cs es" and "untaken es" and "plains es'" and "targets es' = []"
    and "taken_last es'" and "sends_ok (built_for n task tier) es'"
  shows "forwards n task tier cs (es @ es')"
  using assms taken_last_append [of es es'] by (simp add: forwards_def)

lemma forwards_prepend:
  assumes "forwards n task tier cs es'" and "plains es" and "untaken es" and "targets es = []"
    and "sends_ok (built_for n task tier) es"
  shows "forwards n task tier cs (es @ es')"
  using assms taken_last_append [of es es'] by (simp add: forwards_def)

lemma forward_with_failover_trace:
  "runs (forward_with_failover n env task tier cs) (\<lambda>r es.
     forwards n task tier cs es
     \<and> (MAX_FORWARDING_HOPS \<le> it_forwarding_hops task \<longrightarrow>
          es = [] \<and> r = meta_reject (meta_of task) HopLimitExceeded))"
  unfolding forward_with_failover_def
  apply (intro runs_if runs_bind runs_observe runs_return)
    apply (simp_all add: forwards_Nil)
  apply (rule runs_mono [OF forward_candidates_trace])
  apply (intro runs_sum runs_return)
   apply simp
  apply (rule runs_mono [OF overflow_fallback_trace [of _ _ _ "built_for n task tier"]])
  apply (auto intro: forwards_append)
  done

text \<open>Local work first, then perhaps the fallback candidates.\<close>

lemma process_local_route_trace:
  "runs (process_local_route n env task tier hint fallback) (\<lambda>r es.
     forwards n task tier fallback es
     \<and> (MAX_FORWARDING_HOPS \<le> it_forwarding_hops task \<longrightarrow> targets es = []))"
proof -
  let ?Q = "\<lambda>es. forwards n task tier fallback es
     \<and> (MAX_FORWARDING_HOPS \<le> it_forwarding_hops task \<longrightarrow> targets es = [])"
  have failover: "runs (forward_with_failover n env task tier fallback) (\<lambda>r es'. ?Q (es @ es'))"
    if "plains es" "untaken es" "targets es = []" "sends_ok (built_for n task tier) es" for es
    using that by (intro runs_mono [OF forward_with_failover_trace]) (auto intro: forwards_prepend)
  have degraded: "runs (renderer_degraded_reject task) (\<lambda>r es'. ?Q (es @ es'))"
    if "plains es" "targets es = []" "taken_last es" "sends_ok (built_for n task tier) es" for es
    using that by (intro runs_degraded_reject) (auto intro!: forwards_quiet taken_last_quiet)
  have local: "runs (process_local_task env task profile tier hint)
     (\<lambda>r es. runs (case r of
          Inr outcome \<Rightarrow> State_Monad.return outcome
        | Inl (RenderAdmissionClosed t) \<Rightarrow>
            if fallback \<noteq> [] then forward_with_failover n env t tier fallback
            else renderer_degraded_reject t
        | Inl (QueueFull t) \<Rightarrow>
            if fallback \<noteq> [] then forward_with_failover n env t tier fallback
            else State_Monad.return (process_error_outcome (meta_of task) (QueueFull t))
        | Inl QueueDisconnected \<Rightarrow>
            State_Monad.return (process_error_outcome (meta_of task) QueueDisconnected))
        (\<lambda>r es'. ?Q (PreparedCall task # ProfilePrepare d ok # es @ es')))" for profile d ok
  proof (rule runs_mono [OF process_local_task_trace [of _ _ _ _ _ "built_for n task tier"]], goal_cases)
    case (1 r es)
    let ?es = "PreparedCall task # ProfilePrepare d ok # es"
    have q: "plains ?es" "targets ?es = []" "taken_last ?es" "sends_ok (built_for n task tier) ?es"
      using 1 by (simp_all add: taken_last_def)
    then have ret: "runs (State_Monad.return o1) (\<lambda>r es'. ?Q (?es @ es'))" for o1
      by (auto intro!: runs_return forwards_quiet)
    show ?case
    proof (cases r)
      case (Inl err)
      show ?thesis
      proof (cases err)
        case (QueueFull t)
        then have "t = task" "untaken ?es" using 1 Inl by auto
        then show ?thesis using failover [OF q(1) _ q(2,4)] ret Inl QueueFull
          by (cases "fallback = []") simp_all
      next
        case (RenderAdmissionClosed t)
        then have "t = task" "untaken ?es" using 1 Inl by auto
        then show ?thesis
          using failover [OF q(1) _ q(2,4)] degraded [OF q] Inl RenderAdmissionClosed
          by (cases "fallback = []") simp_all
      next
        case QueueDisconnected
        then show ?thesis using ret Inl by simp
      qed
    next
      case (Inr outcome)
      then show ?thesis using ret by simp
    qed
  qed
  show ?thesis unfolding process_local_route_def
    apply (intro runs_bind runs_can_start runs_if runs_prepare runs_sum runs_return)
       apply (use degraded [of "[]"] in \<open>simp add: taken_last_def\<close>)
      apply (use failover [of "[]"] in simp)
     apply (simp add: forwards_quiet taken_last_def)
    apply (simp only: append_Nil append_Cons)
    apply (rule local)
    done
qed

fun decision_route :: "Decision \<Rightarrow> RouteTier \<times> ForwardCandidate list" where
  "decision_route (Local tier hint fallback) = (tier, fallback)"
| "decision_route (Forward tier candidates) = (tier, candidates)"
| "decision_route (Reject reason) = (Tier4Overflow, [])"

lemma decision_route_bounds:
  assumes "decide_with_local_state rng d now task view st = Some dec"
  shows "length (snd (decision_route dec)) \<le> 2
    \<and> (\<forall>c\<in>set (snd (decision_route dec)). fc_node_id c \<noteq> d_node_id d)"
proof -
  obtain tier cs where dec: "dec = materialize_candidates d task tier cs" and len: "length cs \<le> 2"
    using decide_view_form [OF assms [unfolded decide_with_local_state_def]] by blast
  have short: "length (filter P xs) \<le> 2" if "length xs \<le> 2" for P and xs :: "ForwardCandidate list"
    using that length_filter_le le_trans by blast
  show ?thesis
  proof (cases cs)
    case (Cons c rest)
    then have "length (filter P rest) \<le> 1" for P
      using len le_trans [OF length_filter_le [of P rest]] by simp
    then show ?thesis using short [of rest] len Cons
      by (auto simp: dec materialize_candidates_def le_SucI)
  qed (simp add: dec materialize_candidates_def)
qed

lemma run_decision_trace:
  "runs (run_decision n env task available dec) (\<lambda>r es.
     forwards n task (fst (decision_route dec)) (snd (decision_route dec)) es
     \<and> (MAX_FORWARDING_HOPS \<le> it_forwarding_hops task \<longrightarrow> targets es = []))"
proof (cases dec)
  case (Local tier hint fallback)
  then show ?thesis by (simp add: run_decision_def process_local_route_trace)
next
  case (Forward tier candidates)
  then show ?thesis
    by (auto simp: run_decision_def intro: runs_mono [OF forward_with_failover_trace])
next
  case (Reject reason)
  then show ?thesis
    by (auto simp: run_decision_def intro!: runs_rules forwards_quiet taken_last_quiet
        simp: taken_last_def)
qed

section \<open>Flights and records\<close>

fun elected_of :: "RenderCacheLookup \<Rightarrow> RenderFlightLeader list" where
  "elected_of (Leader l) = [l]"
| "elected_of lookup = []"

definition elected :: "NodeEffect list \<Rightarrow> RenderFlightLeader list" where
  "elected es = concat (map (\<lambda>e. case e of CacheLookup lookup c \<Rightarrow> elected_of lookup | _ \<Rightarrow> []) es)"

definition dropped :: "NodeEffect list \<Rightarrow> RenderFlightLeader list" where
  "dropped es = concat (map (\<lambda>e. case e of DropLeader l \<Rightarrow> [l] | _ \<Rightarrow> []) es)"

definition records :: "NodeEffect list \<Rightarrow> NodeEffect list" where
  "records es = filter (\<lambda>e. case e of RecordIngress o1 \<Rightarrow> True | RecordForwarded o1 \<Rightarrow> True | _ \<Rightarrow> False) es"

lemma flight_simps [simp]:
  "elected [] = []" "elected (es @ es') = elected es @ elected es'"
  "elected (e # es) = (case e of CacheLookup lookup c \<Rightarrow> elected_of lookup | _ \<Rightarrow> []) @ elected es"
  "dropped [] = []" "dropped (es @ es') = dropped es @ dropped es'"
  "dropped (e # es) = (case e of DropLeader l \<Rightarrow> [l] | _ \<Rightarrow> []) @ dropped es"
  "records [] = []" "records (es @ es') = records es @ records es'"
  "records (e # es) = (case e of RecordIngress o1 \<Rightarrow> [e] | RecordForwarded o1 \<Rightarrow> [e] | _ \<Rightarrow> []) @ records es"
  by (simp_all add: elected_def dropped_def records_def split: NodeEffect.splits)

lemma plains_flight: "plains es \<Longrightarrow> elected es = [] \<and> dropped es = [] \<and> records es = [] \<and> CacheHitCount \<notin> set es"
proof (induction es)
  case (Cons e es)
  then show ?case by (cases e) auto
qed simp

fun held :: "TaskOutcome + RenderFlightLeader option \<Rightarrow> RenderFlightLeader list" where
  "held (Inr (Some l)) = [l]"
| "held r = []"

text \<open>
  Looking up the output cache starts no work, records nothing, and accounts for every leadership:
  each one taken is dropped or handed to the caller.  A counted hit is an outcome.
\<close>

definition looked_up :: "TaskOutcome + RenderFlightLeader option \<Rightarrow> NodeEffect list \<Rightarrow> bool" where
  "looked_up r es \<longleftrightarrow> work es = [] \<and> targets es = [] \<and> sends_ok (\<lambda>_. False) es \<and> records es = []
     \<and> elected es = dropped es @ held r \<and> (CacheHitCount \<in> set es \<longrightarrow> (\<exists>o1. r = Inl o1))"

lemma runs_miss_shed [runs_rules]: "(\<And>b. P b []) \<Longrightarrow> runs (miss_shed env admission) P"
  unfolding miss_shed_def by (intro runs_rules) simp_all

lemma settle_lookup_trace:
  "runs (settle_lookup n env task admission wakeups joined lookup)
     (\<lambda>r es. looked_up r (CacheLookup lookup c # es))"
proof (induction wakeups arbitrary: joined lookup c)
  case 0
  show ?case
    by (cases lookup) (auto intro!: runs_rules simp: looked_up_def)
next
  case (Suc wakeups)
  show ?case
  proof (cases lookup)
    case (Wait follower)
    have again: "runs (settle_lookup n env task admission wakeups True lookup')
        (\<lambda>r es. looked_up r (CacheLookup (Wait follower) c # pre @ CacheLookup lookup' c' # es))"
      if "pre = [] \<or> pre = [CacheCoalesced]" for lookup' pre c'
      using that by (intro runs_mono [OF Suc.IH [of True lookup' c']]) (auto simp: looked_up_def)
    show ?thesis unfolding Wait settle_lookup.simps
      apply (intro runs_bind runs_if runs_observe runs_skip runs_emit runs_prod)
      using again [of "[]"] again [of "[CacheCoalesced]"] by simp_all
  qed (auto intro!: runs_rules simp: looked_up_def)
qed

lemma acquire_trace: "runs (acquire_render_output_cache n env wakeups task admission) looked_up"
  unfolding acquire_render_output_cache_def
  apply (intro runs_bind runs_if runs_observe runs_prod runs_emit runs_miss_shed runs_return
      runs_degraded_reject)
    apply (simp_all add: looked_up_def)
  apply (rule runs_mono [OF settle_lookup_trace])
  apply (simp add: looked_up_def)
  done

section \<open>Handlers\<close>

lemma insert_trace:
  "runs (maybe_insert_render_output_cache env flight outcome) (\<lambda>_ es. plains es \<and> work es = []
     \<and> targets es = [] \<and> sends_ok ok es)"
  unfolding maybe_insert_render_output_cache_def by (auto intro!: runs_rules)

lemma runs_record_ingress [runs_rules]: "P o1 [RecordIngress o1] \<Longrightarrow> runs (record_ingress_outcome o1) P"
  unfolding record_ingress_outcome_def by (auto intro!: runs_rules)

lemma runs_record_forwarded [runs_rules]: "P o1 [RecordForwarded o1] \<Longrightarrow> runs (record_forwarded_outcome o1) P"
  unfolding record_forwarded_outcome_def by (auto intro!: runs_rules)

lemma runs_drop_flight [runs_rules]:
  "P () (map DropLeader (held (Inr flight))) \<Longrightarrow> runs (drop_flight flight) P"
  unfolding drop_flight_def by (cases flight) (auto intro!: runs_rules)

text \<open>The part of an ingress trace between the cache and the release of the flight.\<close>

definition routed :: "'r Node \<Rightarrow> InternalTask \<Rightarrow> TaskOutcome option \<Rightarrow> NodeEffect list \<Rightarrow> bool" where
  "routed n task r es \<longleftrightarrow>
     taken_last es \<and> elected es = [] \<and> dropped es = [] \<and> CacheHitCount \<notin> set es
     \<and> records es = (case r of Some o1 \<Rightarrow> [RecordIngress o1] | None \<Rightarrow> [])
     \<and> (\<exists>tier. sends_ok (built_for n task tier) es)
     \<and> length (targets es) \<le> 2 \<and> d_node_id (n_dispatcher n) \<notin> set (targets es)
     \<and> (MAX_FORWARDING_HOPS \<le> it_forwarding_hops task \<longrightarrow> targets es = [])"

lemma routed_quiet:
  "plains es \<Longrightarrow> work es = [] \<Longrightarrow> targets es = [] \<Longrightarrow> sends_ok (\<lambda>_. False) es \<Longrightarrow>
   routed n task (Some o1) (es @ [RecordIngress o1])"
  using plains_flight [of es] by (auto simp: routed_def taken_last_def sends_ok_def list_all_iff split: NodeEffect.splits)

lemma route_incoming_trace: "runs (route_incoming n env task flight) (routed n task)"
proof -
  have stop: "routed n task (Some o1) [RecordIngress o1]" for o1
    using routed_quiet [of "[]"] by simp
  have decided: "runs (run_decision n env task available dec)
      (\<lambda>outcome es. runs (maybe_insert_render_output_cache env flight outcome)
        (\<lambda>_ es'. routed n task (Some outcome) (es @ es' @ [RecordIngress outcome])))"
    if dec: "decide_with_local_state (n_rng n) (n_dispatcher n) now task view st = Some dec" for available dec now view st
  proof (rule runs_mono [OF run_decision_trace])
    fix outcome es
    let ?cs = "snd (decision_route dec)"
    assume a: "forwards n task (fst (decision_route dec)) ?cs es
      \<and> (MAX_FORWARDING_HOPS \<le> it_forwarding_hops task \<longrightarrow> targets es = [])"
    obtain k where k: "targets es = map fc_node_id (take k ?cs)" using a by (auto simp: forwards_def)
    have ts: "length (targets es) \<le> 2" "d_node_id (n_dispatcher n) \<notin> set (targets es)"
      using decision_route_bounds [OF dec] set_take_subset [of k ?cs] unfolding k by auto
    show "runs (maybe_insert_render_output_cache env flight outcome)
        (\<lambda>_ es'. routed n task (Some outcome) (es @ es' @ [RecordIngress outcome]))"
    proof (rule runs_mono [OF insert_trace [of _ _ _ "built_for n task (fst (decision_route dec))"]])
      fix u :: unit and es'
      assume b: "plains es' \<and> work es' = [] \<and> targets es' = []
        \<and> sends_ok (built_for n task (fst (decision_route dec))) es'"
      have "taken_last (es @ es' @ [RecordIngress outcome])"
        using a b taken_last_quiet [of es "es' @ [RecordIngress outcome]"] by (simp add: forwards_def)
      moreover have "\<exists>tier. sends_ok (built_for n task tier) (es @ es' @ [RecordIngress outcome])"
        using a b by (auto simp: forwards_def)
      ultimately show "routed n task (Some outcome) (es @ es' @ [RecordIngress outcome])"
        using a b ts plains_flight [of es] plains_flight [of es']
        unfolding routed_def by (simp add: forwards_def)
    qed
  qed
  show ?thesis unfolding route_incoming_def
    apply (intro runs_bind runs_observe runs_option runs_if runs_local_state runs_return runs_record_ingress)
       apply (simp_all add: stop)
     apply (simp add: routed_def taken_last_def)
    apply (rule runs_mono [OF decided], assumption)
    apply (intro runs_bind)
    apply (erule runs_mono)
    apply (intro runs_bind runs_record_ingress runs_return)
    apply simp
    done
qed

text \<open>What every ingress run does.\<close>

definition ingress_ok :: "'r Node \<Rightarrow> InternalTask \<Rightarrow> TaskOutcome option \<Rightarrow> NodeEffect list \<Rightarrow> bool" where
  "ingress_ok n task r es \<longleftrightarrow>
     taken_last es \<and> (CacheHitCount \<in> set es \<longrightarrow> work es = [])
     \<and> elected es = dropped es
     \<and> records es = (case r of Some o1 \<Rightarrow> [RecordIngress o1] | None \<Rightarrow> [])
     \<and> (\<exists>tier. sends_ok (built_for n task tier) es)
     \<and> length (targets es) \<le> 2 \<and> d_node_id (n_dispatcher n) \<notin> set (targets es)
     \<and> (MAX_FORWARDING_HOPS \<le> it_forwarding_hops task \<longrightarrow> targets es = [])"

lemma ingress_ok_simple: "ingress_ok n task (Some o1) [RecordIngress o1]"
  by (simp add: ingress_ok_def taken_last_def)

lemma sends_ok_False: "sends_ok (\<lambda>_. False) es \<Longrightarrow> sends_ok ok es"
  by (auto simp: sends_ok_def list_all_iff split: NodeEffect.splits)

lemma looked_up_ingress:
  "looked_up (Inl o1) es \<Longrightarrow> ingress_ok n task (Some o1) (es @ [RecordIngress o1])"
  using sends_ok_False [of es] by (auto simp: ingress_ok_def looked_up_def taken_last_def)

lemma held_simps [simp]:
  "work (map DropLeader ls) = []" "targets (map DropLeader ls) = []" "dropped (map DropLeader ls) = ls"
  "elected (map DropLeader ls) = []" "records (map DropLeader ls) = []" "sends_ok ok (map DropLeader ls)"
  by (induction ls) simp_all

lemma routed_ingress:
  assumes "looked_up (Inr flight) es" and "routed n task r es'"
  shows "ingress_ok n task r (es @ es' @ map DropLeader (held (Inr flight)))"
proof -
  let ?rest = "map DropLeader (held (Inr flight))"
  have "taken_last (es @ (es' @ ?rest))"
  proof (rule taken_last_append)
    show "untaken es" using assms(1) by (intro quiet_untaken) (simp add: looked_up_def)
    show "taken_last (es' @ ?rest)" using assms(2) by (intro taken_last_quiet) (simp_all add: routed_def)
  qed
  moreover obtain tier where "sends_ok (built_for n task tier) es'"
    using assms(2) by (auto simp: routed_def)
  then have "sends_ok (built_for n task tier) (es @ es' @ ?rest)"
    using assms(1) sends_ok_False by (auto simp: looked_up_def)
  moreover have "CacheHitCount \<notin> set (es @ es' @ ?rest)" using assms by (auto simp: looked_up_def routed_def)
  ultimately show ?thesis using assms by (auto simp: ingress_ok_def looked_up_def routed_def)
qed

lemma handle_incoming_trace: "runs (handle_incoming_inner n env wakeups task) (ingress_ok n task)"
proof -
  have flight: "runs (route_incoming n env task flight)
      (\<lambda>r es'. ingress_ok n task r (es @ es' @ map DropLeader (held (Inr flight))))"
    if "looked_up (Inr flight) es" for es flight
    using that by (intro runs_mono [OF route_incoming_trace] routed_ingress)
  have looked: "runs (acquire_render_output_cache n env wakeups task MayForward)
      (\<lambda>acquired es. runs (case acquired of
         Inl outcome \<Rightarrow> State_Monad.bind (record_ingress_outcome outcome) (\<lambda>o1. State_Monad.return (Some o1))
       | Inr flight \<Rightarrow> State_Monad.bind (route_incoming n env task flight)
           (\<lambda>r. State_Monad.bind (drop_flight flight) (\<lambda>_. State_Monad.return r)))
       (\<lambda>r es'. ingress_ok n task r (es @ es')))"
    apply (rule runs_mono [OF acquire_trace])
    apply (intro runs_sum runs_bind runs_record_ingress runs_return)
     apply (simp add: looked_up_ingress)
    apply (rule runs_mono [OF flight])
     apply simp
    apply (intro runs_bind runs_drop_flight runs_return)
    apply simp
    done
  show ?thesis unfolding handle_incoming_inner_def
    apply (intro runs_bind runs_observe runs_if runs_record_ingress runs_return)
     apply (simp add: ingress_ok_simple)
    apply (simp only: append_Nil)
    apply (rule looked)
    done
qed

text \<open>What every run of a forwarded request does: it never sends, and commands the pool at most once.\<close>

definition forwarded_ok :: "TaskOutcome option \<Rightarrow> NodeEffect list \<Rightarrow> bool" where
  "forwarded_ok r es \<longleftrightarrow>
     length (work es) \<le> 1 \<and> targets es = [] \<and> sends_ok (\<lambda>_. False) es
     \<and> (CacheHitCount \<in> set es \<longrightarrow> work es = [])
     \<and> elected es = dropped es
     \<and> records es = (case r of Some o1 \<Rightarrow> [RecordForwarded o1] | None \<Rightarrow> [])"

lemma process_local_task_once:
  "runs (process_local_task env task prepared tier hint) (\<lambda>r es.
     plains es \<and> targets es = [] \<and> sends_ok ok es \<and> length (work es) \<le> 1)"
  unfolding process_local_task_def
  apply (intro runs_rules)
   apply simp
  subgoal for _ ob
    by (cases "ob_process ob")
      (auto intro!: runs_rules split: TaskResult.splits FailureKind.splits)
  done

definition rendered :: "TaskOutcome \<Rightarrow> NodeEffect list \<Rightarrow> bool" where
  "rendered r es \<longleftrightarrow> length (work es) \<le> 1 \<and> targets es = [] \<and> sends_ok (\<lambda>_. False) es
     \<and> CacheHitCount \<notin> set es \<and> elected es = [] \<and> dropped es = [] \<and> records es = [RecordForwarded r]"

lemma plains_rendered:
  assumes "plains es" "targets es = []" "sends_ok (\<lambda>_. False) es" "length (work es) \<le> 1"
  shows "rendered r (es @ [RecordForwarded r])"
  using assms plains_flight [OF assms(1)] by (simp add: rendered_def)

lemma render_forwarded_trace: "runs (render_forwarded n env m task tier drain_worker flight) rendered"
proof -
  have "runs (process_local_task env task profile tier drain_worker)
     (\<lambda>r es. runs (case r of
                    Inr o1 \<Rightarrow> State_Monad.return o1
                  | Inl (RenderAdmissionClosed t) \<Rightarrow> renderer_degraded_reject t
                  | Inl err \<Rightarrow> State_Monad.return (process_error_outcome m err))
       (\<lambda>o1 es'. plains (es @ es') \<and> targets (es @ es') = [] \<and> sends_ok (\<lambda>_. False) (es @ es')
          \<and> length (work (es @ es')) \<le> 1))" for profile
    by (rule runs_mono [OF process_local_task_once [of _ _ _ _ _ "\<lambda>_. False"]])
      (auto intro!: runs_rules split: ProcessError.splits)
  then have tail: "runs (process_local_task env task profile tier drain_worker)
     (\<lambda>r es. runs (State_Monad.bind (case r of
                    Inr o1 \<Rightarrow> State_Monad.return o1
                  | Inl (RenderAdmissionClosed t) \<Rightarrow> renderer_degraded_reject t
                  | Inl err \<Rightarrow> State_Monad.return (process_error_outcome m err))
         (\<lambda>outcome. State_Monad.bind (maybe_insert_render_output_cache env flight outcome)
            (\<lambda>_. record_forwarded_outcome outcome)))
       (\<lambda>r es'. rendered r (PreparedCall task # ProfilePrepare d ok # es @ es')))" for profile d ok
    apply (rule runs_mono)
    apply (intro runs_bind)
    apply (erule runs_mono)
    apply (intro runs_bind)
    apply (rule runs_mono [OF insert_trace [of _ _ _ "\<lambda>_. False"]])
    apply (intro runs_record_forwarded)
    subgoal for r es o1 es' _ es''
      using plains_rendered [of "PreparedCall task # ProfilePrepare d ok # es @ es' @ es''" o1] by simp
    done
  show ?thesis unfolding render_forwarded_def
    apply (intro runs_bind runs_prepare runs_sum runs_record_forwarded)
     apply (use plains_rendered [of "[PreparedCall task, ProfilePrepare d ok]" for d ok] in simp)
    apply (simp only: append_Nil append_Cons)
    apply (rule tail)
    done
qed

lemma looked_up_forwarded:
  "looked_up (Inl o1) es \<Longrightarrow> forwarded_ok (Some o1) (es @ [RecordForwarded o1])"
  by (auto simp: forwarded_ok_def looked_up_def)

lemma rendered_forwarded:
  assumes "looked_up (Inr flight) es" and "rendered r es'"
  shows "forwarded_ok (Some r) (es @ es' @ map DropLeader (held (Inr flight)))"
  using assms by (auto simp: forwarded_ok_def looked_up_def rendered_def)

lemma handle_forwarded_trace: "runs (handle_forwarded_inner n env wakeups fwd) forwarded_ok"
proof -
  have stop: "forwarded_ok (Some o1) [RecordForwarded o1]" for o1 by (simp add: forwarded_ok_def)
  have looked: "runs (acquire_render_output_cache n env wakeups task RequiresLocalRenderer)
      (\<lambda>acquired es. runs (case acquired of
         Inl outcome \<Rightarrow> State_Monad.bind (record_forwarded_outcome outcome) (\<lambda>o1. State_Monad.return (Some o1))
       | Inr flight \<Rightarrow> State_Monad.bind
           (render_forwarded n env m task (fr_route_tier fwd) (fr_drain_worker fwd) flight)
           (\<lambda>o1. State_Monad.bind (drop_flight flight) (\<lambda>_. State_Monad.return (Some o1))))
       (\<lambda>r es'. forwarded_ok r (es @ es')))" for task m
    apply (rule runs_mono [OF acquire_trace])
    apply (intro runs_sum runs_bind runs_record_forwarded runs_return)
     apply (simp add: looked_up_forwarded)
    apply (rule runs_mono [OF render_forwarded_trace])
    apply (intro runs_bind runs_drop_flight runs_return)
    apply (simp add: rendered_forwarded)
    done
  show ?thesis unfolding handle_forwarded_inner_def Let_def
    apply (intro runs_bind runs_observe runs_if runs_option runs_record_forwarded runs_return)
       apply (simp_all only: append_Nil append_Cons append_Nil2 stop looked)
    apply (simp add: forwarded_ok_def)
    done
qed

section \<open>Closed admission\<close>

text \<open>An environment in which this node never admits a render: draining, degraded or without workers.\<close>

definition admission_closed :: "environment \<Rightarrow> bool" where
  "admission_closed env \<longleftrightarrow> (\<forall>t. ob_draining (env t) \<or> \<not> ob_render_admission (env t)
     \<or> \<not> has_available_worker (ob_pool (env t)))"

fun renders :: "NodeEffect \<Rightarrow> bool" where
  "renders (PreparedCall task) = True"
| "renders (PoolProcess task prepared tier hint r) = True"
| "renders e = False"

abbreviation idle :: "NodeEffect list \<Rightarrow> bool" where
  "idle es \<equiv> list_all (\<lambda>e. \<not> renders e) es"

lemma runs_observe_env: "(\<And>t. P (env t) []) \<Longrightarrow> runs (sense env) P"
  by (simp add: runs_def sense_def State_Monad.return_def State_Monad.bind_def State_Monad.get_def
      State_Monad.set_def)

lemma runs_can_start_closed:
  assumes "admission_closed env" and "P False []"
  shows "runs (can_start_render env) P"
proof -
  have "(\<not> ob_draining (env t) \<and> ob_render_admission (env t) \<and> has_available_worker (ob_pool (env t))) = False" for t
    using assms(1) by (auto simp: admission_closed_def)
  then show ?thesis unfolding can_start_render_def
    using assms(2) by (intro runs_bind runs_observe_env runs_return) (simp only: append_Nil)
qed

lemma process_local_task_closed:
  "admission_closed env \<Longrightarrow> P (Inl (RenderAdmissionClosed task)) [] \<Longrightarrow>
   runs (process_local_task env task prepared tier hint) P"
  unfolding process_local_task_def
  by (intro runs_bind runs_can_start_closed) (auto intro!: runs_return)

lemma answer_candidate_idle: "runs (answer_candidate env task sent seen) (\<lambda>r es. idle es)"
  unfolding answer_candidate_def
  by (cases sent) (auto intro!: runs_rules split: option.splits ForwardError.splits)

lemma forward_candidates_idle: "runs (forward_candidates n env task tier cs seen) (\<lambda>r es. idle es)"
proof (induction cs arbitrary: seen)
  case (Cons c cs)
  show ?case unfolding forward_candidates.simps
    apply (intro runs_bind runs_observe runs_if runs_return runs_emit)
     apply simp
    apply (rule runs_mono [OF answer_candidate_idle])
    apply (intro runs_sum runs_return)
     apply simp
    apply (rule runs_mono [OF Cons.IH])
    apply simp
    done
qed (auto intro!: runs_rules)

lemma overflow_fallback_closed: "admission_closed env \<Longrightarrow> runs (overflow_fallback env task reason) (\<lambda>r es. idle es)"
  unfolding overflow_fallback_def
  by (intro runs_bind runs_can_start_closed) (auto intro!: runs_return)

lemma forward_with_failover_closed:
  "admission_closed env \<Longrightarrow> runs (forward_with_failover n env task tier cs) (\<lambda>r es. idle es)"
  unfolding forward_with_failover_def
  apply (intro runs_if runs_bind runs_observe runs_return)
    apply simp_all
  apply (rule runs_mono [OF forward_candidates_idle])
  apply (intro runs_sum runs_return)
   apply simp
  apply (rule runs_mono [OF overflow_fallback_closed])
   apply simp_all
  done

lemma run_decision_closed:
  assumes "admission_closed env"
  shows "runs (run_decision n env task available dec) (\<lambda>r es. idle es)"
proof -
  have "runs (process_local_route n env task tier hint fallback) (\<lambda>r es. idle es)" for tier hint fallback
    unfolding process_local_route_def
    using assms forward_with_failover_closed [OF assms]
    by (intro runs_bind runs_can_start_closed) (auto intro!: runs_rules)
  then show ?thesis
    using forward_with_failover_closed [OF assms]
    by (cases dec) (auto simp: run_decision_def intro!: runs_rules)
qed

lemma runs_miss_shed_closed:
  "admission_closed env \<Longrightarrow> P (requires_local_renderer admission) [] \<Longrightarrow> runs (miss_shed env admission) P"
  unfolding miss_shed_def by (auto intro!: runs_bind runs_can_start_closed runs_return)

definition looked_idle :: "CacheMissAdmission \<Rightarrow> TaskOutcome + RenderFlightLeader option \<Rightarrow> NodeEffect list \<Rightarrow> bool" where
  "looked_idle admission r es \<longleftrightarrow> idle es \<and> (requires_local_renderer admission \<longrightarrow> (\<exists>o1. r = Inl o1))"

lemmas closed_rules = runs_miss_shed_closed runs_bind runs_if runs_return runs_emit runs_skip
  runs_observe runs_degraded_reject

lemma settle_lookup_closed:
  assumes "admission_closed env"
  shows "runs (settle_lookup n env task admission wakeups joined lookup) (looked_idle admission)"
proof (induction wakeups arbitrary: joined lookup)
  case 0
  show ?case
    by (cases lookup) (auto intro!: closed_rules assms simp: looked_idle_def)
next
  case (Suc wakeups)
  show ?case
  proof (cases lookup)
    case (Wait follower)
    show ?thesis unfolding Wait settle_lookup.simps
      apply (intro runs_bind runs_if runs_observe runs_skip runs_emit runs_prod)
       apply (rule runs_mono [OF Suc.IH], simp add: looked_idle_def)
      apply (rule runs_mono [OF Suc.IH], simp add: looked_idle_def)
      done
  qed (auto intro!: closed_rules assms simp: looked_idle_def)
qed

lemma acquire_closed:
  "admission_closed env \<Longrightarrow> runs (acquire_render_output_cache n env wakeups task admission) (looked_idle admission)"
  unfolding acquire_render_output_cache_def
  apply (intro runs_bind runs_if runs_observe runs_prod runs_emit runs_miss_shed_closed runs_return
      runs_degraded_reject)
     apply (simp_all add: looked_idle_def)
  apply (rule runs_mono [OF settle_lookup_closed])
   apply (simp_all add: looked_idle_def)
  done

lemma handle_incoming_closed:
  assumes "admission_closed env"
  shows "runs (handle_incoming_inner n env wakeups task) (\<lambda>r es. idle es)"
proof -
  have insert_idle: "runs (maybe_insert_render_output_cache env flight outcome) (\<lambda>_ es. idle es)" for flight outcome
    unfolding maybe_insert_render_output_cache_def by (auto intro!: runs_rules)
  have route: "runs (route_incoming n env task flight) (\<lambda>r es. idle es)" for flight
    unfolding route_incoming_def
    apply (intro runs_bind runs_observe runs_option runs_if runs_local_state runs_return runs_record_ingress)
       apply simp_all
    apply (rule runs_mono [OF run_decision_closed [OF assms]])
    apply (intro runs_bind)
    apply (rule runs_mono [OF insert_idle])
    apply (intro runs_bind runs_record_ingress runs_return)
    apply simp
    done
  have drop: "idle (map DropLeader ls)" for ls by (induction ls) simp_all
  show ?thesis unfolding handle_incoming_inner_def
    apply (intro runs_bind runs_observe runs_if runs_record_ingress runs_return)
     apply simp
    apply (rule runs_mono [OF acquire_closed [OF assms]])
    apply (intro runs_sum runs_bind runs_record_ingress runs_return)
     apply (simp add: looked_idle_def)
    apply (rule runs_mono [OF route])
    apply (intro runs_bind runs_drop_flight runs_return)
    apply (simp add: looked_idle_def drop)
    done
qed

lemma handle_forwarded_closed:
  assumes "admission_closed env"
  shows "runs (handle_forwarded_inner n env wakeups fwd) (\<lambda>r es. idle es)"
  unfolding handle_forwarded_inner_def Let_def
  apply (intro runs_bind runs_observe runs_if runs_option runs_record_forwarded runs_return)
     apply simp_all
  apply (rule runs_mono [OF acquire_closed [OF assms]])
  apply (auto simp: looked_idle_def requires_local_renderer_def intro!: runs_bind runs_record_forwarded runs_return)
  done

section \<open>The pool's answers\<close>

text \<open>
  The pool model gives exactly the answers of \<^typ>\<open>PoolResult\<close>: when the workers hand back the task they
  were given, a full queue returns that task and admission is never closed by the pool.
\<close>

fun pool_answer :: "InternalTask \<Rightarrow> PoolResult \<Rightarrow> ProcessError + TaskOutcome" where
  "pool_answer task (PoolOutcome outcome) = Inr outcome"
| "pool_answer task PoolQueueFull = Inl (QueueFull task)"
| "pool_answer task PoolDisconnected = Inl QueueDisconnected"

lemma pool_process_result:
  assumes "pool_process hasher steps task prepared hint pool = Some (r, pool')"
    and "\<forall>(now, env)\<in>set steps. \<forall>over c p returned profile p'.
           env over c p = (Replied (Redispatch returned profile), p') \<longrightarrow> returned = task"
  shows "\<exists>res. r = pool_answer task res"
  using assms
proof (induction steps arbitrary: prepared hint pool)
  case (Cons step steps)
  obtain now env where step: "step = (now, env)" by (cases step)
  have full: "\<exists>res. Inl (QueueFull task) = pool_answer task res" by (metis pool_answer.simps(2))
  have gone: "\<exists>res. Inl QueueDisconnected = pool_answer task res" by (metis pool_answer.simps(3))
  have outcome: "\<exists>res. Inr o1 = pool_answer task res" for o1 by (metis pool_answer.simps(1))
  obtain reserved pool1 where res: "reserve_worker hint task (prepared_source_id hasher prepared) pool = Some (reserved, pool1)"
    using Cons.prems(1) by (auto simp: step Let_def bind_eq_Some_conv)
  show ?case
  proof (cases reserved)
    case None
    then show ?thesis using Cons.prems(1) res full by (auto simp: step Let_def)
  next
    case (Some slot)
    obtain idx depth where slot: "slot = (idx, depth)" by (cases slot)
    obtain completion pool2 where com:
      "commit_reservation now task (prepared_source_id hasher prepared) idx pool1 = (completion, pool2)"
      by (cases "commit_reservation now task (prepared_source_id hasher prepared) idx pool1")
    let ?over = "pool_bl_capacity pool1 \<le> depth"
    obtain ev pool3 where ev: "env ?over completion pool2 = (ev, pool3)" by (cases "env ?over completion pool2")
    note eq = Cons.prems(1) [unfolded step pool_process.simps Let_def res]
    show ?thesis
    proof (cases ev)
      case (Replied reply)
      show ?thesis
      proof (cases reply)
        case (Outcome o1)
        then show ?thesis using eq Some slot com ev Replied outcome by auto
      next
        case (Redispatch returned profile)
        have "\<forall>over c p returned profile p'.
           env over c p = (Replied (Redispatch returned profile), p') \<longrightarrow> returned = task"
          using Cons.prems(2) by (simp add: step)
        then have "returned = task" using ev Replied Redispatch by blast
        then have "pool_process hasher steps task profile None pool3 = Some (r, pool')"
          using eq Some slot com ev Replied Redispatch by simp
        then show ?thesis using Cons.IH Cons.prems(2) by auto
      qed
    next
      case SendFailed
      then show ?thesis using eq Some slot com ev full by auto
    next
      case Disconnected
      then show ?thesis using eq Some slot com ev gone by auto
    next
      case DeadlinePassed
      then show ?thesis using eq Some slot com ev outcome by auto
    qed
  qed
qed simp

section \<open>Properties\<close>

definition effects_of :: "'a handler \<Rightarrow> nat \<Rightarrow> NodeEffect list" where
  "effects_of m t = nr_effects (snd (run_state m \<lparr>nr_tick = t, nr_effects = []\<rparr>))"

definition result_of :: "'a handler \<Rightarrow> nat \<Rightarrow> 'a" where
  "result_of m t = fst (run_state m \<lparr>nr_tick = t, nr_effects = []\<rparr>)"

lemma runs_effects: "runs m P \<Longrightarrow> P (result_of m t) (effects_of m t)"
  unfolding effects_of_def result_of_def by (rule runsD) simp_all

lemma ingress_effects:
  "ingress_ok n task (result_of (handle_incoming_inner n env w task) t)
     (effects_of (handle_incoming_inner n env w task) t)"
  using handle_incoming_trace by (rule runs_effects)

lemma forwarded_effects:
  "forwarded_ok (result_of (handle_forwarded_inner n env w fwd) t)
     (effects_of (handle_forwarded_inner n env w fwd) t)"
  using handle_forwarded_trace by (rule runs_effects)

lemma sends_okD: "sends_ok ok es \<Longrightarrow> SendTo target fwd sent \<in> set es \<Longrightarrow> ok fwd"
  by (auto simp: sends_ok_def list_all_iff)

lemma targetsI: "SendTo target fwd sent \<in> set es \<Longrightarrow> target \<in> set (targets es)"
  by (force simp: targets_def List.map_filter_def)

text \<open>
  C3: a request crosses at most one node boundary.  Whatever the environment answers, an ingress
  handler sends only tasks that were never forwarded, marked with one hop and otherwise the same
  task, to at most two peers and never to itself; a handler of a forwarded request never sends.
\<close>

theorem single_hop_forwarding:
  "(\<forall>target fwd sent. SendTo target fwd sent \<in> set (effects_of (handle_incoming_inner n env w task) t) \<longrightarrow>
      it_forwarding_hops task = 0 \<and> wt_forwarding_hops (fr_task fwd) = 1
      \<and> wt_id (fr_task fwd) = it_id task \<and> wt_style (fr_task fwd) = it_style task
      \<and> target \<noteq> d_node_id (n_dispatcher n))
   \<and> length (targets (effects_of (handle_incoming_inner n env w task) t)) \<le> 2
   \<and> (\<forall>target fwd sent. SendTo target fwd sent \<notin> set (effects_of (handle_forwarded_inner n env w fwd0) t))"
proof (intro conjI allI impI)
  let ?es = "effects_of (handle_incoming_inner n env w task) t"
  have ok: "ingress_ok n task (result_of (handle_incoming_inner n env w task) t) ?es" by (rule ingress_effects)
  show "length (targets ?es) \<le> 2" using ok by (simp add: ingress_ok_def)
  fix target fwd sent
  assume sent: "SendTo target fwd sent \<in> set ?es"
  then have t: "target \<in> set (targets ?es)" by (rule targetsI)
  then show "target \<noteq> d_node_id (n_dispatcher n)" using ok by (auto simp: ingress_ok_def)
  have "\<not> MAX_FORWARDING_HOPS \<le> it_forwarding_hops task" using ok t by (auto simp: ingress_ok_def)
  then have hops: "it_forwarding_hops task = 0"
    by (simp add: MAX_FORWARDING_HOPS_def not_le word_less_1)
  then show "it_forwarding_hops task = 0" .
  obtain tier where "sends_ok (built_for n task tier) ?es" using ok by (auto simp: ingress_ok_def)
  from sends_okD [OF this sent] obtain drain_worker now
    where fwd: "fwd = forward_request n task tier drain_worker now"
    by (auto simp: built_for_def)
  show "wt_forwarding_hops (fr_task fwd) = 1" "wt_id (fr_task fwd) = it_id task"
    "wt_style (fr_task fwd) = it_style task"
    by (simp_all add: fwd forward_request_def to_forward_wire_def Let_def to_wire_with_hop_latency_def
        hops u8_saturating_add_def)
next
  have ok: "forwarded_ok (result_of (handle_forwarded_inner n env w fwd0) t)
      (effects_of (handle_forwarded_inner n env w fwd0) t)" by (rule forwarded_effects)
  fix target fwd sent
  show "SendTo target fwd sent \<notin> set (effects_of (handle_forwarded_inner n env w fwd0) t)"
    using ok sends_okD [of "\<lambda>_. False"] by (auto simp: forwarded_ok_def)
qed


text \<open>
  C15: every handled request is recorded exactly once, with the outcome it returns, in the metrics of
  its kind; and every leadership of a render flight that a lookup gave it is released, in order, so
  no follower waits on a flight whose request has ended.
\<close>

theorem outcomes_recorded_flights_released:
  "records (effects_of (handle_incoming_inner n env w task) t) =
     (case result_of (handle_incoming_inner n env w task) t of
        Some o1 \<Rightarrow> [RecordIngress o1] | None \<Rightarrow> [])
   \<and> dropped (effects_of (handle_incoming_inner n env w task) t) =
       elected (effects_of (handle_incoming_inner n env w task) t)
   \<and> records (effects_of (handle_forwarded_inner n env w fwd) t) =
       (case result_of (handle_forwarded_inner n env w fwd) t of
          Some o1 \<Rightarrow> [RecordForwarded o1] | None \<Rightarrow> [])
   \<and> dropped (effects_of (handle_forwarded_inner n env w fwd) t) =
       elected (effects_of (handle_forwarded_inner n env w fwd) t)"
  using ingress_effects [of n task env w t]
    forwarded_effects [of n env w fwd t]
  by (simp add: ingress_ok_def forwarded_ok_def)

text \<open>
  C18: a node that may not render starts no native work: while it drains, is degraded or has no
  available worker, neither handler prepares a profile or commands the pool.
\<close>

theorem closed_node_starts_no_render:
  assumes "admission_closed env"
  shows "(\<forall>e\<in>set (effects_of (handle_incoming_inner n env w task) t). \<not> renders e)
    \<and> (\<forall>e\<in>set (effects_of (handle_forwarded_inner n env w fwd) t). \<not> renders e)"
proof
  show "\<forall>e\<in>set (effects_of (handle_incoming_inner n env w task) t). \<not> renders e"
    using runs_effects [OF handle_incoming_closed [OF assms]] by (simp add: list_all_iff)
  show "\<forall>e\<in>set (effects_of (handle_forwarded_inner n env w fwd) t). \<not> renders e"
    using runs_effects [OF handle_forwarded_closed [OF assms]] by (simp add: list_all_iff)
qed

section \<open>Witnesses\<close>

definition example_forwarding_node :: "u64 Node" where
  "example_forwarding_node = \<lparr>n_id = ''a'', n_dispatcher = example_dispatcher, n_hop_latency = 1000000,
     n_rng = example_rng, n_hasher = (\<lambda>_. 0), n_output_cache = False\<rparr>"

definition example_slow_task :: InternalTask where
  "example_slow_task = (example_task 1)\<lparr>it_deadline := 1000000000\<rparr>"

text \<open>The local renderer is closed, the view shows a warm peer, and the peer's connection fails.\<close>

definition example_world :: environment where
  "example_world t = \<lparr>ob_now = 3, ob_draining = True, ob_render_admission = True, ob_pool = example_pool,
     ob_catalog = style_catalog_new 10, 
     ob_cache = \<lparr>rc_cache = Map.empty, rc_in_flight = [], rc_invalidation_epoch = 0\<rparr>,
     ob_view = Some (dv_cluster example_view), ob_prepare = Inr None, ob_process = PoolQueueFull,
     ob_send = SendErr (Retryable ''refused'')\<rparr>"

abbreviation example_ingress :: "environment \<Rightarrow> NodeEffect list" where
  "example_ingress env \<equiv> effects_of (handle_incoming_inner example_forwarding_node env 0 example_slow_task) 0"

lemma targets_sent: "target \<in> set (targets es) \<Longrightarrow> \<exists>fwd sent. SendTo target fwd sent \<in> set es"
proof -
  assume "target \<in> set (targets es)"
  then obtain e where e: "e \<in> set es" "send_target e = Some target"
    by (auto simp: targets_def List.map_filter_def)
  from e(2) have "\<exists>fwd sent. e = SendTo target fwd sent" by (cases e) simp_all
  with e(1) show ?thesis by blast
qed

theorem single_hop_forwarding_witness:
  "\<exists>fwd sent. SendTo ''b'' fwd sent \<in> set (example_ingress example_world)
     \<and> wt_forwarding_hops (fr_task fwd) = 1"
proof -
  have "targets (example_ingress example_world) = [''b'']" by code_simp
  then have "''b'' \<in> set (targets (example_ingress example_world))" by simp
  from targets_sent [OF this] obtain fwd sent
    where "SendTo ''b'' fwd sent \<in> set (example_ingress example_world)" by blast
  then show ?thesis
    using single_hop_forwarding [of example_forwarding_node example_world 0 example_slow_task 0] by blast
qed

definition example_slow_world :: environment where
  "example_slow_world t = (example_world t)\<lparr>ob_send := SendTimedOut\<rparr>"


theorem closed_node_starts_no_render_witness:
  "admission_closed example_world \<and> example_ingress example_world \<noteq> []
   \<and> idle (example_ingress example_world)"
proof -
  have c: "admission_closed example_world" by (simp add: admission_closed_def example_world_def)
  have "example_ingress example_world \<noteq> []" by code_simp
  then show ?thesis
    using c closed_node_starts_no_render [OF c, of example_forwarding_node 0 example_slow_task 0]
    by (simp add: list_all_iff)
qed

end
