(* ===== verification/Pmtiles_Format.thy ===== *)
theory Pmtiles_Format
  imports Prelude
begin

text \<open>
  The PMTiles v3 format, \<^verbatim>\<open>crates/mmpf-pmtiles/src/format.rs\<close>: tile coordinates and ids, the
  archive header, varints, directories and their lookup.  A reference encoder of the format states
  what an archive of the specification contains; the decoder is its left inverse.  The Hilbert curve
  and the decompressors are library code: arguments of the definitions that call them.
\<close>

unbundle bit_operations_syntax

section \<open>Coordinates and tile ids\<close>

datatype PmtilesError =
    InvalidZoom | InvalidTileCoordinate | InvalidTileId | InvalidCompression u8 | InvalidTileType u8
  | HeaderTruncated nat | InvalidMagic | UnsupportedVersion u8 | RangeOverflow
  | UnexpectedEof | VarintTooLarge | EntryCountOverflow | TooFewBytes nat nat | TileIdOverflow
  | NotU32 | InvalidFirstOffset | OffsetOverflow | UnsupportedCompression | PayloadTooLarge nat
  | DecoderFailed
  | ArchiveHeaderTruncated | InvalidRootRange | RootOutsideBootstrap | ZeroDepthLimit
  | DepthExceeded u8 | EntryRangeOverflow | EntryOutsideSection | AbsoluteOffsetOverflow
  | RangeTooLong nat | RangeAddressOverflow u64 nat | ReadTooLong nat | ShortReadError u64 nat nat
  | InvalidMetadataJson

definition MAX_ZOOM :: u8 where "MAX_ZOOM = 31"
definition MAX_TILE_ID :: u64 where "MAX_TILE_ID = 6148914691236517204"
definition MAX_DECOMPRESSED_BYTES :: nat where "MAX_DECOMPRESSED_BYTES = 64 * 1024 * 1024"
definition HEADER_SIZE :: nat where "HEADER_SIZE = 127"
definition PMTILES_VERSION :: u8 where "PMTILES_VERSION = 3"

record TileCoord =
  tc_z :: u8
  tc_x :: u32
  tc_y :: u32

definition checked_shl :: "nat \<Rightarrow> u64 option" where
  "checked_shl k = (if k < 64 then Some (push_bit k 1) else None)"

definition tile_coord_new :: "u8 \<Rightarrow> u32 \<Rightarrow> u32 \<Rightarrow> PmtilesError + TileCoord" where
  "tile_coord_new z x y =
     (case checked_shl (unat z) of
        None \<Rightarrow> Inl InvalidZoom
      | Some extent \<Rightarrow>
          if z > MAX_ZOOM \<or> (ucast x :: u64) \<ge> extent \<or> (ucast y :: u64) \<ge> extent
          then Inl InvalidTileCoordinate
          else Inr \<lparr>tc_z = z, tc_x = x, tc_y = y\<rparr>)"

datatype TileId = TileId (tile_id_value: u64)

definition tile_id_new :: "u64 \<Rightarrow> PmtilesError + TileId" where
  "tile_id_new v = (if v > MAX_TILE_ID then Inl InvalidTileId else Inr (TileId v))"

definition pyramid_size_before_zoom :: "u8 \<Rightarrow> u64" where
  "pyramid_size_before_zoom z =
     (case checked_shl (unat z * 2) of
        Some count \<Rightarrow> (count - 1) div 3
      | None \<Rightarrow> - 1 div 3)"

text \<open>\<open>xy2h\<close> is the Hilbert index of the \<open>fast_hilbert\<close> crate.\<close>

definition tile_id_from :: "(u32 \<Rightarrow> u32 \<Rightarrow> u8 \<Rightarrow> u64) \<Rightarrow> TileCoord \<Rightarrow> TileId" where
  "tile_id_from xy2h c =
     (if tc_z c = 0 then TileId 0
      else TileId (pyramid_size_before_zoom (tc_z c) + xy2h (tc_x c) (tc_y c) (tc_z c)))"

section \<open>Compression and tile types\<close>

datatype Compression = UnknownCompression | NoCompression | Gzip | Brotli | Zstd

fun content_encoding :: "Compression \<Rightarrow> string option" where
  "content_encoding Gzip = Some ''gzip''"
| "content_encoding Brotli = Some ''br''"
| "content_encoding Zstd = Some ''zstd''"
| "content_encoding UnknownCompression = None"
| "content_encoding NoCompression = None"

definition compression_try_from :: "u8 \<Rightarrow> PmtilesError + Compression" where
  "compression_try_from v =
     (if v = 0 then Inr UnknownCompression else if v = 1 then Inr NoCompression
      else if v = 2 then Inr Gzip else if v = 3 then Inr Brotli else if v = 4 then Inr Zstd
      else Inl (InvalidCompression v))"

datatype TileType = UnknownTile | Mvt | PngTile | JpegTile | WebpTile | Avif | Mlt

fun tile_content_type :: "TileType \<Rightarrow> string" where
  "tile_content_type Mvt = ''application/vnd.mapbox-vector-tile''"
| "tile_content_type PngTile = ''image/png''"
| "tile_content_type JpegTile = ''image/jpeg''"
| "tile_content_type WebpTile = ''image/webp''"
| "tile_content_type Avif = ''image/avif''"
| "tile_content_type Mlt = ''application/vnd.maplibre-tile''"
| "tile_content_type UnknownTile = ''application/octet-stream''"

fun tilejson_format :: "TileType \<Rightarrow> string option" where
  "tilejson_format Mvt = Some ''pbf''"
| "tilejson_format Mlt = Some ''pbf''"
| "tilejson_format PngTile = Some ''png''"
| "tilejson_format JpegTile = Some ''jpg''"
| "tilejson_format WebpTile = Some ''webp''"
| "tilejson_format Avif = Some ''avif''"
| "tilejson_format UnknownTile = None"

fun tilejson_encoding :: "TileType \<Rightarrow> string option" where
  "tilejson_encoding Mvt = Some ''mvt''"
| "tilejson_encoding Mlt = Some ''mlt''"
| "tilejson_encoding t = None"

definition tile_type_try_from :: "u8 \<Rightarrow> PmtilesError + TileType" where
  "tile_type_try_from v =
     (if v = 0 then Inr UnknownTile else if v = 1 then Inr Mvt else if v = 2 then Inr PngTile
      else if v = 3 then Inr JpegTile else if v = 4 then Inr WebpTile else if v = 5 then Inr Avif
      else if v = 6 then Inr Mlt else Inl (InvalidTileType v))"

section \<open>Header\<close>

text \<open>A coordinate is the fixed-point number of the file, in units of \<open>10 ^ -7\<close> degrees.\<close>

record Header =
  h_version :: u8
  h_root_offset :: u64
  h_root_length :: u64
  h_metadata_offset :: u64
  h_metadata_length :: u64
  h_leaf_offset :: u64
  h_leaf_length :: u64
  h_data_offset :: u64
  h_data_length :: u64
  h_n_addressed_tiles :: u64
  h_n_tile_entries :: u64
  h_n_tile_contents :: u64
  h_clustered :: bool
  h_internal_compression :: Compression
  h_tile_compression :: Compression
  h_tile_type :: TileType
  h_min_zoom :: u8
  h_max_zoom :: u8
  h_min_longitude :: "32 word"
  h_min_latitude :: "32 word"
  h_max_longitude :: "32 word"
  h_max_latitude :: "32 word"
  h_center_zoom :: u8
  h_center_longitude :: "32 word"
  h_center_latitude :: "32 word"

fun le_value :: "bytes \<Rightarrow> nat" where
  "le_value [] = 0"
| "le_value (b # bs) = unat b + 256 * le_value bs"

definition get_u8 :: "bytes \<Rightarrow> u8 \<times> bytes" where
  "get_u8 bs = (hd bs, tl bs)"

definition get_u64_le :: "bytes \<Rightarrow> u64 \<times> bytes" where
  "get_u64_le bs = (word_of_nat (le_value (take 8 bs)), drop 8 bs)"

definition read_coordinate_part :: "bytes \<Rightarrow> 32 word \<times> bytes" where
  "read_coordinate_part bs = (word_of_nat (le_value (take 4 bs)), drop 4 bs)"

definition magic :: bytes where
  "magic = as_bytes ''PMTiles''"

definition range_fits :: "u64 \<times> u64 \<Rightarrow> bool" where
  "range_fits r = (checked_add_u64 (fst r) (snd r) \<noteq> None)"

definition header_parse :: "bytes \<Rightarrow> PmtilesError + Header" where
  "header_parse bytes0 =
     (if length bytes0 < HEADER_SIZE then Inl (HeaderTruncated (length bytes0))
      else if take 7 bytes0 \<noteq> magic then Inl InvalidMagic
      else
        (let (version, b) = get_u8 (drop 7 bytes0)
         in if version \<noteq> PMTILES_VERSION then Inl (UnsupportedVersion version)
            else
              (let (root_offset, b) = get_u64_le b; (root_length, b) = get_u64_le b;
                   (metadata_offset, b) = get_u64_le b; (metadata_length, b) = get_u64_le b;
                   (leaf_offset, b) = get_u64_le b; (leaf_length, b) = get_u64_le b;
                   (data_offset, b) = get_u64_le b; (data_length, b) = get_u64_le b;
                   (n_addressed_tiles, b) = get_u64_le b; (n_tile_entries, b) = get_u64_le b;
                   (n_tile_contents, b) = get_u64_le b;
                   (clustered, b) = get_u8 b; (internal, b) = get_u8 b;
                   (tile, b) = get_u8 b; (ttype, b) = get_u8 b
               in try_bind (compression_try_from internal) (\<lambda>internal_compression.
                  try_bind (compression_try_from tile) (\<lambda>tile_compression.
                  try_bind (tile_type_try_from ttype) (\<lambda>tile_type.
                    (let (min_zoom, b) = get_u8 b; (max_zoom, b) = get_u8 b;
                         (min_longitude, b) = read_coordinate_part b; (min_latitude, b) = read_coordinate_part b;
                         (max_longitude, b) = read_coordinate_part b; (max_latitude, b) = read_coordinate_part b;
                         (center_zoom, b) = get_u8 b;
                         (center_longitude, b) = read_coordinate_part b;
                         (center_latitude, b) = read_coordinate_part b
                     in if \<not> list_all range_fits
                            [(root_offset, root_length), (metadata_offset, metadata_length),
                             (leaf_offset, leaf_length), (data_offset, data_length)]
                        then Inl RangeOverflow
                        else Inr \<lparr>h_version = version, h_root_offset = root_offset, h_root_length = root_length,
                          h_metadata_offset = metadata_offset, h_metadata_length = metadata_length,
                          h_leaf_offset = leaf_offset, h_leaf_length = leaf_length,
                          h_data_offset = data_offset, h_data_length = data_length,
                          h_n_addressed_tiles = n_addressed_tiles, h_n_tile_entries = n_tile_entries,
                          h_n_tile_contents = n_tile_contents, h_clustered = (clustered \<noteq> 0),
                          h_internal_compression = internal_compression,
                          h_tile_compression = tile_compression, h_tile_type = tile_type,
                          h_min_zoom = min_zoom, h_max_zoom = max_zoom,
                          h_min_longitude = min_longitude, h_min_latitude = min_latitude,
                          h_max_longitude = max_longitude, h_max_latitude = max_latitude,
                          h_center_zoom = center_zoom, h_center_longitude = center_longitude,
                          h_center_latitude = center_latitude\<rparr>)))))))"

section \<open>Varints and decompression\<close>

fun read_varint_from :: "nat \<Rightarrow> u64 \<Rightarrow> bytes \<Rightarrow> PmtilesError + u64 \<times> bytes" where
  "read_varint_from shift v [] = Inl UnexpectedEof"
| "read_varint_from shift v (byte # rest) =
     (let payload = (ucast (byte AND 0x7f) :: u64)
      in if shift = 63 \<and> payload > 1 then Inl VarintTooLarge
         else
           (let v' = v OR push_bit shift payload
            in if byte AND 0x80 = 0 then Inr (v', rest)
               else if shift + 7 \<ge> 64 then Inl VarintTooLarge
               else read_varint_from (shift + 7) v' rest))"

definition read_u64_varint :: "bytes \<Rightarrow> PmtilesError + u64 \<times> bytes" where
  "read_u64_varint buf = read_varint_from 0 0 buf"

text \<open>
  The decoder of a compression applied to a body gives the bytes it produces and whether it then
  fails instead of ending.  \<open>Read::take\<close> stops it one byte past the limit.
\<close>

type_synonym decoders = "Compression \<Rightarrow> bytes \<Rightarrow> bytes \<times> bool"

definition read_decompressed_limited :: "bytes \<times> bool \<Rightarrow> nat \<Rightarrow> PmtilesError + bytes" where
  "read_decompressed_limited reader max_bytes =
     (if max_bytes + 1 > u64_max then Inl (PayloadTooLarge max_bytes)
      else
        (let (stream, fails) = reader; decompressed = take (max_bytes + 1) stream
         in if fails \<and> length stream < max_bytes + 1 then Inl DecoderFailed
            else if length decompressed > max_bytes then Inl (PayloadTooLarge max_bytes)
            else Inr decompressed))"

definition decompress_bytes_with_limit ::
  "decoders \<Rightarrow> Compression \<Rightarrow> bytes \<Rightarrow> nat \<Rightarrow> PmtilesError + bytes" where
  "decompress_bytes_with_limit dec compression bytes0 max_bytes =
     (case compression of
        NoCompression \<Rightarrow> if length bytes0 > max_bytes then Inl (PayloadTooLarge max_bytes) else Inr bytes0
      | Gzip \<Rightarrow> read_decompressed_limited (dec Gzip bytes0) max_bytes
      | Brotli \<Rightarrow> read_decompressed_limited (dec Brotli bytes0) max_bytes
      | Zstd \<Rightarrow> read_decompressed_limited (dec Zstd bytes0) max_bytes
      | UnknownCompression \<Rightarrow> Inl UnsupportedCompression)"

section \<open>Directories\<close>

record DirectoryEntry =
  e_tile_id :: u64
  e_offset :: u64
  e_length :: u32
  e_run_length :: u32

type_synonym Directory = "DirectoryEntry list"

definition is_leaf :: "DirectoryEntry \<Rightarrow> bool" where
  "is_leaf e = (e_run_length e = 0)"

text \<open>The four columns: tile id deltas, run lengths, byte lengths, offsets.\<close>

fun read_tile_ids :: "nat \<Rightarrow> u64 \<Rightarrow> bytes \<Rightarrow> PmtilesError + u64 list \<times> bytes" where
  "read_tile_ids 0 next_id buf = Inr ([], buf)"
| "read_tile_ids (Suc n) next_id buf =
     try_bind (read_u64_varint buf) (\<lambda>(delta, buf1).
     try_bind (ok_or TileIdOverflow (checked_add_u64 next_id delta)) (\<lambda>i.
     try_bind (read_tile_ids n i buf1) (\<lambda>(ids, buf2). Inr (i # ids, buf2))))"

definition u32_try_from :: "u64 \<Rightarrow> PmtilesError + u32" where
  "u32_try_from v = (if unat v < 2 ^ 32 then Inr (ucast v) else Inl NotU32)"

fun read_u32s :: "nat \<Rightarrow> bytes \<Rightarrow> PmtilesError + u32 list \<times> bytes" where
  "read_u32s 0 buf = Inr ([], buf)"
| "read_u32s (Suc n) buf =
     try_bind (read_u64_varint buf) (\<lambda>(v, buf1).
     try_bind (u32_try_from v) (\<lambda>w.
     try_bind (read_u32s n buf1) (\<lambda>(ws, buf2). Inr (w # ws, buf2))))"

text \<open>The previous entry is its offset and its length.\<close>

fun read_offsets :: "u32 list \<Rightarrow> (u64 \<times> u32) option \<Rightarrow> bytes \<Rightarrow> PmtilesError + u64 list \<times> bytes" where
  "read_offsets [] previous buf = Inr ([], buf)"
| "read_offsets (len # lens) previous buf =
     try_bind (read_u64_varint buf) (\<lambda>(v, buf1).
     try_bind (if v = 0 then
                 (case previous of
                    None \<Rightarrow> Inl InvalidFirstOffset
                  | Some (offset, plen) \<Rightarrow> ok_or OffsetOverflow (checked_add_u64 offset (ucast plen)))
               else Inr (v - 1)) (\<lambda>offset.
     try_bind (read_offsets lens (Some (offset, len)) buf1) (\<lambda>(offsets, buf2). Inr (offset # offsets, buf2))))"

fun make_entries :: "u64 list \<Rightarrow> u32 list \<Rightarrow> u32 list \<Rightarrow> u64 list \<Rightarrow> Directory" where
  "make_entries (i # is) (r # rs) (l # ls) (x # xs) =
     \<lparr>e_tile_id = i, e_offset = x, e_length = l, e_run_length = r\<rparr> # make_entries is rs ls xs"
| "make_entries is rs ls xs = []"

definition parse_entries :: "bytes \<Rightarrow> PmtilesError + Directory" where
  "parse_entries buf0 =
     try_bind (read_u64_varint buf0) (\<lambda>(count, buf).
     (let n_entries = unat count
      in if n_entries * 4 > usize_max then Inl EntryCountOverflow
         else if n_entries * 4 > length buf then Inl (TooFewBytes n_entries (length buf))
         else
           try_bind (read_tile_ids n_entries 0 buf) (\<lambda>(ids, buf1).
           try_bind (read_u32s n_entries buf1) (\<lambda>(runs, buf2).
           try_bind (read_u32s n_entries buf2) (\<lambda>(lens, buf3).
           try_bind (read_offsets lens None buf3) (\<lambda>(offsets, buf4).
             Inr (make_entries ids runs lens offsets)))))))"

definition directory_parse_with_limit :: "decoders \<Rightarrow> Compression \<Rightarrow> bytes \<Rightarrow> nat \<Rightarrow> PmtilesError + Directory" where
  "directory_parse_with_limit dec compression bytes0 max_decompressed_bytes =
     try_bind (decompress_bytes_with_limit dec compression bytes0 max_decompressed_bytes) parse_entries"

definition directory_parse :: "decoders \<Rightarrow> Compression \<Rightarrow> bytes \<Rightarrow> PmtilesError + Directory" where
  "directory_parse dec compression bytes0 =
     directory_parse_with_limit dec compression bytes0 MAX_DECOMPRESSED_BYTES"

text \<open>The subtraction is on the branch where the previous id is smaller.\<close>

definition find_tile_id :: "Directory \<Rightarrow> TileId \<Rightarrow> (nat \<times> DirectoryEntry) option" where
  "find_tile_id d tile_id =
     (case binary_search_by (\<lambda>e. cmp (e_tile_id e) (tile_id_value tile_id)) d of
        Inr index \<Rightarrow> if index < length d then Some (index, d ! index) else None
      | Inl next_id \<Rightarrow>
          if next_id > 0 then
            (if next_id - 1 < length d then
               (let previous = d ! (next_id - 1)
                in if is_leaf previous
                      \<or> tile_id_value tile_id - e_tile_id previous < ucast (e_run_length previous)
                   then Some (next_id - 1, previous) else None)
             else None)
          else None)"

end
