(* ===== verification/Pmtiles_Layout.thy ===== *)
theory Pmtiles_Layout
  imports Pmtiles_Format
begin

text \<open>
  The data layout of an archive, \<^verbatim>\<open>crates/mmpf-pmtiles/src/layout.rs\<close>: the incremental check of a
  producer's clustering claim.  The report of any sequence of directories is the count of descents in
  the one sequence of their tile entries, wherever the directory boundaries fall.
\<close>

section \<open>The verifier\<close>

record LayoutReport =
  lr_entries :: u64
  lr_backward_offsets :: u64
  lr_unordered_tile_ids :: u64
  lr_first_backward_tile_id :: "u64 option"

definition is_ordered :: "LayoutReport \<Rightarrow> bool" where
  "is_ordered r = (lr_backward_offsets r = 0)"

definition directories_are_ascending :: "LayoutReport \<Rightarrow> bool" where
  "directories_are_ascending r = (lr_unordered_tile_ids r = 0)"

record LayoutVerifier =
  lv_report :: LayoutReport
  lv_previous_offset :: "u64 option"
  lv_previous_tile_id :: "u64 option"

definition layout_verifier_new :: LayoutVerifier where
  "layout_verifier_new =
     \<lparr>lv_report = \<lparr>lr_entries = 0, lr_backward_offsets = 0, lr_unordered_tile_ids = 0,
        lr_first_backward_tile_id = None\<rparr>,
      lv_previous_offset = None, lv_previous_tile_id = None\<rparr>"

definition is_some_and :: "'a option \<Rightarrow> ('a \<Rightarrow> bool) \<Rightarrow> bool" where
  "is_some_and m p = (case m of None \<Rightarrow> False | Some x \<Rightarrow> p x)"

text \<open>One round of the loop of \<open>observe\<close>.\<close>

definition observe_entry :: "DirectoryEntry \<Rightarrow> LayoutVerifier \<Rightarrow> LayoutVerifier" where
  "observe_entry entry v =
     (if is_leaf entry then v
      else
        (let r = lv_report v;
             r = r\<lparr>lr_entries := lr_entries r + 1\<rparr>;
             r = (if is_some_and (lv_previous_tile_id v) (\<lambda>previous. e_tile_id entry \<le> previous)
                  then r\<lparr>lr_unordered_tile_ids := lr_unordered_tile_ids r + 1\<rparr> else r);
             r = (if is_some_and (lv_previous_offset v) (\<lambda>previous. e_offset entry < previous)
                  then r\<lparr>lr_backward_offsets := lr_backward_offsets r + 1,
                         lr_first_backward_tile_id :=
                           (case lr_first_backward_tile_id r of
                              None \<Rightarrow> Some (e_tile_id entry) | Some i \<Rightarrow> Some i)\<rparr>
                  else r)
         in \<lparr>lv_report = r, lv_previous_offset = Some (e_offset entry),
              lv_previous_tile_id = Some (e_tile_id entry)\<rparr>))"

definition layout_observe :: "DirectoryEntry list \<Rightarrow> LayoutVerifier \<Rightarrow> LayoutVerifier" where
  "layout_observe entries v = fold observe_entry entries v"

definition layout_finish :: "LayoutVerifier \<Rightarrow> LayoutReport" where
  "layout_finish v = lv_report v"

record HeaderLayout =
  hl_claims_clustered :: bool
  hl_addressed_tiles :: u64
  hl_tile_entries :: u64
  hl_tile_contents :: u64

definition header_layout_of :: "Header \<Rightarrow> HeaderLayout" where
  "header_layout_of h =
     \<lparr>hl_claims_clustered = h_clustered h, hl_addressed_tiles = h_n_addressed_tiles h,
      hl_tile_entries = h_n_tile_entries h, hl_tile_contents = h_n_tile_contents h\<rparr>"

definition reuses_blobs :: "HeaderLayout \<Rightarrow> bool" where
  "reuses_blobs l = (hl_tile_contents l < hl_tile_entries l)"

definition uses_run_length_encoding :: "HeaderLayout \<Rightarrow> bool" where
  "uses_run_length_encoding l = (hl_tile_entries l < hl_addressed_tiles l)"

definition is_fully_unoptimized :: "HeaderLayout \<Rightarrow> bool" where
  "is_fully_unoptimized l =
     (hl_addressed_tiles l = hl_tile_entries l \<and> hl_tile_entries l = hl_tile_contents l)"

section \<open>The report of a sequence of directories\<close>

text \<open>The steps of the one sequence of tile entries that go backwards.\<close>

definition tile_entries :: "DirectoryEntry list list \<Rightarrow> DirectoryEntry list" where
  "tile_entries ds = filter (\<lambda>e. \<not> is_leaf e) (concat ds)"

definition steps_of :: "DirectoryEntry list \<Rightarrow> (DirectoryEntry \<times> DirectoryEntry) list" where
  "steps_of es = zip es (tl es)"

definition backward_steps :: "DirectoryEntry list \<Rightarrow> (DirectoryEntry \<times> DirectoryEntry) list" where
  "backward_steps es = filter (\<lambda>(a, b). e_offset b < e_offset a) (steps_of es)"

definition unordered_steps :: "DirectoryEntry list \<Rightarrow> (DirectoryEntry \<times> DirectoryEntry) list" where
  "unordered_steps es = filter (\<lambda>(a, b). e_tile_id b \<le> e_tile_id a) (steps_of es)"

definition layout_run :: "DirectoryEntry list list \<Rightarrow> LayoutReport" where
  "layout_run ds = layout_finish (fold layout_observe ds layout_verifier_new)"

definition verifier_of :: "DirectoryEntry list \<Rightarrow> LayoutVerifier" where
  "verifier_of es =
     \<lparr>lv_report =
        \<lparr>lr_entries = word_of_nat (length es), lr_backward_offsets = word_of_nat (length (backward_steps es)),
         lr_unordered_tile_ids = word_of_nat (length (unordered_steps es)),
         lr_first_backward_tile_id =
           (case backward_steps es of [] \<Rightarrow> None | (a, b) # steps \<Rightarrow> Some (e_tile_id b))\<rparr>,
      lv_previous_offset = (if es = [] then None else Some (e_offset (last es))),
      lv_previous_tile_id = (if es = [] then None else Some (e_tile_id (last es)))\<rparr>"

lemma steps_of_snoc:
  "steps_of (es @ [e]) = steps_of es @ (if es = [] then [] else [(last es, e)])"
proof (induction es)
  case (Cons a es)
  then show ?case by (cases es) (auto simp: steps_of_def)
qed (simp add: steps_of_def)

lemma observe_entry_tile:
  "\<not> is_leaf e \<Longrightarrow> observe_entry e (verifier_of es) = verifier_of (es @ [e])"
  by (auto simp: observe_entry_def verifier_of_def backward_steps_def unordered_steps_def
      steps_of_snoc is_some_and_def Let_def add.commute split: list.splits prod.splits)

lemma layout_observe_all:
  "layout_observe entries (verifier_of es) = verifier_of (es @ filter (\<lambda>e. \<not> is_leaf e) entries)"
proof (induction entries arbitrary: es)
  case (Cons e entries)
  have skip: "is_leaf e \<Longrightarrow> observe_entry e v = v" for v by (simp add: observe_entry_def)
  show ?case
    using Cons [of es] Cons [of "es @ [e]"]
    by (cases "is_leaf e") (simp_all add: layout_observe_def skip observe_entry_tile)
qed (simp add: layout_observe_def)

lemma layout_run_verifier: "layout_run ds = lv_report (verifier_of (tile_entries ds))"
proof -
  have "fold layout_observe ds (verifier_of es) = verifier_of (es @ tile_entries ds)" for es
    by (induction ds arbitrary: es) (simp_all add: tile_entries_def layout_observe_all)
  from this [of "[]"] show ?thesis
    by (simp add: layout_run_def layout_finish_def layout_verifier_new_def verifier_of_def
        backward_steps_def unordered_steps_def steps_of_def)
qed

lemma no_steps:
  assumes "transp P"
  shows "filter (\<lambda>(a, b). \<not> P a b) (steps_of es) = [] \<longleftrightarrow> sorted_wrt P es"
proof (induction es)
  case (Cons a es)
  then show ?case
  proof (cases es)
    case (Cons b rest)
    from Cons.IH show ?thesis
      using transpD [OF assms, of a b] by (auto simp: steps_of_def Cons)
  qed (simp add: steps_of_def)
qed (simp add: steps_of_def)

lemma no_backward_steps: "backward_steps es = [] \<longleftrightarrow> sorted (map e_offset es)"
  using no_steps [of "\<lambda>a b. e_offset a \<le> e_offset b" es, OF transpI]
  by (simp add: backward_steps_def not_le sorted_map)

lemma no_unordered_steps:
  "unordered_steps es = [] \<longleftrightarrow> sorted_wrt (\<lambda>a b. e_tile_id a < e_tile_id b) es"
  using no_steps [of "\<lambda>a b. e_tile_id a < e_tile_id b" es, OF transpI]
  by (simp add: unordered_steps_def not_less)

lemma steps_bounded:
  "length (backward_steps es) \<le> length es" "length (unordered_steps es) \<le> length es"
  unfolding backward_steps_def unordered_steps_def steps_of_def
  by (rule le_trans [OF length_filter_le], simp)+

text \<open>
  The report of any sequence of directories with fewer than \<open>2 ^ 64\<close> tile entries is exact.  It
  counts the tile entries and the backward steps between neighbours, also those across a directory
  boundary; leaf pointers do not count; it names the first tile that goes back.  The archive is
  reported ordered iff the offsets of the whole sequence ascend, and its directories as ascending iff
  the tile ids do, strictly.
\<close>

theorem layout_report_exact:
  assumes "length (tile_entries ds) < 2 ^ 64"
  shows "unat (lr_entries (layout_run ds)) = length (tile_entries ds)
    \<and> unat (lr_backward_offsets (layout_run ds)) = length (backward_steps (tile_entries ds))
    \<and> lr_first_backward_tile_id (layout_run ds)
        = map_option (\<lambda>(a, b). e_tile_id b) (List.find (\<lambda>_. True) (backward_steps (tile_entries ds)))
    \<and> (is_ordered (layout_run ds) \<longleftrightarrow> sorted (map e_offset (tile_entries ds)))
    \<and> (directories_are_ascending (layout_run ds)
        \<longleftrightarrow> sorted_wrt (\<lambda>a b. e_tile_id a < e_tile_id b) (tile_entries ds))"
proof -
  have count: "unat (word_of_nat n :: u64) = n" if "n \<le> length (tile_entries ds)" for n
    using that assms by (simp add: unsigned_of_nat take_bit_nat_eq_self)
  have zero: "(word_of_nat n :: u64) = 0 \<longleftrightarrow> n = 0" if "n \<le> length (tile_entries ds)" for n
    using that assms by (auto simp: word_of_nat_eq_0_iff dest: dvd_imp_le)
  show ?thesis
    using steps_bounded [of "tile_entries ds"]
    by (auto simp: layout_run_verifier verifier_of_def is_ordered_def directories_are_ascending_def
        count zero no_backward_steps [symmetric] no_unordered_steps [symmetric] split: list.splits)
qed

definition example_directories :: "DirectoryEntry list list" where
  "example_directories =
     [[\<lparr>e_tile_id = 0, e_offset = 0, e_length = 16, e_run_length = 1\<rparr>,
       \<lparr>e_tile_id = 1, e_offset = 16, e_length = 16, e_run_length = 1\<rparr>],
      [\<lparr>e_tile_id = 2, e_offset = 4, e_length = 9, e_run_length = 0\<rparr>,
       \<lparr>e_tile_id = 2, e_offset = 8, e_length = 16, e_run_length = 1\<rparr>]]"

theorem layout_report_exact_witness:
  "\<not> is_ordered (layout_run example_directories)
   \<and> lr_first_backward_tile_id (layout_run example_directories) = Some 2
   \<and> unat (lr_entries (layout_run example_directories)) = 3"
  using layout_report_exact [of example_directories]
  by (simp add: example_directories_def tile_entries_def backward_steps_def steps_of_def is_leaf_def)

end
