(* ===== verification/Pmtiles_Ids.thy ===== *)
theory Pmtiles_Ids
  imports Pmtiles_Format
begin

text \<open>
  Tile ids of \<^verbatim>\<open>crates/mmpf-pmtiles/src/format.rs\<close>: a validated coordinate always converts to a valid
  id, and ids name coordinates, given that the Hilbert index of a level is an injection below the
  number of its tiles.
\<close>

definition hilbert_curve :: "(u32 \<Rightarrow> u32 \<Rightarrow> u8 \<Rightarrow> u64) \<Rightarrow> bool" where
  "hilbert_curve xy2h = (\<forall>z x y. z \<le> MAX_ZOOM \<and> unat x < 2 ^ unat z \<and> unat y < 2 ^ unat z \<longrightarrow>
     unat (xy2h x y z) < 4 ^ unat z
     \<and> (\<forall>x' y'. unat x' < 2 ^ unat z \<and> unat y' < 2 ^ unat z \<and> xy2h x y z = xy2h x' y' z \<longrightarrow> x = x' \<and> y = y'))"

text \<open>The number of tiles before a level.\<close>

definition tiles_before :: "nat \<Rightarrow> nat" where
  "tiles_before z = (4 ^ z - 1) div 3"

lemma tiles_before_Suc: "tiles_before (Suc z) = tiles_before z + 4 ^ z"
proof -
  have "(4 :: nat) ^ Suc z - 1 = 4 ^ z - 1 + 4 ^ z * 3" by simp
  then show ?thesis by (simp add: tiles_before_def)
qed

lemma tiles_before_mono: "z \<le> z' \<Longrightarrow> tiles_before z \<le> tiles_before z'"
  by (induction rule: inc_induct) (simp_all add: tiles_before_Suc)

lemma tiles_before_0: "tiles_before 0 = 0"
  by (simp add: tiles_before_def)

lemma unat_shl:
  assumes "k < 64"
  shows "unat (push_bit k (1 :: u64)) = 2 ^ k"
proof -
  have "push_bit k (1 :: u64) = word_of_nat (2 ^ k)" by simp
  then show ?thesis using assms by (simp only: unsigned_of_nat) simp
qed

lemma unat_pyramid:
  assumes "unat z \<le> 31"
  shows "unat (pyramid_size_before_zoom z) = tiles_before (unat z)"
proof -
  let ?w = "push_bit (unat z * 2) (1 :: u64)"
  have "unat ?w = 2 ^ (2 * unat z)" using assms by (subst unat_shl) (simp_all add: mult.commute)
  then have w: "unat ?w = 4 ^ unat z" by (simp add: power_mult)
  then have "1 \<le> ?w" by (simp add: word_le_nat_alt)
  then have "unat (?w - 1) = 4 ^ unat z - 1" using w by (simp add: unat_sub)
  then show ?thesis
    using assms by (simp add: pyramid_size_before_zoom_def checked_shl_def tiles_before_def unat_div)
qed

lemma tile_coord_new_Inr:
  "tile_coord_new z x y = Inr c \<longleftrightarrow> unat z \<le> 31 \<and> unat x < 2 ^ unat z \<and> unat y < 2 ^ unat z
     \<and> c = \<lparr>tc_z = z, tc_x = x, tc_y = y\<rparr>"
proof (cases "unat z \<le> 31")
  case True
  have "unat (ucast (v :: u32) :: u64) = unat v" for v
  proof -
    have "unat v < 2 ^ 32" using unsigned_less [of v] by simp
    then show ?thesis by (simp add: unsigned_ucast_eq take_bit_nat_eq_self)
  qed
  then show ?thesis
    using True unat_shl [of "unat z"]
    by (auto simp: tile_coord_new_def checked_shl_def MAX_ZOOM_def word_le_nat_alt word_less_nat_alt)
next
  case False
  then show ?thesis
    by (auto simp: tile_coord_new_def checked_shl_def MAX_ZOOM_def word_less_nat_alt split: option.splits)
qed

text \<open>The id of a coordinate lies in the interval of its level.\<close>

lemma tile_id_in_level:
  assumes "hilbert_curve xy2h" and "tile_coord_new z x y = Inr c"
  shows "tiles_before (unat z) \<le> unat (tile_id_value (tile_id_from xy2h c))"
    and "unat (tile_id_value (tile_id_from xy2h c)) < tiles_before (Suc (unat z))"
    and "z \<noteq> 0 \<Longrightarrow> unat (tile_id_value (tile_id_from xy2h c)) = tiles_before (unat z) + unat (xy2h x y z)"
proof -
  note c = assms(2) [unfolded tile_coord_new_Inr]
  have low: "unat (xy2h x y z) < 4 ^ unat z"
    using assms(1) c by (simp add: hilbert_curve_def MAX_ZOOM_def word_le_nat_alt)
  have "tiles_before (Suc (unat z)) \<le> tiles_before 32" using c by (intro tiles_before_mono) simp
  also have "tiles_before 32 < 2 ^ 64" by (simp add: tiles_before_def)
  finally have fits: "tiles_before (unat z) + unat (xy2h x y z) < 2 ^ 64"
    using low by (simp add: tiles_before_Suc)
  show id: "z \<noteq> 0 \<Longrightarrow> unat (tile_id_value (tile_id_from xy2h c)) = tiles_before (unat z) + unat (xy2h x y z)"
    using c fits by (simp add: tile_id_from_def unat_word_ariths unat_pyramid)
  show "tiles_before (unat z) \<le> unat (tile_id_value (tile_id_from xy2h c))"
    and "unat (tile_id_value (tile_id_from xy2h c)) < tiles_before (Suc (unat z))"
    using id low c by (cases "z = 0"; simp add: tile_id_from_def tiles_before_Suc tiles_before_0)+
qed

text \<open>
  Coordinates and ids.  Every coordinate the constructor accepts converts to an id that the id
  constructor accepts, and two accepted coordinates have the same id only if they are the same
  tile, given that the Hilbert index of a level is an injection below its number of tiles.
\<close>

theorem tile_id_names_coordinate:
  assumes "hilbert_curve xy2h" and "tile_coord_new z x y = Inr c" and "tile_coord_new z' x' y' = Inr c'"
  shows "tile_id_new (tile_id_value (tile_id_from xy2h c)) = Inr (tile_id_from xy2h c)
    \<and> (tile_id_from xy2h c = tile_id_from xy2h c' \<longleftrightarrow> c = c')"
proof -
  note c = assms(2) [unfolded tile_coord_new_Inr] and c' = assms(3) [unfolded tile_coord_new_Inr]
  note in_z = tile_id_in_level [OF assms(1,2)] and in_z' = tile_id_in_level [OF assms(1,3)]
  have "tiles_before (Suc (unat z)) \<le> tiles_before 32" using c by (intro tiles_before_mono) simp
  then have "tile_id_value (tile_id_from xy2h c) \<le> MAX_TILE_ID"
    using in_z(2) by (simp add: MAX_TILE_ID_def word_le_nat_alt tiles_before_def)
  moreover have "c = c'" if same: "tile_id_from xy2h c = tile_id_from xy2h c'"
  proof -
    have "\<not> unat z < unat z'" "\<not> unat z' < unat z"
      using tiles_before_mono [of "Suc (unat z)" "unat z'"] tiles_before_mono [of "Suc (unat z')" "unat z"]
        in_z(1,2) in_z'(1,2) same by auto
    then have z: "z' = z" by (simp add: word_unat_eq_iff)
    have "x = x' \<and> y = y'"
    proof (cases "z = 0")
      case True
      then show ?thesis using c c' z by (simp add: word_unat_eq_iff)
    next
      case False
      then have "xy2h x y z = xy2h x' y' z" using in_z(3) in_z'(3) same z by (simp add: word_unat_eq_iff)
      moreover have "z \<le> MAX_ZOOM" using c by (simp add: MAX_ZOOM_def word_le_nat_alt)
      ultimately show ?thesis using assms(1) c c' z unfolding hilbert_curve_def by blast
    qed
    with c c' z show ?thesis by simp
  qed
  ultimately show ?thesis by (cases "tile_id_from xy2h c") (auto simp: tile_id_new_def)
qed

text \<open>A curve with these laws: the rows of a level one after the other.\<close>

definition row_curve :: "u32 \<Rightarrow> u32 \<Rightarrow> u8 \<Rightarrow> u64" where
  "row_curve x y z = word_of_nat (unat y * 2 ^ unat z + unat x)"

lemma row_curve_laws: "hilbert_curve row_curve"
proof -
  have bound: "j * 2 ^ n + i < 4 ^ n" if "i < 2 ^ n" "j < 2 ^ n" for i j n :: nat
  proof -
    have "j * 2 ^ n + i < Suc j * 2 ^ n" using that(1) by simp
    also have "\<dots> \<le> 2 ^ n * 2 ^ n" using that(2) by (intro mult_right_mono) simp_all
    also have "\<dots> = 4 ^ n" by (simp add: power_mult_distrib [symmetric])
    finally show ?thesis .
  qed
  have small: "(4 :: nat) ^ n < 2 ^ 64" if "n \<le> 31" for n
    using power_increasing [OF that, of "4 :: nat"] by simp
  have index: "unat (row_curve x y z) = unat y * 2 ^ unat z + unat x"
    if "unat z \<le> 31" "unat x < 2 ^ unat z" "unat y < 2 ^ unat z" for x y z
    using bound [OF that(2,3)] small [OF that(1)]
    by (simp add: row_curve_def unsigned_of_nat take_bit_nat_eq_self del: of_nat_add of_nat_mult)
  have split: "i = i' \<and> j = j'" if "j * m + i = j' * m + i'" "i < m" "i' < m" for i i' j j' m :: nat
  proof -
    have "(j * m + i) mod m = i" "(j' * m + i') mod m = i'" using that(2,3) by simp_all
    then have "i = i'" using that(1) by simp
    with that(1,2) show ?thesis by simp
  qed
  have same: "x = x' \<and> y = y'"
    if "unat z \<le> 31" "unat x < 2 ^ unat z" "unat y < 2 ^ unat z" "unat x' < 2 ^ unat z" "unat y' < 2 ^ unat z"
      "row_curve x y z = row_curve x' y' z" for x y x' y' z
    using split [of "unat y" "2 ^ unat z" "unat x" "unat y'" "unat x'"] index [OF that(1,2,3)]
      index [OF that(1,4,5)] that by (simp add: word_unat_eq_iff)
  have zoom: "z \<le> MAX_ZOOM \<longleftrightarrow> unat z \<le> 31" for z by (simp add: MAX_ZOOM_def word_le_nat_alt)
  show ?thesis
    unfolding hilbert_curve_def zoom
  proof (intro allI impI, elim conjE, intro conjI allI impI, goal_cases)
    case (1 z x y)
    then show ?case using index [of z x y] bound [of "unat x" "unat z" "unat y"] by simp
  qed (use same in blast)+
qed

theorem tile_id_names_coordinate_witness:
  "tile_id_new (tile_id_value (tile_id_from row_curve \<lparr>tc_z = 3, tc_x = 5, tc_y = 6\<rparr>))
     = Inr (tile_id_from row_curve \<lparr>tc_z = 3, tc_x = 5, tc_y = 6\<rparr>)
   \<and> tile_id_from row_curve \<lparr>tc_z = 3, tc_x = 5, tc_y = 6\<rparr> \<noteq> tile_id_from row_curve \<lparr>tc_z = 2, tc_x = 1, tc_y = 1\<rparr>"
proof -
  have "tile_coord_new 3 5 6 = Inr \<lparr>tc_z = 3, tc_x = 5, tc_y = 6\<rparr>"
    "tile_coord_new 2 1 1 = Inr \<lparr>tc_z = 2, tc_x = 1, tc_y = 1\<rparr>" by (simp_all add: tile_coord_new_Inr)
  from tile_id_names_coordinate [OF row_curve_laws this] show ?thesis by simp
qed

end
