(* ===== verification/Pmtiles_Directory.thy ===== *)
theory Pmtiles_Directory
  imports Pmtiles_Format
begin

text \<open>
  Correctness of the PMTiles directory codec: varints and directories of the format's reference
  encoder decode to what was encoded, decoded directories are ordered, and the binary search finds
  the entry that a linear scan of the directory would choose.
\<close>

section \<open>Varints\<close>

text \<open>The reference encoder: seven bits per byte, low bits first, the high bit on all but the last.\<close>

fun varint_encode :: "nat \<Rightarrow> bytes" where
  "varint_encode n =
     (if n < 128 then [word_of_nat n] else word_of_nat (n mod 128 + 128) # varint_encode (n div 128))"

declare varint_encode.simps [simp del]

lemma or_push_bit_nat:
  assumes "a < 2 ^ s"
  shows "(a :: nat) OR push_bit s p = a + p * 2 ^ s"
proof -
  have "a + push_bit s p = a OR push_bit s p"
  proof (rule disjunctive_add)
    fix n
    show "\<not> bit a n \<or> \<not> bit (push_bit s p) n"
      using assms take_bit_nat_eq_self [OF assms] bit_take_bit_iff [of s a n]
      by (auto simp: bit_push_bit_iff)
  qed
  then show ?thesis by (simp add: push_bit_eq_mult)
qed

lemma unat_or_push_bit:
  assumes "unat (v :: u64) < 2 ^ s" and "unat v + unat p * 2 ^ s < 2 ^ 64"
  shows "unat (v OR push_bit s p) = unat v + unat p * 2 ^ s"
proof -
  have "unat (push_bit s p) = take_bit 64 (push_bit s (unat p))"
    by (simp only: unsigned_push_bit_eq) simp
  also have "\<dots> = push_bit s (unat p)"
    using assms(2) by (intro take_bit_nat_eq_self) (simp add: push_bit_eq_mult)
  finally have "unat (push_bit s p) = push_bit s (unat p)" .
  then show ?thesis using or_push_bit_nat [OF assms(1)] by (simp add: unsigned_or_eq)
qed

lemma byte_payload: "unat (ucast (b AND 0x7f) :: u64) = unat (b :: u8) mod 128"
proof -
  have "b AND 0x7f = take_bit 7 b"
    by (simp add: take_bit_eq_mask mask_eq_exp_minus_1)
  then have "unat (ucast (b AND 0x7f) :: u64) = take_bit 64 (take_bit 7 (unat b))"
    by (simp only: unsigned_ucast_eq unsigned_take_bit_eq) simp
  also have "\<dots> = unat b mod 2 ^ 7" by (simp only: take_bit_take_bit) (simp add: take_bit_eq_mod)
  finally show ?thesis by simp
qed

lemma byte_last: "(b :: u8) AND 0x80 = 0 \<longleftrightarrow> unat b < 128"
proof -
  have "b AND 0x80 = 0 \<longleftrightarrow> \<not> bit b 7" using and_exp_eq_0_iff_not_bit [of b 7] by simp
  also have "bit b 7 \<longleftrightarrow> bit (unat b) 7" by (simp add: bit_unsigned_iff)
  also have "bit (unat b) 7 \<longleftrightarrow> odd (unat b div 128)" by (simp add: bit_iff_odd)
  also have "\<dots> \<longleftrightarrow> \<not> unat b < 128"
  proof -
    have "unat b div 128 < 2" using unat_u8_less [of b] by (simp add: less_mult_imp_div_less)
    then show ?thesis by (cases "unat b div 128") (auto simp: div_eq_0_iff)
  qed
  finally show ?thesis by simp
qed

lemma read_varint_step:
  assumes "unat v < 2 ^ s" and "unat v + (unat b mod 128) * 2 ^ s < 2 ^ 64" and "s < 64"
  shows "read_varint_from s v (b # rest) =
    (if unat b < 128 then Inr (word_of_nat (unat v + (unat b mod 128) * 2 ^ s), rest)
     else if s + 7 \<ge> 64 then Inl VarintTooLarge
     else read_varint_from (s + 7) (word_of_nat (unat v + (unat b mod 128) * 2 ^ s)) rest)"
proof -
  let ?p = "ucast (b AND 0x7f) :: u64"
  have small: "\<not> (s = 63 \<and> ?p > 1)"
  proof
    assume a: "s = 63 \<and> ?p > 1"
    then have "1 < unat ?p" by (simp add: word_less_nat_alt)
    then have "2 * 2 ^ 63 \<le> (unat b mod 128) * (2 :: nat) ^ 63" by (simp add: byte_payload)
    with assms(2) a show False by simp
  qed
  have "unat (v OR push_bit s ?p) = unat v + (unat b mod 128) * 2 ^ s"
    using unat_or_push_bit [OF assms(1), of ?p] assms(2) by (simp add: byte_payload)
  from arg_cong [OF this, of "word_of_nat :: nat \<Rightarrow> u64"]
  have "v OR push_bit s ?p = word_of_nat (unat v + (unat b mod 128) * 2 ^ s)"
    by (simp del: of_nat_add of_nat_mult)
  with small show ?thesis
    unfolding read_varint_from.simps Let_def byte_last by (simp only: if_False)
qed

declare read_varint_from.simps [simp del]

lemma read_varint_encode:
  assumes "unat v < 2 ^ (7 * k)" and "unat v + n * 2 ^ (7 * k) < 2 ^ 64" and "7 * k < 64"
  shows "read_varint_from (7 * k) v (varint_encode n @ rest) =
    Inr (word_of_nat (unat v + n * 2 ^ (7 * k)), rest)"
  using assms
proof (induction n arbitrary: v k rule: varint_encode.induct)
  case (1 n)
  show ?case
  proof (cases "n < 128")
    case True
    then have u: "unat (word_of_nat n :: u8) = n" by (simp add: unsigned_of_nat take_bit_nat_eq_self)
    have "varint_encode n = [word_of_nat n]" using True by (simp add: varint_encode.simps)
    then show ?thesis using True "1.prems" by (simp add: read_varint_step u del: of_nat_add of_nat_mult)
  next
    case False
    let ?b = "word_of_nat (n mod 128 + 128) :: u8"
    have u: "unat ?b = n mod 128 + 128"
      by (simp add: unsigned_of_nat take_bit_nat_eq_self del: of_nat_add)
    have enc: "varint_encode n = ?b # varint_encode (n div 128)"
      using False by (simp add: varint_encode.simps [of n])
    let ?s = "7 * k" and ?v = "word_of_nat (unat v + (n mod 128) * 2 ^ (7 * k)) :: u64"
    have "n * 2 ^ ?s = (n mod 128 + n div 128 * 128) * 2 ^ ?s" by simp
    then have split: "n * 2 ^ ?s = (n mod 128) * 2 ^ ?s + (n div 128) * 2 ^ (?s + 7)"
      by (simp only: add_mult_distrib power_add mult.assoc) simp
    have low: "unat v + (n mod 128) * 2 ^ ?s < 2 ^ (?s + 7)"
    proof -
      have "(n mod 128) * 2 ^ ?s \<le> 127 * 2 ^ ?s" by (intro mult_right_mono) simp_all
      then have "unat v + (n mod 128) * 2 ^ ?s < 128 * 2 ^ ?s" using "1.prems"(1) by linarith
      then show ?thesis by (simp add: power_add)
    qed
    have fits: "unat v + (n mod 128) * 2 ^ ?s + (n div 128) * 2 ^ (?s + 7) < 2 ^ 64"
      using "1.prems"(2) split by linarith
    then have v: "unat ?v = unat v + (n mod 128) * 2 ^ ?s"
      by (simp add: unsigned_of_nat take_bit_nat_eq_self del: of_nat_add of_nat_mult)
    have more: "?s + 7 < 64"
    proof (rule ccontr)
      assume "\<not> ?s + 7 < 64"
      then have "(2 :: nat) ^ 64 \<le> 2 ^ (?s + 7)" by (intro power_increasing) simp_all
      also have "\<dots> \<le> n div 128 * 2 ^ (?s + 7)" using False by (simp add: div_greater_zero_iff Suc_le_eq)
      finally show False using fits by linarith
    qed
    have "read_varint_from (7 * Suc k) ?v (varint_encode (n div 128) @ rest)
        = Inr (word_of_nat (unat ?v + n div 128 * 2 ^ (7 * Suc k)), rest)"
      using False low fits more v
      by (intro "1.IH") (simp_all add: add.commute del: of_nat_add of_nat_mult)
    moreover have "read_varint_from ?s v (varint_encode n @ rest) =
        read_varint_from (?s + 7) ?v (varint_encode (n div 128) @ rest)"
      using read_varint_step [of v ?s ?b "varint_encode (n div 128) @ rest"] "1.prems"(1,3) fits more
      by (simp add: enc u del: of_nat_add of_nat_mult)
    moreover have "unat v + n * 2 ^ ?s = unat ?v + n div 128 * 2 ^ (?s + 7)" using split v by simp
    ultimately show ?thesis by (simp add: add.commute del: of_nat_add of_nat_mult)
  qed
qed

lemma read_u64_varint_encode [simp]:
  "n < 2 ^ 64 \<Longrightarrow> read_u64_varint (varint_encode n @ rest) = Inr (word_of_nat n, rest)"
  using read_varint_encode [of 0 0 n rest] by (simp add: read_u64_varint_def)

lemma varint_encode_nonempty: "1 \<le> length (varint_encode n)"
  by (subst varint_encode.simps) simp

section \<open>Directories\<close>

text \<open>The reference encoder: the four columns, an offset of 0 where an entry follows its predecessor.\<close>

fun encode_ids :: "nat \<Rightarrow> DirectoryEntry list \<Rightarrow> bytes" where
  "encode_ids previous [] = []"
| "encode_ids previous (e # es) =
     varint_encode (unat (e_tile_id e) - previous) @ encode_ids (unat (e_tile_id e)) es"

definition encode_u32s :: "u32 list \<Rightarrow> bytes" where
  "encode_u32s ws = concat (map (\<lambda>w. varint_encode (unat w)) ws)"

fun encode_offsets :: "nat option \<Rightarrow> DirectoryEntry list \<Rightarrow> bytes" where
  "encode_offsets contiguous [] = []"
| "encode_offsets contiguous (e # es) =
     varint_encode (if contiguous = Some (unat (e_offset e)) then 0 else unat (e_offset e) + 1)
     @ encode_offsets (Some (unat (e_offset e) + unat (e_length e))) es"

definition encode_directory :: "Directory \<Rightarrow> bytes" where
  "encode_directory d =
     varint_encode (length d) @ encode_ids 0 d @ encode_u32s (map e_run_length d)
     @ encode_u32s (map e_length d) @ encode_offsets None d"

definition ids_ascending :: "Directory \<Rightarrow> bool" where
  "ids_ascending d = sorted_wrt (\<lambda>a b. e_tile_id a \<le> e_tile_id b) d"

lemma unat_ucast_u32 [simp]: "unat (ucast (w :: u32) :: u64) = unat w"
proof -
  have "unat w < 2 ^ 32" using unsigned_less [of w] by simp
  then show ?thesis by (simp add: unsigned_ucast_eq take_bit_nat_eq_self)
qed

lemma checked_add_diff:
  assumes "unat p \<le> unat i"
  shows "checked_add_u64 p (i - p) = Some i"
proof -
  have "unat (i - p) = unat i - unat p" using assms by (simp add: unat_sub word_le_nat_alt)
  with assms unat_u64_less [of i] show ?thesis by (simp add: checked_add_u64_def)
qed

lemma read_tile_ids_encode:
  assumes "ids_ascending d" and "\<forall>e\<in>set d. unat p \<le> unat (e_tile_id e)"
  shows "read_tile_ids (length d) p (encode_ids (unat p) d @ rest) = Inr (map e_tile_id d, rest)"
  using assms
proof (induction d arbitrary: p)
  case (Cons e d)
  have less: "unat (e_tile_id e) - unat p < 2 ^ 64" using unat_u64_less [of "e_tile_id e"] by linarith
  have "read_tile_ids (length d) (e_tile_id e) (encode_ids (unat (e_tile_id e)) d @ rest)
      = Inr (map e_tile_id d, rest)"
    using Cons by (intro Cons.IH) (auto simp: ids_ascending_def word_le_nat_alt)
  then show ?case using Cons.prems less by (simp add: checked_add_diff)
qed simp

lemma read_u32s_encode:
  "read_u32s (length ws) (encode_u32s ws @ rest) = Inr (ws, rest)"
proof (induction ws)
  case (Cons w ws)
  have "unat w < 2 ^ 32" using unsigned_less [of w] by simp
  then have "u32_try_from (word_of_nat (unat w)) = Inr w"
    by (simp add: u32_try_from_def unsigned_of_nat take_bit_nat_eq_self unsigned_ucast_eq take_bit_word_eq_self)
  with Cons \<open>unat w < 2 ^ 32\<close> show ?case by (simp add: encode_u32s_def)
qed (simp add: encode_u32s_def)

lemma read_offsets_encode:
  assumes "\<forall>e\<in>set d. unat (e_offset e) < 2 ^ 64 - 1"
  shows "read_offsets (map e_length d) previous
      (encode_offsets (map_option (\<lambda>(offset, len). unat offset + unat len) previous) d @ rest)
    = Inr (map e_offset d, rest)"
  using assms
proof (induction d arbitrary: previous)
  case (Cons e d)
  let ?last_end = "map_option (\<lambda>(offset, len). unat offset + unat len) previous"
  let ?v = "if ?last_end = Some (unat (e_offset e)) then 0 else unat (e_offset e) + 1"
  have less: "?v < 2 ^ 64" and off: "unat (e_offset e) + 1 < 2 ^ 64" using Cons.prems by auto
  have chosen: "(if (word_of_nat ?v :: u64) = 0 then
        (case previous of None \<Rightarrow> Inl InvalidFirstOffset
         | Some (offset, plen) \<Rightarrow> ok_or OffsetOverflow (checked_add_u64 offset (ucast plen)))
      else Inr (word_of_nat ?v - 1)) = Inr (e_offset e)"
  proof (cases "?last_end = Some (unat (e_offset e))")
    case True
    then obtain offset plen where p: "previous = Some (offset, plen)"
      and u: "unat (e_offset e) = unat offset + unat plen" by auto
    have "unat offset + unat (ucast plen :: u64) = unat (e_offset e)"
      using u by simp
    moreover from this have "offset + ucast plen = e_offset e"
      using unat_u64_less [of "e_offset e"] by (simp add: word_unat_eq_iff unat_word_ariths)
    ultimately show ?thesis
      using True p unat_u64_less [of "e_offset e"] by (simp add: checked_add_u64_def)
  next
    case False
    have "unat (1 + e_offset e) = 1 + unat (e_offset e)" using off by (simp add: unat_word_ariths)
    then have "1 + e_offset e \<noteq> 0" by (metis add_is_0 one_neq_zero unat_0)
    with False show ?thesis by auto
  qed
  have "read_offsets (map e_length d) (Some (e_offset e, e_length e))
      (encode_offsets (Some (unat (e_offset e) + unat (e_length e))) d @ rest) = Inr (map e_offset d, rest)"
    using Cons.IH [of "Some (e_offset e, e_length e)"] Cons.prems by simp
  then show ?case
    using read_u64_varint_encode [OF less] chosen
    by (simp only: list.map encode_offsets.simps append_assoc read_offsets.simps try_bind.simps
        prod.case)
qed simp

lemma make_entries_columns:
  "make_entries (map e_tile_id d) (map e_run_length d) (map e_length d) (map e_offset d) = d"
  by (induction d) simp_all

lemma encoded_columns_length:
  "length d \<le> length (encode_ids p d)" "length ws \<le> length (encode_u32s ws)"
  "length d \<le> length (encode_offsets contiguous d)"
proof -
  have grow: "m \<le> k \<Longrightarrow> Suc m \<le> length (varint_encode n) + k" for m k n
    using varint_encode_nonempty [of n] by simp
  show "length d \<le> length (encode_ids p d)" by (induction d arbitrary: p) (simp_all add: grow)
  show "length ws \<le> length (encode_u32s ws)" by (induction ws) (simp_all add: encode_u32s_def grow)
  show "length d \<le> length (encode_offsets contiguous d)"
    by (induction d arbitrary: contiguous) (simp_all add: grow)
qed

lemma parse_encode_directory:
  assumes "ids_ascending d" and "list_all (\<lambda>e. unat (e_offset e) < 2 ^ 64 - 1) d"
    and "length d * 4 \<le> usize_max"
  shows "parse_entries (encode_directory d @ rest) = Inr d"
proof -
  let ?cols = "encode_ids 0 d @ encode_u32s (map e_run_length d) @ encode_u32s (map e_length d)
    @ encode_offsets None d @ rest"
  have count: "length d < 2 ^ 64" using assms(3) by simp
  then have n: "unat (word_of_nat (length d) :: u64) = length d"
    by (simp add: unsigned_of_nat take_bit_nat_eq_self)
  have enough: "length d * 4 \<le> length ?cols"
    using encoded_columns_length(1) [of d 0] encoded_columns_length(2) [of "map e_run_length d"]
      encoded_columns_length(2) [of "map e_length d"] encoded_columns_length(3) [of d None] by simp
  have ids: "read_tile_ids (length d) 0 (encode_ids 0 d @ more) = Inr (map e_tile_id d, more)" for more
    using read_tile_ids_encode [OF assms(1), of 0] by simp
  have u32s: "read_u32s (length d) (encode_u32s (map f d) @ more) = Inr (map f d, more)" for f more
    using read_u32s_encode [of "map f d" more] by simp
  have offs: "read_offsets (map e_length d) None (encode_offsets None d @ rest) = Inr (map e_offset d, rest)"
    using read_offsets_encode [of d None rest] assms(2) by (simp add: list_all_iff)
  show ?thesis
    using enough assms(3)
    by (simp add: parse_entries_def encode_directory_def Let_def count n ids u32s offs make_entries_columns)
qed

lemma parsed_ids_ascending:
  assumes "parse_entries buf = Inr d"
  shows "ids_ascending d"
proof -
  have ids: "sorted ids \<and> (\<forall>i\<in>set ids. p \<le> i)" if "read_tile_ids n p b = Inr (ids, b')" for n p b ids b'
    using that
  proof (induction n arbitrary: p b ids)
    case (Suc n)
    then obtain delta b1 i ids' where r: "checked_add_u64 p delta = Some i" "ids = i # ids'"
        "read_tile_ids n i b1 = Inr (ids', b')"
      by (auto simp: try_bind_Inr split: prod.splits)
    then have "p \<le> i" using checked_add_u64_unat [OF r(1)] by (simp add: word_le_nat_alt)
    with Suc.IH [OF r(3)] r(2) show ?case by auto
  qed simp
  have map_ids: "sorted is \<Longrightarrow> sorted (map e_tile_id (make_entries is rs ls xs))
      \<and> set (map e_tile_id (make_entries is rs ls xs)) \<subseteq> set is" for "is" rs ls xs
    by (induction "is" rs ls xs rule: make_entries.induct) auto
  from assms have "sorted (map e_tile_id d)"
    by (auto simp: parse_entries_def try_bind_Inr Let_def split: prod.splits if_splits
        dest!: ids intro: map_ids [THEN conjunct1])
  then show ?thesis by (simp add: ids_ascending_def sorted_map)
qed

section \<open>Lookup\<close>

text \<open>The reference lookup: the last entry that starts at or before the tile, if it covers it.\<close>

definition covers :: "DirectoryEntry \<Rightarrow> u64 \<Rightarrow> bool" where
  "covers e t = (unat (e_tile_id e) \<le> unat t
     \<and> (is_leaf e \<or> unat t < unat (e_tile_id e) + unat (e_run_length e)))"

definition scan_entry :: "Directory \<Rightarrow> u64 \<Rightarrow> (nat \<times> DirectoryEntry) option" where
  "scan_entry d t =
     (let n = length (takeWhile (\<lambda>e. e_tile_id e \<le> t) d)
      in if n = 0 then None
         else if covers (d ! (n - 1)) t then Some (n - 1, d ! (n - 1)) else None)"

definition ids_strict :: "Directory \<Rightarrow> bool" where
  "ids_strict d = sorted_wrt (\<lambda>a b. e_tile_id a < e_tile_id b) d"

lemma scan_entry_at:
  assumes "n \<le> length d" and "\<And>j. j < n \<Longrightarrow> e_tile_id (d ! j) \<le> t"
    and "n < length d \<Longrightarrow> t < e_tile_id (d ! n)"
  shows "scan_entry d t =
    (if n = 0 then None else if covers (d ! (n - 1)) t then Some (n - 1, d ! (n - 1)) else None)"
proof -
  have "takeWhile (\<lambda>e. e_tile_id e \<le> t) d = take n d"
    using assms by (intro takeWhile_eq_take_P_nth) (auto simp: not_le)
  then show ?thesis using assms(1) by (simp add: scan_entry_def Let_def)
qed

lemma covers_previous:
  assumes "e_tile_id e < t"
  shows "is_leaf e \<or> t - e_tile_id e < ucast (e_run_length e) \<longleftrightarrow> covers e t"
  using assms by (auto simp: covers_def word_less_nat_alt unat_sub word_le_nat_alt)

lemma cmp_iff:
  "cmp a b = Less \<longleftrightarrow> a < b" "cmp a b = Equal \<longleftrightarrow> a = b" "cmp a b = Greater \<longleftrightarrow> b < a"
  by (auto simp: cmp_def)

lemma cmp_ordered_ids:
  assumes "ids_ascending d"
  shows "cmp_ordered (\<lambda>e. cmp (e_tile_id e) t) d"
proof -
  have "sorted (map e_tile_id d)" using assms by (simp add: ids_ascending_def sorted_map)
  from cmp_ordered_sorted [OF this, of t] show ?thesis
    by (simp add: cmp_ordered_def) (meson le_less_trans)
qed

lemma find_tile_id_scan:
  assumes "ids_strict d"
  shows "find_tile_id d (TileId t) = scan_entry d t"
proof -
  let ?f = "\<lambda>e. cmp (e_tile_id e) t"
  have strict: "e_tile_id (d ! i) < e_tile_id (d ! j)" if "i < j" "j < length d" for i j
    using assms that by (simp add: ids_strict_def sorted_wrt_iff_nth_less)
  have ord: "cmp_ordered ?f d"
    using assms unfolding ids_strict_def
    by (intro cmp_ordered_ids) (auto simp: ids_ascending_def elim: sorted_wrt_mono_rel [rotated])
  show ?thesis
  proof (cases "binary_search_by ?f d")
    case (Inr i)
    from binary_search_by_Ok [OF ord Inr] have i: "i < length d" "e_tile_id (d ! i) = t"
      by (simp_all add: cmp_iff)
    have "scan_entry d t = (if Suc i = 0 then None
        else if covers (d ! (Suc i - 1)) t then Some (Suc i - 1, d ! (Suc i - 1)) else None)"
      using i strict by (intro scan_entry_at) (auto simp: less_Suc_eq intro: less_imp_le)
    moreover have "covers (d ! i) t" using i(2) by (auto simp: covers_def is_leaf_def unat_gt_0)
    ultimately show ?thesis using Inr i by (simp add: find_tile_id_def)
  next
    case (Inl i)
    from binary_search_by_Err [OF ord Inl] have i: "i \<le> length d"
      "\<And>j. j < i \<Longrightarrow> e_tile_id (d ! j) < t" "i < length d \<Longrightarrow> t < e_tile_id (d ! i)"
      by (simp_all add: cmp_iff)
    then show ?thesis
      using Inl covers_previous [of "d ! (i - 1)" t] scan_entry_at [of i d t]
      by (auto simp: find_tile_id_def Let_def less_imp_le)
  qed
qed

text \<open>
  C29: decoding a directory inverts its encoding.  For every directory with ascending tile ids and
  representable offsets, the parser reads the four columns of the reference encoder back to the same
  entries, whatever bytes follow.
\<close>

theorem directory_roundtrip:
  assumes "ids_ascending d" and "list_all (\<lambda>e. unat (e_offset e) < 2 ^ 64 - 1) d"
    and "length d * 4 \<le> usize_max"
  shows "parse_entries (encode_directory d @ rest) = Inr d"
  by (rule parse_encode_directory [OF assms])

definition example_directory :: Directory where
  "example_directory =
     [\<lparr>e_tile_id = 0, e_offset = 0, e_length = 300, e_run_length = 2\<rparr>,
      \<lparr>e_tile_id = 5, e_offset = 300, e_length = 9, e_run_length = 1\<rparr>,
      \<lparr>e_tile_id = 1000, e_offset = 70000, e_length = 40, e_run_length = 0\<rparr>]"

theorem directory_roundtrip_witness:
  "parse_entries (encode_directory example_directory @ [1, 2]) = Inr example_directory
   \<and> ids_ascending example_directory"
proof -
  have "ids_ascending example_directory" by code_simp
  moreover have "list_all (\<lambda>e. unat (e_offset e) < 2 ^ 64 - 1) example_directory" by code_simp
  moreover have "length example_directory * 4 \<le> usize_max" by (simp add: example_directory_def)
  ultimately show ?thesis using directory_roundtrip [of example_directory "[1, 2]"] by blast
qed

text \<open>
  C28: the binary search of a directory with strictly ascending ids is the linear scan: it gives the
  last entry that starts at or before the tile when that entry is a leaf pointer or its run covers
  the tile, with its index, and nothing otherwise.  The wrapping subtraction of ids never wraps.
\<close>

theorem find_tile_id_reference:
  assumes "ids_strict d"
  shows "find_tile_id d (TileId t) = scan_entry d t"
  by (rule find_tile_id_scan [OF assms])

theorem find_tile_id_reference_witness:
  "find_tile_id example_directory (TileId 1) = Some (0, hd example_directory)
   \<and> find_tile_id example_directory (TileId 2) = None
   \<and> find_tile_id example_directory (TileId 5000) = Some (2, example_directory ! 2)"
proof -
  have "ids_strict example_directory" by code_simp
  note ref = find_tile_id_reference [OF this]
  have "scan_entry example_directory 1 = Some (0, hd example_directory)
    \<and> scan_entry example_directory 2 = None
    \<and> scan_entry example_directory 5000 = Some (2, example_directory ! 2)" by code_simp
  then show ?thesis by (simp add: ref)
qed

end
