(* ===== verification/Pmtiles_Metadata.thy ===== *)
theory Pmtiles_Metadata
  imports Prelude
begin

text \<open>
  The metadata document of an archive, \<^verbatim>\<open>crates/mmpf-pmtiles/src/metadata.rs\<close>: its two shapes
  (top-level fields and a nested \<open>json\<close> blob), the accessors that merge them, the lenient integer
  parser and the size estimate that the caches weigh it with.  A \<open>BTreeMap\<close> is its sorted list of
  entries.  The sizes of Rust types are the compiler's: a parameter.
\<close>

section \<open>The document\<close>

text \<open>\<open>serde_json::Number\<close>; a float is its bit pattern.\<close>

datatype Number = PosInt u64 | NegInt int | FloatBits u64

datatype Value =
    Null | Bool bool | Number Number | String string | Array "Value list"
  | Object "(string \<times> Value) list"

record VectorLayer =
  vl_id :: string
  vl_description :: "string option"
  vl_minzoom :: "int option"
  vl_maxzoom :: "int option"
  vl_fields :: "(string \<times> string) list"

record TilestatsAttribute =
  ta_attribute :: string
  ta_count :: u32
  ta_type :: string
  ta_values :: "Value list"
  ta_min :: "u64 option"
  ta_max :: "u64 option"

record TilestatsLayer =
  tl_layer :: string
  tl_count :: int
  tl_geometry :: string
  tl_attribute_count :: int
  tl_attributes :: "TilestatsAttribute list"

record Tilestats =
  ts_layer_count :: int
  ts_layers :: "TilestatsLayer list"

record MetadataJson =
  mj_encoding :: "string option"
  mj_vector_layers :: "VectorLayer list"
  mj_tilestats :: "Tilestats option"
  mj_other :: "(string \<times> Value) list"

record Metadata =
  md_name :: "string option"
  md_description :: "string option"
  md_attribution :: "string option"
  md_version :: "string option"
  md_encoding :: "string option"
  md_vector_layers :: "VectorLayer list"
  md_tilestats :: "Tilestats option"
  md_json :: "MetadataJson option"
  md_other :: "(string \<times> Value) list"

definition metadata_default :: Metadata where
  "metadata_default =
     \<lparr>md_name = None, md_description = None, md_attribution = None, md_version = None,
      md_encoding = None, md_vector_layers = [], md_tilestats = None, md_json = None, md_other = []\<rparr>"

definition KNOWN_METADATA_KEYS :: "string list" where
  "KNOWN_METADATA_KEYS =
     [''attribution'', ''bounds'', ''center'', ''description'', ''encoding'', ''format'', ''maxzoom'',
      ''minzoom'', ''name'', ''tilejson'', ''tiles'', ''tilestats'', ''vector_layers'', ''version'']"

definition is_known_metadata_key :: "string \<Rightarrow> bool" where
  "is_known_metadata_key key = (key \<in> set KNOWN_METADATA_KEYS)"

section \<open>Accessors\<close>

definition metadata_vector_layers :: "Metadata \<Rightarrow> VectorLayer list" where
  "metadata_vector_layers m =
     (if md_vector_layers m \<noteq> [] then md_vector_layers m
      else (case md_json m of None \<Rightarrow> [] | Some json \<Rightarrow> mj_vector_layers json))"

definition metadata_tilestats :: "Metadata \<Rightarrow> Tilestats option" where
  "metadata_tilestats m =
     (case md_tilestats m of
        Some t \<Rightarrow> Some t
      | None \<Rightarrow> (case md_json m of None \<Rightarrow> None | Some json \<Rightarrow> mj_tilestats json))"

definition metadata_encoding :: "Metadata \<Rightarrow> string option" where
  "metadata_encoding m =
     (case md_encoding m of
        Some e \<Rightarrow> Some e
      | None \<Rightarrow> (case md_json m of None \<Rightarrow> None | Some json \<Rightarrow> mj_encoding json))"

definition btree_remove :: "'k \<Rightarrow> ('k \<times> 'v) list \<Rightarrow> ('k \<times> 'v) list" where
  "btree_remove k m = filter (\<lambda>(k', v). k' \<noteq> k) m"

definition metadata_other :: "Metadata \<Rightarrow> (string \<times> Value) list" where
  "metadata_other m =
     (let other = (case md_json m of None \<Rightarrow> [] | Some json \<Rightarrow> mj_other json);
          other = btree_extend other (md_other m)
      in fold btree_remove KNOWN_METADATA_KEYS other)"

section \<open>Size estimates\<close>

record TypeSizes =
  size_of_bool :: nat
  size_of_number :: nat
  size_of_string :: nat
  size_of_vec :: nat
  size_of_map :: nat
  size_of_vector_layer :: nat
  size_of_tilestats :: nat
  size_of_tilestats_layer :: nat
  size_of_tilestats_attribute :: nat

definition approx_string :: "TypeSizes \<Rightarrow> string \<Rightarrow> nat" where
  "approx_string sz s = size_of_string sz + length s"

definition approx_optional_string :: "TypeSizes \<Rightarrow> string option \<Rightarrow> nat" where
  "approx_optional_string sz v = (case v of None \<Rightarrow> 0 | Some s \<Rightarrow> approx_string sz s)"

fun approx_json_value_size :: "TypeSizes \<Rightarrow> Value \<Rightarrow> nat" where
  "approx_json_value_size sz Null = size_of_bool sz"
| "approx_json_value_size sz (Bool b) = size_of_bool sz"
| "approx_json_value_size sz (Number n) = size_of_number sz"
| "approx_json_value_size sz (String text) = approx_string sz text"
| "approx_json_value_size sz (Array vs) = size_of_vec sz + (\<Sum>v\<leftarrow>vs. approx_json_value_size sz v)"
| "approx_json_value_size sz (Object kvs) =
     (\<Sum>(key, v)\<leftarrow>kvs. approx_string sz key + approx_json_value_size sz v) + size_of_map sz"

definition approx_metadata_entry_size :: "TypeSizes \<Rightarrow> string \<times> Value \<Rightarrow> nat" where
  "approx_metadata_entry_size sz kv = approx_string sz (fst kv) + approx_json_value_size sz (snd kv)"

definition approx_other_size :: "TypeSizes \<Rightarrow> Metadata \<Rightarrow> nat" where
  "approx_other_size sz m =
     (\<Sum>kv\<leftarrow>filter (\<lambda>(key, v). \<not> is_known_metadata_key key) (md_other m). approx_metadata_entry_size sz kv)
     + (case md_json m of
          None \<Rightarrow> 0
        | Some json \<Rightarrow>
            (\<Sum>kv\<leftarrow>filter (\<lambda>(key, v). \<not> is_known_metadata_key key \<and> key \<notin> fst ` set (md_other m))
                       (mj_other json). approx_metadata_entry_size sz kv))"

definition approx_tilestats_size :: "TypeSizes \<Rightarrow> Tilestats \<Rightarrow> nat" where
  "approx_tilestats_size sz t =
     size_of_tilestats sz
     + (\<Sum>layer\<leftarrow>ts_layers t.
          size_of_tilestats_layer sz + approx_string sz (tl_layer layer)
          + approx_string sz (tl_geometry layer)
          + (\<Sum>attribute\<leftarrow>tl_attributes layer.
               size_of_tilestats_attribute sz + approx_string sz (ta_attribute attribute)
               + approx_string sz (ta_type attribute) + size_of_vec sz
               + (\<Sum>v\<leftarrow>ta_values attribute. approx_json_value_size sz v)))"

definition metadata_approx_byte_size :: "TypeSizes \<Rightarrow> Metadata \<Rightarrow> nat" where
  "metadata_approx_byte_size sz m =
     approx_optional_string sz (md_name m) + approx_optional_string sz (md_description m)
     + approx_optional_string sz (md_attribution m) + approx_optional_string sz (md_version m)
     + approx_optional_string sz (md_encoding m) + approx_other_size sz m
     + (\<Sum>layer\<leftarrow>metadata_vector_layers m.
          size_of_vector_layer sz + approx_string sz (vl_id layer)
          + approx_optional_string sz (vl_description layer)
          + (\<Sum>(key, v)\<leftarrow>vl_fields layer. approx_string sz key + approx_string sz v))
     + (case metadata_tilestats m of None \<Rightarrow> 0 | Some t \<Rightarrow> approx_tilestats_size sz t)"

section \<open>Lenient integers\<close>

datatype IntegerError = InvalidInteger | IntegerOutOfRange | ParseIntError

definition as_i64 :: "Number \<Rightarrow> int option" where
  "as_i64 n =
     (case n of
        PosInt w \<Rightarrow> if unat w \<le> 2 ^ 63 - 1 then Some (int (unat w)) else None
      | NegInt i \<Rightarrow> Some i
      | FloatBits b \<Rightarrow> None)"

text \<open>\<open>str::parse::<i8>\<close>: an optional sign and decimal digits whose value fits.\<close>

definition parse_i8 :: "string \<Rightarrow> int option" where
  "parse_i8 text =
     (let (negative, digits) =
            (case text of
               c # rest \<Rightarrow> if c = CHR ''-'' then (True, rest) else if c = CHR ''+'' then (False, rest)
                           else (False, text)
             | [] \<Rightarrow> (False, []))
      in if digits = [] then None
         else case digits_value 0 digits of
           None \<Rightarrow> None
         | Some n \<Rightarrow>
             (let i = (if negative then - int n else int n)
              in if - 128 \<le> i \<and> i \<le> 127 then Some i else None))"

definition parse_optional_i8 :: "Value option \<Rightarrow> IntegerError + int option" where
  "parse_optional_i8 value =
     (case value of
        None \<Rightarrow> Inr None
      | Some Null \<Rightarrow> Inr None
      | Some (Number number) \<Rightarrow>
          (case as_i64 number of
             None \<Rightarrow> Inl InvalidInteger
           | Some i \<Rightarrow> if - 128 \<le> i \<and> i \<le> 127 then Inr (Some i) else Inl IntegerOutOfRange)
      | Some (String text) \<Rightarrow>
          (case parse_i8 text of Some i \<Rightarrow> Inr (Some i) | None \<Rightarrow> Inl ParseIntError)
      | Some _ \<Rightarrow> Inl InvalidInteger)"

text \<open>
  The nested blob is a document or a string that holds one; \<open>from_value\<close> and \<open>from_str\<close> are the
  derived deserialisers.
\<close>

definition deserialize_optional_metadata_json ::
  "(string \<Rightarrow> MetadataJson option) \<Rightarrow> (Value \<Rightarrow> MetadataJson option) \<Rightarrow> Value option
    \<Rightarrow> MetadataJson option option" where
  "deserialize_optional_metadata_json from_str from_value value =
     (case value of
        None \<Rightarrow> Some None
      | Some Null \<Rightarrow> Some None
      | Some (String text) \<Rightarrow> map_option Some (from_str text)
      | Some v \<Rightarrow> map_option Some (from_value v))"

section \<open>The estimate of the extension fields\<close>

definition metadata_ok :: "Metadata \<Rightarrow> bool" where
  "metadata_ok m = (sorted_wrt (<) (map fst (md_other m))
     \<and> (case md_json m of None \<Rightarrow> True | Some json \<Rightarrow> sorted_wrt (<) (map fst (mj_other json))))"

lemma fold_btree_remove:
  "fold btree_remove ks m = filter (\<lambda>(k, v). k \<notin> set ks) m"
  by (induction ks arbitrary: m) (auto simp: btree_remove_def intro!: filter_cong)

lemma sum_list_keys:
  assumes "distinct (map fst m)"
  shows "(\<Sum>kv\<leftarrow>m. f kv) = (\<Sum>kv\<in>set m. f kv)"
  using assms by (intro sum_list_distinct_conv_sum_set) (simp add: distinct_map)

lemma metadata_other_set:
  assumes "metadata_ok m"
  defines "nested \<equiv> (case md_json m of None \<Rightarrow> [] | Some json \<Rightarrow> mj_other json)"
  shows "distinct (map fst (metadata_other m))"
    and "set (metadata_other m) =
      {kv \<in> set (md_other m). \<not> is_known_metadata_key (fst kv)}
      \<union> {kv \<in> set nested. \<not> is_known_metadata_key (fst kv) \<and> fst kv \<notin> fst ` set (md_other m)}"
proof -
  let ?merged = "btree_extend nested (md_other m)"
  have top: "sorted_wrt (<) (map fst (md_other m))" and nest: "sorted_wrt (<) (map fst nested)"
    using assms by (auto simp: metadata_ok_def split: option.splits)
  note ext = btree_extend_simps [OF nest, of "md_other m"]
  have other: "metadata_other m = filter (\<lambda>(k, v). \<not> is_known_metadata_key k) ?merged"
    by (simp add: metadata_other_def Let_def fold_btree_remove is_known_metadata_key_def nested_def)
  have dist: "distinct (map fst ?merged)" "distinct (map fst (md_other m))" "distinct (map fst nested)"
    using ext(1) top nest by (simp_all add: strict_sorted_iff)
  show "distinct (map fst (metadata_other m))"
    using dist(1) by (simp add: other distinct_map_filter)
  have "map_of (rev (md_other m)) = map_of (md_other m)"
    using dist(2) by (simp add: map_of_inject_set rev_map [symmetric])
  then have merged: "map_of ?merged = map_of nested ++ map_of (md_other m)" using ext(3) by simp
  have mem: "(k, v) \<in> set ?merged \<longleftrightarrow> (k, v) \<in> set (md_other m)
      \<or> (k, v) \<in> set nested \<and> k \<notin> fst ` set (md_other m)" for k v
  proof -
    have "(k, v) \<in> set ?merged \<longleftrightarrow> (map_of nested ++ map_of (md_other m)) k = Some v"
      by (simp only: map_of_eq_Some_iff [OF dist(1), symmetric] merged)
    also have "\<dots> \<longleftrightarrow> map_of (md_other m) k = Some v \<or> map_of (md_other m) k = None \<and> map_of nested k = Some v"
      by (rule map_add_Some_iff)
    finally show ?thesis
      by (simp only: map_of_eq_Some_iff [OF dist(2)] map_of_eq_Some_iff [OF dist(3)]
          map_of_eq_None_iff conj_commute)
  qed
  show "set (metadata_other m) =
      {kv \<in> set (md_other m). \<not> is_known_metadata_key (fst kv)}
      \<union> {kv \<in> set nested. \<not> is_known_metadata_key (fst kv) \<and> fst kv \<notin> fst ` set (md_other m)}"
    by (rule set_eqI) (simp only: other set_filter mem mem_Collect_eq split_paired_all Un_iff
        prod.case fst_conv, blast)
qed

text \<open>
  The estimate of the extension fields, which never builds the merged map, is the sum over the
  entries of the map \<open>other()\<close> returns: a top-level field hides the nested field of the same name, and
  no known key counts.
\<close>

theorem approx_other_size_exact:
  assumes "metadata_ok m"
  shows "approx_other_size sz m = (\<Sum>kv\<leftarrow>metadata_other m. approx_metadata_entry_size sz kv)"
proof -
  let ?size = "approx_metadata_entry_size sz" and ?top = "md_other m"
  let ?nested = "case md_json m of None \<Rightarrow> [] | Some json \<Rightarrow> mj_other json"
  let ?A = "filter (\<lambda>(key, v). \<not> is_known_metadata_key key) ?top"
  let ?B = "filter (\<lambda>(key, v). \<not> is_known_metadata_key key \<and> key \<notin> fst ` set ?top) ?nested"
  have dist: "distinct (map fst ?A)" "distinct (map fst ?B)"
    using assms by (auto simp: metadata_ok_def strict_sorted_iff distinct_map_filter split: option.splits)
  have "(\<Sum>kv\<leftarrow>metadata_other m. ?size kv) = (\<Sum>kv\<in>set (metadata_other m). ?size kv)"
    by (rule sum_list_keys [OF metadata_other_set(1) [OF assms]])
  also have "set (metadata_other m) = set ?A \<union> set ?B"
    by (simp only: metadata_other_set(2) [OF assms] set_filter case_prod_beta)
  also have "(\<Sum>kv\<in>set ?A \<union> set ?B. ?size kv) = (\<Sum>kv\<in>set ?A. ?size kv) + (\<Sum>kv\<in>set ?B. ?size kv)"
    by (rule sum.union_disjoint) force+
  also have "\<dots> = (\<Sum>kv\<leftarrow>?A. ?size kv) + (\<Sum>kv\<leftarrow>?B. ?size kv)"
    by (simp only: sum_list_keys [OF dist(1)] sum_list_keys [OF dist(2)])
  also have "\<dots> = approx_other_size sz m" by (simp add: approx_other_size_def split: option.splits)
  finally show ?thesis by simp
qed

definition example_metadata :: Metadata where
  "example_metadata = metadata_default
     \<lparr>md_other := [(''custom'', String ''top''), (''format'', String ''pbf'')],
      md_json := Some \<lparr>mj_encoding = None, mj_vector_layers = [], mj_tilestats = None,
        mj_other = [(''custom'', String ''nested''), (''nested_only'', Bool True)]\<rparr>\<rparr>"

definition example_sizes :: TypeSizes where
  "example_sizes = \<lparr>size_of_bool = 1, size_of_number = 16, size_of_string = 24, size_of_vec = 24,
     size_of_map = 24, size_of_vector_layer = 80, size_of_tilestats = 32,
     size_of_tilestats_layer = 80, size_of_tilestats_attribute = 112\<rparr>"

theorem approx_other_size_exact_witness:
  "map fst (metadata_other example_metadata) = [''custom'', ''nested_only'']
   \<and> approx_other_size example_sizes example_metadata =
       (\<Sum>kv\<leftarrow>metadata_other example_metadata. approx_metadata_entry_size example_sizes kv)"
proof -
  have "metadata_ok example_metadata" by code_simp
  from approx_other_size_exact [OF this] have
    "approx_other_size example_sizes example_metadata =
       (\<Sum>kv\<leftarrow>metadata_other example_metadata. approx_metadata_entry_size example_sizes kv)" .
  moreover have "map fst (metadata_other example_metadata) = [''custom'', ''nested_only'']" by code_simp
  ultimately show ?thesis by blast
qed

end
