(* ===== verification/Pmtiles_Reader.thy ===== *)
theory Pmtiles_Reader
  imports Pmtiles_Directory Pmtiles_Metadata "HOL-Library.State_Monad"
begin

text \<open>
  The archive reader, \<^verbatim>\<open>crates/mmpf-pmtiles/src/reader.rs\<close>: the walk from a tile id through the
  directory tree to a byte range, over an injected backend, and the backend that reads ranges of a
  source and keeps decoded directories in a store.  Operations run in the state monad of
  \<^theory_text>\<open>State_Monad\<close> and answer with a sum, \<open>Inl\<close> the error.  The source's answer to its \<open>n\<close>-th request
  and the store's implementation are parameters.  The loop of the walk ends because each leaf uses
  one of the levels that the limit allows.
\<close>

section \<open>Fallible operations\<close>

type_synonym ('st, 'e, 'a) attempt = "('st, 'e + 'a) state"

definition attempt_bind :: "('st, 'e, 'a) attempt \<Rightarrow> ('a \<Rightarrow> ('st, 'e, 'b) attempt) \<Rightarrow> ('st, 'e, 'b) attempt" where
  "attempt_bind m f = do {
     r \<leftarrow> m;
     (case r of Inl e \<Rightarrow> State_Monad.return (Inl e) | Inr a \<Rightarrow> f a) }"

definition ok :: "'a \<Rightarrow> ('st, 'e, 'a) attempt" where
  "ok a = State_Monad.return (Inr a)"

definition err :: "'e \<Rightarrow> ('st, 'e, 'a) attempt" where
  "err e = State_Monad.return (Inl e)"

fun map_err :: "('e \<Rightarrow> 'f) \<Rightarrow> 'e + 'a \<Rightarrow> 'f + 'a" where
  "map_err f (Inl e) = Inl (f e)"
| "map_err f (Inr a) = Inr a"

section \<open>Requests, bootstraps, limits\<close>

record ArchiveIdentity =
  ai_name :: string
  ai_generation :: string

datatype ArchiveIdentityError = EmptyName | EmptyGeneration

definition archive_identity_new :: "string \<Rightarrow> string \<Rightarrow> ArchiveIdentityError + ArchiveIdentity" where
  "archive_identity_new name generation =
     (if name = [] then Inl EmptyName
      else if generation = [] then Inl EmptyGeneration
      else Inr \<lparr>ai_name = name, ai_generation = generation\<rparr>)"

datatype ReadKind = BootstrapRead | MetadataRead | LeafDirectoryRead | TileRead

record ReadRequest =
  rr_offset :: u64
  rr_length :: nat
  rr_archive_len :: "u64 option"
  rr_kind :: ReadKind

record ArchiveBootstrap =
  ab_header :: Header
  ab_root :: Directory
  ab_metadata :: "Metadata option"
  ab_archive_len :: u64

record LeafDirectoryKey =
  lk_archive :: ArchiveIdentity
  lk_offset :: u64
  lk_length :: u32

datatype ReaderEvent =
    CacheHit ReadKind u64 | ReadStarted ReadRequest | ReadCompleted ReadRequest nat
  | ShortRead ReadRequest nat | ReadFailed ReadRequest | DirectoryDecoded ReadKind nat

definition MIN_BOOTSTRAP_BYTES :: nat where "MIN_BOOTSTRAP_BYTES = 16384"
definition DEFAULT_MAX_DIRECTORY_DEPTH :: u8 where "DEFAULT_MAX_DIRECTORY_DEPTH = 64"
definition DEFAULT_MAX_DECOMPRESSED_BYTES :: nat where
  "DEFAULT_MAX_DECOMPRESSED_BYTES = 64 * 1024 * 1024"

record ReaderLimits =
  bootstrap_bytes :: nat
  max_range_bytes :: nat
  max_directory_depth :: u8
  max_decompressed_directory_bytes :: nat
  max_decompressed_metadata_bytes :: nat

definition reader_limits_default :: ReaderLimits where
  "reader_limits_default =
     \<lparr>bootstrap_bytes = MIN_BOOTSTRAP_BYTES, max_range_bytes = 64 * 1024 * 1024,
      max_directory_depth = DEFAULT_MAX_DIRECTORY_DEPTH,
      max_decompressed_directory_bytes = DEFAULT_MAX_DECOMPRESSED_BYTES,
      max_decompressed_metadata_bytes = DEFAULT_MAX_DECOMPRESSED_BYTES\<rparr>"

datatype ReaderConfigError =
  BootstrapTooSmall | ZeroDirectoryDepth | RangeBelowBootstrap | ZeroDecompressedLimit

definition validate_limits :: "ReaderLimits \<Rightarrow> ReaderConfigError + unit" where
  "validate_limits l =
     (if bootstrap_bytes l < MIN_BOOTSTRAP_BYTES then Inl BootstrapTooSmall
      else if max_directory_depth l = 0 then Inl ZeroDirectoryDepth
      else if max_range_bytes l < bootstrap_bytes l then Inl RangeBelowBootstrap
      else if max_decompressed_directory_bytes l = 0 \<or> max_decompressed_metadata_bytes l = 0
      then Inl ZeroDecompressedLimit
      else Inr ())"

datatype 'e ReaderError = Source 'e | InvalidTileIdError PmtilesError | InvalidArchive PmtilesError

record TileLocation =
  loc_offset :: u64
  loc_length :: u32
  loc_archive_len :: u64

record ArchiveRange =
  ar_offset :: u64
  ar_length :: u32

record TileLookupTrace =
  tlt_bootstrap :: ArchiveRange
  tlt_leaves :: "ArchiveRange list"
  tlt_tile :: "TileLocation option"
  tlt_archive_len :: u64

record LeafDirectoryRequest =
  lr_offset :: u64
  lr_length :: u32
  lr_compression :: Compression
  lr_archive_len :: u64

record TileData =
  td_bytes :: bytes
  td_content_type :: string
  td_content_encoding :: "string option"

section \<open>Decoding the bootstrap\<close>

definition archive_len :: "Header \<Rightarrow> PmtilesError + u64" where
  "archive_len h =
     foldl (\<lambda>acc (offset, len).
              try_bind acc (\<lambda>e. try_bind (ok_or RangeOverflow (checked_add_u64 offset len))
                (\<lambda>section_end. Inr (max e section_end))))
       (Inr 0)
       [(h_root_offset h, h_root_length h), (h_metadata_offset h, h_metadata_length h),
        (h_leaf_offset h, h_leaf_length h), (h_data_offset h, h_data_length h)]"

definition archive_bootstrap_new ::
  "Header \<Rightarrow> Directory \<Rightarrow> Metadata option \<Rightarrow> PmtilesError + ArchiveBootstrap" where
  "archive_bootstrap_new header root_dir metadata =
     try_bind (archive_len header) (\<lambda>len.
       Inr \<lparr>ab_header = header, ab_root = root_dir, ab_metadata = metadata, ab_archive_len = len\<rparr>)"

definition decode_bootstrap_bytes :: "decoders \<Rightarrow> bytes \<Rightarrow> nat \<Rightarrow> PmtilesError + ArchiveBootstrap" where
  "decode_bootstrap_bytes dec body max_bytes =
     (if length body < HEADER_SIZE then Inl ArchiveHeaderTruncated
      else
        try_bind (header_parse (take HEADER_SIZE body)) (\<lambda>header.
          (let root_start = unat (h_root_offset header); root_length = unat (h_root_length header)
           in if root_start + root_length > usize_max then Inl InvalidRootRange
              else if root_start + root_length > length body then Inl RootOutsideBootstrap
              else
                try_bind (directory_parse_with_limit dec (h_internal_compression header)
                            (take root_length (drop root_start body)) max_bytes)
                  (\<lambda>root_dir. archive_bootstrap_new header root_dir None))))"

definition decode_metadata_bytes ::
  "decoders \<Rightarrow> (bytes \<Rightarrow> Metadata option) \<Rightarrow> Header \<Rightarrow> bytes \<Rightarrow> nat \<Rightarrow> PmtilesError + Metadata" where
  "decode_metadata_bytes dec from_slice header bytes0 max_decompressed_bytes =
     try_bind (decompress_bytes_with_limit dec (h_internal_compression header) bytes0 max_decompressed_bytes)
       (\<lambda>json. ok_or InvalidMetadataJson (from_slice json))"

definition checked_section_offset :: "u64 \<Rightarrow> u64 \<Rightarrow> u64 \<Rightarrow> u64 \<Rightarrow> PmtilesError + u64" where
  "checked_section_offset section_offset section_length relative_offset len =
     try_bind (ok_or EntryRangeOverflow (checked_add_u64 relative_offset len)) (\<lambda>relative_end.
       if relative_end > section_length then Inl EntryOutsideSection
       else ok_or AbsoluteOffsetOverflow (checked_add_u64 section_offset relative_offset))"

section \<open>The directory walker\<close>

datatype DirectoryStep = Missing | Leaf ArchiveRange | Tile TileLocation

record DirectoryWalker =
  dw_header :: Header
  dw_archive_len :: u64
  dw_tile_id :: TileId
  dw_depth :: u8
  dw_max_depth :: u8

definition directory_walker_new :: "Header \<Rightarrow> TileId \<Rightarrow> u8 \<Rightarrow> PmtilesError + DirectoryWalker" where
  "directory_walker_new header tile_id max_depth =
     (if max_depth = 0 then Inl ZeroDepthLimit
      else
        try_bind (archive_len header) (\<lambda>len.
          Inr \<lparr>dw_header = header, dw_archive_len = len, dw_tile_id = tile_id, dw_depth = 0,
               dw_max_depth = max_depth\<rparr>))"

definition walker_step :: "DirectoryWalker \<Rightarrow> Directory \<Rightarrow> PmtilesError + DirectoryStep \<times> DirectoryWalker" where
  "walker_step w directory =
     (case find_tile_id directory (dw_tile_id w) of
        None \<Rightarrow> Inr (Missing, w)
      | Some (i, entry) \<Rightarrow>
          if is_leaf entry then
            (if dw_depth w \<ge> dw_max_depth w then Inl (DepthExceeded (dw_max_depth w))
             else
               try_bind (checked_section_offset (h_leaf_offset (dw_header w)) (h_leaf_length (dw_header w))
                           (e_offset entry) (ucast (e_length entry))) (\<lambda>offset.
                 Inr (Leaf \<lparr>ar_offset = offset, ar_length = e_length entry\<rparr>, w\<lparr>dw_depth := dw_depth w + 1\<rparr>)))
          else
            try_bind (checked_section_offset (h_data_offset (dw_header w)) (h_data_length (dw_header w))
                        (e_offset entry) (ucast (e_length entry))) (\<lambda>offset.
              Inr (Tile \<lparr>loc_offset = offset, loc_length = e_length entry,
                         loc_archive_len = dw_archive_len w\<rparr>, w)))"

lemma walker_step_leaf:
  assumes "walker_step w d = Inr (Leaf rng, w')"
  shows "w' = w\<lparr>dw_depth := dw_depth w + 1\<rparr> \<and> dw_depth w < dw_max_depth w"
  using assms by (auto simp: walker_step_def try_bind_Inr split: option.splits if_splits)

section \<open>The reader over a backend\<close>

record ('st, 'e) ArchiveBackend =
  load_bootstrap :: "('st, 'e, ArchiveBootstrap) attempt"
  load_metadata :: "('st, 'e, Metadata) attempt"
  load_leaf :: "LeafDirectoryRequest \<Rightarrow> ('st, 'e, Directory) attempt"
  read_range :: "ReadRequest \<Rightarrow> ('st, 'e, bytes) attempt"
  invalid_tile_id :: "PmtilesError \<Rightarrow> 'e"
  invalid_archive :: "PmtilesError \<Rightarrow> 'e"

record ('st, 'e) ArchiveReader =
  r_backend :: "('st, 'e) ArchiveBackend"
  r_limits :: ReaderLimits

definition with_backend :: "('st, 'e) ArchiveBackend \<Rightarrow> ReaderLimits \<Rightarrow> ReaderConfigError + ('st, 'e) ArchiveReader" where
  "with_backend backend limits =
     try_bind (validate_limits limits) (\<lambda>_. Inr \<lparr>r_backend = backend, r_limits = limits\<rparr>)"

definition reader_header :: "('st, 'e) ArchiveReader \<Rightarrow> ('st, 'e, Header) attempt" where
  "reader_header r = attempt_bind (load_bootstrap (r_backend r)) (\<lambda>b. ok (ab_header b))"

definition reader_metadata :: "('st, 'e) ArchiveReader \<Rightarrow> ('st, 'e, Metadata) attempt" where
  "reader_metadata r = load_metadata (r_backend r)"

definition check_range :: "('st, 'e) ArchiveReader \<Rightarrow> u64 \<Rightarrow> u32 \<Rightarrow> 'e + unit" where
  "check_range r offset len =
     (if unat len > max_range_bytes (r_limits r) then
        Inl (invalid_archive (r_backend r) (RangeTooLong (unat len)))
      else if checked_add_u64 offset (ucast len) = None then
        Inl (invalid_archive (r_backend r) (RangeAddressOverflow offset (unat len)))
      else Inr ())"

text \<open>The loop; \<open>leaves\<close> collects the ranges of the leaves it loads.\<close>

function walk ::
  "('st, 'e) ArchiveReader \<Rightarrow> ArchiveBootstrap \<Rightarrow> DirectoryWalker \<Rightarrow> Directory \<Rightarrow> ArchiveRange list
    \<Rightarrow> ('st, 'e, (TileLocation option \<times> Header \<times> u64) \<times> ArchiveRange list) attempt" where
  "walk r bootstrap walker directory leaves =
     (case map_err (invalid_archive (r_backend r)) (walker_step walker directory) of
        Inl e \<Rightarrow> err e
      | Inr (Missing, walker') \<Rightarrow> ok ((None, ab_header bootstrap, ab_archive_len bootstrap), leaves)
      | Inr (Tile location, walker') \<Rightarrow>
          ok ((Some location, ab_header bootstrap, ab_archive_len bootstrap), leaves)
      | Inr (Leaf rng, walker') \<Rightarrow>
          (case check_range r (ar_offset rng) (ar_length rng) of
             Inl e \<Rightarrow> err e
           | Inr _ \<Rightarrow>
               attempt_bind
                 (load_leaf (r_backend r)
                    \<lparr>lr_offset = ar_offset rng, lr_length = ar_length rng,
                     lr_compression = h_internal_compression (ab_header bootstrap),
                     lr_archive_len = ab_archive_len bootstrap\<rparr>)
                 (\<lambda>leaf. walk r bootstrap walker' leaf (leaves @ [rng]))))"
  by pat_completeness auto

lemma map_err_Inr [simp]: "map_err f m = Inr a \<longleftrightarrow> m = Inr a"
  by (cases m) auto

termination walk
proof (relation "measure (\<lambda>(r, b, w, d, leaves). unat (dw_max_depth w) - unat (dw_depth w))", goal_cases)
  case (2 r b w d leaves x step w' rng)
  then have "w' = w\<lparr>dw_depth := dw_depth w + 1\<rparr>" and less: "dw_depth w < dw_max_depth w"
    using walker_step_leaf [of w d rng w'] by auto
  moreover have "unat (dw_depth w + 1) = unat (dw_depth w) + 1"
    using less unat_u8_less [of "dw_max_depth w"] by (simp add: unat_word_ariths word_less_nat_alt)
  ultimately show ?case by (simp add: word_less_nat_alt)
qed simp

declare walk.simps [simp del]

definition resolve_tile_location ::
  "('st, 'e) ArchiveReader \<Rightarrow> u64
    \<Rightarrow> ('st, 'e, (TileLocation option \<times> Header \<times> u64) \<times> ArchiveRange list) attempt" where
  "resolve_tile_location r tile_id0 =
     (case map_err (invalid_tile_id (r_backend r)) (tile_id_new tile_id0) of
        Inl e \<Rightarrow> err e
      | Inr tile_id \<Rightarrow>
          attempt_bind (load_bootstrap (r_backend r)) (\<lambda>bootstrap.
            case map_err (invalid_archive (r_backend r))
                   (directory_walker_new (ab_header bootstrap) tile_id (max_directory_depth (r_limits r))) of
              Inl e \<Rightarrow> err e
            | Inr walker \<Rightarrow> walk r bootstrap walker (ab_root bootstrap) []))"

definition lookup_with_trace :: "('st, 'e) ArchiveReader \<Rightarrow> u64 \<Rightarrow> ('st, 'e, TileLookupTrace) attempt" where
  "lookup_with_trace r tile_id =
     attempt_bind (resolve_tile_location r tile_id) (\<lambda>((tile, header, len), leaves).
       ok \<lparr>tlt_bootstrap = \<lparr>ar_offset = 0,
             ar_length = (if bootstrap_bytes (r_limits r) \<le> u32_max
                          then word_of_nat (bootstrap_bytes (r_limits r)) else - 1)\<rparr>,
           tlt_leaves = leaves, tlt_tile = tile, tlt_archive_len = len\<rparr>)"

definition get_tile :: "('st, 'e) ArchiveReader \<Rightarrow> u64 \<Rightarrow> ('st, 'e, TileData option) attempt" where
  "get_tile r tile_id =
     attempt_bind (resolve_tile_location r tile_id) (\<lambda>((location, header, len), leaves).
       case location of
         None \<Rightarrow> ok None
       | Some location \<Rightarrow>
           (case check_range r (loc_offset location) (loc_length location) of
              Inl e \<Rightarrow> err e
            | Inr _ \<Rightarrow>
                attempt_bind
                  (read_range (r_backend r)
                     \<lparr>rr_offset = loc_offset location, rr_length = unat (loc_length location),
                      rr_archive_len = Some (loc_archive_len location), rr_kind = TileRead\<rparr>)
                  (\<lambda>bytes0. ok (Some \<lparr>td_bytes = bytes0,
                     td_content_type = tile_content_type (h_tile_type header),
                     td_content_encoding = content_encoding (h_tile_compression header)\<rparr>))))"

section \<open>The range backend\<close>

text \<open>
  The interface of a directory store (\<open>DirectoryStore\<close>); a read may change the store, as recency
  does.
\<close>

record 's DirectoryStore =
  get_bootstrap :: "ArchiveIdentity \<Rightarrow> 's \<Rightarrow> ArchiveBootstrap option \<times> 's"
  put_bootstrap :: "ArchiveIdentity \<Rightarrow> ArchiveBootstrap \<Rightarrow> 's \<Rightarrow> 's"
  get_leaf :: "LeafDirectoryKey \<Rightarrow> 's \<Rightarrow> Directory option \<times> 's"
  put_leaf :: "LeafDirectoryKey \<Rightarrow> Directory \<Rightarrow> 's \<Rightarrow> 's"

definition no_directory_store :: "unit DirectoryStore" where
  "no_directory_store =
     \<lparr>get_bootstrap = (\<lambda>archive s. (None, s)), put_bootstrap = (\<lambda>archive b s. s),
      get_leaf = (\<lambda>key s. (None, s)), put_leaf = (\<lambda>key d s. s)\<rparr>"

text \<open>The state of a reader: the store, the requests sent to the source, the events observed.\<close>

record 's ReaderState =
  rs_store :: 's
  rs_calls :: nat
  rs_events :: "ReaderEvent list"

text \<open>
  \<open>rb_source n request\<close> is the source's answer to its \<open>n\<close>-th request; the decompressors and the JSON
  parser are libraries.
\<close>

record ('s, 'e) RangeArchiveBackend =
  rb_source :: "nat \<Rightarrow> ReadRequest \<Rightarrow> 'e + bytes"
  rb_identity :: ArchiveIdentity
  rb_directories :: "'s DirectoryStore"
  rb_limits :: ReaderLimits
  rb_decoders :: decoders
  rb_from_slice :: "bytes \<Rightarrow> Metadata option"

type_synonym ('s, 'e, 'a) reading = "('s ReaderState, 'e ReaderError, 'a) attempt"

definition observed :: "ReaderEvent \<Rightarrow> ('s, 'e, unit) reading" where
  "observed event = do {
     State_Monad.update (\<lambda>s. s\<lparr>rs_events := rs_events s @ [event]\<rparr>);
     State_Monad.return (Inr ()) }"

definition from_store :: "('s \<Rightarrow> 'a option \<times> 's) \<Rightarrow> ('s, 'e, 'a option) reading" where
  "from_store f = do {
     s \<leftarrow> State_Monad.get;
     (case f (rs_store s) of (found, store) \<Rightarrow> do {
        State_Monad.set (s\<lparr>rs_store := store\<rparr>);
        State_Monad.return (Inr found) }) }"

definition to_store :: "('s \<Rightarrow> 's) \<Rightarrow> ('s, 'e, unit) reading" where
  "to_store f = do {
     State_Monad.update (\<lambda>s. s\<lparr>rs_store := f (rs_store s)\<rparr>);
     State_Monad.return (Inr ()) }"

definition ask_source :: "('s, 'e) RangeArchiveBackend \<Rightarrow> ReadRequest \<Rightarrow> ('s, 'e, 'e + bytes) reading" where
  "ask_source b request = do {
     s \<leftarrow> State_Monad.get;
     State_Monad.set (s\<lparr>rs_calls := rs_calls s + 1\<rparr>);
     State_Monad.return (Inr (rb_source b (rs_calls s) request)) }"

definition range_read_range :: "('s, 'e) RangeArchiveBackend \<Rightarrow> ReadRequest \<Rightarrow> ('s, 'e, bytes) reading" where
  "range_read_range b request =
     (if rr_length request > max_range_bytes (rb_limits b) then
        err (InvalidArchive (ReadTooLong (rr_length request)))
      else
        attempt_bind (observed (ReadStarted request)) (\<lambda>_.
        attempt_bind (ask_source b request) (\<lambda>answer.
          case answer of
            Inr bytes0 \<Rightarrow>
              if rr_kind request \<noteq> BootstrapRead \<and> length bytes0 \<noteq> rr_length request then
                attempt_bind (observed (ShortRead request (length bytes0))) (\<lambda>_.
                  err (InvalidArchive (ShortReadError (rr_offset request) (rr_length request) (length bytes0))))
              else
                attempt_bind (observed (ReadCompleted request (length bytes0))) (\<lambda>_. ok bytes0)
          | Inl e \<Rightarrow> attempt_bind (observed (ReadFailed request)) (\<lambda>_. err (Source e)))))"

definition range_load_bootstrap :: "('s, 'e) RangeArchiveBackend \<Rightarrow> ('s, 'e, ArchiveBootstrap) reading" where
  "range_load_bootstrap b =
     attempt_bind (from_store (get_bootstrap (rb_directories b) (rb_identity b))) (\<lambda>cached.
       case cached of
         Some bootstrap \<Rightarrow> attempt_bind (observed (CacheHit BootstrapRead 0)) (\<lambda>_. ok bootstrap)
       | None \<Rightarrow>
           attempt_bind (range_read_range b
               \<lparr>rr_offset = 0, rr_length = bootstrap_bytes (rb_limits b), rr_archive_len = None,
                rr_kind = BootstrapRead\<rparr>) (\<lambda>bytes0.
             case map_err InvalidArchive
                    (decode_bootstrap_bytes (rb_decoders b) bytes0
                       (max_decompressed_directory_bytes (rb_limits b))) of
               Inl e \<Rightarrow> err e
             | Inr bootstrap \<Rightarrow>
                 attempt_bind (observed (DirectoryDecoded BootstrapRead (length (ab_root bootstrap)))) (\<lambda>_.
                 attempt_bind (to_store (put_bootstrap (rb_directories b) (rb_identity b) bootstrap)) (\<lambda>_.
                   ok bootstrap))))"

definition range_load_metadata :: "('s, 'e) RangeArchiveBackend \<Rightarrow> ('s, 'e, Metadata) reading" where
  "range_load_metadata b =
     attempt_bind (range_load_bootstrap b) (\<lambda>bootstrap.
       case ab_metadata bootstrap of
         Some metadata \<Rightarrow>
           attempt_bind (observed (CacheHit MetadataRead (h_metadata_offset (ab_header bootstrap)))) (\<lambda>_.
             ok metadata)
       | None \<Rightarrow>
           attempt_bind
             (if h_metadata_length (ab_header bootstrap) = 0 then ok metadata_default
              else
                attempt_bind (range_read_range b
                    \<lparr>rr_offset = h_metadata_offset (ab_header bootstrap),
                     rr_length = unat (h_metadata_length (ab_header bootstrap)),
                     rr_archive_len = Some (ab_archive_len bootstrap), rr_kind = MetadataRead\<rparr>) (\<lambda>bytes0.
                  State_Monad.return (map_err InvalidArchive
                    (decode_metadata_bytes (rb_decoders b) (rb_from_slice b) (ab_header bootstrap) bytes0
                       (max_decompressed_metadata_bytes (rb_limits b))))))
             (\<lambda>metadata.
                attempt_bind (to_store (put_bootstrap (rb_directories b) (rb_identity b)
                    (bootstrap\<lparr>ab_metadata := Some metadata\<rparr>))) (\<lambda>_. ok metadata)))"

definition range_load_leaf ::
  "('s, 'e) RangeArchiveBackend \<Rightarrow> LeafDirectoryRequest \<Rightarrow> ('s, 'e, Directory) reading" where
  "range_load_leaf b request =
     (let key = \<lparr>lk_archive = rb_identity b, lk_offset = lr_offset request, lk_length = lr_length request\<rparr>
      in attempt_bind (from_store (get_leaf (rb_directories b) key)) (\<lambda>cached.
           case cached of
             Some directory \<Rightarrow>
               attempt_bind (observed (CacheHit LeafDirectoryRead (lr_offset request))) (\<lambda>_. ok directory)
           | None \<Rightarrow>
               attempt_bind (range_read_range b
                   \<lparr>rr_offset = lr_offset request, rr_length = unat (lr_length request),
                    rr_archive_len = Some (lr_archive_len request), rr_kind = LeafDirectoryRead\<rparr>) (\<lambda>bytes0.
                 case map_err InvalidArchive
                        (directory_parse_with_limit (rb_decoders b) (lr_compression request) bytes0
                           (max_decompressed_directory_bytes (rb_limits b))) of
                   Inl e \<Rightarrow> err e
                 | Inr directory \<Rightarrow>
                     attempt_bind (observed (DirectoryDecoded LeafDirectoryRead (length directory))) (\<lambda>_.
                     attempt_bind (to_store (put_leaf (rb_directories b) key directory)) (\<lambda>_.
                       ok directory)))))"

definition range_backend :: "('s, 'e) RangeArchiveBackend \<Rightarrow> ('s ReaderState, 'e ReaderError) ArchiveBackend" where
  "range_backend b =
     \<lparr>load_bootstrap = range_load_bootstrap b, load_metadata = range_load_metadata b,
      load_leaf = range_load_leaf b, read_range = range_read_range b,
      invalid_tile_id = InvalidTileIdError, invalid_archive = InvalidArchive\<rparr>"

definition reader_with_components ::
  "('s, 'e) RangeArchiveBackend
    \<Rightarrow> ReaderConfigError + ('s ReaderState, 'e ReaderError) ArchiveReader" where
  "reader_with_components b =
     try_bind (validate_limits (rb_limits b)) (\<lambda>_.
       Inr \<lparr>r_backend = range_backend b, r_limits = rb_limits b\<rparr>)"

end
