(* ===== verification/Pmtiles_Archive.thy ===== *)
theory Pmtiles_Archive
  imports Pmtiles_Reader
begin

text \<open>
  What a lookup returns.  The tile of an archive is a function of its bytes: the relation
  \<open>resolves\<close> follows the directory tree.  A reader whose source answers with bytes of the archive or
  an error, over any store that returns only what was put, answers with that tile; it fails only
  when the source does or when the archive has no tile within the limits.
\<close>

section \<open>Triples of fallible operations\<close>

definition valid ::
  "('st \<Rightarrow> bool) \<Rightarrow> ('st, 'e, 'a) attempt \<Rightarrow> ('a \<Rightarrow> 'st \<Rightarrow> bool) \<Rightarrow> ('e \<Rightarrow> 'st \<Rightarrow> bool) \<Rightarrow> bool" where
  "valid P m Q E = (\<forall>s r s'. P s \<longrightarrow> run_state m s = (r, s')
     \<longrightarrow> (case r of Inl e \<Rightarrow> E e s' | Inr a \<Rightarrow> Q a s'))"

lemma validI:
  "(\<And>s r s'. P s \<Longrightarrow> run_state m s = (r, s') \<Longrightarrow> case r of Inl e \<Rightarrow> E e s' | Inr a \<Rightarrow> Q a s') \<Longrightarrow> valid P m Q E"
  by (simp add: valid_def)

lemma validD:
  "valid P m Q E \<Longrightarrow> P s \<Longrightarrow> run_state m s = (r, s') \<Longrightarrow> case r of Inl e \<Rightarrow> E e s' | Inr a \<Rightarrow> Q a s'"
  by (simp add: valid_def)

lemma valid_ok: "(\<And>s. P s \<Longrightarrow> Q a s) \<Longrightarrow> valid P (ok a) Q E"
  by (auto simp: valid_def ok_def State_Monad.return_def)

lemma valid_err: "(\<And>s. P s \<Longrightarrow> E e s) \<Longrightarrow> valid P (err e) Q E"
  by (auto simp: valid_def err_def State_Monad.return_def)

lemma valid_return:
  "(\<And>s. P s \<Longrightarrow> case r of Inl e \<Rightarrow> E e s | Inr a \<Rightarrow> Q a s) \<Longrightarrow> valid P (State_Monad.return r) Q E"
  by (auto simp: valid_def State_Monad.return_def)

lemma valid_bind:
  assumes "valid P m R E" and "\<And>a. valid (R a) (f a) Q E"
  shows "valid P (attempt_bind m f) Q E"
proof (rule validI)
  fix s r s' assume P: "P s" and run: "run_state (attempt_bind m f) s = (r, s')"
  obtain r1 s1 where m: "run_state m s = (r1, s1)" by fastforce
  from validD [OF assms(1) P m] run m validD [OF assms(2)]
  show "case r of Inl e \<Rightarrow> E e s' | Inr a \<Rightarrow> Q a s'"
    by (cases r1) (auto simp: attempt_bind_def State_Monad.bind_def State_Monad.return_def)
qed

lemma valid_pre: "valid P m Q E \<Longrightarrow> (\<And>s. P' s \<Longrightarrow> P s) \<Longrightarrow> valid P' m Q E"
  by (auto simp: valid_def)

lemma valid_post:
  "valid P m Q E \<Longrightarrow> (\<And>a s. Q a s \<Longrightarrow> Q' a s) \<Longrightarrow> (\<And>e s. E e s \<Longrightarrow> E' e s) \<Longrightarrow> valid P m Q' E'"
  unfolding valid_def by (metis (mono_tags, lifting) old.sum.simps sumE)

lemma valid_bind_law:
  assumes "valid P m R E'" and "\<And>e s. E' e s \<Longrightarrow> E e s" and "\<And>a. valid (R a) (f a) Q E"
  shows "valid P (attempt_bind m f) Q E"
  by (rule valid_bind [OF valid_post [OF assms(1) _ assms(2)] assms(3)])

lemma valid_pure: "(G \<Longrightarrow> valid P m Q E) \<Longrightarrow> valid (\<lambda>s. G \<and> P s) m Q E"
  by (auto simp: valid_def)

text \<open>Runs of the primitives.\<close>

named_theorems reading_runs

lemma run_attempt_bind [reading_runs]:
  "run_state (attempt_bind m f) s =
     (case run_state m s of (Inl e, s') \<Rightarrow> (Inl e, s') | (Inr a, s') \<Rightarrow> run_state (f a) s')"
  by (auto simp: attempt_bind_def State_Monad.bind_def State_Monad.return_def split: prod.splits sum.splits)

lemma run_ok [reading_runs]: "run_state (ok a) s = (Inr a, s)"
  by (simp add: ok_def State_Monad.return_def)

lemma run_err [reading_runs]: "run_state (err e) s = (Inl e, s)"
  by (simp add: err_def State_Monad.return_def)

lemma run_return [reading_runs]: "run_state (State_Monad.return r) s = (r, s)"
  by (simp add: State_Monad.return_def)

lemma run_observed [reading_runs]: "run_state (observed ev) s = (Inr (), s\<lparr>rs_events := rs_events s @ [ev]\<rparr>)"
  by (simp add: observed_def State_Monad.bind_def State_Monad.return_def
      State_Monad.update_def State_Monad.get_def State_Monad.set_def)

lemma run_to_store [reading_runs]: "run_state (to_store f) s = (Inr (), s\<lparr>rs_store := f (rs_store s)\<rparr>)"
  by (simp add: to_store_def State_Monad.bind_def State_Monad.return_def
      State_Monad.update_def State_Monad.get_def State_Monad.set_def)

lemma run_from_store [reading_runs]:
  "run_state (from_store f) s = (case f (rs_store s) of (r, st) \<Rightarrow> (Inr r, s\<lparr>rs_store := st\<rparr>))"
  by (simp add: from_store_def State_Monad.bind_def State_Monad.return_def
      State_Monad.get_def State_Monad.set_def split: prod.splits)

lemma run_ask_source [reading_runs]:
  "run_state (ask_source b req) s = (Inr (rb_source b (rs_calls s) req), s\<lparr>rs_calls := rs_calls s + 1\<rparr>)"
  by (simp add: ask_source_def State_Monad.bind_def State_Monad.return_def
      State_Monad.get_def State_Monad.set_def)

section \<open>The tile of an archive\<close>

definition in_section :: "u64 \<Rightarrow> DirectoryEntry \<Rightarrow> bool" where
  "in_section section_length e = (unat (e_offset e) + unat (e_length e) \<le> unat section_length)"

inductive resolves ::
  "(u64 \<Rightarrow> u32 \<Rightarrow> Directory \<Rightarrow> bool) \<Rightarrow> Header \<Rightarrow> TileId \<Rightarrow> Directory \<Rightarrow> ArchiveRange list
    \<Rightarrow> (u64 \<times> u32) option \<Rightarrow> bool" for leaf h t where
  absent: "find_tile_id d t = None \<Longrightarrow> resolves leaf h t d [] None"
| tile: "find_tile_id d t = Some (i, e) \<Longrightarrow> \<not> is_leaf e \<Longrightarrow> in_section (h_data_length h) e
    \<Longrightarrow> resolves leaf h t d [] (Some (h_data_offset h + e_offset e, e_length e))"
| descend: "find_tile_id d t = Some (i, e) \<Longrightarrow> is_leaf e \<Longrightarrow> in_section (h_leaf_length h) e
    \<Longrightarrow> leaf (h_leaf_offset h + e_offset e) (e_length e) d' \<Longrightarrow> resolves leaf h t d' rs loc
    \<Longrightarrow> resolves leaf h t d (\<lparr>ar_offset = h_leaf_offset h + e_offset e, ar_length = e_length e\<rparr> # rs) loc"

inductive_cases resolvesE: "resolves leaf h t d rs loc"

definition sections_fit :: "Header \<Rightarrow> bool" where
  "sections_fit h \<longleftrightarrow> unat (h_root_offset h) + unat (h_root_length h) < 2 ^ 64
     \<and> unat (h_metadata_offset h) + unat (h_metadata_length h) < 2 ^ 64
     \<and> unat (h_leaf_offset h) + unat (h_leaf_length h) < 2 ^ 64
     \<and> unat (h_data_offset h) + unat (h_data_length h) < 2 ^ 64"

lemma archive_len_sections: "archive_len h = Inr len \<Longrightarrow> sections_fit h"
  by (auto simp: archive_len_def try_bind_Inr sections_fit_def checked_add_u64_Some)

lemma archive_len_bounds:
  assumes "archive_len h = Inr len"
  shows "unat (h_leaf_offset h) + unat (h_leaf_length h) \<le> unat len"
    "unat (h_data_offset h) + unat (h_data_length h) \<le> unat len"
proof -
  obtain x y where xy: "checked_add_u64 (h_leaf_offset h) (h_leaf_length h) = Some x"
      "checked_add_u64 (h_data_offset h) (h_data_length h) = Some y" "x \<le> len" "y \<le> len"
    using assms by (auto simp: archive_len_def try_bind_Inr le_max_iff_disj)
  then show "unat (h_leaf_offset h) + unat (h_leaf_length h) \<le> unat len"
    "unat (h_data_offset h) + unat (h_data_length h) \<le> unat len"
    using checked_add_u64_unat [OF xy(1)] checked_add_u64_unat [OF xy(2)] by (simp_all add: word_le_nat_alt)
qed

lemma checked_section_offset_iff:
  assumes "unat off + unat len < 2 ^ 64"
  shows "checked_section_offset off len (e_offset e) (ucast (e_length e)) = Inr x
    \<longleftrightarrow> in_section len e \<and> x = off + e_offset e"
proof -
  have "unat off + unat (e_offset e) < 2 ^ 64" if "in_section len e"
    using that assms by (simp add: in_section_def)
  moreover have "unat (e_offset e) + unat (e_length e) < 2 ^ 64" if "in_section len e"
    using that assms by (simp add: in_section_def)
  moreover have "unat (e_offset e + ucast (e_length e)) = unat (e_offset e) + unat (e_length e)"
    if "unat (e_offset e) + unat (e_length e) < 2 ^ 64"
    using that by (simp add: unat_word_ariths)
  ultimately show ?thesis
    by (auto simp: checked_section_offset_def try_bind_Inr checked_add_u64_Some in_section_def
        not_less word_le_nat_alt word_less_nat_alt split: if_splits)
qed

text \<open>A path within the limits from a directory to a location.\<close>

definition reaches ::
  "(u64 \<Rightarrow> u32 \<Rightarrow> Directory \<Rightarrow> bool) \<Rightarrow> ReaderLimits \<Rightarrow> nat \<Rightarrow> Header \<Rightarrow> TileId \<Rightarrow> Directory
    \<Rightarrow> ArchiveRange list \<Rightarrow> (u64 \<times> u32) option \<Rightarrow> bool" where
  "reaches leaf l n h t d rs loc \<longleftrightarrow> resolves leaf h t d rs loc \<and> length rs \<le> n
     \<and> list_all (\<lambda>r. unat (ar_length r) \<le> max_range_bytes l) rs"

lemma reaches_absent:
  "find_tile_id d t = None \<Longrightarrow> reaches leaf l n h t d rs loc \<longleftrightarrow> rs = [] \<and> loc = None"
  by (auto simp: reaches_def elim: resolvesE intro: resolves.absent)

lemma reaches_tile:
  "find_tile_id d t = Some (i, e) \<Longrightarrow> \<not> is_leaf e \<Longrightarrow> reaches leaf l n h t d rs loc
    \<longleftrightarrow> in_section (h_data_length h) e \<and> rs = [] \<and> loc = Some (h_data_offset h + e_offset e, e_length e)"
  by (auto simp: reaches_def elim: resolvesE intro: resolves.tile)

lemma reaches_descend:
  fixes h :: Header
  assumes "find_tile_id d t = Some (i, e)" and "is_leaf e"
  defines "rng \<equiv> \<lparr>ar_offset = h_leaf_offset h + e_offset e, ar_length = e_length e\<rparr>"
  shows "reaches leaf l n h t d rs loc \<longleftrightarrow> 0 < n \<and> in_section (h_leaf_length h) e
      \<and> unat (e_length e) \<le> max_range_bytes l
      \<and> (\<exists>d' rs'. leaf (ar_offset rng) (ar_length rng) d' \<and> rs = rng # rs' \<and> reaches leaf l (n - 1) h t d' rs' loc)"
proof -
  have "resolves leaf h t d rs loc \<longleftrightarrow> in_section (h_leaf_length h) e
      \<and> (\<exists>d' rs'. leaf (ar_offset rng) (ar_length rng) d' \<and> rs = rng # rs' \<and> resolves leaf h t d' rs' loc)"
  proof
    assume "resolves leaf h t d rs loc"
    then show "in_section (h_leaf_length h) e
      \<and> (\<exists>d' rs'. leaf (ar_offset rng) (ar_length rng) d' \<and> rs = rng # rs' \<and> resolves leaf h t d' rs' loc)"
      by (cases rule: resolves.cases) (use assms in auto)
  next
    assume "in_section (h_leaf_length h) e
      \<and> (\<exists>d' rs'. leaf (ar_offset rng) (ar_length rng) d' \<and> rs = rng # rs' \<and> resolves leaf h t d' rs' loc)"
    then show "resolves leaf h t d rs loc"
      using resolves.descend [OF assms(1,2)] by (auto simp: rng_def)
  qed
  moreover have "unat (ar_length rng) = unat (e_length e)" by (simp add: rng_def)
  ultimately show ?thesis unfolding reaches_def by (auto simp: less_eq_Suc_le)
qed

text \<open>The walker follows the same path.\<close>

lemma section_result:
  assumes "unat off + unat len < 2 ^ 64"
  shows "in_section len e \<Longrightarrow> checked_section_offset off len (e_offset e) (ucast (e_length e)) = Inr (off + e_offset e)"
    and "\<not> in_section len e \<Longrightarrow> \<exists>x. checked_section_offset off len (e_offset e) (ucast (e_length e)) = Inl x"
proof -
  let ?c = "checked_section_offset off len (e_offset e) (ucast (e_length e))"
  note c = checked_section_offset_iff [OF assms, of e]
  show "in_section len e \<Longrightarrow> ?c = Inr (off + e_offset e)" by (simp add: c)
  show "\<exists>x. ?c = Inl x" if "\<not> in_section len e"
  proof (cases ?c)
    case (Inr x)
    with c [of x] have "in_section len e" by simp
    with that show ?thesis by simp
  qed blast
qed

lemma walker_step_tile:
  assumes "find_tile_id d (dw_tile_id w) = Some (i, e)" and "\<not> is_leaf e" and "sections_fit (dw_header w)"
  shows "in_section (h_data_length (dw_header w)) e \<Longrightarrow> walker_step w d =
      Inr (Tile \<lparr>loc_offset = h_data_offset (dw_header w) + e_offset e, loc_length = e_length e,
        loc_archive_len = dw_archive_len w\<rparr>, w)"
    and "\<not> in_section (h_data_length (dw_header w)) e \<Longrightarrow> \<exists>x. walker_step w d = Inl x"
proof -
  note c = section_result [of "h_data_offset (dw_header w)" "h_data_length (dw_header w)" e]
  have fit: "unat (h_data_offset (dw_header w)) + unat (h_data_length (dw_header w)) < 2 ^ 64"
    using assms(3) by (simp add: sections_fit_def)
  show "in_section (h_data_length (dw_header w)) e \<Longrightarrow> walker_step w d =
      Inr (Tile \<lparr>loc_offset = h_data_offset (dw_header w) + e_offset e, loc_length = e_length e,
        loc_archive_len = dw_archive_len w\<rparr>, w)"
    using assms(1,2) by (simp add: walker_step_def c(1) [OF fit])
  show "\<not> in_section (h_data_length (dw_header w)) e \<Longrightarrow> \<exists>x. walker_step w d = Inl x"
    using assms(1,2) c(2) [OF fit] by (auto simp: walker_step_def)
qed

lemma walker_step_descend:
  assumes "find_tile_id d (dw_tile_id w) = Some (i, e)" and "is_leaf e" and "sections_fit (dw_header w)"
  shows "dw_depth w < dw_max_depth w \<Longrightarrow> in_section (h_leaf_length (dw_header w)) e \<Longrightarrow> walker_step w d =
      Inr (Leaf \<lparr>ar_offset = h_leaf_offset (dw_header w) + e_offset e, ar_length = e_length e\<rparr>,
        w\<lparr>dw_depth := dw_depth w + 1\<rparr>)"
    and "\<not> (dw_depth w < dw_max_depth w \<and> in_section (h_leaf_length (dw_header w)) e)
      \<Longrightarrow> \<exists>x. walker_step w d = Inl x"
proof -
  note c = section_result [of "h_leaf_offset (dw_header w)" "h_leaf_length (dw_header w)" e]
  have fit: "unat (h_leaf_offset (dw_header w)) + unat (h_leaf_length (dw_header w)) < 2 ^ 64"
    using assms(3) by (simp add: sections_fit_def)
  show "dw_depth w < dw_max_depth w \<Longrightarrow> in_section (h_leaf_length (dw_header w)) e \<Longrightarrow> walker_step w d =
      Inr (Leaf \<lparr>ar_offset = h_leaf_offset (dw_header w) + e_offset e, ar_length = e_length e\<rparr>,
        w\<lparr>dw_depth := dw_depth w + 1\<rparr>)"
    using assms(1,2) by (simp add: walker_step_def c(1) [OF fit] not_le)
  show "\<not> (dw_depth w < dw_max_depth w \<and> in_section (h_leaf_length (dw_header w)) e)
      \<Longrightarrow> \<exists>x. walker_step w d = Inl x"
    using assms(1,2) c(2) [OF fit] by (cases "dw_depth w < dw_max_depth w") (auto simp: walker_step_def not_le)
qed

lemma check_range_leaf:
  assumes "sections_fit h" and "in_section (h_leaf_length h) e"
  shows "check_range r (h_leaf_offset h + e_offset e) (e_length e) = Inr () \<longleftrightarrow>
    unat (e_length e) \<le> max_range_bytes (r_limits r)"
proof -
  have "unat (h_leaf_offset h + e_offset e) = unat (h_leaf_offset h) + unat (e_offset e)"
    using assms by (simp add: sections_fit_def in_section_def unat_word_ariths)
  then show ?thesis
    using assms by (simp add: check_range_def checked_add_u64_def sections_fit_def in_section_def)
qed

lemma walk_step_simps:
  "walker_step w d = Inl x \<Longrightarrow> walk r b w d leaves = err (invalid_archive (r_backend r) x)"
  "walker_step w d = Inr (Missing, w') \<Longrightarrow>
     walk r b w d leaves = ok ((None, ab_header b, ab_archive_len b), leaves)"
  "walker_step w d = Inr (Tile location, w') \<Longrightarrow>
     walk r b w d leaves = ok ((Some location, ab_header b, ab_archive_len b), leaves)"
  "walker_step w d = Inr (Leaf rng, w') \<Longrightarrow> check_range r (ar_offset rng) (ar_length rng) = Inl e \<Longrightarrow>
     walk r b w d leaves = err e"
  "walker_step w d = Inr (Leaf rng, w') \<Longrightarrow> check_range r (ar_offset rng) (ar_length rng) = Inr () \<Longrightarrow>
     walk r b w d leaves = attempt_bind
       (load_leaf (r_backend r) \<lparr>lr_offset = ar_offset rng, lr_length = ar_length rng,
          lr_compression = h_internal_compression (ab_header b), lr_archive_len = ab_archive_len b\<rparr>)
       (\<lambda>leaf. walk r b w' leaf (leaves @ [rng]))"
  by (subst walk.simps, simp)+

text \<open>A tile has one location, inside the data section; its leaves are inside theirs.\<close>

lemma resolves_unique:
  assumes "\<And>off n d d'. leaf off n d \<Longrightarrow> leaf off n d' \<Longrightarrow> d = d'"
    and "resolves leaf h t d rs loc" and "resolves leaf h t d rs' loc'"
  shows "rs = rs' \<and> loc = loc'"
  using assms(2,3)
proof (induction arbitrary: rs' loc' rule: resolves.induct)
  case (descend d i e d' rs loc)
  note IH = descend.IH
  from descend.prems show ?case
  proof (cases rule: resolves.cases)
    case (descend i' e' d'' rs'')
    with \<open>find_tile_id d t = Some (i, e)\<close> have e: "e' = e" by simp
    with descend(5) \<open>leaf (h_leaf_offset h + e_offset e) (e_length e) d'\<close> have "d'' = d'"
      by (blast intro: assms(1))
    with e descend(1,6) IH show ?thesis by simp
  qed (use descend.hyps(1,2) in simp_all)
next
  case (absent d)
  from absent.prems show ?case by (cases rule: resolves.cases) (use absent.hyps in simp_all)
next
  case (tile d i e)
  from tile.prems show ?case by (cases rule: resolves.cases) (use tile.hyps in simp_all)
qed

lemma section_bounds:
  assumes "in_section len e" and "unat off + unat len < 2 ^ 64"
  shows "unat (off + e_offset e) + unat (e_length e) \<le> unat off + unat len"
    "unat off \<le> unat (off + e_offset e)"
  using assms by (auto simp: in_section_def unat_word_ariths)

lemma resolves_bounds:
  assumes "resolves leaf h t d rs loc" and "sections_fit h"
  shows "list_all (\<lambda>r. unat (h_leaf_offset h) \<le> unat (ar_offset r)
      \<and> unat (ar_offset r) + unat (ar_length r) \<le> unat (h_leaf_offset h) + unat (h_leaf_length h)) rs"
    and "loc = Some (off, n) \<Longrightarrow> unat (h_data_offset h) \<le> unat off
      \<and> unat off + unat n \<le> unat (h_data_offset h) + unat (h_data_length h)"
  using assms
  by (induction rule: resolves.induct) (auto simp: sections_fit_def section_bounds)

text \<open>The tile with id \<open>t\<close>, as a reader with the limits \<open>l\<close> delivers it.\<close>

definition tile_served ::
  "(Header \<Rightarrow> Directory \<Rightarrow> u64 \<Rightarrow> bool) \<Rightarrow> (u64 \<Rightarrow> u32 \<Rightarrow> Directory \<Rightarrow> bool)
    \<Rightarrow> (ReadRequest \<Rightarrow> bytes \<Rightarrow> bool) \<Rightarrow> ReaderLimits \<Rightarrow> u64 \<Rightarrow> TileData option \<Rightarrow> bool" where
  "tile_served boot leaf body l t td = (\<exists>h d len rs loc. boot h d len \<and> t \<le> MAX_TILE_ID
     \<and> reaches leaf l (unat (max_directory_depth l)) h (TileId t) d rs loc
     \<and> (case loc of
          None \<Rightarrow> td = None
        | Some (off, n) \<Rightarrow>
            unat n \<le> max_range_bytes l
            \<and> (\<exists>bs. body \<lparr>rr_offset = off, rr_length = unat n, rr_archive_len = Some len, rr_kind = TileRead\<rparr> bs
                 \<and> td = Some \<lparr>td_bytes = bs, td_content_type = tile_content_type (h_tile_type h),
                      td_content_encoding = content_encoding (h_tile_compression h)\<rparr>)))"

lemma tile_served_None:
  assumes "boot h d len" and "t \<le> MAX_TILE_ID"
    and "reaches leaf l (unat (max_directory_depth l)) h (TileId t) d rs None"
  shows "tile_served boot leaf body l t None"
  unfolding tile_served_def
  by (rule exI [of _ h], rule exI [of _ d], rule exI [of _ len], rule exI [of _ rs], rule exI [of _ None])
    (simp add: assms)

lemma tile_served_Some:
  assumes "boot h d len" and "t \<le> MAX_TILE_ID"
    and "reaches leaf l (unat (max_directory_depth l)) h (TileId t) d rs (Some (off, n))"
    and "unat n \<le> max_range_bytes l"
    and "body \<lparr>rr_offset = off, rr_length = unat n, rr_archive_len = Some len, rr_kind = TileRead\<rparr> bs"
  shows "tile_served boot leaf body l t (Some \<lparr>td_bytes = bs, td_content_type = tile_content_type (h_tile_type h),
    td_content_encoding = content_encoding (h_tile_compression h)\<rparr>)"
  unfolding tile_served_def
  by (rule exI [of _ h], rule exI [of _ d], rule exI [of _ len], rule exI [of _ rs],
      rule exI [of _ "Some (off, n)"]) (use assms in auto)

section \<open>The contract of a backend\<close>

text \<open>
  \<open>boot\<close>, \<open>leaf\<close> and \<open>body\<close> are what the archive holds; an operation answers with it and keeps the
  backend's invariant, or fails.  A failure that is not transient says that the archive has no answer.
\<close>

locale archive_contract =
  fixes backend :: "('st, 'e) ArchiveBackend"
    and inv :: "'st \<Rightarrow> bool"
    and transient :: "'e \<Rightarrow> bool"
    and boot :: "Header \<Rightarrow> Directory \<Rightarrow> u64 \<Rightarrow> bool"
    and leaf :: "u64 \<Rightarrow> u32 \<Rightarrow> Directory \<Rightarrow> bool"
    and body :: "ReadRequest \<Rightarrow> bytes \<Rightarrow> bool"
  assumes bootstrap_law: "valid inv (load_bootstrap backend)
      (\<lambda>b s. boot (ab_header b) (ab_root b) (ab_archive_len b) \<and> inv s)
      (\<lambda>e s. (\<not> transient e \<longrightarrow> \<not> (\<exists>h d len. boot h d len)) \<and> inv s)"
    and leaf_law: "boot h d len \<Longrightarrow> valid inv
      (load_leaf backend \<lparr>lr_offset = off, lr_length = n, lr_compression = h_internal_compression h,
         lr_archive_len = len\<rparr>)
      (\<lambda>d s. leaf off n d \<and> inv s)
      (\<lambda>e s. (\<not> transient e \<longrightarrow> \<not> (\<exists>d. leaf off n d)) \<and> inv s)"
    and range_law: "rr_kind req = TileRead \<Longrightarrow> valid inv (read_range backend req)
      (\<lambda>bs s. body req bs \<and> inv s)
      (\<lambda>e s. (\<not> transient e \<longrightarrow> \<not> (\<exists>bs. body req bs)) \<and> inv s)"
    and boot_unique: "boot h d len \<Longrightarrow> boot h' d' len' \<Longrightarrow> h = h' \<and> d = d' \<and> len = len'"
    and leaf_unique: "leaf off n d \<Longrightarrow> leaf off n d' \<Longrightarrow> d = d'"
    and boot_len: "boot h d len \<Longrightarrow> archive_len h = Inr len"
begin

text \<open>The outcome of the walk from a directory: a path within the limits, or the proof of none.\<close>

definition walk_outcome where
  "walk_outcome r b w d leaves m = valid inv m
    (\<lambda>((loc, h, n), ls) s. (\<exists>rs. ls = leaves @ rs \<and> h = ab_header b \<and> n = ab_archive_len b
        \<and> reaches leaf (r_limits r) (unat (dw_max_depth w) - unat (dw_depth w)) h (dw_tile_id w) d rs
            (map_option (\<lambda>l. (loc_offset l, loc_length l)) loc)
        \<and> (\<forall>l. loc = Some l \<longrightarrow> loc_archive_len l = dw_archive_len w)) \<and> inv s)
    (\<lambda>e s. (\<not> transient e \<longrightarrow> \<not> (\<exists>rs loc.
        reaches leaf (r_limits r) (unat (dw_max_depth w) - unat (dw_depth w)) (ab_header b) (dw_tile_id w) d rs loc))
        \<and> inv s)"

lemma walk_tile_law:
  assumes "find_tile_id d (dw_tile_id w) = Some (i, e)" and "\<not> is_leaf e" and "sections_fit (dw_header w)"
    and "dw_header w = ab_header b"
  shows "walk_outcome r b w d leaves (walk r b w d leaves)"
proof (cases "in_section (h_data_length (dw_header w)) e")
  case True
  note run = walk_step_simps(3) [OF walker_step_tile(1) [OF assms(1-3) True]]
  show ?thesis
    unfolding walk_outcome_def run
    using True assms(4) by (intro valid_ok) (simp add: reaches_tile [OF assms(1,2)])
next
  case False
  obtain x where x: "walker_step w d = Inl x" using walker_step_tile(2) [OF assms(1-3) False] by blast
  show ?thesis
    unfolding walk_outcome_def walk_step_simps(1) [OF x]
    using False assms(4) by (intro valid_err) (simp add: reaches_tile [OF assms(1,2)])
qed

lemma walk_refused:
  assumes "find_tile_id d (dw_tile_id w) = Some (i, e)" and "is_leaf e" and "sections_fit (dw_header w)"
    and "dw_header w = ab_header b"
    and bad: "\<not> (dw_depth w < dw_max_depth w \<and> in_section (h_leaf_length (dw_header w)) e
        \<and> unat (e_length e) \<le> max_range_bytes (r_limits r))"
  shows "walk_outcome r b w d leaves (walk r b w d leaves)"
proof -
  have "\<exists>x. walk r b w d leaves = err x"
  proof (cases "dw_depth w < dw_max_depth w \<and> in_section (h_leaf_length (dw_header w)) e")
    case True
    let ?c = "check_range r (h_leaf_offset (dw_header w) + e_offset e) (e_length e)"
    have "?c \<noteq> Inr ()" using True bad check_range_leaf [OF assms(3), of e r] by simp
    then obtain x where x: "?c = Inl x" by (cases ?c) auto
    have "walk r b w d leaves = err x"
      by (rule walk_step_simps(4) [OF walker_step_descend(1) [OF assms(1-3)]]) (use True x in simp_all)
    then show ?thesis ..
  next
    case False
    then obtain x where "walker_step w d = Inl x" using walker_step_descend(2) [OF assms(1-3)] by blast
    from walk_step_simps(1) [OF this] show ?thesis by blast
  qed
  then obtain x where run: "walk r b w d leaves = err x" by blast
  show ?thesis
    unfolding walk_outcome_def run
    by (intro valid_err) (use bad assms(4) in \<open>auto simp: reaches_descend [OF assms(1,2)] word_less_nat_alt\<close>)
qed

lemma walk_law:
  assumes "boot (ab_header b) d0 (ab_archive_len b)" and "r_backend r = backend"
    and "dw_header w = ab_header b"
  shows "walk_outcome r b w d leaves (walk r b w d leaves)"
  using assms
proof (induction r b w d leaves rule: walk.induct)
  case (1 r b w d leaves)
  let ?h = "ab_header b"
  have fit: "sections_fit (dw_header w)" using archive_len_sections boot_len "1.prems"(1,3) by metis
  show ?case
  proof (cases "find_tile_id d (dw_tile_id w)")
    case None
    then have "walker_step w d = Inr (Missing, w)" by (simp add: walker_step_def)
    then show ?thesis
      unfolding walk_outcome_def walk_step_simps(2) [OF \<open>walker_step w d = Inr (Missing, w)\<close>]
      using None by (intro valid_ok) (simp add: reaches_absent)
  next
    case (Some ie)
    obtain i e where e: "find_tile_id d (dw_tile_id w) = Some (i, e)" using Some by (cases ie) simp
    let ?rng = "\<lparr>ar_offset = h_leaf_offset ?h + e_offset e, ar_length = e_length e\<rparr>"
    let ?w = "w\<lparr>dw_depth := dw_depth w + 1\<rparr>"
    consider "\<not> is_leaf e"
      | "is_leaf e" "\<not> (dw_depth w < dw_max_depth w \<and> in_section (h_leaf_length (dw_header w)) e
          \<and> unat (e_length e) \<le> max_range_bytes (r_limits r))"
      | "is_leaf e" "dw_depth w < dw_max_depth w" "in_section (h_leaf_length (dw_header w)) e"
          "unat (e_length e) \<le> max_range_bytes (r_limits r)" by blast
    then show ?thesis
    proof cases
      case 3
      have step: "walker_step w d = Inr (Leaf ?rng, ?w)"
        using walker_step_descend(1) [OF e 3(1) fit 3(2,3)] "1.prems"(3) by simp
      have rng: "check_range r (ar_offset ?rng) (ar_length ?rng) = Inr ()"
        using 3(3,4) check_range_leaf [OF fit, of e r] "1.prems"(3) by simp
      have depth: "unat (dw_max_depth ?w) - unat (dw_depth ?w) = unat (dw_max_depth w) - unat (dw_depth w) - 1"
          "0 < unat (dw_max_depth w) - unat (dw_depth w)"
        using 3(2) unat_u8_less [of "dw_max_depth w"] by (simp_all add: unat_word_ariths word_less_nat_alt)
      note path = reaches_descend [OF e 3(1), of leaf "r_limits r" "unat (dw_max_depth w) - unat (dw_depth w)" ?h,
        folded depth(1)]
      have IH: "walk_outcome r b ?w d' (leaves @ [?rng]) (walk r b ?w d' (leaves @ [?rng]))" for d'
        using "1.IH" step rng "1.prems" by simp
      have found: "reaches leaf (r_limits r) (unat (dw_max_depth w) - unat (dw_depth w)) ?h (dw_tile_id w) d (?rng # rs) loc"
        if "leaf (ar_offset ?rng) (ar_length ?rng) d'"
          "reaches leaf (r_limits r) (unat (dw_max_depth ?w) - unat (dw_depth ?w)) ?h (dw_tile_id ?w) d' rs loc" for d' rs loc
        using that path 3(3,4) "1.prems"(3) depth(2) by auto
      have only: "\<exists>rs'. reaches leaf (r_limits r) (unat (dw_max_depth ?w) - unat (dw_depth ?w)) ?h (dw_tile_id ?w) d' rs' loc"
        if held: "leaf (ar_offset ?rng) (ar_length ?rng) d'"
          and path': "reaches leaf (r_limits r) (unat (dw_max_depth w) - unat (dw_depth w)) ?h (dw_tile_id w) d rs loc" for d' rs loc
      proof -
        obtain d'' rs' where "leaf (ar_offset ?rng) (ar_length ?rng) d''"
          "reaches leaf (r_limits r) (unat (dw_max_depth ?w) - unat (dw_depth ?w)) ?h (dw_tile_id ?w) d'' rs' loc"
          using path' path by auto
        with leaf_unique [OF held] show ?thesis by auto
      qed
      have some_leaf: "\<exists>d'. leaf (ar_offset ?rng) (ar_length ?rng) d'"
        if "reaches leaf (r_limits r) (unat (dw_max_depth w) - unat (dw_depth w)) ?h (dw_tile_id w) d rs loc" for rs loc
        using that path by auto
      show ?thesis
        unfolding walk_outcome_def walk_step_simps(5) [OF step rng] "1.prems"(2)
        apply (rule valid_bind)
         apply (rule valid_post [OF leaf_law [OF "1.prems"(1)]])
          apply assumption
         apply (use some_leaf in blast)
        apply (rule valid_pure)
        apply (rule valid_post [OF IH [unfolded walk_outcome_def]])
        subgoal for d' a s
          using found [of d'] by (auto simp: split_beta)
        subgoal for d' a s
          using only [of d'] by blast
        done
    qed (use walk_tile_law walk_refused e fit "1.prems"(3) in blast)+
  qed
qed

lemma resolve_law:
  assumes "r_backend r = backend" and "max_directory_depth (r_limits r) \<noteq> 0"
  shows "valid inv (resolve_tile_location r t)
    (\<lambda>((loc, h, len), rs) s. (\<exists>d. boot h d len \<and> t \<le> MAX_TILE_ID
        \<and> reaches leaf (r_limits r) (unat (max_directory_depth (r_limits r))) h (TileId t) d rs
            (map_option (\<lambda>l. (loc_offset l, loc_length l)) loc)
        \<and> (\<forall>l. loc = Some l \<longrightarrow> loc_archive_len l = len)) \<and> inv s)
    (\<lambda>e s. (\<not> transient e \<longrightarrow> \<not> (\<exists>h d len rs loc. boot h d len \<and> t \<le> MAX_TILE_ID
        \<and> reaches leaf (r_limits r) (unat (max_directory_depth (r_limits r))) h (TileId t) d rs loc)) \<and> inv s)"
proof (cases "t \<le> MAX_TILE_ID")
  case False
  then have "resolve_tile_location r t = err (invalid_tile_id backend InvalidTileId)"
    by (simp add: resolve_tile_location_def tile_id_new_def assms(1) not_le)
  then show ?thesis using False by (auto intro!: valid_err)
next
  case True
  have run: "resolve_tile_location r t = attempt_bind (load_bootstrap backend) (\<lambda>b.
      case map_err (invalid_archive backend)
             (directory_walker_new (ab_header b) (TileId t) (max_directory_depth (r_limits r))) of
        Inl e \<Rightarrow> err e | Inr w \<Rightarrow> walk r b w (ab_root b) [])"
    using leD [OF True] by (simp add: resolve_tile_location_def tile_id_new_def assms(1))
  have walk: "valid inv (case map_err (invalid_archive backend)
             (directory_walker_new (ab_header b) (TileId t) (max_directory_depth (r_limits r))) of
        Inl e \<Rightarrow> err e | Inr w \<Rightarrow> walk r b w (ab_root b) [])
    (\<lambda>((loc, h, len), rs) s. (\<exists>d. boot h d len \<and> t \<le> MAX_TILE_ID
        \<and> reaches leaf (r_limits r) (unat (max_directory_depth (r_limits r))) h (TileId t) d rs
            (map_option (\<lambda>l. (loc_offset l, loc_length l)) loc)
        \<and> (\<forall>l. loc = Some l \<longrightarrow> loc_archive_len l = len)) \<and> inv s)
    (\<lambda>e s. (\<not> transient e \<longrightarrow> \<not> (\<exists>h d len rs loc. boot h d len \<and> t \<le> MAX_TILE_ID
        \<and> reaches leaf (r_limits r) (unat (max_directory_depth (r_limits r))) h (TileId t) d rs loc)) \<and> inv s)"
    if b: "boot (ab_header b) (ab_root b) (ab_archive_len b)" for b
  proof -
    let ?w = "\<lparr>dw_header = ab_header b, dw_archive_len = ab_archive_len b, dw_tile_id = TileId t, dw_depth = 0,
      dw_max_depth = max_directory_depth (r_limits r)\<rparr>"
    have w: "directory_walker_new (ab_header b) (TileId t) (max_directory_depth (r_limits r)) = Inr ?w"
      using assms(2) boot_len [OF b] by (simp add: directory_walker_new_def)
    have "walk_outcome r b ?w (ab_root b) [] (walk r b ?w (ab_root b) [])"
      by (rule walk_law [OF b assms(1)]) simp
    then show ?thesis
      unfolding walk_outcome_def w map_err.simps sum.case
    proof (rule valid_post)
    qed (use b True in \<open>auto simp: split_beta dest: boot_unique [OF b]\<close>)
  qed
  show ?thesis
    unfolding run
    by (rule valid_bind [OF valid_post [OF bootstrap_law] valid_pure [OF walk]]) blast+
qed

lemma reach_same:
  assumes "boot h d len" and "reaches leaf l n h t d rs loc"
    and "boot h' d' len'" and "reaches leaf l n h' t d' rs' loc'"
  shows "h' = h \<and> len' = len \<and> loc' = loc"
  using assms boot_unique [of h d len h' d' len'] resolves_unique [of leaf, OF leaf_unique]
  by (auto simp: reaches_def)

lemma served_at:
  assumes "boot h d len" and "t \<le> MAX_TILE_ID"
    and "reaches leaf l (unat (max_directory_depth l)) h (TileId t) d rs (Some (off, n))"
  shows "tile_served boot leaf body l t td \<longleftrightarrow> unat n \<le> max_range_bytes l
    \<and> (\<exists>bs. body \<lparr>rr_offset = off, rr_length = unat n, rr_archive_len = Some len, rr_kind = TileRead\<rparr> bs
        \<and> td = Some \<lparr>td_bytes = bs, td_content_type = tile_content_type (h_tile_type h),
            td_content_encoding = content_encoding (h_tile_compression h)\<rparr>)" (is "_ \<longleftrightarrow> ?rhs")
proof
  assume "tile_served boot leaf body l t td"
  then obtain h' d' len' rs' loc' where
    p: "boot h' d' len'" "reaches leaf l (unat (max_directory_depth l)) h' (TileId t) d' rs' loc'" and
    td: "case loc' of None \<Rightarrow> td = None
      | Some (off, n) \<Rightarrow> unat n \<le> max_range_bytes l
          \<and> (\<exists>bs. body \<lparr>rr_offset = off, rr_length = unat n, rr_archive_len = Some len', rr_kind = TileRead\<rparr> bs
               \<and> td = Some \<lparr>td_bytes = bs, td_content_type = tile_content_type (h_tile_type h'),
                    td_content_encoding = content_encoding (h_tile_compression h')\<rparr>)"
    unfolding tile_served_def by blast
  with reach_same [OF assms(1,3) p] show ?rhs by simp
next
  assume ?rhs
  with assms show "tile_served boot leaf body l t td" using tile_served_Some [of boot h d len t leaf l rs] by blast
qed

lemma served_absent:
  assumes "boot h d len" and "t \<le> MAX_TILE_ID"
    and "reaches leaf l (unat (max_directory_depth l)) h (TileId t) d rs None"
  shows "tile_served boot leaf body l t td \<longleftrightarrow> td = None"
proof
  assume "tile_served boot leaf body l t td"
  then show "td = None"
    unfolding tile_served_def
  proof (elim exE conjE, goal_cases)
    case (1 h' d' len' rs' loc')
    from reach_same [OF assms(1,3) 1(1,3)] 1(4) show ?case by simp
  qed
qed (use tile_served_None [where boot = boot, OF assms] in simp)

lemma get_tile_law:
  assumes "r_backend r = backend" and "max_directory_depth (r_limits r) \<noteq> 0"
  shows "valid inv (get_tile r t) (\<lambda>td s. tile_served boot leaf body (r_limits r) t td \<and> inv s)
    (\<lambda>e s. (\<not> transient e \<longrightarrow> \<not> (\<exists>td. tile_served boot leaf body (r_limits r) t td)) \<and> inv s)"
proof -
  let ?l = "r_limits r"
  let ?reach = "\<lambda>h d len rs loc. boot h d len \<and> t \<le> MAX_TILE_ID
        \<and> reaches leaf ?l (unat (max_directory_depth ?l)) h (TileId t) d rs loc"
  let ?rest = "\<lambda>((location, header, len), leaves). case location of
         None \<Rightarrow> ok None
       | Some location \<Rightarrow>
           (case check_range r (loc_offset location) (loc_length location) of
              Inl e \<Rightarrow> err e
            | Inr _ \<Rightarrow>
                attempt_bind
                  (read_range (r_backend r)
                     \<lparr>rr_offset = loc_offset location, rr_length = unat (loc_length location),
                      rr_archive_len = Some (loc_archive_len location), rr_kind = TileRead\<rparr>)
                  (\<lambda>bytes0. ok (Some \<lparr>td_bytes = bytes0,
                     td_content_type = tile_content_type (h_tile_type header),
                     td_content_encoding = content_encoding (h_tile_compression header)\<rparr>)))"
  have rest: "valid inv (?rest ((loc, h, len), rs)) (\<lambda>td s. tile_served boot leaf body ?l t td \<and> inv s)
      (\<lambda>e s. (\<not> transient e \<longrightarrow> \<not> (\<exists>td. tile_served boot leaf body ?l t td)) \<and> inv s)"
    if at: "?reach h d len rs (map_option (\<lambda>l. (loc_offset l, loc_length l)) loc)"
      "\<forall>l. loc = Some l \<longrightarrow> loc_archive_len l = len" for loc h len rs d
  proof (cases loc)
    case None
    then show ?thesis using at tile_served_None [of boot h d len t leaf ?l rs] by (auto intro!: valid_ok)
  next
    case (Some l)
    let ?req = "\<lparr>rr_offset = loc_offset l, rr_length = unat (loc_length l), rr_archive_len = Some len,
      rr_kind = TileRead\<rparr>"
    let ?tile = "\<lambda>bs. \<lparr>td_bytes = bs, td_content_type = tile_content_type (h_tile_type h),
      td_content_encoding = content_encoding (h_tile_compression h)\<rparr>"
    have reach: "?reach h d len rs (Some (loc_offset l, loc_length l))" and len: "loc_archive_len l = len"
      using at Some by simp_all
    have served: "tile_served boot leaf body ?l t td \<longleftrightarrow> unat (loc_length l) \<le> max_range_bytes ?l
        \<and> (\<exists>bs. body ?req bs \<and> td = Some (?tile bs))" for td
      using served_at [of h d len t ?l rs "loc_offset l" "loc_length l"] reach by blast
    have "sections_fit h" using reach boot_len archive_len_sections by blast
    with reach have "unat (loc_offset l) + unat (loc_length l) < 2 ^ 64"
      using resolves_bounds(2) [of leaf h "TileId t" d rs "Some (loc_offset l, loc_length l)"]
      by (fastforce simp: reaches_def sections_fit_def)
    then have range: "check_range r (loc_offset l) (loc_length l) =
        (if unat (loc_length l) \<le> max_range_bytes ?l then Inr ()
         else Inl (invalid_archive backend (RangeTooLong (unat (loc_length l)))))"
      by (simp add: check_range_def checked_add_u64_def assms(1))
    show ?thesis
    proof (cases "unat (loc_length l) \<le> max_range_bytes ?l")
      case True
      have "valid inv (attempt_bind (read_range backend ?req) (\<lambda>bs. ok (Some (?tile bs))))
        (\<lambda>td s. tile_served boot leaf body ?l t td \<and> inv s) (\<lambda>e s. (\<not> transient e \<longrightarrow> \<not> (\<exists>td. tile_served boot leaf body ?l t td)) \<and> inv s)"
        by (rule valid_bind [OF valid_post [OF range_law] valid_ok]) (auto simp: served True)
      then show ?thesis using True by (simp add: Some range len assms(1))
    qed (simp add: Some range served valid_err)
  qed
  show ?thesis
    unfolding get_tile_def
    apply (rule valid_bind_law [OF resolve_law [OF assms]])
     apply (force simp: tile_served_def)
    apply (simp only: split_paired_all prod.case)
    apply (rule valid_pure, elim exE conjE)
    apply (rule rest [unfolded prod.case], blast, blast)
    done
qed

text \<open>The tile at a location of the archive, or its absence.\<close>

lemma get_tile_at:
  assumes "r_backend r = backend" and "max_directory_depth (r_limits r) \<noteq> 0"
    and "boot h d len" and "t \<le> MAX_TILE_ID"
    and "reaches leaf (r_limits r) (unat (max_directory_depth (r_limits r))) h (TileId t) d rs loc"
    and "\<And>off n. loc = Some (off, n) \<Longrightarrow> unat n \<le> max_range_bytes (r_limits r)
      \<and> body \<lparr>rr_offset = off, rr_length = unat n, rr_archive_len = Some len, rr_kind = TileRead\<rparr> (content off n)"
    and "\<And>req bs bs'. body req bs \<Longrightarrow> body req bs' \<Longrightarrow> bs = bs'" and "\<And>e. \<not> transient e" and "inv s"
  shows "fst (run_state (get_tile r t) s) =
    Inr (map_option (\<lambda>(off, n). \<lparr>td_bytes = content off n, td_content_type = tile_content_type (h_tile_type h),
      td_content_encoding = content_encoding (h_tile_compression h)\<rparr>) loc)"
proof -
  let ?td = "map_option (\<lambda>(off, n). \<lparr>td_bytes = content off n, td_content_type = tile_content_type (h_tile_type h),
    td_content_encoding = content_encoding (h_tile_compression h)\<rparr>) loc"
  have served: "tile_served boot leaf body (r_limits r) t td \<longleftrightarrow> td = ?td" for td
  proof (cases loc)
    case None
    with served_absent [OF assms(3,4)] assms(5) show ?thesis by simp
  next
    case (Some p)
    then obtain off n where loc: "loc = Some (off, n)" by (cases p) simp
    with served_at [OF assms(3,4), of "r_limits r" rs off n td] assms(5,6,7) show ?thesis by auto
  qed
  obtain res s' where run: "run_state (get_tile r t) s = (res, s')" by fastforce
  from validD [OF get_tile_law [OF assms(1,2)] assms(9) run] assms(8) served show ?thesis
    by (auto simp: run split: sum.splits)
qed

end

end
