(* ===== verification/Pmtiles_Range.thy ===== *)
theory Pmtiles_Range
  imports Pmtiles_Archive
begin

text \<open>
  The range backend keeps the contract of a backend.  A store is any implementation that returns
  only directories that were put; a source answers each request with the bytes of the archive or with
  an error.  The answers of a reader over them are those of the archive's bytes alone.
\<close>

section \<open>Stores\<close>

text \<open>
  \<open>holds B L\<close>: the store has only bootstraps and leaves that satisfy \<open>B\<close> and \<open>L\<close>.  A store may
  forget, and a read may reorder it.
\<close>

locale directory_store =
  fixes ops :: "'s DirectoryStore"
    and holds :: "(ArchiveIdentity \<Rightarrow> ArchiveBootstrap \<Rightarrow> bool) \<Rightarrow> (LeafDirectoryKey \<Rightarrow> Directory \<Rightarrow> bool)
      \<Rightarrow> 's \<Rightarrow> bool"
  assumes get_bootstrap_law: "holds B L s \<Longrightarrow> get_bootstrap ops i s = (r, s')
      \<Longrightarrow> holds B L s' \<and> (\<forall>b. r = Some b \<longrightarrow> B i b)"
    and put_bootstrap_law: "holds B L s \<Longrightarrow> B i b \<Longrightarrow> holds B L (put_bootstrap ops i b s)"
    and get_leaf_law: "holds B L s \<Longrightarrow> get_leaf ops k s = (d, s')
      \<Longrightarrow> holds B L s' \<and> (\<forall>x. d = Some x \<longrightarrow> L k x)"
    and put_leaf_law: "holds B L s \<Longrightarrow> L k x \<Longrightarrow> holds B L (put_leaf ops k x s)"

text \<open>The store of two hash maps, as the crate's tests have it.\<close>

record MapStore =
  ms_bootstraps :: "ArchiveIdentity \<Rightarrow> ArchiveBootstrap option"
  ms_leaves :: "LeafDirectoryKey \<Rightarrow> Directory option"

definition map_store :: "MapStore DirectoryStore" where
  "map_store =
     \<lparr>get_bootstrap = (\<lambda>archive s. (ms_bootstraps s archive, s)),
      put_bootstrap = (\<lambda>archive b s. s\<lparr>ms_bootstraps := (ms_bootstraps s)(archive := Some b)\<rparr>),
      get_leaf = (\<lambda>key s. (ms_leaves s key, s)),
      put_leaf = (\<lambda>key d s. s\<lparr>ms_leaves := (ms_leaves s)(key := Some d)\<rparr>)\<rparr>"

definition map_holds ::
  "(ArchiveIdentity \<Rightarrow> ArchiveBootstrap \<Rightarrow> bool) \<Rightarrow> (LeafDirectoryKey \<Rightarrow> Directory \<Rightarrow> bool) \<Rightarrow> MapStore \<Rightarrow> bool" where
  "map_holds B L s = ((\<forall>i b. ms_bootstraps s i = Some b \<longrightarrow> B i b) \<and> (\<forall>k d. ms_leaves s k = Some d \<longrightarrow> L k d))"

interpretation maps: directory_store map_store map_holds
  by unfold_locales (auto simp: map_store_def map_holds_def)

definition no_holds ::
  "(ArchiveIdentity \<Rightarrow> ArchiveBootstrap \<Rightarrow> bool) \<Rightarrow> (LeafDirectoryKey \<Rightarrow> Directory \<Rightarrow> bool) \<Rightarrow> unit \<Rightarrow> bool" where
  "no_holds B L s = True"

interpretation uncached: directory_store no_directory_store no_holds
  by unfold_locales (auto simp: no_directory_store_def no_holds_def)

section \<open>What an archive holds\<close>

definition archive_slice :: "bytes \<Rightarrow> u64 \<Rightarrow> nat \<Rightarrow> bytes" where
  "archive_slice a off n = take n (drop (unat off) a)"

definition honest_source :: "('s, 'e) RangeArchiveBackend \<Rightarrow> bytes \<Rightarrow> bool" where
  "honest_source b a = (\<forall>n req bs. rb_source b n req = Inr bs
     \<longrightarrow> bs = archive_slice a (rr_offset req) (rr_length req))"

definition boot_in :: "('s, 'e) RangeArchiveBackend \<Rightarrow> bytes \<Rightarrow> Header \<Rightarrow> Directory \<Rightarrow> u64 \<Rightarrow> bool" where
  "boot_in b a h d len = (bootstrap_bytes (rb_limits b) \<le> max_range_bytes (rb_limits b)
     \<and> decode_bootstrap_bytes (rb_decoders b) (archive_slice a 0 (bootstrap_bytes (rb_limits b)))
         (max_decompressed_directory_bytes (rb_limits b))
       = Inr \<lparr>ab_header = h, ab_root = d, ab_metadata = None, ab_archive_len = len\<rparr>)"

definition body_in :: "('s, 'e) RangeArchiveBackend \<Rightarrow> bytes \<Rightarrow> ReadRequest \<Rightarrow> bytes \<Rightarrow> bool" where
  "body_in b a req bs = (rr_length req \<le> max_range_bytes (rb_limits b)
     \<and> bs = archive_slice a (rr_offset req) (rr_length req) \<and> length bs = rr_length req)"

definition leaf_in :: "('s, 'e) RangeArchiveBackend \<Rightarrow> bytes \<Rightarrow> u64 \<Rightarrow> u32 \<Rightarrow> Directory \<Rightarrow> bool" where
  "leaf_in b a off n d = (\<exists>h d0 len. boot_in b a h d0 len \<and> unat n \<le> max_range_bytes (rb_limits b)
     \<and> length (archive_slice a off (unat n)) = unat n
     \<and> directory_parse_with_limit (rb_decoders b) (h_internal_compression h) (archive_slice a off (unat n))
         (max_decompressed_directory_bytes (rb_limits b)) = Inr d)"

definition metadata_in :: "('s, 'e) RangeArchiveBackend \<Rightarrow> bytes \<Rightarrow> Metadata \<Rightarrow> bool" where
  "metadata_in b a m = (\<exists>h d len. boot_in b a h d len
     \<and> (if h_metadata_length h = 0 then m = metadata_default
        else unat (h_metadata_length h) \<le> max_range_bytes (rb_limits b)
          \<and> length (archive_slice a (h_metadata_offset h) (unat (h_metadata_length h))) = unat (h_metadata_length h)
          \<and> decode_metadata_bytes (rb_decoders b) (rb_from_slice b) h
              (archive_slice a (h_metadata_offset h) (unat (h_metadata_length h)))
              (max_decompressed_metadata_bytes (rb_limits b)) = Inr m))"

text \<open>A store coherent with the archive: what it has under the archive's identity is the archive's.\<close>

definition bootstrap_coherent :: "('s, 'e) RangeArchiveBackend \<Rightarrow> bytes \<Rightarrow> ArchiveIdentity \<Rightarrow> ArchiveBootstrap \<Rightarrow> bool" where
  "bootstrap_coherent b a i bs = (i = rb_identity b \<longrightarrow>
     boot_in b a (ab_header bs) (ab_root bs) (ab_archive_len bs)
     \<and> (\<forall>m. ab_metadata bs = Some m \<longrightarrow> metadata_in b a m))"

definition leaf_coherent :: "('s, 'e) RangeArchiveBackend \<Rightarrow> bytes \<Rightarrow> LeafDirectoryKey \<Rightarrow> Directory \<Rightarrow> bool" where
  "leaf_coherent b a k d = (lk_archive k = rb_identity b \<longrightarrow> leaf_in b a (lk_offset k) (lk_length k) d)"

definition source_failed :: "('s, 'e) RangeArchiveBackend \<Rightarrow> 'e ReaderError \<Rightarrow> bool" where
  "source_failed b e = (\<exists>n req x. rb_source b n req = Inl x \<and> e = Source x)"

lemma boot_in_unique:
  "boot_in b a h d len \<Longrightarrow> boot_in b a h' d' len' \<Longrightarrow> h = h' \<and> d = d' \<and> len = len'"
  by (auto simp: boot_in_def)

lemma leaf_in_iff:
  assumes "boot_in b a h d0 len"
  shows "leaf_in b a off n d \<longleftrightarrow> unat n \<le> max_range_bytes (rb_limits b)
     \<and> length (archive_slice a off (unat n)) = unat n
     \<and> directory_parse_with_limit (rb_decoders b) (h_internal_compression h) (archive_slice a off (unat n))
         (max_decompressed_directory_bytes (rb_limits b)) = Inr d" (is "_ \<longleftrightarrow> ?rhs")
proof
  assume "leaf_in b a off n d"
  then obtain h' d' len' where "boot_in b a h' d' len'" and rest: "unat n \<le> max_range_bytes (rb_limits b)
     \<and> length (archive_slice a off (unat n)) = unat n
     \<and> directory_parse_with_limit (rb_decoders b) (h_internal_compression h') (archive_slice a off (unat n))
         (max_decompressed_directory_bytes (rb_limits b)) = Inr d"
    unfolding leaf_in_def by blast
  with boot_in_unique [OF assms] have "h' = h" by blast
  with rest show ?rhs by simp
next
  assume ?rhs
  with assms show "leaf_in b a off n d" unfolding leaf_in_def by blast
qed

lemma leaf_in_unique: "leaf_in b a off n d \<Longrightarrow> leaf_in b a off n d' \<Longrightarrow> d = d'"
  unfolding leaf_in_def using boot_in_unique [of b a] by fastforce

lemma decode_bootstrap_metadata:
  assumes "decode_bootstrap_bytes dec body limit = Inr bs"
  shows "bs = \<lparr>ab_header = ab_header bs, ab_root = ab_root bs, ab_metadata = None, ab_archive_len = ab_archive_len bs\<rparr>"
    and "archive_len (ab_header bs) = Inr (ab_archive_len bs)"
  using assms
  by (auto simp: decode_bootstrap_bytes_def archive_bootstrap_new_def try_bind_Inr Let_def split: if_splits)

lemma boot_in_len: "boot_in b a h d len \<Longrightarrow> archive_len h = Inr len"
  using decode_bootstrap_metadata(2) by (fastforce simp: boot_in_def)

lemma metadata_in_iff:
  assumes "boot_in b a h d0 len"
  shows "metadata_in b a m \<longleftrightarrow>
    (if h_metadata_length h = 0 then m = metadata_default
     else unat (h_metadata_length h) \<le> max_range_bytes (rb_limits b)
       \<and> length (archive_slice a (h_metadata_offset h) (unat (h_metadata_length h))) = unat (h_metadata_length h)
       \<and> decode_metadata_bytes (rb_decoders b) (rb_from_slice b) h
           (archive_slice a (h_metadata_offset h) (unat (h_metadata_length h)))
           (max_decompressed_metadata_bytes (rb_limits b)) = Inr m)" (is "_ \<longleftrightarrow> ?P h")
proof
  assume "metadata_in b a m"
  then obtain h' d' len' where "boot_in b a h' d' len'" and rest: "?P h'"
    unfolding metadata_in_def by blast
  with boot_in_unique [OF assms] have "h' = h" by blast
  from this rest show "?P h" by (rule subst)
next
  assume "?P h"
  with assms show "metadata_in b a m" unfolding metadata_in_def by blast
qed

lemma metadata_in_boot: "metadata_in b a m \<Longrightarrow> \<exists>h d len. boot_in b a h d len"
  by (auto simp: metadata_in_def)

section \<open>The range backend keeps the contract\<close>

locale honest_range_backend = directory_store ops holds
  for ops :: "'s DirectoryStore"
    and holds :: "(ArchiveIdentity \<Rightarrow> ArchiveBootstrap \<Rightarrow> bool) \<Rightarrow> (LeafDirectoryKey \<Rightarrow> Directory \<Rightarrow> bool)
      \<Rightarrow> 's \<Rightarrow> bool" +
  fixes b :: "('s, 'e) RangeArchiveBackend"
    and a :: bytes
  assumes store_is: "rb_directories b = ops"
    and honest: "honest_source b a"
begin

abbreviation coherent :: "'s ReaderState \<Rightarrow> bool" where
  "coherent s \<equiv> holds (bootstrap_coherent b a) (leaf_coherent b a) (rs_store s)"

lemma read_range_law:
  "valid coherent (range_read_range b req)
    (\<lambda>bs s. (rr_length req \<le> max_range_bytes (rb_limits b) \<and> bs = archive_slice a (rr_offset req) (rr_length req)
        \<and> (rr_kind req \<noteq> BootstrapRead \<longrightarrow> length bs = rr_length req)) \<and> coherent s)
    (\<lambda>e s. (\<not> source_failed b e \<longrightarrow> \<not> (rr_length req \<le> max_range_bytes (rb_limits b)
        \<and> (rr_kind req \<noteq> BootstrapRead \<longrightarrow> length (archive_slice a (rr_offset req) (rr_length req)) = rr_length req)))
        \<and> coherent s)"
proof (rule validI)
  fix s r s' assume coh: "coherent s" and run: "run_state (range_read_range b req) s = (r, s')"
  have answer: "rb_source b n req = Inr bs \<Longrightarrow> bs = archive_slice a (rr_offset req) (rr_length req)" for n bs
    using honest by (simp add: honest_source_def)
  have "coherent s'" using coh run
    by (auto simp: range_read_range_def reading_runs split: if_splits sum.splits)
  with run show "case r of
      Inl e \<Rightarrow> (\<not> source_failed b e \<longrightarrow> \<not> (rr_length req \<le> max_range_bytes (rb_limits b)
        \<and> (rr_kind req \<noteq> BootstrapRead \<longrightarrow> length (archive_slice a (rr_offset req) (rr_length req)) = rr_length req)))
        \<and> coherent s'
    | Inr bs \<Rightarrow> (rr_length req \<le> max_range_bytes (rb_limits b) \<and> bs = archive_slice a (rr_offset req) (rr_length req)
        \<and> (rr_kind req \<noteq> BootstrapRead \<longrightarrow> length bs = rr_length req)) \<and> coherent s'"
    by (auto simp: range_read_range_def reading_runs source_failed_def not_less dest!: answer
        split: if_splits sum.splits)
qed

lemma store_bootstrap:
  "bootstrap_coherent b a i bs \<Longrightarrow> coherent s
    \<Longrightarrow> holds (bootstrap_coherent b a) (leaf_coherent b a) (put_bootstrap ops i bs (rs_store s))"
  using put_bootstrap_law [where B = "bootstrap_coherent b a" and L = "leaf_coherent b a"] by blast

lemma load_bootstrap_law:
  "valid coherent (range_load_bootstrap b)
    (\<lambda>bs s. bootstrap_coherent b a (rb_identity b) bs \<and> coherent s)
    (\<lambda>e s. (\<not> source_failed b e \<longrightarrow> \<not> (\<exists>h d len. boot_in b a h d len)) \<and> coherent s)"
proof (rule validI)
  fix s r s' assume coh: "coherent s" and run: "run_state (range_load_bootstrap b) s = (r, s')"
  let ?req = "\<lparr>rr_offset = 0, rr_length = bootstrap_bytes (rb_limits b), rr_archive_len = None,
    rr_kind = BootstrapRead\<rparr>"
  obtain c st where get: "get_bootstrap ops (rb_identity b) (rs_store s) = (c, st)" by fastforce
  note got = get_bootstrap_law [OF coh get]
  show "case r of
      Inl e \<Rightarrow> (\<not> source_failed b e \<longrightarrow> \<not> (\<exists>h d len. boot_in b a h d len)) \<and> coherent s'
    | Inr bs \<Rightarrow> bootstrap_coherent b a (rb_identity b) bs \<and> coherent s'"
  proof (cases c)
    case (Some bs)
    with run get got show ?thesis by (auto simp: range_load_bootstrap_def reading_runs store_is)
  next
    case None
    obtain r1 s1 where read: "run_state (range_read_range b ?req) (s\<lparr>rs_store := st\<rparr>) = (r1, s1)" by fastforce
    have "coherent (s\<lparr>rs_store := st\<rparr>)" using got by simp
    note law = validD [OF read_range_law this read]
    show ?thesis
    proof (cases r1)
      case (Inl e)
      with run get None read have "r = Inl e" "s' = s1"
        by (simp_all add: range_load_bootstrap_def reading_runs store_is)
      with law Inl show ?thesis by (auto simp: boot_in_def)
    next
      case (Inr bytes0)
      let ?dec = "decode_bootstrap_bytes (rb_decoders b) bytes0 (max_decompressed_directory_bytes (rb_limits b))"
      show ?thesis
      proof (cases ?dec)
        case (Inl x)
        with run get None read Inr have "r = Inl (InvalidArchive x)" "s' = s1"
          by (simp_all add: range_load_bootstrap_def reading_runs store_is)
        with law Inr Inl show ?thesis by (auto simp: boot_in_def)
      next
        case dec: (Inr bs)
        from law Inr dec decode_bootstrap_metadata(1) [OF dec]
        have bc: "bootstrap_coherent b a (rb_identity b) bs"
          by (auto simp: bootstrap_coherent_def boot_in_def) (metis ArchiveBootstrap.select_convs(3) option.distinct(1))
        have "coherent s1" using law Inr by simp
        with store_bootstrap [OF bc] run get None read Inr dec bc show ?thesis
          by (auto simp: range_load_bootstrap_def reading_runs store_is)
      qed
    qed
  qed
qed

lemma load_leaf_law:
  assumes "boot_in b a h d0 len"
  shows "valid coherent (range_load_leaf b \<lparr>lr_offset = off, lr_length = n,
      lr_compression = h_internal_compression h, lr_archive_len = len\<rparr>)
    (\<lambda>d s. leaf_in b a off n d \<and> coherent s)
    (\<lambda>e s. (\<not> source_failed b e \<longrightarrow> \<not> (\<exists>d. leaf_in b a off n d)) \<and> coherent s)"
proof (rule validI)
  let ?lreq = "\<lparr>lr_offset = off, lr_length = n, lr_compression = h_internal_compression h, lr_archive_len = len\<rparr>"
  fix s r s' assume coh: "coherent s" and run: "run_state (range_load_leaf b ?lreq) s = (r, s')"
  let ?key = "\<lparr>lk_archive = rb_identity b, lk_offset = off, lk_length = n\<rparr>"
  let ?req = "\<lparr>rr_offset = off, rr_length = unat n, rr_archive_len = Some len, rr_kind = LeafDirectoryRead\<rparr>"
  note leaf_iff = leaf_in_iff [OF assms]
  obtain c st where get: "get_leaf ops ?key (rs_store s) = (c, st)" by fastforce
  note got = get_leaf_law [OF coh get]
  show "case r of
      Inl e \<Rightarrow> (\<not> source_failed b e \<longrightarrow> \<not> (\<exists>d. leaf_in b a off n d)) \<and> coherent s'
    | Inr d \<Rightarrow> leaf_in b a off n d \<and> coherent s'"
  proof (cases c)
    case (Some d)
    with run get got show ?thesis
      by (auto simp: range_load_leaf_def Let_def reading_runs store_is leaf_coherent_def)
  next
    case None
    obtain r1 s1 where read: "run_state (range_read_range b ?req) (s\<lparr>rs_store := st\<rparr>) = (r1, s1)" by fastforce
    have "coherent (s\<lparr>rs_store := st\<rparr>)" using got by simp
    note law = validD [OF read_range_law this read]
    show ?thesis
    proof (cases r1)
      case (Inl e)
      with run get None read have "r = Inl e" "s' = s1"
        by (simp_all add: range_load_leaf_def Let_def reading_runs store_is)
      with law Inl show ?thesis by (auto simp: leaf_iff)
    next
      case (Inr bytes0)
      let ?dec = "directory_parse_with_limit (rb_decoders b) (h_internal_compression h) bytes0
        (max_decompressed_directory_bytes (rb_limits b))"
      show ?thesis
      proof (cases ?dec)
        case (Inl x)
        with run get None read Inr have "r = Inl (InvalidArchive x)" "s' = s1"
          by (simp_all add: range_load_leaf_def Let_def reading_runs store_is)
        with law Inr Inl show ?thesis by (auto simp: leaf_iff)
      next
        case dec: (Inr d)
        have leaf: "leaf_in b a off n d" using law Inr dec by (auto simp: leaf_iff)
        then have "leaf_coherent b a ?key d" by (simp add: leaf_coherent_def)
        with law Inr have "holds (bootstrap_coherent b a) (leaf_coherent b a) (put_leaf ops ?key d (rs_store s1))"
          by (intro put_leaf_law) simp_all
        with run get None read Inr dec leaf show ?thesis
          by (auto simp: range_load_leaf_def Let_def reading_runs store_is)
      qed
    qed
  qed
qed

text \<open>The part of \<open>load_metadata\<close> that reads the section.\<close>

definition read_metadata :: "ArchiveBootstrap \<Rightarrow> ('s, 'e, Metadata) reading" where
  "read_metadata bs =
     (if h_metadata_length (ab_header bs) = 0 then ok metadata_default
      else
        attempt_bind (range_read_range b
            \<lparr>rr_offset = h_metadata_offset (ab_header bs),
             rr_length = unat (h_metadata_length (ab_header bs)),
             rr_archive_len = Some (ab_archive_len bs), rr_kind = MetadataRead\<rparr>) (\<lambda>bytes0.
          State_Monad.return (map_err InvalidArchive
            (decode_metadata_bytes (rb_decoders b) (rb_from_slice b) (ab_header bs) bytes0
               (max_decompressed_metadata_bytes (rb_limits b))))))"

lemma read_metadata_law:
  assumes "boot_in b a (ab_header bs) (ab_root bs) (ab_archive_len bs)"
  shows "valid coherent (read_metadata bs) (\<lambda>m s. metadata_in b a m \<and> coherent s)
    (\<lambda>e s. (\<not> source_failed b e \<longrightarrow> \<not> (\<exists>m. metadata_in b a m)) \<and> coherent s)"
proof (cases "h_metadata_length (ab_header bs) = 0")
  case True
  then show ?thesis by (auto simp: read_metadata_def metadata_in_iff [OF assms] intro!: valid_ok)
next
  case False
  then have run: "read_metadata bs = attempt_bind (range_read_range b
            \<lparr>rr_offset = h_metadata_offset (ab_header bs),
             rr_length = unat (h_metadata_length (ab_header bs)),
             rr_archive_len = Some (ab_archive_len bs), rr_kind = MetadataRead\<rparr>) (\<lambda>bytes0.
          State_Monad.return (map_err InvalidArchive
            (decode_metadata_bytes (rb_decoders b) (rb_from_slice b) (ab_header bs) bytes0
               (max_decompressed_metadata_bytes (rb_limits b)))))"
    by (simp add: read_metadata_def)
  show ?thesis
    unfolding run
    by (rule valid_bind_law [OF read_range_law])
      (auto simp: valid_def reading_runs metadata_in_iff [OF assms] False source_failed_def split: sum.splits)
qed

lemma load_metadata_law:
  "valid coherent (range_load_metadata b)
    (\<lambda>m s. metadata_in b a m \<and> coherent s)
    (\<lambda>e s. (\<not> source_failed b e \<longrightarrow> \<not> (\<exists>m. metadata_in b a m)) \<and> coherent s)"
proof -
  have rest: "valid coherent (case ab_metadata bs of
      Some m \<Rightarrow> attempt_bind (observed (CacheHit MetadataRead (h_metadata_offset (ab_header bs)))) (\<lambda>_. ok m)
    | None \<Rightarrow> attempt_bind (read_metadata bs) (\<lambda>m.
        attempt_bind (to_store (put_bootstrap (rb_directories b) (rb_identity b) (bs\<lparr>ab_metadata := Some m\<rparr>)))
          (\<lambda>_. ok m)))
    (\<lambda>m s. metadata_in b a m \<and> coherent s)
    (\<lambda>e s. (\<not> source_failed b e \<longrightarrow> \<not> (\<exists>m. metadata_in b a m)) \<and> coherent s)"
    if bs: "bootstrap_coherent b a (rb_identity b) bs" for bs
  proof (cases "ab_metadata bs")
    case (Some m)
    with bs show ?thesis
      by (auto intro!: validI simp: reading_runs bootstrap_coherent_def)
  next
    case None
    have boot: "boot_in b a (ab_header bs) (ab_root bs) (ab_archive_len bs)"
      using bs by (simp add: bootstrap_coherent_def)
    have "bootstrap_coherent b a (rb_identity b) (bs\<lparr>ab_metadata := Some m\<rparr>)" if "metadata_in b a m" for m
      using boot that by (simp add: bootstrap_coherent_def)
    note put = store_bootstrap [OF this]
    show ?thesis
      unfolding None option.case
      by (rule valid_bind [OF read_metadata_law [OF boot]]) (auto intro!: validI put simp: reading_runs store_is)
  qed
  show ?thesis
    unfolding range_load_metadata_def read_metadata_def [symmetric]
    using metadata_in_boot by (intro valid_bind_law [OF load_bootstrap_law] valid_pure rest) blast+
qed

end

sublocale honest_range_backend < archive_contract "range_backend b" coherent "source_failed b"
  "boot_in b a" "leaf_in b a" "body_in b a"
proof
  show "valid coherent (load_bootstrap (range_backend b))
      (\<lambda>bs s. boot_in b a (ab_header bs) (ab_root bs) (ab_archive_len bs) \<and> coherent s)
      (\<lambda>e s. (\<not> source_failed b e \<longrightarrow> \<not> (\<exists>h d len. boot_in b a h d len)) \<and> coherent s)"
    unfolding range_backend_def ArchiveBackend.simps
    by (rule valid_post [OF load_bootstrap_law]) (auto simp: bootstrap_coherent_def)
  show "valid coherent (load_leaf (range_backend b)
        \<lparr>lr_offset = off, lr_length = n, lr_compression = h_internal_compression h, lr_archive_len = len\<rparr>)
      (\<lambda>d s. leaf_in b a off n d \<and> coherent s)
      (\<lambda>e s. (\<not> source_failed b e \<longrightarrow> \<not> (\<exists>d. leaf_in b a off n d)) \<and> coherent s)"
    if "boot_in b a h d len" for h d len off n
    unfolding range_backend_def ArchiveBackend.simps using that by (rule load_leaf_law)
  show "valid coherent (read_range (range_backend b) req) (\<lambda>bs s. body_in b a req bs \<and> coherent s)
      (\<lambda>e s. (\<not> source_failed b e \<longrightarrow> \<not> (\<exists>bs. body_in b a req bs)) \<and> coherent s)"
    if "rr_kind req = TileRead" for req
    unfolding range_backend_def ArchiveBackend.simps
    by (rule valid_post [OF read_range_law]) (use that in \<open>auto simp: body_in_def\<close>)
qed (auto dest: boot_in_unique leaf_in_unique boot_in_len)

context honest_range_backend
begin

lemma range_get_tile_law:
  assumes "r_backend r = range_backend b" and "max_directory_depth (r_limits r) \<noteq> 0"
  shows "valid coherent (get_tile r t)
    (\<lambda>td s. tile_served (boot_in b a) (leaf_in b a) (body_in b a) (r_limits r) t td \<and> coherent s)
    (\<lambda>e s. (\<not> source_failed b e
        \<longrightarrow> \<not> (\<exists>td. tile_served (boot_in b a) (leaf_in b a) (body_in b a) (r_limits r) t td)) \<and> coherent s)"
  by (rule get_tile_law [OF assms])

lemma range_get_tile_at:
  assumes "r_backend r = range_backend b" and "max_directory_depth (r_limits r) \<noteq> 0"
    and "boot_in b a h d len" and "t \<le> MAX_TILE_ID"
    and "reaches (leaf_in b a) (r_limits r) (unat (max_directory_depth (r_limits r))) h (TileId t) d rs loc"
    and "\<And>off n. loc = Some (off, n) \<Longrightarrow> unat n \<le> max_range_bytes (r_limits r)
      \<and> body_in b a \<lparr>rr_offset = off, rr_length = unat n, rr_archive_len = Some len, rr_kind = TileRead\<rparr>
          (archive_slice a off (unat n))"
    and "\<And>n req x. rb_source b n req \<noteq> Inl x" and "coherent s"
  shows "fst (run_state (get_tile r t) s) =
    Inr (map_option (\<lambda>(off, n). \<lparr>td_bytes = archive_slice a off (unat n),
      td_content_type = tile_content_type (h_tile_type h),
      td_content_encoding = content_encoding (h_tile_compression h)\<rparr>) loc)"
  by (rule get_tile_at [OF assms(1-6) _ _ assms(8)]) (use assms(7) in \<open>auto simp: body_in_def source_failed_def\<close>)

end

section \<open>An archive behind a source that never fails\<close>

text \<open>Such a source truncates a range at the end of the archive, as object stores do.\<close>

definition object_source :: "bytes \<Rightarrow> nat \<Rightarrow> ReadRequest \<Rightarrow> 'e + bytes" where
  "object_source a n req = Inr (archive_slice a (rr_offset req) (rr_length req))"

definition object_backend ::
  "'s DirectoryStore \<Rightarrow> ReaderLimits \<Rightarrow> decoders \<Rightarrow> (bytes \<Rightarrow> Metadata option) \<Rightarrow> bytes
    \<Rightarrow> ('s, unit) RangeArchiveBackend" where
  "object_backend ops limits dec from_slice a =
     \<lparr>rb_source = object_source a, rb_identity = \<lparr>ai_name = ''archive'', ai_generation = ''1''\<rparr>,
      rb_directories = ops, rb_limits = limits, rb_decoders = dec, rb_from_slice = from_slice\<rparr>"

interpretation object_uncached: honest_range_backend no_directory_store no_holds
    "object_backend no_directory_store limits dec from_slice a" a for limits dec from_slice a
  by unfold_locales (simp_all add: object_backend_def honest_source_def object_source_def)

interpretation object_cached: honest_range_backend map_store map_holds
    "object_backend map_store limits dec from_slice a" a for limits dec from_slice a
  by unfold_locales (simp_all add: object_backend_def honest_source_def object_source_def)

section \<open>The answers of a reader\<close>

lemma reader_with_components_Inr:
  assumes "reader_with_components b = Inr r"
  shows "r = \<lparr>r_backend = range_backend b, r_limits = rb_limits b\<rparr>" and "max_directory_depth (rb_limits b) \<noteq> 0"
    and "bootstrap_bytes (rb_limits b) \<le> max_range_bytes (rb_limits b)"
  using assms
  by (auto simp: reader_with_components_def validate_limits_def try_bind_Inr split: if_splits)

end
