(* ===== verification/Pmtiles_Roundtrip.thy ===== *)
theory Pmtiles_Roundtrip
  imports Pmtiles_Range
begin

text \<open>
  From written bytes back to tiles.  A reference writer of the format, header and root directory and
  data, and the theorems that the decoders of the crate are its left inverses: headers, directories,
  and the tiles of a whole archive read through the reader.
\<close>

section \<open>Headers\<close>

fun le_bytes :: "nat \<Rightarrow> nat \<Rightarrow> bytes" where
  "le_bytes 0 v = []"
| "le_bytes (Suc k) v = word_of_nat (v mod 256) # le_bytes k (v div 256)"

lemma length_le_bytes [simp]: "length (le_bytes k v) = k"
  by (induction k arbitrary: v) simp_all

lemma le_value_bytes: "le_value (le_bytes k v) = v mod 256 ^ k"
proof (induction k arbitrary: v)
  case (Suc k)
  have "unat (word_of_nat (v mod 256) :: u8) = v mod 256"
    by (simp add: unsigned_of_nat take_bit_nat_eq_self)
  with Suc show ?case by (simp add: mod_mult2_eq)
qed simp

fun compression_code :: "Compression \<Rightarrow> u8" where
  "compression_code UnknownCompression = 0"
| "compression_code NoCompression = 1"
| "compression_code Gzip = 2"
| "compression_code Brotli = 3"
| "compression_code Zstd = 4"

fun tile_type_code :: "TileType \<Rightarrow> u8" where
  "tile_type_code UnknownTile = 0"
| "tile_type_code Mvt = 1"
| "tile_type_code PngTile = 2"
| "tile_type_code JpegTile = 3"
| "tile_type_code WebpTile = 4"
| "tile_type_code Avif = 5"
| "tile_type_code Mlt = 6"

definition encode_header :: "Header \<Rightarrow> bytes" where
  "encode_header h =
     magic @ [h_version h]
     @ le_bytes 8 (unat (h_root_offset h)) @ le_bytes 8 (unat (h_root_length h))
     @ le_bytes 8 (unat (h_metadata_offset h)) @ le_bytes 8 (unat (h_metadata_length h))
     @ le_bytes 8 (unat (h_leaf_offset h)) @ le_bytes 8 (unat (h_leaf_length h))
     @ le_bytes 8 (unat (h_data_offset h)) @ le_bytes 8 (unat (h_data_length h))
     @ le_bytes 8 (unat (h_n_addressed_tiles h)) @ le_bytes 8 (unat (h_n_tile_entries h))
     @ le_bytes 8 (unat (h_n_tile_contents h))
     @ [if h_clustered h then 1 else 0, compression_code (h_internal_compression h),
        compression_code (h_tile_compression h), tile_type_code (h_tile_type h), h_min_zoom h, h_max_zoom h]
     @ le_bytes 4 (unat (h_min_longitude h)) @ le_bytes 4 (unat (h_min_latitude h))
     @ le_bytes 4 (unat (h_max_longitude h)) @ le_bytes 4 (unat (h_max_latitude h))
     @ [h_center_zoom h]
     @ le_bytes 4 (unat (h_center_longitude h)) @ le_bytes 4 (unat (h_center_latitude h))"

lemma length_magic [simp]: "length magic = 7"
  by (simp add: magic_def as_bytes_def)

lemma length_encode_header: "length (encode_header h) = HEADER_SIZE"
  by (simp add: encode_header_def HEADER_SIZE_def)

lemma get_u64_le_bytes [simp]: "get_u64_le (le_bytes 8 (unat w) @ rest) = (w, rest)"
proof -
  have "le_value (le_bytes 8 (unat w)) = unat w"
    using unat_u64_less [of w] by (simp add: le_value_bytes)
  then show ?thesis by (simp add: get_u64_le_def)
qed

lemma read_coordinate_bytes [simp]:
  "read_coordinate_part (le_bytes 4 (unat (w :: 32 word)) @ rest) = (w, rest)"
  "read_coordinate_part (le_bytes 4 (unat (w :: 32 word))) = (w, [])"
proof -
  have "unat w < 2 ^ 32" using unsigned_less [of w] by simp
  then have "le_value (le_bytes 4 (unat w)) = unat w" by (simp add: le_value_bytes)
  then show "read_coordinate_part (le_bytes 4 (unat w) @ rest) = (w, rest)"
    "read_coordinate_part (le_bytes 4 (unat w)) = (w, [])" by (simp_all add: read_coordinate_part_def)
qed

lemma get_u8_Cons [simp]: "get_u8 (b # rest) = (b, rest)"
  by (simp add: get_u8_def)

lemma codes [simp]:
  "compression_try_from (compression_code c) = Inr c" "tile_type_try_from (tile_type_code t) = Inr t"
  by (cases c; simp add: compression_try_from_def) (cases t; simp add: tile_type_try_from_def)

lemma header_roundtrip:
  assumes "h_version h = PMTILES_VERSION" and "sections_fit h"
  shows "header_parse (encode_header h @ rest) = Inr h"
proof -
  have "take 7 (encode_header h @ rest) = magic" by (simp add: encode_header_def)
  moreover have "range_fits (h_root_offset h, h_root_length h)" "range_fits (h_metadata_offset h, h_metadata_length h)"
    "range_fits (h_leaf_offset h, h_leaf_length h)" "range_fits (h_data_offset h, h_data_length h)"
    using assms(2) by (simp_all add: sections_fit_def range_fits_def checked_add_u64_def)
  moreover have "\<not> length (encode_header h @ rest) < HEADER_SIZE" by (simp add: length_encode_header)
  moreover have "drop 7 (encode_header h @ rest) = drop 7 (encode_header h) @ rest"
    by (simp add: encode_header_def)
  ultimately show ?thesis
    using assms(1) by (cases h) (simp add: header_parse_def encode_header_def)
qed

section \<open>Whole archives\<close>

text \<open>The writer of an archive of one directory: a vector tile archive without compression.\<close>

fun entries_from :: "nat \<Rightarrow> (u64 \<times> bytes) list \<Rightarrow> Directory" where
  "entries_from off [] = []"
| "entries_from off ((i, payload) # tiles) =
     \<lparr>e_tile_id = i, e_offset = word_of_nat off, e_length = word_of_nat (length payload), e_run_length = 1\<rparr>
     # entries_from (off + length payload) tiles"

definition tile_data :: "(u64 \<times> bytes) list \<Rightarrow> bytes" where
  "tile_data tiles = concat (map snd tiles)"

definition written_directory :: "(u64 \<times> bytes) list \<Rightarrow> bytes" where
  "written_directory tiles = encode_directory (entries_from 0 tiles)"

definition written_header :: "(u64 \<times> bytes) list \<Rightarrow> Header" where
  "written_header tiles =
     (let after_root = word_of_nat (HEADER_SIZE + length (written_directory tiles));
          n = word_of_nat (length tiles)
      in \<lparr>h_version = PMTILES_VERSION, h_root_offset = word_of_nat HEADER_SIZE,
          h_root_length = word_of_nat (length (written_directory tiles)),
          h_metadata_offset = after_root, h_metadata_length = 0, h_leaf_offset = after_root, h_leaf_length = 0,
          h_data_offset = after_root, h_data_length = word_of_nat (length (tile_data tiles)),
          h_n_addressed_tiles = n, h_n_tile_entries = n, h_n_tile_contents = n, h_clustered = True,
          h_internal_compression = NoCompression, h_tile_compression = NoCompression, h_tile_type = Mvt,
          h_min_zoom = 0, h_max_zoom = MAX_ZOOM, h_min_longitude = 0, h_min_latitude = 0,
          h_max_longitude = 0, h_max_latitude = 0, h_center_zoom = 0, h_center_longitude = 0,
          h_center_latitude = 0\<rparr>)"

definition written_archive :: "(u64 \<times> bytes) list \<Rightarrow> bytes" where
  "written_archive tiles = encode_header (written_header tiles) @ written_directory tiles @ tile_data tiles"

definition writable :: "ReaderLimits \<Rightarrow> (u64 \<times> bytes) list \<Rightarrow> bool" where
  "writable l tiles \<longleftrightarrow> sorted_wrt (<) (map fst tiles)
     \<and> list_all (\<lambda>(i, payload). length payload \<le> max_range_bytes l \<and> length payload < 2 ^ 32) tiles
     \<and> HEADER_SIZE + length (written_directory tiles) \<le> bootstrap_bytes l
     \<and> length (written_directory tiles) \<le> max_decompressed_directory_bytes l
     \<and> length (written_archive tiles) < 2 ^ 64 - 1"

lemma length_written: "length (written_archive tiles) = HEADER_SIZE + length (written_directory tiles) + length (tile_data tiles)"
  by (simp add: written_archive_def length_encode_header)

lemma unat_small: "n < 2 ^ 64 \<Longrightarrow> unat (word_of_nat n :: u64) = n"
  by (simp add: unsigned_of_nat take_bit_nat_eq_self)

lemma entries_from_ids: "map e_tile_id (entries_from off tiles) = map fst tiles"
  by (induction off tiles rule: entries_from.induct) simp_all

lemma entries_from_runs: "e \<in> set (entries_from off tiles) \<Longrightarrow> e_run_length e = 1"
  by (induction off tiles rule: entries_from.induct) auto

lemma entries_from_offsets:
  "off + length (tile_data tiles) < 2 ^ 64 - 1 \<Longrightarrow>
    list_all (\<lambda>e. unat (e_offset e) < 2 ^ 64 - 1) (entries_from off tiles)"
  by (induction off tiles rule: entries_from.induct) (simp_all add: tile_data_def unat_small)

text \<open>The entry of a tile names its bytes.\<close>

lemma entries_from_payload:
  assumes "(i, payload) \<in> set tiles" and "list_all (\<lambda>(i, payload). length payload < 2 ^ 32) tiles"
    and "off + length (tile_data tiles) < 2 ^ 64 - 1"
  shows "\<exists>e\<in>set (entries_from off tiles). e_tile_id e = i \<and> unat (e_length e) = length payload
    \<and> off \<le> unat (e_offset e) \<and> unat (e_offset e) + length payload \<le> off + length (tile_data tiles)
    \<and> take (length payload) (drop (unat (e_offset e) - off) (tile_data tiles)) = payload"
  using assms
proof (induction off tiles rule: entries_from.induct)
  case (2 off i' p tiles)
  show ?case
  proof (cases "(i', p) = (i, payload)")
    case True
    with "2.prems" show ?thesis
      by (intro bexI [of _ "\<lparr>e_tile_id = i, e_offset = word_of_nat off, e_length = word_of_nat (length payload), e_run_length = 1\<rparr>"])
        (auto simp: tile_data_def unat_small unsigned_of_nat take_bit_nat_eq_self)
  next
    case False
    with "2.prems" obtain e where e: "e \<in> set (entries_from (off + length p) tiles)" "e_tile_id e = i"
      "unat (e_length e) = length payload" "off + length p \<le> unat (e_offset e)"
      "unat (e_offset e) + length payload \<le> off + length p + length (tile_data tiles)"
      "take (length payload) (drop (unat (e_offset e) - (off + length p)) (tile_data tiles)) = payload"
      using "2.IH" by (auto simp: tile_data_def)
    then show ?thesis by (intro bexI [of _ e]) (auto simp: tile_data_def)
  qed
qed simp

lemma find_run_one:
  assumes "ids_strict d" and "\<And>e. e \<in> set d \<Longrightarrow> e_run_length e = 1"
  shows "e \<in> set d \<Longrightarrow> e_tile_id e = t \<Longrightarrow> \<exists>i. find_tile_id d (TileId t) = Some (i, e)"
    and "t \<notin> e_tile_id ` set d \<Longrightarrow> find_tile_id d (TileId t) = None"
proof -
  have covers: "covers e t \<longleftrightarrow> e_tile_id e = t" if "e \<in> set d" for e
    using assms(2) [OF that] by (auto simp: covers_def is_leaf_def word_unat_eq_iff)
  have strict: "e_tile_id (d ! i) < e_tile_id (d ! j)" if "i < j" "j < length d" for i j
    using assms(1) that by (simp add: ids_strict_def sorted_wrt_iff_nth_less)
  show "\<exists>i. find_tile_id d (TileId t) = Some (i, e)" if e: "e \<in> set d" "e_tile_id e = t"
  proof -
    obtain k where k: "k < length d" "d ! k = e" using e(1) by (auto simp: in_set_conv_nth)
    have "scan_entry d t = (if Suc k = 0 then None
        else if covers (d ! (Suc k - 1)) t then Some (Suc k - 1, d ! (Suc k - 1)) else None)"
      using k e(2) strict by (intro scan_entry_at) (auto simp: less_Suc_eq intro: less_imp_le)
    then show ?thesis using k e covers [OF e(1)] by (simp add: find_tile_id_scan [OF assms(1)])
  qed
  show "find_tile_id d (TileId t) = None" if "t \<notin> e_tile_id ` set d"
  proof -
    let ?n = "length (takeWhile (\<lambda>e. e_tile_id e \<le> t) d)"
    have "\<not> covers (d ! (?n - 1)) t" if "?n \<noteq> 0"
    proof -
      have mem: "d ! (?n - 1) \<in> set d" using that length_takeWhile_le [of "\<lambda>e. e_tile_id e \<le> t" d] by (intro nth_mem) linarith
      from covers [OF mem] imageI [OF mem, of e_tile_id] \<open>t \<notin> e_tile_id ` set d\<close> show ?thesis by metis
    qed
    then show ?thesis unfolding find_tile_id_scan [OF assms(1)] scan_entry_def Let_def by auto
  qed
qed

lemma written_header_sections:
  assumes "length (written_archive tiles) < 2 ^ 64 - 1"
  defines "h \<equiv> written_header tiles"
  shows "unat (h_root_offset h) = HEADER_SIZE" "unat (h_root_length h) = length (written_directory tiles)"
    "unat (h_data_offset h) = HEADER_SIZE + length (written_directory tiles)"
    "unat (h_data_length h) = length (tile_data tiles)" "sections_fit h"
proof -
  have small: "HEADER_SIZE + length (written_directory tiles) + length (tile_data tiles) < 2 ^ 64 - 1"
    using assms(1) by (simp add: length_written)
  then have u: "unat (word_of_nat (HEADER_SIZE + length (written_directory tiles)) :: u64) = HEADER_SIZE + length (written_directory tiles)"
    "unat (word_of_nat (length (written_directory tiles)) :: u64) = length (written_directory tiles)"
    "unat (word_of_nat (length (tile_data tiles)) :: u64) = length (tile_data tiles)"
    "unat (word_of_nat HEADER_SIZE :: u64) = HEADER_SIZE"
    by (simp_all add: unat_small HEADER_SIZE_def del: of_nat_add)
  then show "unat (h_root_offset h) = HEADER_SIZE" "unat (h_root_length h) = length (written_directory tiles)"
    "unat (h_data_offset h) = HEADER_SIZE + length (written_directory tiles)"
    "unat (h_data_length h) = length (tile_data tiles)" "sections_fit h"
    using small by (simp_all add: h_def written_header_def Let_def sections_fit_def del: of_nat_add)
qed

lemma written_entries_strict: "sorted_wrt (<) (map fst tiles) \<Longrightarrow> ids_strict (entries_from 0 tiles)"
  unfolding ids_strict_def using entries_from_ids [of 0 tiles] by (metis sorted_wrt_map)

lemma written_parse:
  assumes "writable l tiles"
  shows "parse_entries (written_directory tiles) = Inr (entries_from 0 tiles)"
proof -
  have strict: "ids_strict (entries_from 0 tiles)"
    using assms by (simp add: writable_def written_entries_strict)
  then have "ids_ascending (entries_from 0 tiles)"
    unfolding ids_strict_def ids_ascending_def by (rule sorted_wrt_mono_rel [rotated]) simp
  moreover have "length (tile_data tiles) < 2 ^ 64 - 1" "length (written_directory tiles) < 2 ^ 64 - 1"
    using assms by (simp_all add: writable_def length_written)
  moreover have "length (entries_from 0 tiles) * 4 \<le> length (written_directory tiles)"
    unfolding written_directory_def encode_directory_def
    using encoded_columns_length(1) [of "entries_from 0 tiles" 0]
      encoded_columns_length(2) [of "map e_run_length (entries_from 0 tiles)"]
      encoded_columns_length(2) [of "map e_length (entries_from 0 tiles)"]
      encoded_columns_length(3) [of "entries_from 0 tiles" None] by simp
  ultimately show ?thesis
    using parse_encode_directory [of "entries_from 0 tiles" "[]"] entries_from_offsets [of 0 tiles]
    by (simp add: written_directory_def)
qed

lemma written_bootstrap:
  assumes "writable l tiles"
  shows "\<exists>len. decode_bootstrap_bytes dec (archive_slice (written_archive tiles) 0 (bootstrap_bytes l))
      (max_decompressed_directory_bytes l)
    = Inr \<lparr>ab_header = written_header tiles, ab_root = entries_from 0 tiles, ab_metadata = None, ab_archive_len = len\<rparr>"
proof -
  let ?h = "written_header tiles" and ?dir = "written_directory tiles"
  let ?body = "archive_slice (written_archive tiles) 0 (bootstrap_bytes l)"
  have size: "length (written_archive tiles) < 2 ^ 64 - 1" "HEADER_SIZE + length ?dir \<le> bootstrap_bytes l"
    "length ?dir \<le> max_decompressed_directory_bytes l" using assms by (simp_all add: writable_def)
  note sec = written_header_sections [OF size(1)]
  obtain rest where body: "?body = encode_header ?h @ ?dir @ rest"
    using size(2) by (auto simp: archive_slice_def written_archive_def length_encode_header)
  have header: "header_parse (take HEADER_SIZE ?body) = Inr ?h"
    using header_roundtrip [of ?h "[]"] sec(5)
    by (simp add: body length_encode_header) (simp add: written_header_def Let_def)
  have root: "take (length ?dir) (drop HEADER_SIZE ?body) = ?dir"
    by (simp add: body length_encode_header)
  have parsed: "directory_parse_with_limit dec (h_internal_compression ?h) ?dir (max_decompressed_directory_bytes l)
      = Inr (entries_from 0 tiles)"
    using size(3) written_parse [OF assms]
    by (simp add: directory_parse_with_limit_def decompress_bytes_with_limit_def written_header_def Let_def)
  obtain len where "archive_len ?h = Inr len"
    using sec(5) by (auto simp: archive_len_def sections_fit_def checked_add_u64_def)
  then show ?thesis
    using header root parsed sec size(1)
    by (simp add: decode_bootstrap_bytes_def archive_bootstrap_new_def Let_def)
      (simp add: body length_encode_header length_written)
qed

text \<open>The location of a tile in a written archive.\<close>

lemma written_location:
  assumes "writable l tiles" and "map_of tiles t = Some payload"
  defines "h \<equiv> written_header tiles"
  shows "\<exists>off n. reaches leaf l k h (TileId t) (entries_from 0 tiles) [] (Some (off, n)) \<and> unat n = length payload
    \<and> archive_slice (written_archive tiles) off (unat n) = payload"
proof -
  have size: "length (written_archive tiles) < 2 ^ 64 - 1" using assms(1) by (simp add: writable_def)
  note sec = written_header_sections [OF size, folded h_def]
  have strict: "ids_strict (entries_from 0 tiles)"
    using assms(1) by (simp add: writable_def written_entries_strict)
  have "list_all (\<lambda>(i, payload). length payload < 2 ^ 32) tiles"
    using assms(1) by (auto simp: writable_def list_all_iff)
  with map_of_SomeD [OF assms(2)] size obtain e where e: "e \<in> set (entries_from 0 tiles)" "e_tile_id e = t"
      "unat (e_length e) = length payload" "unat (e_offset e) + length payload \<le> length (tile_data tiles)"
      "take (length payload) (drop (unat (e_offset e)) (tile_data tiles)) = payload"
    using entries_from_payload [of t payload tiles 0] by (auto simp: length_written)
  obtain i where found: "find_tile_id (entries_from 0 tiles) (TileId t) = Some (i, e)"
    using find_run_one(1) [OF strict entries_from_runs [where off = 0 and tiles = tiles] e(1,2)] by blast
  have tile: "\<not> is_leaf e" using entries_from_runs [OF e(1)] by (simp add: is_leaf_def)
  have "in_section (h_data_length h) e" using e(3,4) sec(4) by (simp add: in_section_def)
  moreover have "unat (h_data_offset h + e_offset e) = HEADER_SIZE + length (written_directory tiles) + unat (e_offset e)"
    using sec(3) e(4) size by (simp add: unat_word_ariths length_written)
  then have "archive_slice (written_archive tiles) (h_data_offset h + e_offset e) (unat (e_length e)) = payload"
    using e(3,5) by (simp add: archive_slice_def written_archive_def length_encode_header)
  ultimately show ?thesis
    using e(3) by (intro exI conjI) (auto simp: reaches_tile [OF found tile])
qed

lemma written_absent:
  assumes "writable l tiles" and "map_of tiles t = None"
  shows "reaches leaf l k h (TileId t) (entries_from 0 tiles) [] None"
proof -
  have "t \<notin> e_tile_id ` set (entries_from 0 tiles)"
    using assms(2) entries_from_ids [of 0 tiles] by (metis list.set_map map_of_eq_None_iff)
  then have "find_tile_id (entries_from 0 tiles) (TileId t) = None"
    using assms(1) by (intro find_run_one(2) written_entries_strict)
      (auto simp: writable_def entries_from_runs)
  then show ?thesis by (simp add: reaches_absent)
qed

lemma read_back:
  assumes "writable (rb_limits b) tiles" and "t \<le> MAX_TILE_ID"
    and "rb_source b = object_source (written_archive tiles)"
    and "directory_store (rb_directories b) holds" and "reader_with_components b = Inr r"
    and "holds (bootstrap_coherent b (written_archive tiles)) (leaf_coherent b (written_archive tiles)) (rs_store s)"
  shows "fst (run_state (get_tile r t) s) =
    Inr (map_option (\<lambda>payload. \<lparr>td_bytes = payload, td_content_type = ''application/vnd.mapbox-vector-tile'',
      td_content_encoding = None\<rparr>) (map_of tiles t))"
proof -
  let ?a = "written_archive tiles" and ?h = "written_header tiles" and ?l = "rb_limits b"
  have honest: "honest_range_backend (rb_directories b) holds b ?a"
    using assms(3,4)
    by (simp add: honest_range_backend_def honest_range_backend_axioms_def honest_source_def object_source_def)
  note r = reader_with_components_Inr [OF assms(5)]
  obtain len where boot: "boot_in b ?a ?h (entries_from 0 tiles) len"
    using written_bootstrap [OF assms(1), of "rb_decoders b"] r(3) by (auto simp: boot_in_def)
  have types: "tile_content_type (h_tile_type ?h) = ''application/vnd.mapbox-vector-tile''"
    "content_encoding (h_tile_compression ?h) = None" by (simp_all add: written_header_def Let_def)
  have source: "rb_source b n req \<noteq> Inl x" for n req x by (simp add: assms(3) object_source_def)
  have limits: "r_backend r = range_backend b" "max_directory_depth (r_limits r) \<noteq> 0" "r_limits r = ?l"
    using r by simp_all
  note at = honest_range_backend.range_get_tile_at [OF honest limits(1,2) boot assms(2) _ _ source assms(6), unfolded limits(3)]
  show ?thesis
  proof (cases "map_of tiles t")
    case None
    with at [OF written_absent [OF assms(1) None]] show ?thesis by simp
  next
    case (Some payload)
    obtain off n where loc: "reaches (leaf_in b ?a) ?l (unat (max_directory_depth ?l)) ?h (TileId t) (entries_from 0 tiles) []
        (Some (off, n))" "unat n = length payload" "archive_slice ?a off (unat n) = payload"
      using written_location [OF assms(1) Some] by blast
    have "length payload \<le> max_range_bytes ?l"
      using assms(1) map_of_SomeD [OF Some] by (auto simp: writable_def list_all_iff)
    then show ?thesis using at [OF loc(1)] loc(2,3) Some types by (auto simp: body_in_def)
  qed
qed

text \<open>
  C4: a written archive reads back.  For every archive of tiles with ascending ids that fits the
  limits, written by the reference writer and served by a source that does not fail, a reader over
  any coherent store returns for each tile id exactly the bytes written for it, with the content type
  of the header, and reports no tile for every other id.
\<close>

theorem written_tiles_read_back:
  assumes "writable (rb_limits b) tiles" and "t \<le> MAX_TILE_ID"
    and "rb_source b = object_source (written_archive tiles)"
    and "directory_store (rb_directories b) holds" and "reader_with_components b = Inr r"
    and "holds (bootstrap_coherent b (written_archive tiles)) (leaf_coherent b (written_archive tiles)) (rs_store s)"
  shows "fst (run_state (get_tile r t) s) =
    Inr (map_option (\<lambda>payload. \<lparr>td_bytes = payload, td_content_type = ''application/vnd.mapbox-vector-tile'',
      td_content_encoding = None\<rparr>) (map_of tiles t))"
  by (rule read_back [OF assms])

definition example_tiles :: "(u64 \<times> bytes) list" where
  "example_tiles = [(0, [1, 2, 3]), (5, [7])]"

definition example_backend :: "(MapStore, unit) RangeArchiveBackend" where
  "example_backend = object_backend map_store reader_limits_default (\<lambda>c bs. (bs, False)) (\<lambda>json. None)
     (written_archive example_tiles)"

definition example_reader :: "(MapStore ReaderState, unit ReaderError) ArchiveReader" where
  "example_reader = \<lparr>r_backend = range_backend example_backend, r_limits = reader_limits_default\<rparr>"

definition example_state :: "MapStore ReaderState" where
  "example_state = \<lparr>rs_store = \<lparr>ms_bootstraps = (\<lambda>_. None), ms_leaves = (\<lambda>_. None)\<rparr>, rs_calls = 0, rs_events = []\<rparr>"

lemma example_writable: "writable reader_limits_default example_tiles"
proof -
  have "length (written_directory example_tiles) = 9" by code_simp
  moreover have "length (tile_data example_tiles) = 4" by code_simp
  moreover have "sorted_wrt (<) (map fst example_tiles)" by code_simp
  ultimately show ?thesis
    by (simp add: writable_def length_written HEADER_SIZE_def reader_limits_default_def MIN_BOOTSTRAP_BYTES_def
        DEFAULT_MAX_DECOMPRESSED_BYTES_def example_tiles_def)
qed

lemma example_premises:
  "writable (rb_limits example_backend) example_tiles"
  "rb_source example_backend = object_source (written_archive example_tiles)"
  "directory_store (rb_directories example_backend) map_holds"
  "reader_with_components example_backend = Inr example_reader"
  "map_holds B L (rs_store example_state)" "honest_source example_backend (written_archive example_tiles)"
  using example_writable maps.directory_store_axioms
  by (simp_all add: example_backend_def object_backend_def example_reader_def reader_with_components_def
      validate_limits_def reader_limits_default_def MIN_BOOTSTRAP_BYTES_def DEFAULT_MAX_DIRECTORY_DEPTH_def
      DEFAULT_MAX_DECOMPRESSED_BYTES_def map_holds_def example_state_def honest_source_def object_source_def)

theorem written_tiles_read_back_witness:
  "fst (run_state (get_tile example_reader 5) example_state) =
     Inr (Some \<lparr>td_bytes = [7], td_content_type = ''application/vnd.mapbox-vector-tile'', td_content_encoding = None\<rparr>)
   \<and> fst (run_state (get_tile example_reader 4) example_state) = Inr None"
  using written_tiles_read_back [OF example_premises(1) _ example_premises(2-5), of 5]
    written_tiles_read_back [OF example_premises(1) _ example_premises(2-5), of 4]
  by (simp add: example_tiles_def MAX_TILE_ID_def)

section \<open>Every archive\<close>

text \<open>
  C9: a reader answers from the archive's bytes alone.  Over any directory store that returns only
  what was put, coherent with the archive, and any source that answers each request with bytes of the
  archive or an error, \<open>get_tile\<close> returns the tile that the archive's directory tree gives for the id
  within the configured limits, or reports that there is none; it fails only when the source failed
  or when the archive has no valid answer within the limits.  The store stays coherent, so the same
  holds of every later lookup.
\<close>

theorem get_tile_exact:
  assumes "directory_store (rb_directories b) holds" and "honest_source b a"
    and "reader_with_components b = Inr r"
    and "holds (bootstrap_coherent b a) (leaf_coherent b a) (rs_store s)"
    and "run_state (get_tile r t) s = (result, s')"
  shows "(case result of
            Inr td \<Rightarrow> tile_served (boot_in b a) (leaf_in b a) (body_in b a) (rb_limits b) t td
          | Inl e \<Rightarrow> source_failed b e
              \<or> \<not> (\<exists>td. tile_served (boot_in b a) (leaf_in b a) (body_in b a) (rb_limits b) t td))
    \<and> holds (bootstrap_coherent b a) (leaf_coherent b a) (rs_store s')"
proof -
  have "honest_range_backend (rb_directories b) holds b a"
    using assms(1,2) by (simp add: honest_range_backend_def honest_range_backend_axioms_def)
  note law = honest_range_backend.range_get_tile_law [OF this, of r t]
  have "r_backend r = range_backend b" "max_directory_depth (r_limits r) \<noteq> 0" "r_limits r = rb_limits b"
    using reader_with_components_Inr [OF assms(3)] by simp_all
  with validD [OF law assms(4,5)] show ?thesis by (auto split: sum.splits)
qed

theorem get_tile_exact_witness:
  "tile_served (boot_in example_backend (written_archive example_tiles))
     (leaf_in example_backend (written_archive example_tiles)) (body_in example_backend (written_archive example_tiles))
     reader_limits_default 5
     (Some \<lparr>td_bytes = [7], td_content_type = ''application/vnd.mapbox-vector-tile'', td_content_encoding = None\<rparr>)"
proof -
  obtain res s' where run: "run_state (get_tile example_reader 5) example_state = (res, s')" by fastforce
  have "res = Inr (Some \<lparr>td_bytes = [7], td_content_type = ''application/vnd.mapbox-vector-tile'',
      td_content_encoding = None\<rparr>)"
    using read_back [OF example_premises(1) _ example_premises(2-5), of 5] run
    by (simp add: example_tiles_def MAX_TILE_ID_def)
  with get_tile_exact [OF example_premises(3,6,4,5) run] show ?thesis
    by (simp add: example_backend_def object_backend_def)
qed

end
