(* ===== verification/Pmtiles_Bounds.thy ===== *)
theory Pmtiles_Bounds
  imports Pmtiles_Roundtrip
begin

text \<open>
  What a lookup costs, whatever the source answers: the requests a reader sends are at most two more
  than the directory levels it may descend, none is longer than the limit, and none leaves the
  archive that the header declares.
\<close>

section \<open>Requests sent\<close>

fun started :: "ReaderEvent list \<Rightarrow> ReadRequest list" where
  "started [] = []"
| "started (ReadStarted req # evs) = req # started evs"
| "started (_ # evs) = started evs"

definition request_ok :: "ReaderLimits \<Rightarrow> ReadRequest \<Rightarrow> bool" where
  "request_ok l req \<longleftrightarrow> rr_length req \<le> max_range_bytes l
     \<and> (case rr_archive_len req of
          None \<Rightarrow> rr_offset req = 0 \<and> rr_kind req = BootstrapRead
        | Some len \<Rightarrow> unat (rr_offset req) + rr_length req \<le> unat len)"

definition spent :: "ReaderLimits \<Rightarrow> ReaderEvent list \<Rightarrow> nat \<Rightarrow> ReaderEvent list \<Rightarrow> bool" where
  "spent l before n evs = (\<exists>new. evs = before @ new \<and> list_all (request_ok l) (started new)
     \<and> length (started new) \<le> n)"

definition well_formed_bootstrap :: "ArchiveBootstrap \<Rightarrow> bool" where
  "well_formed_bootstrap bs = (archive_len (ab_header bs) = Inr (ab_archive_len bs))"

lemma started_append [simp]: "started (xs @ ys) = started xs @ started ys"
  by (induction xs rule: started.induct) simp_all

lemma spent_mono: "spent l before n evs \<Longrightarrow> n \<le> m \<Longrightarrow> spent l before m evs"
  unfolding spent_def using le_trans by blast

lemma spent_event:
  assumes "spent l before n evs"
  shows "started [ev] = [] \<Longrightarrow> spent l before n (evs @ [ev])"
    and "request_ok l req \<Longrightarrow> spent l before (Suc n) (evs @ [ReadStarted req])"
  using assms unfolding spent_def by (metis append_assoc append_Nil2 started_append,
    force intro: exI [of _ "_ @ [ReadStarted req]"])

lemma spent_refl: "spent l before 0 before"
  by (simp add: spent_def)

text \<open>A leaf or a tile that the walker gives is inside the archive.\<close>

lemma walker_leaf_inside:
  assumes "walker_step w d = Inr (Leaf rng, w')" and "archive_len (dw_header w) = Inr len"
  shows "unat (ar_offset rng) + unat (ar_length rng) \<le> unat len" "dw_header w' = dw_header w"
proof -
  note fit = archive_len_sections [OF assms(2)]
  obtain i e where e: "find_tile_id d (dw_tile_id w) = Some (i, e)" "is_leaf e"
    using assms(1) by (auto simp: walker_step_def try_bind_Inr split: option.splits if_splits)
  have ok: "dw_depth w < dw_max_depth w" "in_section (h_leaf_length (dw_header w)) e"
    using walker_step_descend(2) [OF e fit] assms(1) by auto
  from walker_step_descend(1) [OF e fit ok] assms(1)
  have rng: "rng = \<lparr>ar_offset = h_leaf_offset (dw_header w) + e_offset e, ar_length = e_length e\<rparr>"
    and w': "w' = w\<lparr>dw_depth := dw_depth w + 1\<rparr>" by simp_all
  show "dw_header w' = dw_header w" by (simp add: w')
  have "unat (h_leaf_offset (dw_header w)) + unat (h_leaf_length (dw_header w)) < 2 ^ 64"
    using fit by (simp add: sections_fit_def)
  from section_bounds(1) [OF ok(2) this] archive_len_bounds(1) [OF assms(2)]
  show "unat (ar_offset rng) + unat (ar_length rng) \<le> unat len" by (simp add: rng)
qed

lemma walker_tile_inside:
  assumes "walker_step w d = Inr (Tile loc, w')" and "archive_len (dw_header w) = Inr len"
  shows "unat (loc_offset loc) + unat (loc_length loc) \<le> unat len" "loc_archive_len loc = dw_archive_len w"
proof -
  note fit = archive_len_sections [OF assms(2)]
  obtain i e where e: "find_tile_id d (dw_tile_id w) = Some (i, e)" "\<not> is_leaf e"
    using assms(1) by (auto simp: walker_step_def try_bind_Inr split: option.splits if_splits)
  have ok: "in_section (h_data_length (dw_header w)) e"
    using walker_step_tile(2) [OF e fit] assms(1) by auto
  from walker_step_tile(1) [OF e fit ok] assms(1)
  have loc: "loc = \<lparr>loc_offset = h_data_offset (dw_header w) + e_offset e, loc_length = e_length e,
      loc_archive_len = dw_archive_len w\<rparr>" by simp
  then show "loc_archive_len loc = dw_archive_len w" by simp
  have "unat (h_data_offset (dw_header w)) + unat (h_data_length (dw_header w)) < 2 ^ 64"
    using fit by (simp add: sections_fit_def)
  from section_bounds(1) [OF ok this] archive_len_bounds(2) [OF assms(2)]
  show "unat (loc_offset loc) + unat (loc_length loc) \<le> unat len" by (simp add: loc)
qed

section \<open>The budget of each operation\<close>

locale reading_budget = directory_store ops holds
  for ops :: "'s DirectoryStore"
    and holds :: "(ArchiveIdentity \<Rightarrow> ArchiveBootstrap \<Rightarrow> bool) \<Rightarrow> (LeafDirectoryKey \<Rightarrow> Directory \<Rightarrow> bool)
      \<Rightarrow> 's \<Rightarrow> bool" +
  fixes b :: "('s, 'e) RangeArchiveBackend"
    and before :: "ReaderEvent list"
  assumes store_is: "rb_directories b = ops"
begin

abbreviation in_budget :: "nat \<Rightarrow> 's ReaderState \<Rightarrow> bool" where
  "in_budget n s \<equiv> holds (\<lambda>i. well_formed_bootstrap) (\<lambda>k d. True) (rs_store s)
     \<and> spent (rb_limits b) before n (rs_events s)"

lemma in_budget_mono: "in_budget n s \<Longrightarrow> n \<le> m \<Longrightarrow> in_budget m s"
  using spent_mono by blast

lemma read_budget:
  assumes "case rr_archive_len req of
      None \<Rightarrow> rr_offset req = 0 \<and> rr_kind req = BootstrapRead
    | Some len \<Rightarrow> unat (rr_offset req) + rr_length req \<le> unat len"
  shows "valid (in_budget n) (range_read_range b req) (\<lambda>bs. in_budget (Suc n)) (\<lambda>e. in_budget (Suc n))"
proof (rule validI)
  fix s r s' assume s: "in_budget n s" and run: "run_state (range_read_range b req) s = (r, s')"
  show "case r of Inl e \<Rightarrow> in_budget (Suc n) s' | Inr bs \<Rightarrow> in_budget (Suc n) s'"
  proof (cases "rr_length req \<le> max_range_bytes (rb_limits b)")
    case True
    with assms have ok: "request_ok (rb_limits b) req" by (simp add: request_ok_def)
    have "spent (rb_limits b) before (Suc n) (rs_events s @ [ReadStarted req])"
      using s ok spent_event(2) by blast
    then have "spent (rb_limits b) before (Suc n) ((rs_events s @ [ReadStarted req]) @ [ev])" if "started [ev] = []" for ev
      using that by (rule spent_event(1))
    with s run True show ?thesis
      by (auto simp: range_read_range_def reading_runs not_less split: if_splits sum.splits)
  next
    case False
    with s run show ?thesis using spent_mono [of "rb_limits b" before n "rs_events s" "Suc n"]
      by (auto simp: range_read_range_def reading_runs)
  qed
qed

lemma store_kept:
  assumes "in_budget n s"
  shows "get_bootstrap ops i (rs_store s) = (r, st) \<Longrightarrow>
      holds (\<lambda>i. well_formed_bootstrap) (\<lambda>k d. True) st \<and> (\<forall>bs. r = Some bs \<longrightarrow> well_formed_bootstrap bs)"
    and "get_leaf ops k (rs_store s) = (q, st) \<Longrightarrow> holds (\<lambda>i. well_formed_bootstrap) (\<lambda>k d. True) st"
    and "well_formed_bootstrap bs \<Longrightarrow> holds (\<lambda>i. well_formed_bootstrap) (\<lambda>k d. True) (put_bootstrap ops i bs (rs_store s))"
    and "holds (\<lambda>i. well_formed_bootstrap) (\<lambda>k d. True) (put_leaf ops k x (rs_store s))"
  using assms get_bootstrap_law [of "\<lambda>i. well_formed_bootstrap" "\<lambda>k d. True" "rs_store s"]
    get_leaf_law [of "\<lambda>i. well_formed_bootstrap" "\<lambda>k d. True" "rs_store s"]
    put_bootstrap_law [of "\<lambda>i. well_formed_bootstrap" "\<lambda>k d. True" "rs_store s"]
    put_leaf_law [of "\<lambda>i. well_formed_bootstrap" "\<lambda>k d. True" "rs_store s"]
  by blast+

lemma observed_budget:
  "in_budget n s \<Longrightarrow> started [ev] = [] \<Longrightarrow> in_budget n (s\<lparr>rs_events := rs_events s @ [ev]\<rparr>)"
  using spent_event(1) by simp

lemma bootstrap_budget:
  "valid (in_budget n) (range_load_bootstrap b)
    (\<lambda>bs s. well_formed_bootstrap bs \<and> in_budget (Suc n) s) (\<lambda>e. in_budget (Suc n))"
  unfolding range_load_bootstrap_def
proof (rule valid_bind [where R = "\<lambda>c s. (\<forall>bs. c = Some bs \<longrightarrow> well_formed_bootstrap bs) \<and> in_budget n s"])
  show "valid (in_budget n) (from_store (get_bootstrap (rb_directories b) (rb_identity b)))
      (\<lambda>c s. (\<forall>bs. c = Some bs \<longrightarrow> well_formed_bootstrap bs) \<and> in_budget n s) (\<lambda>e. in_budget (Suc n))"
    using store_kept(1) by (intro validI) (auto simp: reading_runs store_is split: prod.splits)
next
  fix c
  let ?rest = "case c of
      Some bootstrap \<Rightarrow> attempt_bind (observed (CacheHit BootstrapRead 0)) (\<lambda>_. ok bootstrap)
    | None \<Rightarrow>
        attempt_bind (range_read_range b
            \<lparr>rr_offset = 0, rr_length = bootstrap_bytes (rb_limits b), rr_archive_len = None,
             rr_kind = BootstrapRead\<rparr>) (\<lambda>bytes0.
          case map_err InvalidArchive
                 (decode_bootstrap_bytes (rb_decoders b) bytes0
                    (max_decompressed_directory_bytes (rb_limits b))) of
            Inl e \<Rightarrow> err e
          | Inr bootstrap \<Rightarrow>
              attempt_bind (observed (DirectoryDecoded BootstrapRead (length (ab_root bootstrap)))) (\<lambda>_.
              attempt_bind (to_store (put_bootstrap (rb_directories b) (rb_identity b) bootstrap)) (\<lambda>_.
                ok bootstrap)))"
  have decoded: "well_formed_bootstrap bs" if "decode_bootstrap_bytes dec bytes0 lim = Inr bs" for dec bytes0 lim bs
    using decode_bootstrap_metadata(2) [OF that] by (simp add: well_formed_bootstrap_def)
  show "valid (\<lambda>s. (\<forall>bs. c = Some bs \<longrightarrow> well_formed_bootstrap bs) \<and> in_budget n s) ?rest
      (\<lambda>bs s. well_formed_bootstrap bs \<and> in_budget (Suc n) s) (\<lambda>e. in_budget (Suc n))"
  proof (cases c)
    case (Some bs)
    then show ?thesis
      using spent_event(1) spent_mono [of "rb_limits b" before n _ "Suc n"]
      by (intro validI) (auto simp: reading_runs)
  next
    case None
    show ?thesis
      unfolding None option.case
      by (rule valid_bind [OF valid_pre [OF read_budget]])
        (auto intro!: validI simp: reading_runs store_is decoded store_kept(3) spent_event(1) split: sum.splits)
  qed
qed

lemma leaf_budget:
  assumes "unat (lr_offset req) + unat (lr_length req) \<le> unat (lr_archive_len req)"
  shows "valid (in_budget n) (range_load_leaf b req) (\<lambda>d. in_budget (Suc n)) (\<lambda>e. in_budget (Suc n))"
  unfolding range_load_leaf_def Let_def
proof (rule valid_bind [where R = "\<lambda>c. in_budget n"])
  let ?key = "\<lparr>lk_archive = rb_identity b, lk_offset = lr_offset req, lk_length = lr_length req\<rparr>"
  show "valid (in_budget n) (from_store (get_leaf (rb_directories b) ?key)) (\<lambda>c. in_budget n) (\<lambda>e. in_budget (Suc n))"
    using store_kept(2) by (intro validI) (auto simp: reading_runs store_is split: prod.splits)
  fix c
  show "valid (in_budget n) (case c of
      Some directory \<Rightarrow> attempt_bind (observed (CacheHit LeafDirectoryRead (lr_offset req))) (\<lambda>_. ok directory)
    | None \<Rightarrow>
        attempt_bind (range_read_range b
            \<lparr>rr_offset = lr_offset req, rr_length = unat (lr_length req),
             rr_archive_len = Some (lr_archive_len req), rr_kind = LeafDirectoryRead\<rparr>) (\<lambda>bytes0.
          case map_err InvalidArchive
                 (directory_parse_with_limit (rb_decoders b) (lr_compression req) bytes0
                    (max_decompressed_directory_bytes (rb_limits b))) of
            Inl e \<Rightarrow> err e
          | Inr directory \<Rightarrow>
              attempt_bind (observed (DirectoryDecoded LeafDirectoryRead (length directory))) (\<lambda>_.
              attempt_bind (to_store (put_leaf (rb_directories b) ?key directory)) (\<lambda>_.
                ok directory)))) (\<lambda>d. in_budget (Suc n)) (\<lambda>e. in_budget (Suc n))"
  proof (cases c)
    case (Some d)
    then show ?thesis
      using spent_event(1) spent_mono [of "rb_limits b" before n _ "Suc n"]
      by (intro validI) (auto simp: reading_runs)
  next
    case None
    show ?thesis
      unfolding None option.case
      by (rule valid_bind [OF read_budget])
        (auto intro!: validI simp: assms reading_runs store_is store_kept(4) spent_event(1) split: sum.splits)
  qed
qed

text \<open>The walk from a directory, with \<open>n\<close> requests sent.\<close>

definition walk_spends where
  "walk_spends n r bs w d leaves = valid (in_budget n) (walk r bs w d leaves)
    (\<lambda>((loc, h, len), ls) s. (\<forall>l. loc = Some l \<longrightarrow>
        unat (loc_offset l) + unat (loc_length l) \<le> unat (loc_archive_len l))
      \<and> in_budget (n + (unat (dw_max_depth w) - unat (dw_depth w))) s)
    (\<lambda>e. in_budget (n + (unat (dw_max_depth w) - unat (dw_depth w))))"

lemma walk_budget:
  assumes "r_backend r = range_backend b" and "well_formed_bootstrap bs" and "dw_header w = ab_header bs"
    and "dw_archive_len w = ab_archive_len bs"
  shows "walk_spends n r bs w d leaves"
  using assms
proof (induction r bs w d leaves arbitrary: n rule: walk.induct)
  case (1 r bs w d leaves)
  let ?m = "n + (unat (dw_max_depth w) - unat (dw_depth w))"
  have len: "archive_len (dw_header w) = Inr (ab_archive_len bs)"
    using "1.prems"(2,3) by (simp add: well_formed_bootstrap_def)
  have mono: "in_budget n s \<Longrightarrow> in_budget ?m s" for s
    using spent_mono [of "rb_limits b" before n "rs_events s" ?m] by simp
  show ?case
  proof (cases "walker_step w d")
    case (Inl x)
    show ?thesis unfolding walk_spends_def walk_step_simps(1) [OF Inl] by (rule valid_err) (rule mono)
  next
    case (Inr p)
    then obtain st w' where step: "walker_step w d = Inr (st, w')" by (cases p) simp
    show ?thesis
    proof (cases st)
      case Missing
      then show ?thesis using step mono by (auto simp: walk_spends_def walk_step_simps(2) intro!: valid_ok)
    next
      case (Tile loc)
      with step have tile: "walker_step w d = Inr (Tile loc, w')" by simp
      show ?thesis
        unfolding walk_spends_def walk_step_simps(3) [OF tile]
        using walker_tile_inside [OF tile len] mono "1.prems"(4) by (intro valid_ok) auto
    next
      case (Leaf rng)
      with step have leaf: "walker_step w d = Inr (Leaf rng, w')" by simp
      note inside = walker_leaf_inside [OF leaf len]
      have w': "w' = w\<lparr>dw_depth := dw_depth w + 1\<rparr>" and less: "dw_depth w < dw_max_depth w"
        using walker_step_leaf [OF leaf] by simp_all
      have depth: "Suc n + (unat (dw_max_depth w') - unat (dw_depth w')) = ?m"
        using less unat_u8_less [of "dw_max_depth w"] by (simp add: w' unat_word_ariths word_less_nat_alt)
      show ?thesis
      proof (cases "check_range r (ar_offset rng) (ar_length rng)")
        case (Inl e)
        show ?thesis unfolding walk_spends_def walk_step_simps(4) [OF leaf Inl] by (rule valid_err) (rule mono)
      next
        case (Inr u)
        then have ok: "check_range r (ar_offset rng) (ar_length rng) = Inr ()" by simp
        have "dw_header w' = ab_header bs" "dw_archive_len w' = ab_archive_len bs"
          using "1.prems"(3,4) by (simp_all add: w')
        then have "walk_spends (Suc n) r bs w' d' (leaves @ [rng])" for d'
          using "1.IH" leaf ok "1.prems"(1,2) by simp
        note IH = this [unfolded walk_spends_def depth]
        show ?thesis
          unfolding walk_spends_def walk_step_simps(5) [OF leaf ok] "1.prems"(1)
        proof (rule valid_bind_law [OF _ _ IH])
          show "valid (in_budget n) (load_leaf (range_backend b) \<lparr>lr_offset = ar_offset rng, lr_length = ar_length rng,
              lr_compression = h_internal_compression (ab_header bs), lr_archive_len = ab_archive_len bs\<rparr>)
            (\<lambda>d. in_budget (Suc n)) (\<lambda>e. in_budget (Suc n))"
            unfolding range_backend_def ArchiveBackend.simps by (rule leaf_budget) (simp add: inside(1))
          show "in_budget (Suc n) s \<Longrightarrow> in_budget ?m s" for s
            using spent_mono [of "rb_limits b" before "Suc n" "rs_events s" ?m] depth by simp
        qed
      qed
    qed
  qed
qed

lemma resolve_budget:
  assumes "r_backend r = range_backend b"
  shows "valid (in_budget 0) (resolve_tile_location r t)
    (\<lambda>((loc, h, len), ls) s. (\<forall>l. loc = Some l \<longrightarrow>
        unat (loc_offset l) + unat (loc_length l) \<le> unat (loc_archive_len l))
      \<and> in_budget (1 + unat (max_directory_depth (r_limits r))) s)
    (\<lambda>e. in_budget (1 + unat (max_directory_depth (r_limits r))))"
proof (cases "map_err (invalid_tile_id (r_backend r)) (tile_id_new t)")
  case (Inl e)
  then show ?thesis
    using spent_mono [of "rb_limits b" before 0] by (auto simp: resolve_tile_location_def intro!: valid_err)
next
  case (Inr tile_id)
  let ?n = "1 + unat (max_directory_depth (r_limits r))"
  have rest: "valid (in_budget 1) (case map_err (invalid_archive (r_backend r))
        (directory_walker_new (ab_header bs) tile_id (max_directory_depth (r_limits r))) of
      Inl e \<Rightarrow> err e | Inr w \<Rightarrow> walk r bs w (ab_root bs) [])
    (\<lambda>((loc, h, len), ls) s. (\<forall>l. loc = Some l \<longrightarrow>
        unat (loc_offset l) + unat (loc_length l) \<le> unat (loc_archive_len l)) \<and> in_budget ?n s)
    (\<lambda>e. in_budget ?n)" if wf: "well_formed_bootstrap bs" for bs
  proof (cases "directory_walker_new (ab_header bs) tile_id (max_directory_depth (r_limits r))")
    case (Inl e)
    then show ?thesis using spent_mono [of "rb_limits b" before 1 _ ?n] by (auto intro!: valid_err)
  next
    case (Inr w)
    then have w: "dw_header w = ab_header bs" "dw_archive_len w = ab_archive_len bs" "dw_depth w = 0"
      "dw_max_depth w = max_directory_depth (r_limits r)"
      using wf by (auto simp: directory_walker_new_def try_bind_Inr well_formed_bootstrap_def split: if_splits)
    from walk_budget [OF assms wf w(1,2), of 1 "ab_root bs" "[]", unfolded walk_spends_def] w(3,4) Inr show ?thesis by simp
  qed
  have run: "resolve_tile_location r t = attempt_bind (range_load_bootstrap b) (\<lambda>bs.
      case map_err (invalid_archive (r_backend r))
        (directory_walker_new (ab_header bs) tile_id (max_directory_depth (r_limits r))) of
      Inl e \<Rightarrow> err e | Inr w \<Rightarrow> walk r bs w (ab_root bs) [])"
    using Inr assms by (simp add: resolve_tile_location_def range_backend_def)
  show ?thesis
    unfolding run
    by (rule valid_bind_law [OF bootstrap_budget], use spent_mono [of "rb_limits b" before 1 _ ?n] in force)
      (use rest in \<open>auto intro!: valid_pure\<close>)
qed

lemma get_tile_budget:
  assumes "r_backend r = range_backend b"
  shows "valid (in_budget 0) (get_tile r t) (\<lambda>td. in_budget (2 + unat (max_directory_depth (r_limits r))))
    (\<lambda>e. in_budget (2 + unat (max_directory_depth (r_limits r))))"
proof -
  let ?n = "1 + unat (max_directory_depth (r_limits r))"
  have more: "in_budget ?n s \<Longrightarrow> in_budget (Suc ?n) s" for s
    using spent_mono [of "rb_limits b" before ?n "rs_events s" "Suc ?n"] by simp
  have read: "valid (in_budget ?n) (attempt_bind
      (range_read_range b \<lparr>rr_offset = loc_offset l, rr_length = unat (loc_length l),
         rr_archive_len = Some (loc_archive_len l), rr_kind = TileRead\<rparr>) (\<lambda>bs. ok (f bs)))
      (\<lambda>td. in_budget (Suc ?n)) (\<lambda>e. in_budget (Suc ?n))"
    if "unat (loc_offset l) + unat (loc_length l) \<le> unat (loc_archive_len l)" for l f
    by (rule valid_bind [OF read_budget valid_ok]) (use that in simp_all)
  have two: "2 + unat (max_directory_depth (r_limits r)) = Suc ?n" by simp
  show ?thesis
    unfolding get_tile_def two
    apply (rule valid_bind_law [OF resolve_budget [OF assms]], erule more)
    apply (simp only: split_paired_all prod.case)
    apply (rule valid_pure)
    subgoal for loc h len leaves
      using read more by (cases loc) (auto simp: assms range_backend_def intro!: valid_ok valid_err split: sum.splits)
    done
qed

end

interpretation map_budget: reading_budget map_store map_holds
    "object_backend map_store limits dec from_slice a" before for limits dec from_slice a before
  by unfold_locales (simp add: object_backend_def)

text \<open>
  C17: the requests of a lookup are bounded whatever the source answers.  With a store that returns
  only well-formed bootstraps, one \<open>get_tile\<close> of a validated reader sends at most two requests more
  than the directory depth limit; none asks for more than \<open>max_range_bytes\<close>, and every range but the
  bootstrap's lies inside the length that the archive declares.
\<close>

theorem reader_requests_bounded:
  assumes "directory_store (rb_directories b) holds" and "reader_with_components b = Inr r"
    and "holds (\<lambda>i. well_formed_bootstrap) (\<lambda>k d. True) (rs_store s)"
    and "run_state (get_tile r t) s = (result, s')"
  shows "\<exists>new. rs_events s' = rs_events s @ new
    \<and> length (started new) \<le> unat (max_directory_depth (rb_limits b)) + 2
    \<and> list_all (request_ok (rb_limits b)) (started new)"
proof -
  have "reading_budget (rb_directories b) holds b"
    using assms(1) by (simp add: reading_budget_def reading_budget_axioms_def)
  note budget = reading_budget.get_tile_budget [OF this, of r "rs_events s" t]
  have r: "r_backend r = range_backend b" "r_limits r = rb_limits b"
    using reader_with_components_Inr(1) [OF assms(2)] by simp_all
  have "spent (rb_limits b) (rs_events s) (2 + unat (max_directory_depth (rb_limits b))) (rs_events s')"
    using validD [OF budget [OF r(1)] _ assms(4)] assms(3) r(2) spent_refl [of "rb_limits b" "rs_events s"]
    by (auto split: sum.splits)
  then show ?thesis by (auto simp: spent_def add.commute)
qed

theorem reader_requests_bounded_witness:
  "\<exists>new. rs_events (snd (run_state (get_tile example_reader 5) example_state)) = new
    \<and> length (started new) \<le> 66
    \<and> list_all (request_ok reader_limits_default) (started new)"
proof -
  obtain res s' where run: "run_state (get_tile example_reader 5) example_state = (res, s')" by fastforce
  have "rb_limits example_backend = reader_limits_default" "rs_events example_state = []"
    by (simp_all add: example_backend_def object_backend_def example_state_def)
  with reader_requests_bounded [OF example_premises(3,4,5) run] run show ?thesis
    by (simp add: reader_limits_default_def DEFAULT_MAX_DIRECTORY_DEPTH_def)
qed

end
