(* ===== verification/Archive_Generation.thy ===== *)
theory Archive_Generation
  imports Prelude Codec
begin

text \<open>
  The identity of one observed generation of an archive object,
  \<open>crates/ishikari-core/src/storage/generation.rs\<close>: the strong validator an object store
  reports with a response, its wire form, and the cache key of an archive.
\<close>

section \<open>Data\<close>

abbreviation MAX_VALIDATOR_BYTES :: nat where "MAX_VALIDATOR_BYTES \<equiv> 1024"

datatype ArchiveGenerationKind = Version | Etag

record ArchiveGeneration =
  ag_kind :: ArchiveGenerationKind
  ag_value :: string

record ArchiveKey =
  ak_tileset_id :: string
  ak_generation :: ArchiveGeneration

datatype ArchiveGenerationError = MissingValidator | InvalidValidator | InvalidWireValue

text \<open>The metadata of an object, as far as the sources read it.\<close>

record ObjectMeta =
  om_version :: "string option"
  om_e_tag :: "string option"

text \<open>The conditions a range request carries.\<close>

record GetOptions =
  go_range :: "(nat \<times> nat) option"
  go_version :: "string option"
  go_if_match :: "string option"

section \<open>Operations\<close>

definition generation_new :: "ArchiveGenerationKind \<Rightarrow> string \<Rightarrow> ArchiveGenerationError + ArchiveGeneration" where
  "generation_new kind v =
     (if v = [] \<or> length v > MAX_VALIDATOR_BYTES
         \<or> (kind = Etag \<and> strip_prefix ''W/'' v \<noteq> None)
         \<or> \<not> list_all (\<lambda>c. of_char c \<in> {33..126::nat}) v
      then Inl InvalidValidator
      else Inr \<lparr>ag_kind = kind, ag_value = v\<rparr>)"

definition generation_from_meta :: "ObjectMeta \<Rightarrow> ArchiveGenerationError + ArchiveGeneration" where
  "generation_from_meta meta =
     (case om_version meta of
        Some version \<Rightarrow> generation_new Version version
      | None \<Rightarrow>
         (case om_e_tag meta of
            Some etag \<Rightarrow> generation_new Etag etag
          | None \<Rightarrow> Inl MissingValidator))"

definition apply_to_get :: "ArchiveGeneration \<Rightarrow> GetOptions \<Rightarrow> GetOptions" where
  "apply_to_get g options =
     (case ag_kind g of
        Version \<Rightarrow> options\<lparr>go_version := Some (ag_value g)\<rparr>
      | Etag \<Rightarrow> options\<lparr>go_if_match := Some (ag_value g)\<rparr>)"

definition to_wire :: "ArchiveGeneration \<Rightarrow> string" where
  "to_wire g = (case ag_kind g of Version \<Rightarrow> ''v:'' | Etag \<Rightarrow> ''e:'') @ ag_value g"

definition from_wire :: "string \<Rightarrow> ArchiveGenerationError + ArchiveGeneration" where
  "from_wire s =
     (case strip_prefix ''v:'' s of
        Some v \<Rightarrow> generation_new Version v
      | None \<Rightarrow>
         (case strip_prefix ''e:'' s of
            Some v \<Rightarrow> generation_new Etag v
          | None \<Rightarrow> Inl InvalidWireValue))"

definition archive_key_new :: "string \<Rightarrow> ArchiveGeneration \<Rightarrow> ArchiveKey" where
  "archive_key_new tileset_id generation = \<lparr>ak_tileset_id = tileset_id, ak_generation = generation\<rparr>"

section \<open>The wire form is a canonical codec\<close>

definition valid_generation :: "ArchiveGeneration \<Rightarrow> bool" where
  "valid_generation g \<longleftrightarrow> generation_new (ag_kind g) (ag_value g) = Inr g"

lemma generation_new_Inr:
  "generation_new kind v = Inr g \<longleftrightarrow> valid_generation g \<and> ag_kind g = kind \<and> ag_value g = v"
  by (cases g) (auto simp: valid_generation_def generation_new_def)

lemma generation_from_meta_valid: "generation_from_meta meta = Inr g \<Longrightarrow> valid_generation g"
  by (auto simp: generation_from_meta_def generation_new_Inr split: option.splits)

definition read_wire :: "string \<Rightarrow> ArchiveGeneration option" where
  "read_wire s = (case from_wire s of Inr g \<Rightarrow> Some g | Inl _ \<Rightarrow> None)"

interpretation generation_wire: canonical_codec to_wire read_wire valid_generation
proof
  fix g assume "valid_generation g"
  then show "read_wire (to_wire g) = Some g"
    by (cases "ag_kind g") (simp_all add: read_wire_def to_wire_def from_wire_def valid_generation_def)
next
  fix s g assume s: "read_wire s = Some g"
  then show "valid_generation g"
    by (auto simp: read_wire_def from_wire_def generation_new_Inr split: sum.splits option.splits)
  show "to_wire g = s"
    using s strip_prefix_Some [of "''v:''" s] strip_prefix_Some [of "''e:''" s]
    by (auto simp: read_wire_def from_wire_def to_wire_def generation_new_Inr split: sum.splits option.splits)
qed

text \<open>
  A pinned request carries exactly one validator, the one of its generation, and two valid
  generations pin requests alike only if they are the same.
\<close>

lemma apply_to_get_inj:
  assumes "go_version options = None" and "go_if_match options = None"
    and "apply_to_get g options = apply_to_get g' options"
  shows "g = g'"
proof -
  obtain k v where g: "g = \<lparr>ag_kind = k, ag_value = v\<rparr>" by (cases g) simp
  obtain k' v' where g': "g' = \<lparr>ag_kind = k', ag_value = v'\<rparr>" by (cases g') simp
  have "go_version (apply_to_get g options) = go_version (apply_to_get g' options)"
    and "go_if_match (apply_to_get g options) = go_if_match (apply_to_get g' options)"
    using assms by simp_all
  then show ?thesis
    using assms(1,2) by (cases k; cases k') (simp_all add: g g' apply_to_get_def)
qed

end
