(* ===== verification/Resource_Templates.thy ===== *)
theory Resource_Templates
  imports Prelude
begin

text \<open>
  Namespaced configuration values and URL templates,
  \<open>crates/mmpf-common/src/resource_templates.rs\<close>: the parser of
  \<open>namespace=value;default=value\<close> specifications, the selection of the value of a key, the
  validation of URL templates and their resolution.  The URL parser of the \<open>url\<close> crate is a
  parameter.
\<close>

section \<open>Strings\<close>

text \<open>
  \<open>str::split\<close> by a character, substring search, \<open>str::matches().count()\<close>,
  \<open>str::replace\<close> (leftmost, non-overlapping) and \<open>str::trim\<close>.  Strings are lists of UTF-8
  bytes; the white space of Unicode is the list of its encodings.
\<close>

fun split_on :: "char \<Rightarrow> string \<Rightarrow> string list" where
  "split_on d [] = [[]]"
| "split_on d (c # cs) =
     (if c = d then [] # split_on d cs
      else (case split_on d cs of [] \<Rightarrow> [[c]] | x # xs \<Rightarrow> (c # x) # xs))"

fun contains_str :: "string \<Rightarrow> string \<Rightarrow> bool" where
  "contains_str pat [] \<longleftrightarrow> pat = []"
| "contains_str pat (c # cs) \<longleftrightarrow> strip_prefix pat (c # cs) \<noteq> None \<or> contains_str pat cs"

lemma strip_prefix_length: "strip_prefix pat s = Some rest \<Longrightarrow> length s = length pat + length rest"
  by (auto dest: strip_prefix_Some)

lemma strip_prefix_shorter: "strip_prefix pat s = Some rest \<Longrightarrow> pat \<noteq> [] \<Longrightarrow> length rest < length s"
  by (simp add: strip_prefix_length)

function matches_count :: "string \<Rightarrow> string \<Rightarrow> nat" where
  "matches_count pat s =
     (if pat = [] then length s + 1
      else (case s of
              [] \<Rightarrow> 0
            | c # cs \<Rightarrow>
               (case strip_prefix pat s of
                  Some rest \<Rightarrow> Suc (matches_count pat rest)
                | None \<Rightarrow> matches_count pat cs)))"
  by pat_completeness auto
termination
  by (relation "measure (length \<circ> snd)") (auto dest: strip_prefix_shorter)

function replace_all :: "string \<Rightarrow> string \<Rightarrow> string \<Rightarrow> string" where
  "replace_all pat sub s =
     (if pat = [] then concat (map (\<lambda>c. sub @ [c]) s) @ sub
      else (case s of
              [] \<Rightarrow> []
            | c # cs \<Rightarrow>
               (case strip_prefix pat s of
                  Some rest \<Rightarrow> sub @ replace_all pat sub rest
                | None \<Rightarrow> c # replace_all pat sub cs)))"
  by pat_completeness auto
termination
  by (relation "measure (length \<circ> snd \<circ> snd)") (auto dest: strip_prefix_shorter)

declare matches_count.simps [simp del] replace_all.simps [simp del]

definition white_space :: "string list" where
  "white_space =
     map (\<lambda>n. [char_of (n :: nat)]) [9, 10, 11, 12, 13, 32]
     @ map (map (char_of :: nat \<Rightarrow> char))
         ([[194, 133], [194, 160], [225, 154, 128]] @ map (\<lambda>n. [226, 128, n]) [128..<139]
          @ [[226, 128, 168], [226, 128, 169], [226, 128, 175], [226, 129, 159], [227, 128, 128]])"

definition strip_any :: "string list \<Rightarrow> string \<Rightarrow> string option" where
  "strip_any pats s = Option.bind (List.find (\<lambda>p. strip_prefix p s \<noteq> None) pats) (\<lambda>p. strip_prefix p s)"

function trim_with :: "string list \<Rightarrow> string \<Rightarrow> string" where
  "trim_with pats s =
     (case strip_any pats s of
        Some rest \<Rightarrow> if length rest < length s then trim_with pats rest else s
      | None \<Rightarrow> s)"
  by pat_completeness auto
termination
  by (relation "measure (length \<circ> snd)") auto

declare trim_with.simps [simp del]

definition trim :: "string \<Rightarrow> string" where
  "trim s = rev (trim_with (map rev white_space) (rev (trim_with white_space s)))"

section \<open>Namespaced entries\<close>

datatype NamespaceKeyPolicy = PlainSegment | AsciiIdentifier

record NamespacedEntriesPolicy =
  np_config_name :: string
  np_entry_name :: string
  np_namespace_keys :: NamespaceKeyPolicy

record 'v NamespacedEntries =
  ne_namespaces :: "(string \<times> 'v) list"
  ne_default :: "'v option"

record 'v SelectedEntry =
  se_value :: 'v
  se_relative_key :: string

text \<open>The configuration errors; the text of each is rendered from its arguments.\<close>

datatype NamespacedEntriesError =
    MultipleDefaults string string
  | DuplicateNamespace string string
  | NoEntries string string
  | EmptyTemplate string string
  | MissingPlaceholder string string string
  | InvalidUrl string string
  | UnsupportedScheme string string
  | PlaceholderOutsidePath string

definition entries_default :: "'v NamespacedEntries" where
  "entries_default = \<lparr>ne_namespaces = [], ne_default = None\<rparr>"

text \<open>
  \<open>char::is_whitespace\<close> holds somewhere in a string exactly if one of the encodings of a white
  space character occurs in it.
\<close>

definition valid_namespace_key :: "string \<Rightarrow> NamespaceKeyPolicy \<Rightarrow> bool" where
  "valid_namespace_key key policy \<longleftrightarrow>
     (case policy of
        PlainSegment \<Rightarrow>
          key \<noteq> [] \<and> \<not> list_ex (\<lambda>w. contains_str w key) white_space
          \<and> \<not> list_ex (\<lambda>c. c \<in> set '':/;={}'') key
      | AsciiIdentifier \<Rightarrow>
          key \<noteq> [] \<and> list_all (\<lambda>c. let b = of_char c :: nat in
              (48 \<le> b \<and> b \<le> 57) \<or> (65 \<le> b \<and> b \<le> 90) \<or> (97 \<le> b \<and> b \<le> 122)
              \<or> c = CHR ''-'' \<or> c = CHR ''_'') key)"

definition entry_parts :: "NamespaceKeyPolicy \<Rightarrow> string \<Rightarrow> string \<times> string \<times> bool" where
  "entry_parts policy entry =
     (case split_once (CHR ''='') entry of
        Some (key, v) \<Rightarrow>
          if valid_namespace_key (trim key) policy
          then (trim key, trim v, trim key = ''default'')
          else (''default'', entry, True)
      | None \<Rightarrow> (''default'', entry, True))"

fun entries_parse_loop ::
  "NamespacedEntriesPolicy \<Rightarrow> string list \<Rightarrow> string NamespacedEntries
    \<Rightarrow> NamespacedEntriesError + string NamespacedEntries" where
  "entries_parse_loop policy [] out =
     (if ne_namespaces out = [] \<and> ne_default out = None
      then Inl (NoEntries (np_config_name policy) (np_entry_name policy))
      else Inr out)"
| "entries_parse_loop policy (raw # raws) out =
     (let entry = trim raw in
      if entry = [] then entries_parse_loop policy raws out
      else
        (case entry_parts (np_namespace_keys policy) entry of
           (key, v, is_default) \<Rightarrow>
             if is_default then
               if ne_default out \<noteq> None
               then Inl (MultipleDefaults (np_config_name policy) (np_entry_name policy))
               else entries_parse_loop policy raws (out\<lparr>ne_default := Some v\<rparr>)
             else if list_ex (\<lambda>(namespace, _). namespace = key) (ne_namespaces out)
             then Inl (DuplicateNamespace (np_config_name policy) key)
             else entries_parse_loop policy raws
                    (out\<lparr>ne_namespaces := ne_namespaces out @ [(key, v)]\<rparr>)))"

definition entries_parse ::
  "string \<Rightarrow> NamespacedEntriesPolicy \<Rightarrow> NamespacedEntriesError + string NamespacedEntries" where
  "entries_parse raw policy = entries_parse_loop policy (split_on (CHR '';'') raw) entries_default"

definition select :: "'v NamespacedEntries \<Rightarrow> string \<Rightarrow> 'v SelectedEntry option" where
  "select entries key =
     (let fallback = map_option (\<lambda>v. \<lparr>se_value = v, se_relative_key = key\<rparr>) (ne_default entries) in
      case split_once (CHR ''/'') key of
        Some (namespace, rest) \<Rightarrow>
          (case map_of (ne_namespaces entries) namespace of
             Some v \<Rightarrow> Some \<lparr>se_value = v, se_relative_key = rest\<rparr>
           | None \<Rightarrow> fallback)
      | None \<Rightarrow> fallback)"

fun try_map_list ::
  "(string option \<Rightarrow> 'v \<Rightarrow> 'e + 'u) \<Rightarrow> (string \<times> 'v) list \<Rightarrow> 'e + (string \<times> 'u) list" where
  "try_map_list f [] = Inr []"
| "try_map_list f ((namespace, v) # rest) =
     try_bind (f (Some namespace) v) (\<lambda>u.
     try_bind (try_map_list f rest) (\<lambda>us. Inr ((namespace, u) # us)))"

definition try_map ::
  "(string option \<Rightarrow> 'v \<Rightarrow> 'e + 'u) \<Rightarrow> 'v NamespacedEntries \<Rightarrow> 'e + 'u NamespacedEntries" where
  "try_map f entries =
     try_bind (try_map_list f (ne_namespaces entries)) (\<lambda>namespaces.
     try_bind (case ne_default entries of
                 Some v \<Rightarrow> try_bind (f None v) (\<lambda>u. Inr (Some u))
               | None \<Rightarrow> Inr None) (\<lambda>dflt.
     Inr \<lparr>ne_namespaces = namespaces, ne_default = dflt\<rparr>))"

section \<open>Templates\<close>

text \<open>What the sources read of a parsed URL.\<close>

record Url =
  url_scheme :: string
  url_path :: string

record TemplatePolicy =
  tp_config_name :: string
  tp_placeholder :: string
  tp_require_placeholder :: bool
  tp_placeholder_must_be_in_path :: bool
  tp_allowed_schemes :: "string list"
  tp_namespace_keys :: NamespaceKeyPolicy

record ResourceTemplates =
  rt_entries :: "string NamespacedEntries"
  rt_placeholder :: string
  rt_enforce_path_placeholder :: bool

abbreviation PLACEHOLDER_MARKER_PREFIX :: string where
  "PLACEHOLDER_MARKER_PREFIX \<equiv> ''mmpf-placeholder-marker''"

lemma contains_str_length: "contains_str pat s \<Longrightarrow> length pat \<le> length s"
proof (induction s)
  case (Cons c cs)
  then show ?case using strip_prefix_length [of pat "c # cs"] by auto
qed simp

function unused_marker :: "string \<Rightarrow> string \<Rightarrow> string" where
  "unused_marker template marker =
     (if contains_str marker template then unused_marker template (marker @ ''x'') else marker)"
  by pat_completeness auto
termination
  by (relation "measure (\<lambda>(template, marker). Suc (length template) - length marker)")
    (auto dest: contains_str_length)

declare unused_marker.simps [simp del]

definition placeholder_marker :: "string \<Rightarrow> string" where
  "placeholder_marker template = unused_marker template PLACEHOLDER_MARKER_PREFIX"

definition validate_url_template ::
  "(string \<Rightarrow> Url option) \<Rightarrow> string \<Rightarrow> string \<Rightarrow> TemplatePolicy \<Rightarrow> NamespacedEntriesError + unit" where
  "validate_url_template parse_url template label policy =
     (if template = [] then Inl (EmptyTemplate (tp_config_name policy) label)
      else if tp_require_placeholder policy \<and> \<not> contains_str (tp_placeholder policy) template
      then Inl (MissingPlaceholder (tp_config_name policy) label (tp_placeholder policy))
      else
        let marker = placeholder_marker template;
            sample = replace_all (tp_placeholder policy) marker template in
        (case parse_url sample of
           None \<Rightarrow> Inl (InvalidUrl (tp_config_name policy) label)
         | Some parsed \<Rightarrow>
             if \<not> list_ex (\<lambda>allowed. url_scheme parsed = allowed) (tp_allowed_schemes policy)
             then Inl (UnsupportedScheme (tp_config_name policy) (url_scheme parsed))
             else if tp_placeholder_must_be_in_path policy
                 \<and> matches_count marker (url_path parsed)
                     \<noteq> matches_count (tp_placeholder policy) template
             then Inl (PlaceholderOutsidePath (tp_config_name policy))
             else Inr ()))"

fun validate_all ::
  "(string \<Rightarrow> Url option) \<Rightarrow> (string \<times> string) list \<Rightarrow> TemplatePolicy \<Rightarrow> NamespacedEntriesError + unit" where
  "validate_all parse_url [] policy = Inr ()"
| "validate_all parse_url ((namespace, template) # rest) policy =
     try_bind (validate_url_template parse_url template namespace policy)
       (\<lambda>_. validate_all parse_url rest policy)"

definition templates_parse ::
  "(string \<Rightarrow> Url option) \<Rightarrow> string \<Rightarrow> TemplatePolicy \<Rightarrow> NamespacedEntriesError + ResourceTemplates" where
  "templates_parse parse_url raw policy =
     try_bind (entries_parse raw \<lparr>np_config_name = tp_config_name policy, np_entry_name = ''template'',
                 np_namespace_keys = tp_namespace_keys policy\<rparr>) (\<lambda>entries.
     try_bind (validate_all parse_url (ne_namespaces entries) policy) (\<lambda>_.
     try_bind (case ne_default entries of
                 Some template \<Rightarrow> validate_url_template parse_url template ''default'' policy
               | None \<Rightarrow> Inr ()) (\<lambda>_.
     Inr \<lparr>rt_entries = entries, rt_placeholder = tp_placeholder policy,
          rt_enforce_path_placeholder = tp_placeholder_must_be_in_path policy\<rparr>)))"

definition has_match :: "ResourceTemplates \<Rightarrow> string \<Rightarrow> bool" where
  "has_match templates key \<longleftrightarrow> select (rt_entries templates) key \<noteq> None"

definition substitution_has_traversal_segment :: "string \<Rightarrow> bool" where
  "substitution_has_traversal_segment substitution \<longleftrightarrow>
     list_ex (\<lambda>segment. segment = ''.'' \<or> segment = ''..'') (split_on (CHR ''/'') substitution)"

definition resolve_with :: "ResourceTemplates \<Rightarrow> string \<Rightarrow> (string \<Rightarrow> string) \<Rightarrow> string option" where
  "resolve_with templates key encode =
     Option.bind (select (rt_entries templates) key) (\<lambda>selected.
       let substitution = encode (se_relative_key selected) in
       if rt_enforce_path_placeholder templates
           \<and> contains_str (rt_placeholder templates) (se_value selected)
           \<and> substitution_has_traversal_segment substitution
       then None
       else Some (replace_all (rt_placeholder templates) substitution (se_value selected)))"
section \<open>What a parsed specification holds\<close>

definition well_formed_entries :: "NamespaceKeyPolicy \<Rightarrow> 'v NamespacedEntries \<Rightarrow> bool" where
  "well_formed_entries policy entries \<longleftrightarrow>
     distinct (map fst (ne_namespaces entries))
     \<and> list_all (\<lambda>(key, _). valid_namespace_key key policy \<and> key \<noteq> ''default'') (ne_namespaces entries)"

lemma entries_parse_loop_well_formed:
  assumes "entries_parse_loop policy raws out = Inr entries"
    and "well_formed_entries (np_namespace_keys policy) out"
  shows "well_formed_entries (np_namespace_keys policy) entries
    \<and> (ne_namespaces entries \<noteq> [] \<or> ne_default entries \<noteq> None)"
  using assms
proof (induction raws arbitrary: out)
  case (Cons raw raws)
  show ?case
  proof (cases "trim raw = []")
    case True
    with Cons show ?thesis by (simp add: Let_def)
  next
    case False
    obtain key v dflt where parts: "entry_parts (np_namespace_keys policy) (trim raw) = (key, v, dflt)"
      by (cases "entry_parts (np_namespace_keys policy) (trim raw)")
    have key: "dflt \<or> valid_namespace_key key (np_namespace_keys policy) \<and> key \<noteq> ''default''"
      using parts by (auto simp: entry_parts_def split: option.splits if_splits)
    show ?thesis
    proof (cases dflt)
      case True
      with Cons.prems False parts show ?thesis
        by (intro Cons.IH [of "out\<lparr>ne_default := Some v\<rparr>"])
          (auto simp: Let_def well_formed_entries_def split: if_splits)
    next
      case not_default: False
      with Cons.prems False parts key show ?thesis
        by (intro Cons.IH [of "out\<lparr>ne_namespaces := ne_namespaces out @ [(key, v)]\<rparr>"])
          (auto simp: Let_def well_formed_entries_def list_ex_iff split: if_splits)
    qed
  qed
qed (auto split: if_splits)

lemma entries_parse_well_formed:
  assumes "entries_parse raw policy = Inr entries"
  shows "well_formed_entries (np_namespace_keys policy) entries"
    and "ne_namespaces entries \<noteq> [] \<or> ne_default entries \<noteq> None"
  using entries_parse_loop_well_formed assms
  by (fastforce simp: entries_parse_def entries_default_def well_formed_entries_def)+

text \<open>
  Selection: a key under a configured namespace gets the value of that namespace and the rest of
  the key; every other key gets the default with the whole key.
\<close>

lemma select_namespace:
  assumes "well_formed_entries policy entries" and "(namespace, v) \<in> set (ne_namespaces entries)"
    and "CHR ''/'' \<notin> set namespace"
  shows "select entries (namespace @ ''/'' @ rest) = Some \<lparr>se_value = v, se_relative_key = rest\<rparr>"
  using assms by (simp add: select_def split_once_append well_formed_entries_def Let_def)

lemma select_default:
  assumes "\<And>namespace rest. key = namespace @ ''/'' @ rest \<Longrightarrow> CHR ''/'' \<notin> set namespace
      \<Longrightarrow> namespace \<notin> fst ` set (ne_namespaces entries)"
  shows "select entries key = map_option (\<lambda>v. \<lparr>se_value = v, se_relative_key = key\<rparr>) (ne_default entries)"
proof (cases "split_once (CHR ''/'') key")
  case (Some parts)
  then obtain namespace rest where parts: "split_once (CHR ''/'') key = Some (namespace, rest)"
    by (cases parts) simp
  then have "map_of (ne_namespaces entries) namespace = None"
    using assms [of namespace rest] split_once_Some [OF parts] by (simp add: map_of_eq_None_iff)
  with parts show ?thesis by (simp add: select_def Let_def)
qed (simp add: select_def Let_def)

lemma select_mem:
  "select entries key = Some e \<Longrightarrow>
     se_value e \<in> snd ` set (ne_namespaces entries) \<or> ne_default entries = Some (se_value e)"
  by (auto simp: select_def Let_def image_iff split: option.splits prod.splits dest!: map_of_SomeD)
    force

section \<open>Validated templates\<close>

lemma unused_marker_fresh: "\<not> contains_str (unused_marker template marker) template"
proof (induction template marker rule: unused_marker.induct)
  case (1 template marker)
  then show ?case by (subst unused_marker.simps) simp
qed

text \<open>
  What the validation of a template guarantees: its scheme is allowed, and with a marker that does
  not occur in it put in place of the placeholder, the markers are all in the path of the URL.
\<close>

definition template_checked :: "(string \<Rightarrow> Url option) \<Rightarrow> TemplatePolicy \<Rightarrow> string \<Rightarrow> bool" where
  "template_checked parse_url policy template \<longleftrightarrow>
     (\<exists>marker parsed. \<not> contains_str marker template
        \<and> parse_url (replace_all (tp_placeholder policy) marker template) = Some parsed
        \<and> url_scheme parsed \<in> set (tp_allowed_schemes policy)
        \<and> (tp_require_placeholder policy \<longrightarrow> contains_str (tp_placeholder policy) template)
        \<and> (tp_placeholder_must_be_in_path policy \<longrightarrow>
             matches_count marker (url_path parsed) = matches_count (tp_placeholder policy) template))"

lemma validate_url_template_checked:
  assumes "validate_url_template parse_url template label policy = Inr ()"
  shows "template_checked parse_url policy template"
proof -
  let ?m = "placeholder_marker template"
  have fresh: "\<not> contains_str ?m template" by (simp add: placeholder_marker_def unused_marker_fresh)
  obtain parsed where "parse_url (replace_all (tp_placeholder policy) ?m template) = Some parsed"
    "list_ex (\<lambda>allowed. url_scheme parsed = allowed) (tp_allowed_schemes policy)"
    "tp_require_placeholder policy \<longrightarrow> contains_str (tp_placeholder policy) template"
    "tp_placeholder_must_be_in_path policy \<longrightarrow>
       matches_count ?m (url_path parsed) = matches_count (tp_placeholder policy) template"
    using assms by (auto simp: validate_url_template_def Let_def split: if_splits option.splits)
  with fresh show ?thesis unfolding template_checked_def by (auto simp: list_ex_iff)
qed

lemma validate_all_checked:
  "validate_all parse_url entries policy = Inr () \<Longrightarrow> (namespace, template) \<in> set entries
    \<Longrightarrow> template_checked parse_url policy template"
  by (induction entries) (auto simp: try_bind_Inr dest: validate_url_template_checked)

lemma templates_parse_checked:
  assumes "templates_parse parse_url raw policy = Inr t"
  shows "rt_placeholder t = tp_placeholder policy"
    and "rt_enforce_path_placeholder t = tp_placeholder_must_be_in_path policy"
    and "well_formed_entries (tp_namespace_keys policy) (rt_entries t)"
    and "select (rt_entries t) key = Some e \<Longrightarrow> template_checked parse_url policy (se_value e)"
proof -
  obtain entries where entries: "entries_parse raw \<lparr>np_config_name = tp_config_name policy,
      np_entry_name = ''template'', np_namespace_keys = tp_namespace_keys policy\<rparr> = Inr entries"
    and each: "validate_all parse_url (ne_namespaces entries) policy = Inr ()"
    and dflt: "(case ne_default entries of
        Some template \<Rightarrow> validate_url_template parse_url template ''default'' policy | None \<Rightarrow> Inr ()) = Inr ()"
    and t: "t = \<lparr>rt_entries = entries, rt_placeholder = tp_placeholder policy,
      rt_enforce_path_placeholder = tp_placeholder_must_be_in_path policy\<rparr>"
    using assms by (auto simp: templates_parse_def try_bind_Inr)
  show "rt_placeholder t = tp_placeholder policy"
    and "rt_enforce_path_placeholder t = tp_placeholder_must_be_in_path policy" by (simp_all add: t)
  show "well_formed_entries (tp_namespace_keys policy) (rt_entries t)"
    using entries_parse_well_formed(1) [OF entries] by (simp add: t)
  show "template_checked parse_url policy (se_value e)" if "select (rt_entries t) key = Some e"
    using select_mem [of entries key e] that each dflt
    by (auto simp: t dest: validate_all_checked validate_url_template_checked)
qed

text \<open>
  C30: Resolution of a validated specification: the URL is the template of the key's namespace (or the
  default) with the encoded rest of the key in place of the placeholder.  The template passed the
  validation, and under a policy that keeps the placeholder in the path the substituted text has
  no \<open>.\<close> or \<open>..\<close> segment, so it cannot climb out of the directory of the template.
\<close>

theorem resolved_template_stays_in_path:
  assumes "templates_parse parse_url raw policy = Inr t"
    and "resolve_with t key encode = Some url"
  shows "\<exists>template rest. select (rt_entries t) key = Some \<lparr>se_value = template, se_relative_key = rest\<rparr>
    \<and> template_checked parse_url policy template
    \<and> url = replace_all (tp_placeholder policy) (encode rest) template
    \<and> (tp_placeholder_must_be_in_path policy \<and> contains_str (tp_placeholder policy) template \<longrightarrow>
         set (split_on (CHR ''/'') (encode rest)) \<inter> {''.'', ''..''} = {})"
proof -
  obtain e where e: "select (rt_entries t) key = Some e"
    using assms(2) by (auto simp: resolve_with_def bind_eq_Some_conv)
  then have "template_checked parse_url policy (se_value e)"
    using templates_parse_checked(4) [OF assms(1)] by simp
  with e show ?thesis
    using assms(2) templates_parse_checked(1,2) [OF assms(1)]
    by (cases e) (auto simp: resolve_with_def Let_def substitution_has_traversal_segment_def list_ex_iff
        split: if_splits)
qed

definition in_path_policy :: TemplatePolicy where
  "in_path_policy = \<lparr>tp_config_name = ''style_urls'', tp_placeholder = ''{id}'', tp_require_placeholder = True,
     tp_placeholder_must_be_in_path = True, tp_allowed_schemes = [''https''], tp_namespace_keys = PlainSegment\<rparr>"

definition split_url :: "string \<Rightarrow> Url option" where
  "split_url s = map_option (\<lambda>(scheme, rest). \<lparr>url_scheme = scheme, url_path = rest\<rparr>) (split_once (CHR '':'') s)"

definition in_path_templates :: ResourceTemplates where
  "in_path_templates = \<lparr>rt_entries = \<lparr>ne_namespaces = [(''a'', ''https://h/s/{id}'')], ne_default = None\<rparr>,
     rt_placeholder = ''{id}'', rt_enforce_path_placeholder = True\<rparr>"

theorem resolved_template_stays_in_path_witness:
  "template_checked split_url in_path_policy ''https://h/s/{id}''
   \<and> resolve_with in_path_templates ''a/b'' id = Some ''https://h/s/b''
   \<and> resolve_with in_path_templates ''a/../b'' id = None"
proof -
  have parsed: "templates_parse split_url ''a = https://h/s/{id};'' in_path_policy = Inr in_path_templates" by code_simp
  have resolved: "resolve_with in_path_templates ''a/b'' id = Some ''https://h/s/b''" by code_simp
  have entry: "select (rt_entries in_path_templates) ''a/b''
      = Some \<lparr>se_value = ''https://h/s/{id}'', se_relative_key = ''b''\<rparr>" by code_simp
  have "resolve_with in_path_templates ''a/../b'' id = None" by code_simp
  with resolved_template_stays_in_path [OF parsed resolved] entry resolved show ?thesis by simp
qed

end
