(* ===== verification/Chunk_Fetch.thy ===== *)
theory Chunk_Fetch
  imports Archive_Generation Resource_Templates
begin

text \<open>
  The object-store side of Ishikari's chunked reads,
  \<open>crates/ishikari-core/src/storage/chunked_store/fetcher.rs\<close>: where a tileset is stored, one
  range request against the store with its admission, deadline, generation and length checks, and
  the requests the chunk coordinator and the bootstrap make.

  The object store, its paths and the clock are outside the sources.  A path is of a type
  \<open>'p\<close> with the operation \<open>join\<close> that appends one encoded segment; a store handle is of a
  type \<open>'st\<close>.  What a request meets at run time is an argument, the \<open>FetchObservation\<close>: how
  the semaphore admitted it and what the store replied before the deadline.  64-bit unsigned
  integers of this component are natural numbers; the sources check every operation that can
  leave 64 bits, and the two counters, which wrap, are written with \<open>mod\<close>.  The artificial
  latency (floating point), the metrics and the log lines are not modelled.
\<close>

section \<open>Checked arithmetic\<close>

definition nat_checked_add :: "nat \<Rightarrow> nat \<Rightarrow> nat option" where
  "nat_checked_add a b = (if a + b < 2 ^ 64 then Some (a + b) else None)"

definition nat_checked_mul :: "nat \<Rightarrow> nat \<Rightarrow> nat option" where
  "nat_checked_mul a b = (if a * b < 2 ^ 64 then Some (a * b) else None)"

lemma nat_checked_add_Some [simp]: "nat_checked_add a b = Some c \<longleftrightarrow> c = a + b \<and> c < 2 ^ 64"
  by (auto simp: nat_checked_add_def)

lemma nat_checked_mul_Some [simp]: "nat_checked_mul a b = Some c \<longleftrightarrow> c = a * b \<and> c < 2 ^ 64"
  by (auto simp: nat_checked_mul_def)

section \<open>Errors\<close>

datatype RangeLengthPolicy = Exact | AllowShortAtEof

text \<open>The errors of the range arithmetic in \<open>store.rs\<close>.\<close>

datatype ChunkRangeError =
    ByteRangeOverflow nat nat
  | OutsideArchive nat nat nat
  | InvalidChunkGroup nat nat
  | ChunkArithmeticOverflow nat nat
  | ChunkOutsideArchive nat nat
  | SliceOutsideFetchedBytes nat nat nat nat

text \<open>
  The free-form messages: constant ones as their text, formatted ones as a constructor with the
  values that are formatted.
\<close>

datatype ChunkMessage =
    Text string
  | RangeText ChunkRangeError
  | NoDataSource string
  | ChunkRangeOverflow nat nat nat
  | EmptyChunkRange nat nat nat
  | TimedOutRange nat nat
  | NoUsableValidator ArchiveGenerationError
  | UnexpectedRangeLength nat nat nat nat RangeLengthPolicy
  | StoreFailure string
  | GroupOmittedChunk nat
  | ChunkShorterThanRange nat nat nat nat
  | OffsetExceedsChunk nat nat nat

datatype ChunkFetchError =
    NotFound
  | Overloaded ChunkMessage
  | Timeout ChunkMessage
  | Backend ChunkMessage
  | GenerationChanged
  | Message ChunkMessage

record ObservedBytes =
  ob_bytes :: bytes
  ob_generation :: ArchiveGeneration

section \<open>Where a tileset is stored\<close>

datatype TilesetPathPart = Literal string | Namespace | TilesetIdPart string string

record TilesetPathTemplate =
  pt_parts :: "TilesetPathPart list"
  pt_tileset_id_includes_namespace :: bool

datatype 'p TilesetPath = Root 'p | Template TilesetPathTemplate

record ('st, 'p) TilesetSource =
  ts_object_store :: 'st
  ts_path :: "'p TilesetPath"

text \<open>The operations of the object store's paths.\<close>

record 'p Paths =
  path_empty :: 'p
  path_text :: "'p \<Rightarrow> string"
  path_join :: "'p \<Rightarrow> string \<Rightarrow> 'p"

definition join_template_tileset_id :: "'p Paths \<Rightarrow> 'p \<Rightarrow> string \<Rightarrow> string \<Rightarrow> string \<Rightarrow> 'p" where
  "join_template_tileset_id paths path prefix tileset_id suffix =
     (case split_once (CHR ''/'') tileset_id of
        Some (namespace, local_id) \<Rightarrow>
          path_join paths (path_join paths path (prefix @ namespace)) (local_id @ suffix)
      | None \<Rightarrow> path_join paths path (prefix @ tileset_id @ suffix))"

fun render_parts :: "'p Paths \<Rightarrow> string option \<Rightarrow> string \<Rightarrow> TilesetPathPart list \<Rightarrow> 'p \<Rightarrow> 'p" where
  "render_parts paths namespace tileset_id [] path = path"
| "render_parts paths namespace tileset_id (Literal segment # parts) path =
     render_parts paths namespace tileset_id parts (path_join paths path segment)"
| "render_parts paths namespace tileset_id (Namespace # parts) path =
     render_parts paths namespace tileset_id parts
       (case namespace of Some ns \<Rightarrow> path_join paths path ns | None \<Rightarrow> path)"
| "render_parts paths namespace tileset_id (TilesetIdPart prefix suffix # parts) path =
     render_parts paths namespace tileset_id parts
       (join_template_tileset_id paths path prefix tileset_id suffix)"

definition template_render :: "'p Paths \<Rightarrow> TilesetPathTemplate \<Rightarrow> string \<Rightarrow> 'p" where
  "template_render paths template logical_id =
     (let (namespace, id_after_namespace) =
            (case split_once (CHR ''/'') logical_id of
               Some (namespace, tileset_id) \<Rightarrow> (Some namespace, tileset_id)
             | None \<Rightarrow> (None, logical_id));
          tileset_id = (if pt_tileset_id_includes_namespace template then logical_id else id_after_namespace)
      in render_parts paths namespace tileset_id (pt_parts template) (path_empty paths))"

fun join_key_segments :: "'p Paths \<Rightarrow> 'p \<Rightarrow> string list \<Rightarrow> 'p" where
  "join_key_segments paths path [] = path"
| "join_key_segments paths path [part] = path_join paths path (part @ ''.pmtiles'')"
| "join_key_segments paths path (part # parts) = join_key_segments paths (path_join paths path part) parts"

definition object_path_under :: "'p Paths \<Rightarrow> 'p \<Rightarrow> string \<Rightarrow> 'p" where
  "object_path_under paths base relative_key =
     join_key_segments paths base (split_on (CHR ''/'') relative_key)"

definition sources_resolve ::
  "'p Paths \<Rightarrow> ('st, 'p) TilesetSource NamespacedEntries \<Rightarrow> string \<Rightarrow> ('st \<times> 'p) option" where
  "sources_resolve paths sources tileset_id =
     map_option (\<lambda>selected.
       let source = se_value selected in
       (ts_object_store source,
        case ts_path source of
          Root base_path \<Rightarrow> object_path_under paths base_path (se_relative_key selected)
        | Template template \<Rightarrow> template_render paths template tileset_id))
     (select sources tileset_id)"

section \<open>Configured templates\<close>

text \<open>
  \<open>build_template_source\<close>: the placeholders of a source template are replaced by markers that
  do not occur in it, the sample is parsed and resolved by the object-store registry (the
  parameters \<open>parse_url\<close> and \<open>registry\<close>, the latter giving the store and the sample path), and the
  segments of the sample path become the parts of the template.
\<close>

datatype SourceError =
    IdPlaceholderCount
  | NamespacePlaceholderCount
  | UnsupportedPlaceholder
  | NotAbsoluteUrl
  | PlaceholdersOutsidePath
  | UnresolvedStore
  | PartialNamespaceSegment
  | NotPmtiles
  | UnresolvedLocalPath
  | InvalidSources NamespacedEntriesError

abbreviation NAMESPACE_PLACEHOLDER :: string where "NAMESPACE_PLACEHOLDER \<equiv> ''{namespace}''"
abbreviation TILESET_ID_PLACEHOLDER :: string where "TILESET_ID_PLACEHOLDER \<equiv> ''{tileset_id}''"

fun split_once_str :: "string \<Rightarrow> string \<Rightarrow> (string \<times> string) option" where
  "split_once_str pat [] = (if pat = [] then Some ([], []) else None)"
| "split_once_str pat (c # cs) =
     (case strip_prefix pat (c # cs) of
        Some rest \<Rightarrow> Some ([], rest)
      | None \<Rightarrow> map_option (\<lambda>(before, after). (c # before, after)) (split_once_str pat cs))"

fun template_parts :: "string \<Rightarrow> string \<Rightarrow> string list \<Rightarrow> SourceError + TilesetPathPart list" where
  "template_parts namespace_marker id_marker [] = Inr []"
| "template_parts namespace_marker id_marker (segment # segments) =
     (if segment = namespace_marker then
        try_bind (template_parts namespace_marker id_marker segments) (\<lambda>parts. Inr (Namespace # parts))
      else if contains_str namespace_marker segment then Inl PartialNamespaceSegment
      else
        try_bind (template_parts namespace_marker id_marker segments) (\<lambda>parts.
          Inr ((case split_once_str id_marker segment of
                  Some (prefix, suffix) \<Rightarrow> TilesetIdPart prefix suffix
                | None \<Rightarrow> Literal segment) # parts)))"

definition ends_with :: "string \<Rightarrow> string \<Rightarrow> bool" where
  "ends_with suffix s \<longleftrightarrow> strip_prefix (rev suffix) (rev s) \<noteq> None"

definition build_template_source ::
  "'p Paths \<Rightarrow> (string \<Rightarrow> Url option) \<Rightarrow> (Url \<Rightarrow> ('st \<times> 'p) option) \<Rightarrow> string \<Rightarrow> bool
    \<Rightarrow> SourceError + ('st, 'p) TilesetSource" where
  "build_template_source paths parse_url registry template is_default =
     (if matches_count TILESET_ID_PLACEHOLDER template \<noteq> 1 then Inl IdPlaceholderCount
      else if matches_count NAMESPACE_PLACEHOLDER template > 1 then Inl NamespacePlaceholderCount
      else
        let remainder = replace_all NAMESPACE_PLACEHOLDER [] (replace_all TILESET_ID_PLACEHOLDER [] template) in
        if CHR ''{'' \<in> set remainder \<or> CHR ''}'' \<in> set remainder then Inl UnsupportedPlaceholder
        else
          let namespace_marker = unused_marker template ''mmpf-namespace-marker'';
              id_marker = unused_marker template ''mmpf-tileset-id-marker'';
              sample = replace_all TILESET_ID_PLACEHOLDER id_marker
                         (replace_all NAMESPACE_PLACEHOLDER namespace_marker template) in
          (case parse_url sample of
             None \<Rightarrow> Inl NotAbsoluteUrl
           | Some url \<Rightarrow>
               if \<not> contains_str id_marker (url_path url)
                   \<or> (contains_str NAMESPACE_PLACEHOLDER template
                      \<and> \<not> contains_str namespace_marker (url_path url))
               then Inl PlaceholdersOutsidePath
               else
                 (case registry url of
                    None \<Rightarrow> Inl UnresolvedStore
                  | Some (store, sample_path) \<Rightarrow>
                      try_bind (template_parts namespace_marker id_marker (split_on (CHR ''/'') (path_text paths sample_path))) (\<lambda>parts.
                      if \<not> ends_with ''.pmtiles'' (path_text paths sample_path) then Inl NotPmtiles
                      else Inr \<lparr>ts_object_store = store,
                             ts_path = Template \<lparr>pt_parts = parts,
                               pt_tileset_id_includes_namespace =
                                 is_default \<and> \<not> contains_str NAMESPACE_PLACEHOLDER template\<rparr>\<rparr>))))"

text \<open>
  \<open>build_source\<close> and \<open>TilesetSources::parse\<close>; \<open>local_url\<close> is the \<open>file\<close> URL of a directory of
  the local file system, if there is one.
\<close>

definition build_source ::
  "'p Paths \<Rightarrow> (string \<Rightarrow> Url option) \<Rightarrow> (string \<Rightarrow> Url option) \<Rightarrow> (Url \<Rightarrow> ('st \<times> 'p) option) \<Rightarrow> string \<Rightarrow> bool
    \<Rightarrow> SourceError + ('st, 'p) TilesetSource" where
  "build_source paths parse_url local_url registry source_url is_default =
     (if CHR ''{'' \<in> set source_url \<or> CHR ''}'' \<in> set source_url
      then build_template_source paths parse_url registry source_url is_default
      else
        try_bind (case parse_url source_url of
                    Some url \<Rightarrow> Inr url
                  | None \<Rightarrow> ok_or UnresolvedLocalPath (local_url source_url)) (\<lambda>url.
        (case registry url of
           None \<Rightarrow> Inl UnresolvedStore
         | Some (store, base_path) \<Rightarrow> Inr \<lparr>ts_object_store = store, ts_path = Root base_path\<rparr>)))"

definition sources_parse ::
  "'p Paths \<Rightarrow> (string \<Rightarrow> Url option) \<Rightarrow> (string \<Rightarrow> Url option) \<Rightarrow> (Url \<Rightarrow> ('st \<times> 'p) option) \<Rightarrow> string
    \<Rightarrow> SourceError + ('st, 'p) TilesetSource NamespacedEntries" where
  "sources_parse paths parse_url local_url registry spec =
     (case entries_parse spec \<lparr>np_config_name = ''TILESET_SOURCES'', np_entry_name = ''source'',
             np_namespace_keys = AsciiIdentifier\<rparr> of
        Inl e \<Rightarrow> Inl (InvalidSources e)
      | Inr entries \<Rightarrow>
          try_map (\<lambda>namespace source_url. build_source paths parse_url local_url registry source_url (namespace = None)) entries)"

section \<open>One range request\<close>

datatype ObjectStoreError = StoreNotFound | Precondition | StoreOther string

record GetResult =
  gr_meta :: ObjectMeta
  gr_body :: "ObjectStoreError + bytes"

datatype Admission = Admitted | AdmissionClosed | AdmissionTimedOut

text \<open>\<open>None\<close> as the reply is a request that outlived the deadline.\<close>

record FetchObservation =
  fo_admission :: Admission
  fo_reply :: "(ObjectStoreError + GetResult) option"

record FetchCounters =
  fetch_sequence :: nat
  received_bytes :: nat

record ('st, 'p) ChunkFetcher =
  cf_paths :: "'p Paths"
  cf_sources :: "('st, 'p) TilesetSource NamespacedEntries"
  cf_chunk_size :: nat

text \<open>What a request asks of the store.\<close>

record ('st, 'p) StoreRequest =
  sr_store :: 'st
  sr_path :: 'p
  sr_options :: GetOptions

definition fetch_error_from :: "ObjectStoreError \<Rightarrow> ChunkFetchError" where
  "fetch_error_from e =
     (case e of
        StoreNotFound \<Rightarrow> NotFound
      | Precondition \<Rightarrow> Backend (StoreFailure ''precondition'')
      | StoreOther text \<Rightarrow> Backend (StoreFailure text))"

definition map_object_store_error :: "ObjectStoreError \<Rightarrow> bool \<Rightarrow> ChunkFetchError" where
  "map_object_store_error e generation_was_pinned =
     (if generation_was_pinned \<and> (e = StoreNotFound \<or> e = Precondition) then GenerationChanged
      else fetch_error_from e)"

definition range_options :: "nat \<Rightarrow> nat \<Rightarrow> ArchiveGeneration option \<Rightarrow> GetOptions" where
  "range_options range_start range_end expected_generation =
     (let options = \<lparr>go_range = Some (range_start, range_end), go_version = None, go_if_match = None\<rparr>
      in case expected_generation of Some generation \<Rightarrow> apply_to_get generation options | None \<Rightarrow> options)"

definition store_request ::
  "('st, 'p) ChunkFetcher \<Rightarrow> string \<Rightarrow> nat \<Rightarrow> nat \<Rightarrow> ArchiveGeneration option
    \<Rightarrow> ('st, 'p) StoreRequest option" where
  "store_request fetcher tileset_id range_start range_end expected_generation =
     map_option (\<lambda>(store, path). \<lparr>sr_store = store, sr_path = path,
         sr_options = range_options range_start range_end expected_generation\<rparr>)
       (sources_resolve (cf_paths fetcher) (cf_sources fetcher) tileset_id)"

definition count_received :: "nat \<Rightarrow> FetchCounters \<Rightarrow> FetchCounters" where
  "count_received n counters = counters\<lparr>received_bytes := (received_bytes counters + n) mod 2 ^ 64\<rparr>"

definition receive_body ::
  "nat \<Rightarrow> nat \<Rightarrow> RangeLengthPolicy \<Rightarrow> ArchiveGeneration option \<Rightarrow> GetResult \<Rightarrow> FetchCounters
    \<Rightarrow> (ChunkFetchError + ObservedBytes) \<times> FetchCounters" where
  "receive_body range_start range_end policy expected_generation result counters =
     (case generation_from_meta (gr_meta result) of
        Inl e \<Rightarrow> (Inl (Backend (NoUsableValidator e)), counters)
      | Inr generation \<Rightarrow>
          if expected_generation \<noteq> None \<and> expected_generation \<noteq> Some generation
          then (Inl GenerationChanged, counters)
          else
            (case gr_body result of
               Inl e \<Rightarrow> (Inl (map_object_store_error e (expected_generation \<noteq> None)), counters)
             | Inr bytes \<Rightarrow>
                 let expected_len = range_end - range_start in
                 if length bytes > expected_len \<or> (policy = Exact \<and> length bytes \<noteq> expected_len)
                 then (Inl (Message (UnexpectedRangeLength range_start range_end expected_len
                         (length bytes) policy)), count_received (length bytes) counters)
                 else (Inr \<lparr>ob_bytes = bytes, ob_generation = generation\<rparr>,
                       count_received (length bytes) counters)))"

definition fetch_range ::
  "('st, 'p) ChunkFetcher \<Rightarrow> string \<Rightarrow> nat \<Rightarrow> nat \<Rightarrow> RangeLengthPolicy \<Rightarrow> ArchiveGeneration option
    \<Rightarrow> FetchObservation \<Rightarrow> FetchCounters \<Rightarrow> (ChunkFetchError + ObservedBytes) \<times> FetchCounters" where
  "fetch_range fetcher tileset_id range_start range_end policy expected_generation ob counters =
     (case store_request fetcher tileset_id range_start range_end expected_generation of
        None \<Rightarrow> (Inl (Message (NoDataSource tileset_id)), counters)
      | Some _ \<Rightarrow>
         (case fo_admission ob of
            AdmissionClosed \<Rightarrow> (Inl (Message (Text ''backend fetch admission closed'')), counters)
          | AdmissionTimedOut \<Rightarrow>
              (Inl (Timeout (Text ''timed out waiting for backend fetch admission'')), counters)
          | Admitted \<Rightarrow>
              let counters = counters\<lparr>fetch_sequence := (fetch_sequence counters + 1) mod 2 ^ 64\<rparr> in
              (case fo_reply ob of
                 None \<Rightarrow> (Inl (Timeout (TimedOutRange range_start range_end)), counters)
               | Some (Inl e) \<Rightarrow> (Inl (map_object_store_error e (expected_generation \<noteq> None)), counters)
               | Some (Inr result) \<Rightarrow>
                   receive_body range_start range_end policy expected_generation result counters)))"

text \<open>The byte range of a group of chunks, cut at the end of the archive.\<close>

definition group_byte_range :: "nat \<Rightarrow> nat \<times> nat \<Rightarrow> nat \<Rightarrow> ChunkMessage + (nat \<times> nat)" where
  "group_byte_range chunk_size chunk_range archive_len =
     (case chunk_range of (start_chunk, end_chunk) \<Rightarrow>
        (case (nat_checked_mul start_chunk chunk_size, nat_checked_mul end_chunk chunk_size) of
           (Some range_start, Some range_end) \<Rightarrow>
             let range_end = min range_end archive_len in
             if range_start \<ge> range_end then Inl (EmptyChunkRange range_start range_end archive_len)
             else Inr (range_start, range_end)
         | _ \<Rightarrow> Inl (ChunkRangeOverflow start_chunk end_chunk chunk_size)))"

definition fetch_chunk_group ::
  "('st, 'p) ChunkFetcher \<Rightarrow> ArchiveKey \<Rightarrow> nat \<times> nat \<Rightarrow> nat \<Rightarrow> FetchObservation \<Rightarrow> FetchCounters
    \<Rightarrow> (ChunkFetchError + bytes) \<times> FetchCounters" where
  "fetch_chunk_group fetcher archive chunk_range archive_len ob counters =
     (if fst chunk_range \<ge> snd chunk_range then (Inr [], counters)
      else
        (case group_byte_range (cf_chunk_size fetcher) chunk_range archive_len of
           Inl e \<Rightarrow> (Inl (Message e), counters)
         | Inr (range_start, range_end) \<Rightarrow>
             (case fetch_range fetcher (ak_tileset_id archive) range_start range_end Exact
                     (Some (ak_generation archive)) ob counters of
                (Inl e, counters) \<Rightarrow> (Inl e, counters)
              | (Inr observed, counters) \<Rightarrow> (Inr (ob_bytes observed), counters))))"

definition fetch_exact_range ::
  "('st, 'p) ChunkFetcher \<Rightarrow> string \<Rightarrow> nat \<Rightarrow> nat \<Rightarrow> FetchObservation \<Rightarrow> FetchCounters
    \<Rightarrow> (ChunkFetchError + ObservedBytes) \<times> FetchCounters" where
  "fetch_exact_range fetcher tileset_id range_start range_end ob counters =
     (if range_start \<ge> range_end
      then (Inl (Message (Text ''cannot observe an archive generation with an empty range'')), counters)
      else fetch_range fetcher tileset_id range_start range_end AllowShortAtEof None ob counters)"

section \<open>What a fetch returns\<close>

text \<open>
  The store as the fetcher relies on it: \<open>content store path generation\<close> is the object that a
  strong validator names, and a reply that carries the validator carries the bytes of the
  requested range of that object, cut at its end.
\<close>

type_synonym ('st, 'p) contents = "'st \<Rightarrow> 'p \<Rightarrow> ArchiveGeneration \<Rightarrow> bytes"

definition honest_reply :: "('st, 'p) contents \<Rightarrow> ('st, 'p) StoreRequest \<Rightarrow> FetchObservation \<Rightarrow> bool" where
  "honest_reply content req ob \<longleftrightarrow>
     (\<forall>result generation bytes range_start range_end.
        fo_reply ob = Some (Inr result) \<longrightarrow> generation_from_meta (gr_meta result) = Inr generation
        \<longrightarrow> gr_body result = Inr bytes \<longrightarrow> go_range (sr_options req) = Some (range_start, range_end)
        \<longrightarrow> bytes = take (range_end - range_start) (drop range_start (content (sr_store req) (sr_path req) generation)))"

text \<open>The bytes of an archive: the object its tileset resolves to, at its generation.\<close>

definition archive_bytes :: "('st, 'p) ChunkFetcher \<Rightarrow> ('st, 'p) contents \<Rightarrow> ArchiveKey \<Rightarrow> bytes" where
  "archive_bytes fetcher content archive =
     (case sources_resolve (cf_paths fetcher) (cf_sources fetcher) (ak_tileset_id archive) of
        Some (store, path) \<Rightarrow> content store path (ak_generation archive)
      | None \<Rightarrow> [])"

lemma go_range_options [simp]: "go_range (range_options a b g) = Some (a, b)"
  by (auto simp: range_options_def apply_to_get_def Let_def split: option.splits ArchiveGenerationKind.splits)

text \<open>
  A successful range request: it was sent to the object the tileset resolves to, its bytes are the
  requested range of the generation it reports, which is the pinned one if one was pinned, and
  under the exact policy none is missing.
\<close>

lemma fetch_range_sound:
  assumes "fetch_range fetcher tileset_id range_start range_end policy expected ob counters = (Inr observed, counters')"
    and "\<And>req. store_request fetcher tileset_id range_start range_end expected = Some req
      \<Longrightarrow> honest_reply content req ob"
  shows "ob_bytes observed = take (range_end - range_start) (drop range_start
      (archive_bytes fetcher content \<lparr>ak_tileset_id = tileset_id, ak_generation = ob_generation observed\<rparr>))"
    and "expected = None \<or> expected = Some (ob_generation observed)"
    and "policy = Exact \<Longrightarrow> length (ob_bytes observed) = range_end - range_start"
    and "valid_generation (ob_generation observed)"
proof -
  obtain store path where resolved: "sources_resolve (cf_paths fetcher) (cf_sources fetcher) tileset_id = Some (store, path)"
    using assms(1) by (auto simp: fetch_range_def store_request_def split: option.splits)
  let ?req = "\<lparr>sr_store = store, sr_path = path, sr_options = range_options range_start range_end expected\<rparr>"
  have req: "store_request fetcher tileset_id range_start range_end expected = Some ?req"
    by (simp add: store_request_def resolved)
  obtain result n where reply: "fo_reply ob = Some (Inr result)"
    and body: "receive_body range_start range_end policy expected result n = (Inr observed, counters')"
    using assms(1) by (auto simp: fetch_range_def req Let_def split: Admission.splits option.splits sum.splits)
  have gen: "generation_from_meta (gr_meta result) = Inr (ob_generation observed)"
    and bytes: "gr_body result = Inr (ob_bytes observed)"
    and pinned: "expected = None \<or> expected = Some (ob_generation observed)"
    and len: "policy = Exact \<Longrightarrow> length (ob_bytes observed) = range_end - range_start"
    using body by (auto simp: receive_body_def Let_def split: sum.splits if_splits)
  show "expected = None \<or> expected = Some (ob_generation observed)" by (rule pinned)
  show "policy = Exact \<Longrightarrow> length (ob_bytes observed) = range_end - range_start" by (rule len)
  show "valid_generation (ob_generation observed)" by (rule generation_from_meta_valid [OF gen])
  show "ob_bytes observed = take (range_end - range_start) (drop range_start
      (archive_bytes fetcher content \<lparr>ak_tileset_id = tileset_id, ak_generation = ob_generation observed\<rparr>))"
    using assms(2) [OF req] reply gen bytes
    by (simp add: honest_reply_def archive_bytes_def resolved)
qed

lemma fetch_chunk_group_sound:
  assumes "fetch_chunk_group fetcher archive chunk_range archive_len ob counters = (Inr bytes, counters')"
    and "fst chunk_range < snd chunk_range"
    and "\<And>a b req. group_byte_range (cf_chunk_size fetcher) chunk_range archive_len = Inr (a, b)
      \<Longrightarrow> store_request fetcher (ak_tileset_id archive) a b (Some (ak_generation archive)) = Some req
      \<Longrightarrow> honest_reply content req ob"
  obtains a b where "group_byte_range (cf_chunk_size fetcher) chunk_range archive_len = Inr (a, b)"
    and "bytes = take (b - a) (drop a (archive_bytes fetcher content archive))" and "length bytes = b - a"
proof -
  obtain a b observed where range_is: "group_byte_range (cf_chunk_size fetcher) chunk_range archive_len = Inr (a, b)"
    and fetched: "fetch_range fetcher (ak_tileset_id archive) a b Exact (Some (ak_generation archive)) ob counters
      = (Inr observed, counters')" and bytes: "bytes = ob_bytes observed"
    using assms(1,2) by (auto simp: fetch_chunk_group_def split: sum.splits prod.splits if_splits)
  note sound = fetch_range_sound [OF fetched assms(3) [OF range_is]]
  have archive: "\<lparr>ak_tileset_id = ak_tileset_id archive, ak_generation = ob_generation observed\<rparr> = archive"
    using sound(2) by (cases archive) simp
  show ?thesis
    using that [OF range_is] sound(1) [unfolded archive] sound(3) unfolding bytes by blast
qed

end
