(* ===== verification/Chunk_Store.thy ===== *)
theory Chunk_Store
  imports Chunk_Fetch
begin

text \<open>
  The chunked byte-range reader, \<open>crates/ishikari-core/src/storage/chunked_store/store.rs\<close>, with
  its chunk cache (\<open>cache.rs\<close>): a byte range is mapped to the fixed-size chunks that hold it,
  chunks come from the cache or from the fetch coordinator, and the range is put together from
  them.

  The coordinator's answer to \<open>fetch_chunks\<close> is an argument of the reading operations here, and
  \<open>Chunk_Coordinator\<close> supplies it.  The cache is the map of its present entries: what an eviction
  removes is not in it any more.
\<close>

section \<open>Data\<close>

record ChunkCacheKey =
  ck_archive :: ArchiveKey
  ck_chunk_index :: nat

type_synonym ChunkCache = "ChunkCacheKey \<rightharpoonup> bytes"
type_synonym chunk_map = "nat \<rightharpoonup> bytes"

datatype ChunkReadSource = Cache | BackendFetch

record ChunkRead =
  cr_bytes :: bytes
  cr_source :: ChunkReadSource

definition cache_key_new :: "ArchiveKey \<Rightarrow> nat \<Rightarrow> ChunkCacheKey" where
  "cache_key_new archive chunk_index = \<lparr>ck_archive = archive, ck_chunk_index = chunk_index\<rparr>"

definition chunk_cache_get :: "ChunkCache \<Rightarrow> ArchiveKey \<Rightarrow> nat \<Rightarrow> bytes option" where
  "chunk_cache_get cache archive chunk_index = cache (cache_key_new archive chunk_index)"

section \<open>Cache sizes\<close>

text \<open>
  \<open>crates/ishikari-core/src/cache_policy.rs\<close>; \<open>CACHE_ENTRY_KEY_BYTES\<close> is a pointer and a
  64-bit integer.
\<close>

abbreviation CHUNK_CACHE_CAPACITY_CEILING_BYTES :: nat where
  "CHUNK_CACHE_CAPACITY_CEILING_BYTES \<equiv> 1024 * 1024 * 1024"

abbreviation CACHE_ENTRY_KEY_BYTES :: nat where "CACHE_ENTRY_KEY_BYTES \<equiv> 8 + 8"

definition effective_chunk_cache_capacity :: "nat \<Rightarrow> nat" where
  "effective_chunk_cache_capacity requested_bytes =
     (if requested_bytes < CHUNK_CACHE_CAPACITY_CEILING_BYTES then requested_bytes
      else CHUNK_CACHE_CAPACITY_CEILING_BYTES)"

definition cache_entry_weight :: "nat \<Rightarrow> nat" where
  "cache_entry_weight payload_bytes =
     (let whole = min (CACHE_ENTRY_KEY_BYTES + payload_bytes) usize_max in min whole u32_max)"

definition tile_cache_entry_weight :: "nat option \<Rightarrow> nat" where
  "tile_cache_entry_weight payload_bytes = cache_entry_weight (case payload_bytes of Some n \<Rightarrow> n | None \<Rightarrow> 0)"

definition chunk_cache_entry_weight :: "nat \<Rightarrow> nat" where
  "chunk_cache_entry_weight payload_bytes = cache_entry_weight payload_bytes"

lemma cache_entry_weight_bounds:
  "0 < cache_entry_weight n" "cache_entry_weight n \<le> u32_max"
  "CACHE_ENTRY_KEY_BYTES + n \<le> u32_max \<Longrightarrow> cache_entry_weight n = CACHE_ENTRY_KEY_BYTES + n"
  by (auto simp: cache_entry_weight_def Let_def)

section \<open>Chunk arithmetic\<close>

definition chunk_index :: "nat \<Rightarrow> nat \<Rightarrow> nat" where
  "chunk_index offset chunk_size = offset div chunk_size"

definition byte_range_to_chunk_range :: "nat \<Rightarrow> nat \<Rightarrow> nat \<Rightarrow> nat \<times> nat" where
  "byte_range_to_chunk_range range_start range_end chunk_size =
     (chunk_index range_start chunk_size, chunk_index (range_end - 1) chunk_size)"

definition validate_byte_range :: "nat \<Rightarrow> nat \<Rightarrow> nat option \<Rightarrow> ChunkRangeError + nat" where
  "validate_byte_range range_start len archive_len =
     (case nat_checked_add range_start len of
        None \<Rightarrow> Inl (ByteRangeOverflow range_start len)
      | Some range_end \<Rightarrow>
         (case archive_len of
            Some whole \<Rightarrow>
              if range_start > whole \<or> range_end > whole then Inl (OutsideArchive range_start range_end whole)
              else Inr range_end
          | None \<Rightarrow> Inr range_end))"

fun chunk_slices_loop ::
  "nat \<Rightarrow> nat \<Rightarrow> nat \<Rightarrow> nat \<Rightarrow> nat list \<Rightarrow> ChunkRangeError + (nat \<times> nat \<times> nat) list" where
  "chunk_slices_loop chunk_size archive_len bytes_len range_start [] = Inr []"
| "chunk_slices_loop chunk_size archive_len bytes_len range_start (i # is) =
     try_bind (ok_or (ChunkArithmeticOverflow i chunk_size) (nat_checked_mul i chunk_size)) (\<lambda>absolute_start.
     try_bind (ok_or (ChunkArithmeticOverflow i chunk_size) (nat_checked_add i 1)) (\<lambda>next_chunk.
     try_bind (ok_or (ChunkArithmeticOverflow next_chunk chunk_size) (nat_checked_mul next_chunk chunk_size)) (\<lambda>e.
     let absolute_end = min e archive_len in
     if absolute_start \<ge> absolute_end then Inl (ChunkOutsideArchive i archive_len)
     else
       let relative_start = absolute_start - range_start; relative_end = absolute_end - range_start in
       if relative_start > relative_end \<or> relative_end > bytes_len
       then Inl (SliceOutsideFetchedBytes i relative_start relative_end bytes_len)
       else try_bind (chunk_slices_loop chunk_size archive_len bytes_len range_start is) (\<lambda>slices.
            Inr ((i, relative_start, relative_end) # slices)))))"

definition chunk_slices ::
  "nat \<times> nat \<Rightarrow> nat \<Rightarrow> nat \<Rightarrow> nat \<Rightarrow> ChunkRangeError + (nat \<times> nat \<times> nat) list" where
  "chunk_slices chunk_range chunk_size archive_len bytes_len =
     (case chunk_range of (start_chunk, end_chunk) \<Rightarrow>
        if start_chunk \<ge> end_chunk then Inl (InvalidChunkGroup start_chunk end_chunk)
        else try_bind (ok_or (ChunkArithmeticOverflow start_chunk chunk_size)
                 (nat_checked_mul start_chunk chunk_size)) (\<lambda>range_start.
             chunk_slices_loop chunk_size archive_len bytes_len range_start [start_chunk..<end_chunk]))"

section \<open>Caching a fetched group\<close>

definition byte_slice :: "bytes \<Rightarrow> nat \<Rightarrow> nat \<Rightarrow> bytes" where
  "byte_slice bytes slice_start slice_end = take (slice_end - slice_start) (drop slice_start bytes)"

fun put_slices ::
  "ArchiveKey \<Rightarrow> bytes \<Rightarrow> (nat \<times> nat \<times> nat) list \<Rightarrow> chunk_map \<Rightarrow> ChunkCache \<Rightarrow> chunk_map \<times> ChunkCache" where
  "put_slices archive bytes [] chunks cache = (chunks, cache)"
| "put_slices archive bytes ((i, slice_start, slice_end) # slices) chunks cache =
     (let chunk = byte_slice bytes slice_start slice_end in
      put_slices archive bytes slices (chunks(i \<mapsto> chunk)) (cache(cache_key_new archive i \<mapsto> chunk)))"

definition cache_chunk_group ::
  "nat \<Rightarrow> ArchiveKey \<Rightarrow> nat \<times> nat \<Rightarrow> nat \<Rightarrow> bytes \<Rightarrow> ChunkCache
    \<Rightarrow> (ChunkRangeError + chunk_map) \<times> ChunkCache" where
  "cache_chunk_group chunk_size archive chunk_range archive_len bytes cache =
     (case chunk_slices chunk_range chunk_size archive_len (length bytes) of
        Inl e \<Rightarrow> (Inl e, cache)
      | Inr slices \<Rightarrow>
          (case put_slices archive bytes slices Map.empty cache of (chunks, cache) \<Rightarrow> (Inr chunks, cache)))"

section \<open>Reading\<close>

definition slice_single_chunk :: "nat \<Rightarrow> nat \<Rightarrow> nat \<Rightarrow> nat \<Rightarrow> bytes \<Rightarrow> ChunkMessage + bytes" where
  "slice_single_chunk chunk_size i range_start len chunk =
     (let chunk_offset = range_start mod chunk_size in
      case nat_checked_add chunk_offset len of
        None \<Rightarrow> Inl (Text ''byte range overflow computing chunk slice'')
      | Some chunk_end \<Rightarrow>
          if chunk_end > length chunk
          then Inl (ChunkShorterThanRange i (length chunk) chunk_offset len)
          else Inr (byte_slice chunk chunk_offset chunk_end))"

fun gather_chunks :: "chunk_map \<Rightarrow> nat list \<Rightarrow> nat \<Rightarrow> nat \<Rightarrow> bytes \<Rightarrow> ChunkMessage + bytes" where
  "gather_chunks chunks [] current_offset remaining acc =
     (if remaining \<noteq> 0 then Inl (Text ''failed to reconstruct tileset bytes from chunk cache'')
      else Inr acc)"
| "gather_chunks chunks (i # is) current_offset remaining acc =
     (case chunks i of
        None \<Rightarrow> Inl (Text ''resolved chunk missing after fetch'')
      | Some chunk \<Rightarrow>
          if current_offset > length chunk
          then Inl (OffsetExceedsChunk i (length chunk) current_offset)
          else
            let n = min remaining (length chunk - current_offset) in
            (case nat_checked_add current_offset n of
               None \<Rightarrow> Inl (Text ''byte range overflow computing reconstructed chunk slice'')
             | Some current_end \<Rightarrow>
                 gather_chunks chunks is 0 (remaining - n) (acc @ byte_slice chunk current_offset current_end)))"

definition read_resolved_bytes :: "nat \<Rightarrow> nat \<Rightarrow> nat \<Rightarrow> chunk_map \<Rightarrow> ChunkMessage + bytes" where
  "read_resolved_bytes chunk_size range_start len chunks =
     (case nat_checked_add range_start len of
        None \<Rightarrow> Inl (Text ''byte range overflow computing cached read'')
      | Some range_end \<Rightarrow>
         (case byte_range_to_chunk_range range_start range_end chunk_size of (first_chunk, last_chunk) \<Rightarrow>
            if first_chunk = last_chunk then
              (case chunks first_chunk of
                 None \<Rightarrow> Inl (Text ''resolved chunk missing after fetch'')
               | Some chunk \<Rightarrow> slice_single_chunk chunk_size first_chunk range_start len chunk)
            else gather_chunks chunks [first_chunk..<Suc last_chunk] (range_start mod chunk_size) len []))"

definition as_fetch_error :: "ChunkMessage + 'a \<Rightarrow> ChunkFetchError + 'a" where
  "as_fetch_error r = (case r of Inl e \<Rightarrow> Inl (Message e) | Inr v \<Rightarrow> Inr v)"

definition read_single_chunk ::
  "nat \<Rightarrow> ChunkCache \<Rightarrow> (nat list \<Rightarrow> ChunkFetchError + chunk_map) \<Rightarrow> ArchiveKey \<Rightarrow> nat \<Rightarrow> nat \<Rightarrow> nat
    \<Rightarrow> ChunkFetchError + ChunkRead" where
  "read_single_chunk chunk_size cache fetch_chunks archive i range_start len =
     try_bind
       (case chunk_cache_get cache archive i of
          Some chunk \<Rightarrow> Inr (chunk, Cache)
        | None \<Rightarrow>
            try_bind (fetch_chunks [i]) (\<lambda>fetched.
            try_bind (ok_or (Message (Text ''resolved chunk missing after fetch'')) (fetched i)) (\<lambda>chunk.
            Inr (chunk, BackendFetch))))
       (\<lambda>(chunk, source).
     try_bind (as_fetch_error (slice_single_chunk chunk_size i range_start len chunk)) (\<lambda>bytes.
     Inr \<lparr>cr_bytes = bytes, cr_source = source\<rparr>))"

text \<open>The cache pass over the chunks of a range: what was found and what is missing.\<close>

fun cache_pass :: "ChunkCache \<Rightarrow> ArchiveKey \<Rightarrow> nat list \<Rightarrow> chunk_map \<Rightarrow> nat list \<Rightarrow> chunk_map \<times> nat list" where
  "cache_pass cache archive [] resolved missing = (resolved, missing)"
| "cache_pass cache archive (i # is) resolved missing =
     (case chunk_cache_get cache archive i of
        Some chunk \<Rightarrow> cache_pass cache archive is (resolved(i \<mapsto> chunk)) missing
      | None \<Rightarrow> cache_pass cache archive is resolved (missing @ [i]))"

definition read_bytes ::
  "nat \<Rightarrow> ChunkCache \<Rightarrow> (nat list \<Rightarrow> ChunkFetchError + chunk_map) \<Rightarrow> ArchiveKey \<Rightarrow> nat \<Rightarrow> nat \<Rightarrow> nat
    \<Rightarrow> ChunkFetchError + ChunkRead" where
  "read_bytes chunk_size cache fetch_chunks archive range_start len archive_len =
     (case validate_byte_range range_start len (Some archive_len) of
        Inl e \<Rightarrow> Inl (Message (RangeText e))
      | Inr range_end \<Rightarrow>
          if len = 0 then Inr \<lparr>cr_bytes = [], cr_source = Cache\<rparr>
          else
            (case byte_range_to_chunk_range range_start range_end chunk_size of (first_chunk, last_chunk) \<Rightarrow>
               if first_chunk = last_chunk
               then read_single_chunk chunk_size cache fetch_chunks archive first_chunk range_start len
               else
                 (case cache_pass cache archive [first_chunk..<Suc last_chunk] Map.empty [] of
                    (resolved, missing) \<Rightarrow>
                      try_bind
                        (if missing = [] then Inr resolved
                         else try_bind (fetch_chunks missing) (\<lambda>fetched. Inr (resolved ++ fetched)))
                        (\<lambda>resolved.
                      try_bind (as_fetch_error (read_resolved_bytes chunk_size range_start len resolved)) (\<lambda>bytes.
                      Inr \<lparr>cr_bytes = bytes,
                           cr_source = (if missing = [] then Cache else BackendFetch)\<rparr>)))))"

section \<open>Chunks of an archive\<close>

text \<open>
  What a chunk of an archive is: the bytes between two chunk boundaries, cut at the declared
  length of the archive, none of them missing.
\<close>

definition chunk_len :: "nat \<Rightarrow> nat \<Rightarrow> nat \<Rightarrow> nat" where
  "chunk_len chunk_size archive_len i = min (Suc i * chunk_size) archive_len - i * chunk_size"

definition is_chunk :: "bytes \<Rightarrow> nat \<Rightarrow> nat \<Rightarrow> nat \<Rightarrow> bytes \<Rightarrow> bool" where
  "is_chunk a chunk_size archive_len i b \<longleftrightarrow>
     b = take (chunk_len chunk_size archive_len i) (drop (i * chunk_size) a)
     \<and> length b = chunk_len chunk_size archive_len i"

lemma is_chunk_unique: "is_chunk a n l i b \<Longrightarrow> is_chunk a n l i b' \<Longrightarrow> b = b'"
  by (simp add: is_chunk_def)

lemma is_chunk_length: "is_chunk a n l i b \<Longrightarrow> length b = chunk_len n l i"
  unfolding is_chunk_def by (rule conjunct2)

lemma is_chunk_slice:
  assumes "is_chunk a n l i b" and "off + k \<le> length b"
  shows "take k (drop off b) = take k (drop (i * n + off) a)"
proof -
  let ?c = "chunk_len n l i"
  have "drop off b = take (?c - off) (drop (i * n + off) a)"
    using assms(1) by (simp add: is_chunk_def drop_take add.commute)
  moreover have "k \<le> ?c - off" using is_chunk_length [OF assms(1)] assms(2) by linarith
  ultimately show ?thesis by (simp add: min_absorb1)
qed

lemma take_take_drop: "take x (drop p a) @ take y (drop (p + x) a) = take (x + y) (drop p a)"
  by (simp add: take_add add.commute)

lemma mult_Suc_le: "i < j \<Longrightarrow> Suc i * n \<le> j * (n :: nat)"
  using mult_le_mono1 [of "Suc i" j n] by simp

text \<open>The bytes gathered from consecutive chunks are the range they cover.\<close>

lemma gather_chunks_exact:
  assumes "\<And>j. i \<le> j \<Longrightarrow> j < d \<Longrightarrow> \<exists>b. chunks j = Some b \<and> is_chunk a n l j b"
    and "i < d" and "off \<le> n" and "i * n + off + k \<le> l" and "l < 2 ^ 64"
    and "i * n + off + k \<le> d * n" and "(d - 1) * n < i * n + off + k \<or> d = Suc i"
  shows "gather_chunks chunks [i..<d] off k acc = Inr (acc @ take k (drop (i * n + off) a))"
  using assms
proof (induction "d - i" arbitrary: i off k acc)
  case (Suc m)
  obtain b where b: "chunks i = Some b" "is_chunk a n l i b" using Suc.prems(1,2) by blast
  have len: "length b = min (Suc i * n) l - i * n" using is_chunk_length [OF b(2)] by (simp add: chunk_len_def)
  have list: "[i..<d] = i # [Suc i..<d]" using Suc.prems(2) by (rule upt_conv_Cons)
  have off: "off \<le> length b" using Suc.prems(3,4) by (simp add: len)
  define x where "x = min k (length b - off)"
  have "x \<le> length b - off" by (simp add: x_def)
  then have "off + x \<le> length b" using off by simp
  moreover have "length b \<le> l" by (simp add: len)
  ultimately have fits: "off + x < 2 ^ 64" using Suc.prems(5) by linarith
  have slice: "byte_slice b off (off + x) = take x (drop (i * n + off) a)"
    using is_chunk_slice [OF b(2) \<open>off + x \<le> length b\<close>] by (simp add: byte_slice_def)
  have step: "gather_chunks chunks [i..<d] off k acc
      = gather_chunks chunks [Suc i..<d] 0 (k - x) (acc @ take x (drop (i * n + off) a))"
    using b(1) off fits slice by (simp add: list Let_def x_def [symmetric] nat_checked_add_def)
  show ?case
  proof (cases "d = Suc i")
    case True
    then have "x = k" using Suc.prems(4,6) by (simp add: x_def len)
    with step True show ?thesis by simp
  next
    case False
    then have less: "Suc i < d" using Suc.prems(2) by simp
    then have "Suc i * n \<le> (d - 1) * n" by (intro mult_le_mono1) simp
    then have far: "Suc i * n < i * n + off + k" using Suc.prems(7) False by linarith
    then have full: "length b = n" using Suc.prems(4) by (simp add: len)
    then have x: "x = n - off" using far Suc.prems(3) by (simp add: x_def)
    then have pos: "i * n + off + x = Suc i * n" and rest: "Suc i * n + 0 + (k - x) = i * n + off + k"
      using Suc.prems(3) far by simp_all
    have "gather_chunks chunks [Suc i..<d] 0 (k - x) (acc @ take x (drop (i * n + off) a))
        = Inr ((acc @ take x (drop (i * n + off) a)) @ take (k - x) (drop (Suc i * n + 0) a))"
    proof (rule Suc.hyps(1))
      show "\<And>j. Suc i \<le> j \<Longrightarrow> j < d \<Longrightarrow> \<exists>b. chunks j = Some b \<and> is_chunk a n l j b"
        using Suc.prems(1) by simp
    qed (use less rest Suc.prems Suc.hyps(2) False in \<open>simp_all only: rest, simp_all\<close>)
    moreover have "take x (drop (i * n + off) a) @ take (k - x) (drop (Suc i * n + 0) a) = take k (drop (i * n + off) a)"
      using take_take_drop [of x "i * n + off" a "k - x"] far x Suc.prems(3) pos by (simp add: algebra_simps)
    ultimately show ?thesis using step by simp
  qed
qed simp

lemma chunk_len_fits: "m \<le> n \<Longrightarrow> i * n + m \<le> l \<Longrightarrow> m \<le> chunk_len n l i"
  by (simp add: chunk_len_def)

lemma single_chunk_exact:
  assumes "is_chunk a n l (s div n) b" and "0 < n" and "0 < k" and "s + k \<le> l" and "l < 2 ^ 64"
    and "s div n = (s + k - 1) div n"
  shows "slice_single_chunk n (s div n) s k b = Inr (take k (drop s a))"
proof -
  have "s mod n + k \<le> n"
  proof -
    have "s + k - 1 = (s div n) * n + (s + k - 1) mod n" using assms(6) by (metis div_mult_mod_eq)
    moreover have "(s + k - 1) mod n < n" using assms(2) by simp
    moreover have "s = (s div n) * n + s mod n" by simp
    ultimately show ?thesis using assms(3) by linarith
  qed
  moreover have "(s div n) * n + (s mod n + k) \<le> l"
    using assms(4) div_mult_mod_eq [of s n] by linarith
  ultimately have fits: "s mod n + k \<le> length b"
    unfolding is_chunk_length [OF assms(1)] by (rule chunk_len_fits)
  moreover have "length b \<le> l" using is_chunk_length [OF assms(1)] by (simp add: chunk_len_def)
  ultimately have "s mod n + k < 2 ^ 64" using assms(5) by linarith
  moreover have "take k (drop (s mod n) b) = take k (drop s a)"
    using is_chunk_slice [OF assms(1) fits] by simp
  ultimately show ?thesis
    using fits by (simp add: slice_single_chunk_def Let_def nat_checked_add_def byte_slice_def)
qed

lemma cache_pass_eq:
  "cache_pass cache archive is resolved missing =
     (\<lambda>i. if i \<in> set is \<and> chunk_cache_get cache archive i \<noteq> None then chunk_cache_get cache archive i else resolved i,
      missing @ filter (\<lambda>i. chunk_cache_get cache archive i = None) is)"
  by (induction "is" arbitrary: resolved missing) (auto split: option.splits simp: fun_eq_iff)

text \<open>A range covers the chunks between the chunk of its first and the chunk of its last byte.\<close>

lemma chunk_range_covers:
  assumes "0 < n" and "0 < k" and "s div n \<noteq> (s + k - 1) div n"
  shows "s div n < (s + k - 1) div n" and "s + k \<le> Suc ((s + k - 1) div n) * n"
    and "((s + k - 1) div n) * n < s + k"
proof -
  have "s div n \<le> (s + k - 1) div n" using assms(2) by (intro div_le_mono) simp
  with assms(3) show "s div n < (s + k - 1) div n" by simp
  have e: "s + k - 1 = ((s + k - 1) div n) * n + (s + k - 1) mod n" by simp
  have "(s + k - 1) mod n < n" using assms(1) by simp
  with e assms(2) show "s + k \<le> Suc ((s + k - 1) div n) * n" unfolding mult_Suc by linarith
  from e assms(2) show "((s + k - 1) div n) * n < s + k" by linarith
qed

section \<open>Cached groups\<close>

lemma chunk_slices_loop_exact:
  assumes "chunk_slices_loop n l len s0 is = Inr slices" and "(i, x, y) \<in> set slices"
  shows "i \<in> set is \<and> x = i * n - s0 \<and> y = min (Suc i * n) l - s0 \<and> i * n < min (Suc i * n) l \<and> y \<le> len"
  using assms
  by (induction "is" arbitrary: slices)
    (auto simp: try_bind_Inr Let_def algebra_simps simp del: mult_Suc split: if_splits)

lemma chunk_slices_loop_indices:
  "chunk_slices_loop n l len s0 is = Inr slices \<Longrightarrow> map fst slices = is"
  by (induction "is" arbitrary: slices) (auto simp: try_bind_Inr Let_def split: if_splits)

lemma put_slices_eq:
  assumes "distinct (map fst slices)"
  shows "put_slices archive bytes slices chunks cache =
    (chunks ++ map_of (map (\<lambda>(i, x, y). (i, byte_slice bytes x y)) slices),
     \<lambda>k. case map_of (map (\<lambda>(i, x, y). (i, byte_slice bytes x y)) slices) (ck_chunk_index k) of
            Some b \<Rightarrow> if ck_archive k = archive then Some b else cache k
          | None \<Rightarrow> cache k)"
  using assms
proof (induction slices arbitrary: chunks cache)
  case (Cons sl slices)
  obtain i x y where sl: "sl = (i, x, y)" by (cases sl)
  let ?m = "map_of (map (\<lambda>(i, x, y). (i, byte_slice bytes x y)) slices)"
  have i: "?m i = None" using Cons.prems by (force simp: sl map_of_eq_None_iff)
  let ?b = "byte_slice bytes x y"
  have step: "put_slices archive bytes (sl # slices) chunks cache
      = put_slices archive bytes slices (chunks(i \<mapsto> ?b)) (cache(cache_key_new archive i \<mapsto> ?b))"
    by (simp add: sl Let_def)
  have rest: "distinct (map fst slices)" using Cons.prems by simp
  have all: "map_of (map (\<lambda>(i, x, y). (i, byte_slice bytes x y)) (sl # slices)) = ?m(i \<mapsto> ?b)" by (simp add: sl)
  have chunks: "chunks(i \<mapsto> ?b) ++ ?m = chunks ++ ?m(i \<mapsto> ?b)"
    using i by (auto simp: map_add_def fun_eq_iff split: option.splits)
  have key: "k = cache_key_new archive i \<longleftrightarrow> ck_chunk_index k = i \<and> ck_archive k = archive" for k
    by (cases k) (auto simp: cache_key_new_def)
  have cache: "(case ?m (ck_chunk_index k) of
        Some b \<Rightarrow> if ck_archive k = archive then Some b else (cache(cache_key_new archive i \<mapsto> ?b)) k
      | None \<Rightarrow> (cache(cache_key_new archive i \<mapsto> ?b)) k) =
      (case (?m(i \<mapsto> ?b)) (ck_chunk_index k) of
        Some b \<Rightarrow> if ck_archive k = archive then Some b else cache k | None \<Rightarrow> cache k)" for k
    using i by (auto simp: key split: option.splits)
  show ?case unfolding step Cons.IH [OF rest] all chunks cache by (rule refl)
qed (simp add: fun_eq_iff)

text \<open>
  A group fetched exactly from the archive is cached and returned as chunks of the archive, one
  for every index of the group.
\<close>

lemma cache_chunk_group_exact:
  assumes "cache_chunk_group n archive (c, d) l bytes cache = (Inr m, cache')"
    and "group_byte_range n (c, d) l = Inr (s, e)"
    and "bytes = take (e - s) (drop s a)" and "length bytes = e - s"
  shows "m i = Some b \<Longrightarrow> is_chunk a n l i b"
    and "c \<le> i \<Longrightarrow> i < d \<Longrightarrow> m i \<noteq> None"
    and "chunk_cache_get cache' archive i = (case m i of Some b \<Rightarrow> Some b | None \<Rightarrow> chunk_cache_get cache archive i)"
    and "archive' \<noteq> archive \<Longrightarrow> chunk_cache_get cache' archive' i = chunk_cache_get cache archive' i"
proof -
  obtain slices where slices: "chunk_slices (c, d) n l (length bytes) = Inr slices"
    and put: "put_slices archive bytes slices Map.empty cache = (m, cache')"
    using assms(1) by (auto simp: cache_chunk_group_def split: sum.splits prod.splits)
  then have loop: "chunk_slices_loop n l (length bytes) (c * n) [c..<d] = Inr slices"
    by (auto simp: chunk_slices_def try_bind_Inr split: if_splits)
  have s: "s = c * n" and e: "s < e"
    using assms(2) by (auto simp: group_byte_range_def Let_def split: option.splits if_splits)
  note indices = chunk_slices_loop_indices [OF loop]
  have "distinct (map fst slices)" unfolding indices by simp
  note eq = put_slices_eq [OF this, of archive bytes Map.empty cache, unfolded put]
  let ?mm = "map_of (map (\<lambda>(i, x, y). (i, byte_slice bytes x y)) slices)"
  have m: "m = ?mm" using eq by simp
  show "is_chunk a n l i b" if held: "m i = Some b"
  proof -
    obtain x y where xy: "(i, x, y) \<in> set slices" "b = byte_slice bytes x y"
      using held unfolding m by (auto dest!: map_of_SomeD)
    note at = chunk_slices_loop_exact [OF loop xy(1)]
    have ci: "c * n \<le> i * n" using at by (intro mult_le_mono1) simp
    define top_end where "top_end = min (Suc i * n) l"
    have x: "x = i * n - c * n" and y: "y = top_end - c * n" and lt: "i * n < top_end" and yl: "y \<le> e - c * n"
      using at assms(4) unfolding top_end_def s by simp_all
    have len: "y - x = chunk_len n l i"
      using ci lt unfolding chunk_len_def x y top_end_def [symmetric] by linarith
    have le: "c * n + y \<le> e" "x \<le> y" using ci lt yl e unfolding s x y by linarith+
    have "b = take (y - x) (drop (c * n + x) a)"
      using le by (simp add: xy(2) byte_slice_def assms(3) s drop_take min_absorb1 add.commute)
    moreover have "c * n + x = i * n" using ci unfolding x by linarith
    moreover have "length b = y - x"
      using yl assms(4) unfolding xy(2) byte_slice_def s length_take length_drop by linarith
    ultimately show ?thesis unfolding is_chunk_def len [symmetric] by simp
  qed
  show "m i \<noteq> None" if "c \<le> i" "i < d"
  proof -
    have "i \<in> set (map fst slices)" using that unfolding indices by simp
    moreover have "fst ` set (map (\<lambda>(i, x, y). (i, byte_slice bytes x y)) slices) = set (map fst slices)"
      by force
    ultimately show ?thesis unfolding m map_of_eq_None_iff by simp
  qed
  have cache': "cache' = (\<lambda>k. case m (ck_chunk_index k) of
      Some b \<Rightarrow> if ck_archive k = archive then Some b else cache k | None \<Rightarrow> cache k)"
    using eq by (simp add: m)
  show "chunk_cache_get cache' archive i = (case m i of Some b \<Rightarrow> Some b | None \<Rightarrow> chunk_cache_get cache archive i)"
    by (cases "m i") (simp_all add: cache' chunk_cache_get_def cache_key_new_def)
  show "chunk_cache_get cache' archive' i = chunk_cache_get cache archive' i" if "archive' \<noteq> archive"
    using that by (simp add: cache' chunk_cache_get_def cache_key_new_def split: option.splits)
qed

section \<open>Reading through a supply of chunks\<close>

text \<open>
  The contract between the reader and what it reads from: in a ready state the cache and the
  answers of the coordinator hold chunks of the archive, and an answer holds every chunk asked for.
\<close>

locale chunk_supply =
  fixes chunk_size archive_len :: nat and a :: bytes and archive :: ArchiveKey
    and ready :: "'s \<Rightarrow> bool" and cache :: "'s \<Rightarrow> ChunkCache"
    and fetch_chunks :: "'s \<Rightarrow> nat list \<Rightarrow> ChunkFetchError + chunk_map"
  assumes chunk_size_pos: "ready s \<Longrightarrow> 0 < chunk_size"
    and archive_len_fits: "ready s \<Longrightarrow> archive_len < 2 ^ 64"
    and cache_law: "ready s \<Longrightarrow> chunk_cache_get (cache s) archive i = Some b
      \<Longrightarrow> is_chunk a chunk_size archive_len i b"
    and fetch_law: "ready s \<Longrightarrow> fetch_chunks s is = Inr m \<Longrightarrow> m i = Some b
      \<Longrightarrow> is_chunk a chunk_size archive_len i b"
    and fetch_complete: "ready s \<Longrightarrow> fetch_chunks s is = Inr m \<Longrightarrow> i \<in> set is \<Longrightarrow> m i \<noteq> None"
begin

abbreviation missing :: "'s \<Rightarrow> nat \<Rightarrow> nat \<Rightarrow> nat list" where
  "missing s range_start len \<equiv> filter (\<lambda>i. chunk_cache_get (cache s) archive i = None)
     [range_start div chunk_size..<Suc ((range_start + len - 1) div chunk_size)]"

abbreviation found :: "nat \<Rightarrow> nat \<Rightarrow> ChunkReadSource \<Rightarrow> ChunkRead" where
  "found range_start len source \<equiv> \<lparr>cr_bytes = take len (drop range_start a), cr_source = source\<rparr>"

lemma read_one_exact:
  assumes "ready s" and "0 < len" and "range_start + len \<le> archive_len"
    and "range_start div chunk_size = (range_start + len - 1) div chunk_size"
  shows "read_single_chunk chunk_size (cache s) (fetch_chunks s) archive (range_start div chunk_size) range_start len
    = (if missing s range_start len = [] then Inr (found range_start len Cache)
       else case fetch_chunks s (missing s range_start len) of
              Inl e \<Rightarrow> Inl e | Inr _ \<Rightarrow> Inr (found range_start len BackendFetch))"
proof -
  let ?i = "range_start div chunk_size"
  have slice: "slice_single_chunk chunk_size ?i range_start len b = Inr (take len (drop range_start a))"
    if "is_chunk a chunk_size archive_len ?i b" for b
    using single_chunk_exact [OF that] assms chunk_size_pos archive_len_fits by blast
  have list: "[?i..<Suc ((range_start + len - 1) div chunk_size)] = [?i]" using assms(4) by simp
  show ?thesis
  proof (cases "chunk_cache_get (cache s) archive ?i")
    case (Some b)
    with slice [OF cache_law [OF assms(1) Some]] show ?thesis
      unfolding list by (simp add: read_single_chunk_def as_fetch_error_def)
  next
    case None
    show ?thesis
    proof (cases "fetch_chunks s [?i]")
      case (Inr m)
      then obtain b where b: "m ?i = Some b" using fetch_complete [OF assms(1) Inr] by auto
      from slice [OF fetch_law [OF assms(1) Inr b]] None Inr b show ?thesis
        unfolding list by (simp add: read_single_chunk_def as_fetch_error_def)
    qed (use None in \<open>unfold list, simp add: read_single_chunk_def\<close>)
  qed
qed

lemma resolved_exact:
  assumes "ready s" and "0 < len" and "range_start + len \<le> archive_len"
    and "range_start div chunk_size \<noteq> (range_start + len - 1) div chunk_size"
    and "\<And>j. range_start div chunk_size \<le> j \<Longrightarrow> j \<le> (range_start + len - 1) div chunk_size
      \<Longrightarrow> \<exists>b. chunks j = Some b \<and> is_chunk a chunk_size archive_len j b"
  shows "read_resolved_bytes chunk_size range_start len chunks = Inr (take len (drop range_start a))"
proof -
  let ?f = "range_start div chunk_size" and ?l = "(range_start + len - 1) div chunk_size"
  note pos = chunk_size_pos [OF assms(1)]
  have s: "?f * chunk_size + range_start mod chunk_size = range_start" by simp
  have off: "range_start mod chunk_size \<le> chunk_size" using pos by (simp add: less_imp_le)
  note covers = chunk_range_covers [OF pos assms(2,4)]
  have "gather_chunks chunks [?f..<Suc ?l] (range_start mod chunk_size) len []
      = Inr ([] @ take len (drop (?f * chunk_size + range_start mod chunk_size) a))"
  proof (rule gather_chunks_exact [where l = archive_len])
    show "\<And>j. ?f \<le> j \<Longrightarrow> j < Suc ?l \<Longrightarrow> \<exists>b. chunks j = Some b \<and> is_chunk a chunk_size archive_len j b"
      using assms(5) by simp
    show "?f < Suc ?l" using covers(1) by simp
    show "range_start mod chunk_size \<le> chunk_size" by (rule off)
    show "?f * chunk_size + range_start mod chunk_size + len \<le> archive_len" unfolding s by (rule assms(3))
    show "archive_len < 2 ^ 64" by (rule archive_len_fits [OF assms(1)])
    show "?f * chunk_size + range_start mod chunk_size + len \<le> Suc ?l * chunk_size" unfolding s by (rule covers(2))
    show "(Suc ?l - 1) * chunk_size < ?f * chunk_size + range_start mod chunk_size + len \<or> Suc ?l = Suc ?f"
      unfolding s diff_Suc_1 using covers(3) by blast
  qed
  then have gathered: "gather_chunks chunks [?f..<Suc ?l] (range_start mod chunk_size) len []
      = Inr (take len (drop range_start a))" unfolding s by simp
  have "range_start + len < 2 ^ 64" using assms(3) archive_len_fits [OF assms(1)] by linarith
  then have "nat_checked_add range_start len = Some (range_start + len)" by (simp add: nat_checked_add_def)
  then show ?thesis
    unfolding read_resolved_bytes_def byte_range_to_chunk_range_def chunk_index_def
    using gathered assms(4) by (simp only: option.case prod.case if_False)
qed

text \<open>
  A read of a range of the archive returns exactly its bytes: from the cache alone if it holds
  every chunk of the range, and otherwise with the answer for the missing chunks, whose error it
  returns.
\<close>

lemma read_bytes_exact:
  assumes "ready s" and "range_start + len \<le> archive_len"
  shows "read_bytes chunk_size (cache s) (fetch_chunks s) archive range_start len archive_len
    = (if len = 0 \<or> missing s range_start len = [] then Inr (found range_start len Cache)
       else case fetch_chunks s (missing s range_start len) of
              Inl e \<Rightarrow> Inl e | Inr _ \<Rightarrow> Inr (found range_start len BackendFetch))"
proof -
  let ?f = "range_start div chunk_size" and ?l = "(range_start + len - 1) div chunk_size"
  have "range_start + len < 2 ^ 64" using assms archive_len_fits by fastforce
  then have valid: "validate_byte_range range_start len (Some archive_len) = Inr (range_start + len)"
    using assms(2) by (simp add: validate_byte_range_def nat_checked_add_def)
  consider "len = 0" | "0 < len" "?f = ?l" | "0 < len" "?f \<noteq> ?l" by blast
  then show ?thesis
  proof cases
    case 2
    with read_one_exact [OF assms(1) 2(1) assms(2) 2(2)] show ?thesis
      unfolding read_bytes_def valid byte_range_to_chunk_range_def chunk_index_def by simp
  next
    case 3
    define ms where "ms = missing s range_start len"
    obtain hits where pass: "cache_pass (cache s) archive [?f..<Suc ?l] Map.empty [] = (hits, ms)"
      and hits: "hits = (\<lambda>i. if i \<in> set [?f..<Suc ?l] \<and> chunk_cache_get (cache s) archive i \<noteq> None
        then chunk_cache_get (cache s) archive i else None)"
      unfolding cache_pass_eq ms_def by simp
    have hit: "is_chunk a chunk_size archive_len i b" if "hits i = Some b" for i b
      using that cache_law [OF assms(1)] by (auto simp: hits split: if_splits)
    have held: "hits j \<noteq> None \<or> j \<in> set ms" if "?f \<le> j" "j \<le> ?l" for j
      using that by (auto simp: hits ms_def simp del: upt_Suc)
    have whole: "read_resolved_bytes chunk_size range_start len (hits ++ m) = Inr (take len (drop range_start a))"
      if m: "\<And>i b. m i = Some b \<Longrightarrow> is_chunk a chunk_size archive_len i b"
        and all: "\<And>i. i \<in> set ms \<Longrightarrow> m i \<noteq> None" for m
    proof (rule resolved_exact [OF assms(1) 3(1) assms(2) 3(2)])
      fix j assume "?f \<le> j" "j \<le> ?l"
      then have "hits j \<noteq> None \<or> m j \<noteq> None" using held all by blast
      then obtain b where b: "(hits ++ m) j = Some b" by (cases "m j") (auto simp: map_add_def)
      then have "is_chunk a chunk_size archive_len j b"
        using hit m by (auto simp: map_add_Some_iff)
      with b show "\<exists>b. (hits ++ m) j = Some b \<and> is_chunk a chunk_size archive_len j b" by (intro exI conjI)
    qed
    have shape: "read_bytes chunk_size (cache s) (fetch_chunks s) archive range_start len archive_len =
      try_bind (if ms = [] then Inr hits else try_bind (fetch_chunks s ms) (\<lambda>fetched. Inr (hits ++ fetched)))
        (\<lambda>resolved. try_bind (as_fetch_error (read_resolved_bytes chunk_size range_start len resolved)) (\<lambda>bytes.
          Inr \<lparr>cr_bytes = bytes, cr_source = (if ms = [] then Cache else BackendFetch)\<rparr>))"
      unfolding read_bytes_def valid byte_range_to_chunk_range_def chunk_index_def
      using 3 pass by (simp del: upt_Suc)
    have result: "read_bytes chunk_size (cache s) (fetch_chunks s) archive range_start len archive_len =
      (if ms = [] then Inr (found range_start len Cache)
       else case fetch_chunks s ms of Inl e \<Rightarrow> Inl e | Inr _ \<Rightarrow> Inr (found range_start len BackendFetch))"
    proof (cases "ms = []")
      case True
      with whole [of Map.empty] show ?thesis unfolding shape by (simp add: as_fetch_error_def)
    next
      case False
      show ?thesis
      proof (cases "fetch_chunks s ms")
        case (Inr m)
        have "read_resolved_bytes chunk_size range_start len (hits ++ m) = Inr (take len (drop range_start a))"
        proof (rule whole)
          show "is_chunk a chunk_size archive_len i b" if "m i = Some b" for i b
            by (rule fetch_law [OF assms(1) Inr that])
          show "m i \<noteq> None" if "i \<in> set ms" for i
            by (rule fetch_complete [OF assms(1) Inr that])
        qed
        with Inr False show ?thesis unfolding shape by (simp add: as_fetch_error_def)
      qed (use False in \<open>simp add: shape\<close>)
    qed
    have "(len = 0) = False" using 3(1) by simp
    with result show ?thesis unfolding ms_def by (simp only: simp_thms)
  next
    case 1
    with valid show ?thesis unfolding read_bytes_def by simp
  qed
qed

end

end
