(* ===== verification/Chunk_Coordinator.thy ===== *)
theory Chunk_Coordinator
  imports Chunk_Store
begin

text \<open>
  The coordination of in-flight chunk fetches,
  \<open>crates/ishikari-core/src/storage/chunked_store/coordinator.rs\<close>: the per-archive state under the
  coordinator's lock, the scheduler task of an archive, the detached tasks that fetch one group of
  chunks each with their completion guard, and the process-wide admission of groups.

  Everything between two suspension points of a task runs under the lock or touches only the
  task's own data and is one step.  A waiter is the pair of ends of a oneshot channel, named by a
  number: \<open>receivers\<close> says which chunk it waits for, \<open>closed_receivers\<close> which receiving ends
  their callers dropped, \<open>answers\<close> what was sent.  \<open>capacity_available\<close> is the stored permit of
  the \<open>Notify\<close>.  Elapsed time only delays steps, so the merge window does not appear; metrics
  and log lines are not modelled.
\<close>

section \<open>State of one archive\<close>

definition IMMEDIATE_CHUNK_INDEX :: nat where [simp]: "IMMEDIATE_CHUNK_INDEX = 0"
definition MAX_CHUNK_GAP :: nat where [simp]: "MAX_CHUNK_GAP = 1"
abbreviation MAX_CONCURRENT_FETCHES_PER_TILESET :: nat where "MAX_CONCURRENT_FETCHES_PER_TILESET \<equiv> 32"

type_synonym waiter = nat
type_synonym chunk_result = "ChunkFetchError + bytes"
type_synonym group_result = "ChunkFetchError + chunk_map"

record TilesetFetchState =
  pending_chunks :: "nat set"
  first_pending_at :: "instant option"
  inflight_chunks :: "nat set"
  waiters :: "nat \<rightharpoonup> waiter list"
  scheduler_running :: bool
  inflight_fetch_count :: nat
  capacity_available :: bool
  fs_archive_len :: nat

datatype EnqueueOutcome = JoinedInflight | Queued | JoinedPending

record EnqueuedChunk =
  ec_chunk_index :: nat
  ec_receiver :: waiter
  ec_outcome :: EnqueueOutcome

record GroupWaiterOutcome =
  delivered :: nat
  cancelled :: nat

datatype DispatchDecision =
    Idle
  | Throttled
  | Dispatch "(nat \<times> nat) list" nat duration nat

definition fetch_state_default :: TilesetFetchState where
  "fetch_state_default =
     \<lparr>pending_chunks = {}, first_pending_at = None, inflight_chunks = {}, waiters = Map.empty,
      scheduler_running = False, inflight_fetch_count = 0, capacity_available = False, fs_archive_len = 0\<rparr>"

definition is_idle :: "TilesetFetchState \<Rightarrow> bool" where
  "is_idle st \<longleftrightarrow> \<not> scheduler_running st \<and> pending_chunks st = {} \<and> inflight_chunks st = {}
     \<and> inflight_fetch_count st = 0"

definition is_drainable :: "TilesetFetchState \<Rightarrow> bool" where
  "is_drainable st \<longleftrightarrow> \<not> scheduler_running st \<and> pending_chunks st = {} \<and> inflight_fetch_count st = 0"

text \<open>
  \<open>enqueue_chunks\<close>; the numbers of the new waiters follow \<open>next_id\<close>.
\<close>

definition push_waiter :: "nat \<Rightarrow> waiter \<Rightarrow> TilesetFetchState \<Rightarrow> TilesetFetchState" where
  "push_waiter i w st = st\<lparr>waiters := (waiters st)(i \<mapsto> (case waiters st i of Some ws \<Rightarrow> ws @ [w] | None \<Rightarrow> [w]))\<rparr>"

definition enqueue_chunk ::
  "nat \<Rightarrow> instant \<Rightarrow> waiter \<Rightarrow> TilesetFetchState \<Rightarrow> EnqueueOutcome \<times> TilesetFetchState" where
  "enqueue_chunk i queued_at w st =
     (let st = push_waiter i w st in
      if i \<in> inflight_chunks st then (JoinedInflight, st)
      else if i \<notin> pending_chunks st then
        (Queued, st\<lparr>pending_chunks := insert i (pending_chunks st),
           first_pending_at := (case first_pending_at st of None \<Rightarrow> Some queued_at | Some t \<Rightarrow> Some t)\<rparr>)
      else (JoinedPending, st))"

fun enqueue_chunks ::
  "nat list \<Rightarrow> instant \<Rightarrow> waiter \<Rightarrow> TilesetFetchState \<Rightarrow> EnqueuedChunk list \<times> TilesetFetchState" where
  "enqueue_chunks [] queued_at next_id st = ([], st)"
| "enqueue_chunks (i # is) queued_at next_id st =
     (let (outcome, st) = enqueue_chunk i queued_at next_id st;
          (joined, st) = enqueue_chunks is queued_at (Suc next_id) st
      in (\<lparr>ec_chunk_index = i, ec_receiver = next_id, ec_outcome = outcome\<rparr> # joined, st))"

definition live_waiters :: "waiter set \<Rightarrow> (nat \<rightharpoonup> waiter list) \<Rightarrow> nat \<rightharpoonup> waiter list" where
  "live_waiters shut ws =
     (\<lambda>i. case ws i of
            None \<Rightarrow> None
          | Some l \<Rightarrow> (let live = filter (\<lambda>w. w \<notin> shut) l in if live = [] then None else Some live))"

definition prune_cancelled_waiters :: "waiter set \<Rightarrow> TilesetFetchState \<Rightarrow> TilesetFetchState" where
  "prune_cancelled_waiters shut st =
     (let st = st\<lparr>waiters := live_waiters shut (waiters st)\<rparr>;
          st = st\<lparr>pending_chunks := {i \<in> pending_chunks st. waiters st i \<noteq> None}\<rparr>
      in if pending_chunks st = {} then st\<lparr>first_pending_at := None\<rparr> else st)"

text \<open>
  \<open>contiguous_chunk_ranges\<close>.  The sums are 64-bit and unchecked in the source; they are written
  with their wrap-around.
\<close>

definition wrapping_add :: "nat \<Rightarrow> nat \<Rightarrow> nat" where
  "wrapping_add a b = (a + b) mod 2 ^ 64"

definition wrapping_sub :: "nat \<Rightarrow> nat \<Rightarrow> nat" where
  "wrapping_sub a b = (a + (2 ^ 64 - b)) mod 2 ^ 64"

fun merge_ranges :: "nat \<Rightarrow> nat \<Rightarrow> nat \<Rightarrow> nat \<Rightarrow> nat list \<Rightarrow> (nat \<times> nat) list" where
  "merge_ranges max_fetch_chunks max_chunk_gap range_start range_end [] = [(range_start, range_end)]"
| "merge_ranges max_fetch_chunks max_chunk_gap range_start range_end (i # is) =
     (if i \<le> wrapping_add range_end max_chunk_gap
         \<and> wrapping_sub (wrapping_add i 1) range_start \<le> max_fetch_chunks
      then merge_ranges max_fetch_chunks max_chunk_gap range_start (wrapping_add i 1) is
      else (range_start, range_end)
             # merge_ranges max_fetch_chunks max_chunk_gap i (wrapping_add i 1) is)"

definition contiguous_chunk_ranges :: "nat list \<Rightarrow> nat \<Rightarrow> nat \<Rightarrow> (nat \<times> nat) list" where
  "contiguous_chunk_ranges chunks max_fetch_chunks max_chunk_gap =
     (case chunks of
        [] \<Rightarrow> []
      | i # is \<Rightarrow> merge_ranges (max max_fetch_chunks 1) max_chunk_gap i (wrapping_add i 1) is)"

definition move_to_inflight :: "(nat \<times> nat) list \<Rightarrow> TilesetFetchState \<Rightarrow> TilesetFetchState" where
  "move_to_inflight groups st =
     (let moved = (\<Union>(s, e)\<in>set groups. {s..<e});
          st = st\<lparr>inflight_chunks := inflight_chunks st \<union> moved, pending_chunks := pending_chunks st - moved\<rparr>;
          st = (if pending_chunks st = {} then st\<lparr>first_pending_at := None\<rparr> else st)
      in st\<lparr>inflight_fetch_count := inflight_fetch_count st + length groups\<rparr>)"

definition select_dispatch_groups ::
  "nat \<Rightarrow> instant \<Rightarrow> TilesetFetchState \<Rightarrow> DispatchDecision \<times> TilesetFetchState" where
  "select_dispatch_groups max_fetch_chunks now st =
     (if pending_chunks st = {} then (Idle, st\<lparr>scheduler_running := False\<rparr>)
      else if inflight_fetch_count st \<ge> MAX_CONCURRENT_FETCHES_PER_TILESET then (Throttled, st)
      else
        let available_slots = MAX_CONCURRENT_FETCHES_PER_TILESET - inflight_fetch_count st;
            groups = take available_slots
              (contiguous_chunk_ranges (sorted_list_of_set (pending_chunks st)) max_fetch_chunks MAX_CHUNK_GAP) in
        if groups = [] then (Throttled, st)
        else
          let pending_at_dispatch = card (pending_chunks st);
              queue_delay = (case first_pending_at st of Some t \<Rightarrow> saturating_duration_since now t | None \<Rightarrow> 0)
          in (Dispatch groups (fs_archive_len st) queue_delay pending_at_dispatch, move_to_inflight groups st))"

text \<open>\<open>complete_group\<close>; the pairs of a waiter and what it is sent go to the open receivers.\<close>

definition chunk_result_of :: "group_result \<Rightarrow> nat \<Rightarrow> chunk_result" where
  "chunk_result_of result i =
     (case result of
        Inr chunks \<Rightarrow> ok_or (Message (GroupOmittedChunk i)) (chunks i)
      | Inl e \<Rightarrow> Inl e)"

fun release_chunks ::
  "waiter set \<Rightarrow> group_result \<Rightarrow> nat list \<Rightarrow> TilesetFetchState \<Rightarrow> GroupWaiterOutcome
    \<Rightarrow> (waiter \<times> chunk_result) list \<times> GroupWaiterOutcome \<times> TilesetFetchState" where
  "release_chunks shut result [] st outcome = ([], outcome, st)"
| "release_chunks shut result (i # is) st outcome =
     (let st = st\<lparr>inflight_chunks := inflight_chunks st - {i}\<rparr> in
      case waiters st i of
        None \<Rightarrow> release_chunks shut result is st outcome
      | Some ws \<Rightarrow>
          let live = filter (\<lambda>w. w \<notin> shut) ws;
              outcome = outcome\<lparr>delivered := delivered outcome + length live,
                          cancelled := cancelled outcome + (length ws - length live)\<rparr>;
              (sent, outcome, st) =
                release_chunks shut result is (st\<lparr>waiters := (waiters st)(i := None)\<rparr>) outcome
          in (map (\<lambda>w. (w, chunk_result_of result i)) live @ sent, outcome, st))"

definition complete_group ::
  "waiter set \<Rightarrow> nat \<times> nat \<Rightarrow> group_result \<Rightarrow> TilesetFetchState
    \<Rightarrow> (waiter \<times> chunk_result) list \<times> GroupWaiterOutcome \<times> TilesetFetchState" where
  "complete_group shut chunk_range result st =
     (let scheduler_needs_capacity =
            inflight_fetch_count st \<ge> MAX_CONCURRENT_FETCHES_PER_TILESET \<and> pending_chunks st \<noteq> {};
          st = st\<lparr>inflight_fetch_count := inflight_fetch_count st - 1\<rparr>;
          st = (if scheduler_needs_capacity then st\<lparr>capacity_available := True\<rparr> else st)
      in release_chunks shut result [fst chunk_range..<snd chunk_range] st \<lparr>delivered = 0, cancelled = 0\<rparr>)"

section \<open>The coordinator\<close>

text \<open>
  Where a scheduler is: sleeping through the merge window (or not, when the next pass is
  immediate), waiting for capacity, or handing out the groups of a dispatch.  Where a group task
  is: fetching, about to complete with its result installed in the guard, left to the guard's
  completion after the task was dropped, or completed with its permit not yet released.
\<close>

datatype SchedulerPhase = Sleeping bool | Waiting | Dispatching "(nat \<times> nat) list" nat

datatype TaskPhase = Fetching | Completing group_result | Dropped group_result | Finished

record GroupTask =
  gt_archive :: ArchiveKey
  gt_range :: "nat \<times> nat"
  gt_archive_len :: nat
  gt_phase :: TaskPhase

record Coordinator =
  tileset_states :: "ArchiveKey \<rightharpoonup> TilesetFetchState"
  chunk_cache :: ChunkCache
  backend_group_permits :: nat
  observing :: nat
  schedulers :: "ArchiveKey \<rightharpoonup> SchedulerPhase"
  group_tasks :: "GroupTask list"
  counters :: FetchCounters
  receivers :: "waiter \<rightharpoonup> ArchiveKey \<times> nat"
  closed_receivers :: "waiter set"
  answers :: "waiter \<rightharpoonup> chunk_result"
  next_waiter :: waiter

text \<open>
  What the coordinator runs with: its configuration, the declared length of each archive (the
  reader takes it from the archive's header, so it belongs to the generation), and the
  observations that can occur for a request.
\<close>

record ('st, 'p) ChunkEnv =
  ce_fetcher :: "('st, 'p) ChunkFetcher"
  ce_max_fetch_chunks :: nat
  ce_backend_fetch_max_inflight :: nat
  ce_archive_len :: "ArchiveKey \<Rightarrow> nat"
  ce_occurs :: "('st, 'p) StoreRequest \<Rightarrow> FetchObservation \<Rightarrow> bool"

definition coordinator_new :: "('st, 'p) ChunkEnv \<Rightarrow> Coordinator" where
  "coordinator_new env =
     \<lparr>tileset_states = Map.empty, chunk_cache = Map.empty,
      backend_group_permits = max (ce_backend_fetch_max_inflight env) 1, observing = 0,
      schedulers = Map.empty, group_tasks = [],
      counters = \<lparr>fetch_sequence = 0, received_bytes = 0\<rparr>,
      receivers = Map.empty, closed_receivers = {}, answers = Map.empty, next_waiter = 0\<rparr>"

definition remove_drainable_state :: "ArchiveKey \<Rightarrow> Coordinator \<Rightarrow> Coordinator" where
  "remove_drainable_state archive c =
     (case tileset_states c archive of
        Some st \<Rightarrow> if is_drainable st then c\<lparr>tileset_states := (tileset_states c)(archive := None)\<rparr> else c
      | None \<Rightarrow> c)"

fun send_all :: "(waiter \<times> chunk_result) list \<Rightarrow> (waiter \<rightharpoonup> chunk_result) \<Rightarrow> waiter \<rightharpoonup> chunk_result" where
  "send_all [] ans = ans"
| "send_all ((w, r) # sent) ans = send_all sent (ans(w \<mapsto> r))"

definition complete_dispatched_group ::
  "ArchiveKey \<Rightarrow> nat \<times> nat \<Rightarrow> group_result \<Rightarrow> Coordinator \<Rightarrow> Coordinator" where
  "complete_dispatched_group archive chunk_range result c =
     (case tileset_states c archive of
        None \<Rightarrow> c
      | Some st \<Rightarrow>
          (case complete_group (closed_receivers c) chunk_range result st of (sent, outcome, st) \<Rightarrow>
             remove_drainable_state archive
               (c\<lparr>tileset_states := (tileset_states c)(archive \<mapsto> st), answers := send_all sent (answers c)\<rparr>)))"

text \<open>\<open>fetch_chunks\<close> up to its first suspension, and what it returns once its waiters are answered.\<close>

fun register_receivers ::
  "ArchiveKey \<Rightarrow> EnqueuedChunk list \<Rightarrow> (waiter \<rightharpoonup> ArchiveKey \<times> nat) \<Rightarrow> waiter \<rightharpoonup> ArchiveKey \<times> nat" where
  "register_receivers archive [] r = r"
| "register_receivers archive (e # es) r =
     register_receivers archive es (r(ec_receiver e \<mapsto> (archive, ec_chunk_index e)))"

definition fetch_chunks_begin ::
  "ArchiveKey \<Rightarrow> nat list \<Rightarrow> nat \<Rightarrow> instant \<Rightarrow> Coordinator \<Rightarrow> (nat \<times> waiter) list \<times> Coordinator" where
  "fetch_chunks_begin archive required_chunks archive_len queued_at c =
     (let st = (case tileset_states c archive of Some st \<Rightarrow> st | None \<Rightarrow> fetch_state_default);
          was_idle = is_idle st;
          st = st\<lparr>fs_archive_len := max (fs_archive_len st) archive_len\<rparr>;
          (enqueued, st) = enqueue_chunks required_chunks queued_at (next_waiter c) st;
          c = c\<lparr>receivers := register_receivers archive enqueued (receivers c),
                next_waiter := next_waiter c + length required_chunks\<rparr>;
          c = (if \<not> scheduler_running st \<and> pending_chunks st \<noteq> {}
               then c\<lparr>tileset_states := (tileset_states c)(archive \<mapsto> st\<lparr>scheduler_running := True\<rparr>),
                      schedulers := (schedulers c)
                        (archive \<mapsto> Sleeping (was_idle \<and> IMMEDIATE_CHUNK_INDEX \<in> pending_chunks st))\<rparr>
               else c\<lparr>tileset_states := (tileset_states c)(archive \<mapsto> st)\<rparr>)
      in (map (\<lambda>e. (ec_chunk_index e, ec_receiver e)) enqueued, c))"

fun fetch_chunks_end :: "(nat \<times> waiter) list \<Rightarrow> (waiter \<rightharpoonup> chunk_result) \<Rightarrow> chunk_map \<Rightarrow> ChunkFetchError + chunk_map" where
  "fetch_chunks_end [] ans chunks = Inr chunks"
| "fetch_chunks_end ((i, w) # rs) ans chunks =
     (case ans w of
        None \<Rightarrow> Inl (Message (Text ''chunk fetch waiter dropped''))
      | Some (Inl e) \<Rightarrow> Inl e
      | Some (Inr b) \<Rightarrow> fetch_chunks_end rs ans (chunks(i \<mapsto> b)))"

text \<open>\<open>run_scheduler\<close>: one pass under the lock, the wake-up, and one round of handing out a group.\<close>

definition scheduler_pass :: "('st, 'p) ChunkEnv \<Rightarrow> ArchiveKey \<Rightarrow> instant \<Rightarrow> Coordinator \<Rightarrow> Coordinator" where
  "scheduler_pass env archive now c =
     (case tileset_states c archive of
        None \<Rightarrow> c\<lparr>schedulers := (schedulers c)(archive := None)\<rparr>
      | Some st \<Rightarrow>
          (case select_dispatch_groups (ce_max_fetch_chunks env) now
                  (prune_cancelled_waiters (closed_receivers c) st) of
             (decision, st) \<Rightarrow>
               let c = c\<lparr>tileset_states := (tileset_states c)(archive \<mapsto> st)\<rparr> in
               (case decision of
                  Idle \<Rightarrow> remove_drainable_state archive (c\<lparr>schedulers := (schedulers c)(archive := None)\<rparr>)
                | Throttled \<Rightarrow> c\<lparr>schedulers := (schedulers c)(archive \<mapsto> Waiting)\<rparr>
                | Dispatch groups archive_len _ _ \<Rightarrow>
                    c\<lparr>schedulers := (schedulers c)(archive \<mapsto> Dispatching groups archive_len)\<rparr>)))"

definition scheduler_wake :: "ArchiveKey \<Rightarrow> TilesetFetchState \<Rightarrow> Coordinator \<Rightarrow> Coordinator" where
  "scheduler_wake archive st c =
     c\<lparr>tileset_states := (tileset_states c)(archive \<mapsto> st\<lparr>capacity_available := False\<rparr>),
       schedulers := (schedulers c)(archive \<mapsto> Sleeping True)\<rparr>"

abbreviation group_limit_reached :: ChunkFetchError where
  "group_limit_reached \<equiv> Overloaded (Text ''backend fetch group limit reached'')"

definition try_reserve_backend_group :: "Coordinator \<Rightarrow> ChunkFetchError + Coordinator" where
  "try_reserve_backend_group c =
     (if backend_group_permits c > 0 then Inr (c\<lparr>backend_group_permits := backend_group_permits c - 1\<rparr>)
      else Inl group_limit_reached)"

definition scheduler_reserve ::
  "ArchiveKey \<Rightarrow> (nat \<times> nat) list \<Rightarrow> nat \<Rightarrow> Coordinator \<Rightarrow> Coordinator" where
  "scheduler_reserve archive groups archive_len c =
     (case groups of
        [] \<Rightarrow> c\<lparr>schedulers := (schedulers c)(archive \<mapsto> Sleeping False)\<rparr>
      | g # gs \<Rightarrow>
          let c = c\<lparr>schedulers := (schedulers c)(archive \<mapsto> Dispatching gs archive_len)\<rparr> in
          (case try_reserve_backend_group c of
             Inr c \<Rightarrow> c\<lparr>group_tasks := group_tasks c @ [\<lparr>gt_archive = archive, gt_range = g,
                         gt_archive_len = archive_len, gt_phase = Fetching\<rparr>]\<rparr>
           | Inl e \<Rightarrow> complete_dispatched_group archive g (Inl e) c))"

lemma scheduler_reserve_eqs:
  "scheduler_reserve k [] n c = c\<lparr>schedulers := (schedulers c)(k \<mapsto> Sleeping False)\<rparr>"
  "backend_group_permits c > 0 \<Longrightarrow> scheduler_reserve k (g # gs) n c =
     c\<lparr>schedulers := (schedulers c)(k \<mapsto> Dispatching gs n), backend_group_permits := backend_group_permits c - 1,
       group_tasks := group_tasks c @ [\<lparr>gt_archive = k, gt_range = g, gt_archive_len = n, gt_phase = Fetching\<rparr>]\<rparr>"
  "backend_group_permits c = 0 \<Longrightarrow> scheduler_reserve k (g # gs) n c =
     complete_dispatched_group k g (Inl group_limit_reached) (c\<lparr>schedulers := (schedulers c)(k \<mapsto> Dispatching gs n)\<rparr>)"
  by (simp_all add: scheduler_reserve_def try_reserve_backend_group_def Let_def)

text \<open>
  \<open>observe_bytes\<close>, the uncached read that learns the generation of an archive: the range and the
  permit it takes before its fetch, and its result with the permit returned.
\<close>

definition observe_bytes_begin :: "nat \<Rightarrow> nat \<Rightarrow> Coordinator \<Rightarrow> ChunkFetchError + (nat \<times> nat) \<times> Coordinator" where
  "observe_bytes_begin range_start len c =
     (case nat_checked_add range_start len of
        None \<Rightarrow> Inl (Message (Text ''observed range arithmetic overflow''))
      | Some range_end \<Rightarrow>
          try_bind (try_reserve_backend_group c) (\<lambda>c. Inr ((range_start, range_end), c\<lparr>observing := observing c + 1\<rparr>)))"

definition observe_release :: "Coordinator \<Rightarrow> Coordinator" where
  "observe_release c = c\<lparr>observing := observing c - 1, backend_group_permits := backend_group_permits c + 1\<rparr>"

definition observe_bytes_end ::
  "('st, 'p) ChunkEnv \<Rightarrow> string \<Rightarrow> nat \<times> nat \<Rightarrow> FetchObservation \<Rightarrow> Coordinator
    \<Rightarrow> (ChunkFetchError + ObservedBytes) \<times> Coordinator" where
  "observe_bytes_end env tileset_id byte_range ob c =
     (case fetch_exact_range (ce_fetcher env) tileset_id (fst byte_range) (snd byte_range) ob (counters c) of
        (result, n) \<Rightarrow> (result, observe_release (c\<lparr>counters := n\<rparr>)))"

text \<open>\<open>run_fetch_chunk_group\<close> and the completion guard.\<close>

definition group_request :: "('st, 'p) ChunkEnv \<Rightarrow> GroupTask \<Rightarrow> ('st, 'p) StoreRequest option" where
  "group_request env t =
     (case group_byte_range (cf_chunk_size (ce_fetcher env)) (gt_range t) (gt_archive_len t) of
        Inl _ \<Rightarrow> None
      | Inr (range_start, range_end) \<Rightarrow>
          store_request (ce_fetcher env) (ak_tileset_id (gt_archive t)) range_start range_end
            (Some (ak_generation (gt_archive t))))"

definition replace_task :: "GroupTask \<Rightarrow> TaskPhase \<Rightarrow> Coordinator \<Rightarrow> Coordinator" where
  "replace_task t phase c =
     c\<lparr>group_tasks := remove1 t (group_tasks c) @ [t\<lparr>gt_phase := phase\<rparr>]\<rparr>"

definition group_fetched :: "('st, 'p) ChunkEnv \<Rightarrow> GroupTask \<Rightarrow> FetchObservation \<Rightarrow> Coordinator \<Rightarrow> Coordinator" where
  "group_fetched env t ob c =
     (case fetch_chunk_group (ce_fetcher env) (gt_archive t) (gt_range t) (gt_archive_len t) ob (counters c) of
        (Inl e, n) \<Rightarrow> replace_task t (Completing (Inl e)) (c\<lparr>counters := n\<rparr>)
      | (Inr bytes, n) \<Rightarrow>
          (case cache_chunk_group (cf_chunk_size (ce_fetcher env)) (gt_archive t) (gt_range t)
                  (gt_archive_len t) bytes (chunk_cache c) of
             (Inl e, cache) \<Rightarrow>
               replace_task t (Completing (Inl (Message (RangeText e)))) (c\<lparr>counters := n, chunk_cache := cache\<rparr>)
           | (Inr chunks, cache) \<Rightarrow>
               replace_task t (Completing (Inr chunks)) (c\<lparr>counters := n, chunk_cache := cache\<rparr>)))"

definition group_complete :: "GroupTask \<Rightarrow> group_result \<Rightarrow> Coordinator \<Rightarrow> Coordinator" where
  "group_complete t result c =
     complete_dispatched_group (gt_archive t) (gt_range t) result (replace_task t Finished c)"

definition group_release :: "GroupTask \<Rightarrow> Coordinator \<Rightarrow> Coordinator" where
  "group_release t c =
     c\<lparr>group_tasks := remove1 t (group_tasks c), backend_group_permits := backend_group_permits c + 1\<rparr>"

abbreviation task_cancelled :: ChunkFetchError where
  "task_cancelled \<equiv> Message (Text ''chunk fetch task cancelled or panicked'')"

definition group_drop :: "GroupTask \<Rightarrow> group_result \<Rightarrow> Coordinator \<Rightarrow> Coordinator" where
  "group_drop t result c =
     (let c = replace_task t (Dropped result) c
      in c\<lparr>backend_group_permits := backend_group_permits c + 1\<rparr>)"

definition group_complete_dropped :: "GroupTask \<Rightarrow> group_result \<Rightarrow> Coordinator \<Rightarrow> Coordinator" where
  "group_complete_dropped t result c =
     complete_dispatched_group (gt_archive t) (gt_range t) result
       (c\<lparr>group_tasks := remove1 t (group_tasks c)\<rparr>)"

section \<open>Steps\<close>

text \<open>
  What callers and the cache do: request chunks of the archive (\<open>read_bytes\<close> asks for chunks that
  begin before the declared end of the archive), drop a receiver, evict an entry, observe an archive
  or drop the observation.
\<close>

inductive client_step :: "('st, 'p) ChunkEnv \<Rightarrow> Coordinator \<Rightarrow> Coordinator \<Rightarrow> bool" for env where
  request: "list_all (\<lambda>i. i * cf_chunk_size (ce_fetcher env) < ce_archive_len env archive) required
    \<Longrightarrow> client_step env c (snd (fetch_chunks_begin archive required (ce_archive_len env archive) now c))"
| close: "client_step env c (c\<lparr>closed_receivers := insert w (closed_receivers c)\<rparr>)"
| evict: "client_step env c (c\<lparr>chunk_cache := (chunk_cache c)(key := None)\<rparr>)"
| observe: "observe_bytes_begin range_start len c = Inr (byte_range, c') \<Longrightarrow> client_step env c c'"
| observed: "0 < observing c \<Longrightarrow> client_step env c (snd (observe_bytes_end env tileset_id byte_range ob c))"
| observe_drop: "0 < observing c \<Longrightarrow> client_step env c (observe_release c)"

text \<open>What the coordinator's own tasks do.\<close>

inductive internal_step :: "('st, 'p) ChunkEnv \<Rightarrow> Coordinator \<Rightarrow> Coordinator \<Rightarrow> bool" for env where
  pass: "schedulers c archive = Some (Sleeping flush) \<Longrightarrow> internal_step env c (scheduler_pass env archive now c)"
| wake: "schedulers c archive = Some Waiting \<Longrightarrow> tileset_states c archive = Some st \<Longrightarrow> capacity_available st
    \<Longrightarrow> internal_step env c (scheduler_wake archive st c)"
| reserve: "schedulers c archive = Some (Dispatching groups archive_len)
    \<Longrightarrow> internal_step env c (scheduler_reserve archive groups archive_len c)"
| fetched: "t \<in> set (group_tasks c) \<Longrightarrow> gt_phase t = Fetching
    \<Longrightarrow> (case group_request env t of Some req \<Rightarrow> ce_occurs env req ob | None \<Rightarrow> True)
    \<Longrightarrow> internal_step env c (group_fetched env t ob c)"
| complete: "t \<in> set (group_tasks c) \<Longrightarrow> gt_phase t = Completing result
    \<Longrightarrow> internal_step env c (group_complete t result c)"
| release: "t \<in> set (group_tasks c) \<Longrightarrow> gt_phase t = Finished \<Longrightarrow> internal_step env c (group_release t c)"
| drop_fetching: "t \<in> set (group_tasks c) \<Longrightarrow> gt_phase t = Fetching
    \<Longrightarrow> internal_step env c (group_drop t (Inl task_cancelled) c)"
| drop_completing: "t \<in> set (group_tasks c) \<Longrightarrow> gt_phase t = Completing result
    \<Longrightarrow> internal_step env c (group_drop t result c)"
| complete_dropped: "t \<in> set (group_tasks c) \<Longrightarrow> gt_phase t = Dropped result
    \<Longrightarrow> internal_step env c (group_complete_dropped t result c)"

definition coordinator_step :: "('st, 'p) ChunkEnv \<Rightarrow> Coordinator \<Rightarrow> Coordinator \<Rightarrow> bool" where
  "coordinator_step env c c' \<longleftrightarrow> client_step env c c' \<or> internal_step env c c'"

section \<open>The ranges of a dispatch\<close>

definition covered :: "(nat \<times> nat) set \<Rightarrow> nat set" where
  "covered rs = (\<Union>(s, e)\<in>rs. {s..<e})"

lemma covered_iff: "i \<in> covered rs \<longleftrightarrow> (\<exists>s e. (s, e) \<in> rs \<and> s \<le> i \<and> i < e)"
  by (simp add: covered_def Bex_def split_paired_Ex)

lemma covered_simps [simp]:
  "covered {} = {}" "covered (insert (s, e) rs) = {s..<e} \<union> covered rs" "covered (rs \<union> rs') = covered rs \<union> covered rs'"
  by (auto simp: covered_def)

lemma wrapping_add_small [simp]: "a + b < 2 ^ 64 \<Longrightarrow> wrapping_add a b = a + b"
  by (simp add: wrapping_add_def)

lemma wrapping_sub_small:
  assumes "b \<le> a" and "a < 2 ^ 64"
  shows "wrapping_sub a b = a - b"
proof -
  have "a + (2 ^ 64 - b) = (a - b) + 2 ^ 64" using assms by simp
  then show ?thesis using assms by (simp only: wrapping_sub_def mod_add_self2) simp
qed

text \<open>
  The ranges merged from an ascending list of chunk indices: they are ascending and disjoint,
  none is longer than the limit, each begins and ends at a chunk of the list, and together they
  cover the list.
\<close>

definition ranges_for :: "nat \<Rightarrow> nat set \<Rightarrow> (nat \<times> nat) list \<Rightarrow> bool" where
  "ranges_for limit chunks rs \<longleftrightarrow>
     sorted_wrt (\<lambda>(s, e) (s', e'). e \<le> s') rs
     \<and> (\<forall>(s, e)\<in>set rs. s < e \<and> e - s \<le> limit \<and> s \<in> chunks \<and> e - 1 \<in> chunks)
     \<and> chunks \<subseteq> covered (set rs)"

definition merged :: "nat \<Rightarrow> nat \<Rightarrow> nat \<Rightarrow> nat set \<Rightarrow> (nat \<times> nat) list \<Rightarrow> bool" where
  "merged limit s e chunks rs \<longleftrightarrow>
     sorted_wrt (\<lambda>(s, e) (s', e'). e \<le> s') rs
     \<and> (\<forall>s' e'. (s', e') \<in> set rs \<longrightarrow> s \<le> s' \<and> s' < e' \<and> e' - s' \<le> limit
           \<and> s' \<in> insert s chunks \<and> e' - 1 \<in> insert (e - 1) chunks)
     \<and> insert s chunks \<subseteq> covered (set rs)
     \<and> (\<exists>e'. e \<le> e' \<and> (s, e') \<in> set rs)"

lemma merged_join:
  assumes "merged limit s (Suc i) chunks rs" and "s < e" and "e \<le> i"
  shows "merged limit s e (insert i chunks) rs"
proof -
  obtain e' where e': "Suc i \<le> e'" "(s, e') \<in> set rs" using assms(1) by (auto simp: merged_def)
  then have "i \<in> covered (set rs)" using assms(2,3) unfolding covered_iff by (intro exI [of _ s] exI [of _ e']) simp
  moreover have "\<exists>e'. e \<le> e' \<and> (s, e') \<in> set rs" using e' assms(3) by (intro exI [of _ e']) simp
  ultimately show ?thesis using assms(1) unfolding merged_def by (simp, blast)
qed

lemma merged_split:
  assumes "merged limit i (Suc i) chunks rs" and "s < e" and "e \<le> i" and "e - s \<le> limit"
  shows "merged limit s e (insert i chunks) ((s, e) # rs)"
proof -
  have "i \<le> s'" if "(s', e') \<in> set rs" for s' e' using assms(1) that by (simp add: merged_def)
  then have "\<forall>(s', e')\<in>set rs. e \<le> s'" using assms(3) by fastforce
  moreover have "covered (set rs) \<subseteq> covered (set ((s, e) # rs))" "s \<in> covered (set ((s, e) # rs))"
    using assms(2) by (auto simp: covered_def)
  ultimately show ?thesis using assms by (auto simp: merged_def)
qed

lemma merge_ranges_merged:
  assumes "sorted_wrt (<) is" and "\<forall>i\<in>set is. e \<le> i \<and> i < 2 ^ 64 - 1" and "s < e" and "e - s \<le> limit"
    and "1 \<le> limit"
  shows "merged limit s e (set is) (merge_ranges limit gap s e is)"
  using assms
proof (induction "is" arbitrary: s e)
  case Nil
  have "s \<in> covered {(s, e)}" using Nil by (simp add: covered_def)
  with Nil show ?case by (simp add: merged_def)
next
  case (Cons i "is")
  have i: "e \<le> i" "i < 2 ^ 64 - 1" and rest: "sorted_wrt (<) is" "\<forall>j\<in>set is. Suc i \<le> j \<and> j < 2 ^ 64 - 1"
    using Cons.prems(1,2) by (auto simp: Suc_le_eq)
  have next_i: "wrapping_add i 1 = Suc i" using i by simp
  show ?case
  proof (cases "i \<le> wrapping_add e gap \<and> wrapping_sub (wrapping_add i 1) s \<le> limit")
    case True
    have "wrapping_sub (Suc i) s = Suc i - s" using i Cons.prems(3) by (intro wrapping_sub_small) auto
    then have "Suc i - s \<le> limit" using True unfolding next_i by simp
    then have "merged limit s (Suc i) (set is) (merge_ranges limit gap s (Suc i) is)"
      using rest i Cons.prems(3,5) by (intro Cons.IH) simp_all
    then show ?thesis
      using True merged_join [OF _ Cons.prems(3) i(1)]
      by (simp only: merge_ranges.simps if_True next_i list.set simp_thms)
  next
    case False
    have "merged limit i (Suc i) (set is) (merge_ranges limit gap i (Suc i) is)"
      using rest i Cons.prems(5) by (intro Cons.IH) simp_all
    then show ?thesis
      using False merged_split [OF _ Cons.prems(3) i(1) Cons.prems(4)]
      by (simp only: merge_ranges.simps if_False next_i list.set)
  qed
qed

lemma contiguous_chunk_ranges_for:
  assumes "finite chunks" and "\<forall>i\<in>chunks. i < 2 ^ 64 - 1"
  shows "ranges_for (max limit 1) chunks (contiguous_chunk_ranges (sorted_list_of_set chunks) limit gap)"
proof (cases "sorted_list_of_set chunks")
  case Nil
  then have "chunks = {}" using assms(1) by simp
  then show ?thesis by (simp add: ranges_for_def contiguous_chunk_ranges_def)
next
  case (Cons i "is")
  have set: "chunks = insert i (set is)" using assms(1) by (metis Cons list.simps(15) set_sorted_list_of_set)
  have "sorted_wrt (<) (i # is)" using strict_sorted_list_of_set [of chunks] by (simp add: Cons)
  then have rest: "sorted_wrt (<) is" "\<forall>j\<in>set is. Suc i \<le> j \<and> j < 2 ^ 64 - 1"
    using assms(2) by (auto simp: set Suc_le_eq)
  have "i < 2 ^ 64 - 1" using assms(2) by (simp add: set)
  then have first: "wrapping_add i 1 = Suc i" by simp
  have "merged (max limit 1) i (Suc i) (set is) (merge_ranges (max limit 1) gap i (Suc i) is)"
    using rest by (intro merge_ranges_merged) simp_all
  then have "ranges_for (max limit 1) (insert i (set is)) (merge_ranges (max limit 1) gap i (Suc i) is)"
    by (auto simp: merged_def ranges_for_def)
  then show ?thesis unfolding Cons contiguous_chunk_ranges_def by (simp only: list.case first set)
qed

lemma contiguous_chunk_ranges_empty [simp]: "contiguous_chunk_ranges is limit gap = [] \<longleftrightarrow> is = []"
proof -
  have "merge_ranges limit gap s e is \<noteq> []" for s e limit "is" by (induction "is" arbitrary: s e) auto
  then show ?thesis by (cases "is") (simp_all add: contiguous_chunk_ranges_def)
qed

lemma ranges_for_take:
  "ranges_for limit chunks rs \<Longrightarrow> sorted_wrt (\<lambda>(s, e) (s', e'). e \<le> s') (take n rs)
    \<and> (\<forall>(s, e)\<in>set (take n rs). s < e \<and> e - s \<le> limit \<and> s \<in> chunks \<and> e - 1 \<in> chunks)"
  by (auto simp: ranges_for_def intro: sorted_wrt_take dest: in_set_takeD)

text \<open>Each range takes at least its first chunk out of the pending set.\<close>

lemma ranges_take_chunks:
  assumes "finite chunks" and "sorted_wrt (\<lambda>(s, e) (s', e'). e \<le> s') rs"
    and "\<forall>(s, e)\<in>set rs. s < e \<and> s \<in> chunks"
  shows "card (chunks - covered (set rs)) + length rs \<le> card chunks"
  using assms
proof (induction rs arbitrary: chunks)
  case (Cons r rs)
  obtain s e where r: "r = (s, e)" by (cases r)
  have "card ((chunks - {s}) - covered (set rs)) + length rs \<le> card (chunks - {s})"
  proof (rule Cons.IH)
    show "\<forall>(s', e')\<in>set rs. s' < e' \<and> s' \<in> chunks - {s}" using Cons.prems by (fastforce simp: r)
  qed (use Cons.prems in auto)
  moreover have "card (chunks - covered (set (r # rs))) \<le> card ((chunks - {s}) - covered (set rs))"
    using Cons.prems by (intro card_mono) (auto simp: r)
  moreover have "card (chunks - {s}) = card chunks - 1" "card chunks > 0"
    using Cons.prems by (auto simp: r card_gt_0_iff)
  ultimately show ?case by simp
qed (simp add: covered_def)

end
