(* ===== verification/Chunk_Safety.thy ===== *)
theory Chunk_Safety
  imports Chunk_Coordinator Transition "HOL-Library.Multiset"
begin

text \<open>
  The bookkeeping of the chunk coordinator: in every reachable state the group tasks and the
  groups still to be handed out account for the in-flight chunks and the fetch count of every
  archive, pending work always has a scheduler, a scheduler that waits for capacity will be
  notified, the admission permits are all accounted for, and every waiter is answered, dropped by
  its caller, or registered for a chunk that is pending or in flight.
\<close>

section \<open>One archive\<close>

definition registered :: "TilesetFetchState \<Rightarrow> waiter \<Rightarrow> nat \<Rightarrow> bool" where
  "registered st w i \<longleftrightarrow> (\<exists>ws. waiters st i = Some ws \<and> w \<in> set ws)"

text \<open>
  \<open>rs\<close> are the ranges of the groups dispatched and not completed, \<open>phase\<close> the scheduler of
  the archive, and \<open>ok w i\<close> says that \<open>w\<close> was issued for chunk \<open>i\<close> and not answered.
\<close>

definition archive_core ::
  "(waiter \<Rightarrow> nat \<Rightarrow> bool) \<Rightarrow> (nat \<times> nat) multiset \<Rightarrow> SchedulerPhase option \<Rightarrow> TilesetFetchState \<Rightarrow> bool" where
  "archive_core ok rs phase st \<longleftrightarrow>
     finite (pending_chunks st) \<and> (\<forall>i\<in>pending_chunks st. i < 2 ^ 64 - 1)
     \<and> inflight_chunks st \<subseteq> covered (set_mset rs)
     \<and> dom (waiters st) \<subseteq> pending_chunks st \<union> inflight_chunks st
     \<and> inflight_fetch_count st = size rs \<and> size rs \<le> MAX_CONCURRENT_FETCHES_PER_TILESET
     \<and> (scheduler_running st \<longleftrightarrow> phase \<noteq> None)
     \<and> (phase = Some Waiting \<and> \<not> capacity_available st \<longrightarrow>
          MAX_CONCURRENT_FETCHES_PER_TILESET \<le> size rs \<and> pending_chunks st \<noteq> {})
     \<and> (\<forall>i ws. waiters st i = Some ws \<longrightarrow> distinct ws)
     \<and> (\<forall>w i. registered st w i \<longrightarrow> ok w i)"

definition archive_ok ::
  "(waiter \<Rightarrow> nat \<Rightarrow> bool) \<Rightarrow> (nat \<times> nat) multiset \<Rightarrow> SchedulerPhase option \<Rightarrow> TilesetFetchState \<Rightarrow> bool" where
  "archive_ok ok rs phase st \<longleftrightarrow>
     archive_core ok rs phase st \<and> (pending_chunks st \<noteq> {} \<longrightarrow> scheduler_running st)"

lemma archive_core_dom:
  "archive_core ok rs phase st \<Longrightarrow> waiters st i = Some ws \<Longrightarrow> i \<in> pending_chunks st \<or> i \<in> inflight_chunks st"
  by (fastforce simp: archive_core_def)

lemma archive_core_mono:
  "archive_core ok rs phase st \<Longrightarrow> (\<And>w i. ok w i \<Longrightarrow> registered st w i \<Longrightarrow> ok' w i) \<Longrightarrow> archive_core ok' rs phase st"
  by (auto simp: archive_core_def)

lemma archive_ok_mono:
  "archive_ok ok rs phase st \<Longrightarrow> (\<And>w i. ok w i \<Longrightarrow> registered st w i \<Longrightarrow> ok' w i) \<Longrightarrow> archive_ok ok' rs phase st"
  using archive_core_mono by (auto simp: archive_ok_def)

lemma archive_core_default: "archive_core ok {#} None fetch_state_default"
  by (simp add: archive_core_def fetch_state_default_def registered_def)

text \<open>Enqueuing.\<close>

lemma enqueue_chunk_fields:
  assumes "enqueue_chunk i queued_at w st = (outcome, st')"
  shows "scheduler_running st' = scheduler_running st" "inflight_chunks st' = inflight_chunks st"
    "inflight_fetch_count st' = inflight_fetch_count st" "capacity_available st' = capacity_available st"
    "fs_archive_len st' = fs_archive_len st"
    "pending_chunks st' = (if i \<in> inflight_chunks st then pending_chunks st else insert i (pending_chunks st))"
    "waiters st' = (waiters st)(i \<mapsto> (case waiters st i of Some ws \<Rightarrow> ws @ [w] | None \<Rightarrow> [w]))"
  using assms by (auto simp: enqueue_chunk_def push_waiter_def Let_def split: if_splits)

lemma enqueue_chunk_registered:
  "enqueue_chunk i queued_at w st = (outcome, st') \<Longrightarrow>
    registered st' w' j \<longleftrightarrow> registered st w' j \<or> (w' = w \<and> j = i)"
  by (auto simp: registered_def enqueue_chunk_fields split: option.splits)

lemma enqueue_chunk_core:
  assumes "enqueue_chunk i queued_at w st = (outcome, st')" and "archive_core ok rs phase st"
    and "i < 2 ^ 64 - 1" and "\<And>j. \<not> registered st w j"
  shows "archive_core (\<lambda>w' j. ok w' j \<or> (w' = w \<and> j = i)) rs phase st'"
proof -
  note fields = enqueue_chunk_fields [OF assms(1)]
  have "distinct ws" if "waiters st' j = Some ws" for j ws
    using that assms(2,4) by (auto simp: fields archive_core_def registered_def split: option.splits if_splits)
  moreover have "dom (waiters st') \<subseteq> pending_chunks st' \<union> inflight_chunks st'"
    using assms(2) by (auto simp: fields archive_core_def)
  ultimately show ?thesis
    using assms(2,3) by (auto simp: archive_core_def fields enqueue_chunk_registered [OF assms(1)])
qed

lemma enqueue_chunks_ConsE:
  assumes "enqueue_chunks (i # is) queued_at n st = (es, st')"
  obtains outcome st1 es1 where "enqueue_chunk i queued_at n st = (outcome, st1)"
    and "enqueue_chunks is queued_at (Suc n) st1 = (es1, st')"
    and "es = \<lparr>ec_chunk_index = i, ec_receiver = n, ec_outcome = outcome\<rparr> # es1"
  using assms by (auto simp: Let_def split: prod.splits)

lemma enqueue_chunks_fields:
  "enqueue_chunks is queued_at n st = (es, st') \<Longrightarrow>
     scheduler_running st' = scheduler_running st \<and> inflight_chunks st' = inflight_chunks st
      \<and> inflight_fetch_count st' = inflight_fetch_count st \<and> capacity_available st' = capacity_available st
      \<and> fs_archive_len st' = fs_archive_len st"
  by (induction "is" arbitrary: n st es) (fastforce elim: enqueue_chunks_ConsE simp: enqueue_chunk_fields)+

lemma enqueue_chunks_receivers:
  "enqueue_chunks is queued_at n st = (es, st') \<Longrightarrow>
     map ec_chunk_index es = is \<and> map ec_receiver es = [n..<n + length is]"
proof (induction "is" arbitrary: n st es)
  case (Cons i "is")
  then show ?case by (elim enqueue_chunks_ConsE) (fastforce simp: upt_rec)
qed simp

lemma enqueue_chunks_registered:
  "enqueue_chunks is queued_at n st = (es, st') \<Longrightarrow>
     registered st' w j \<longleftrightarrow> registered st w j \<or> (\<exists>m<length is. w = n + m \<and> j = is ! m)"
proof (induction "is" arbitrary: n st es)
  case (Cons i "is")
  from Cons.prems obtain outcome st1 es1 where one: "enqueue_chunk i queued_at n st = (outcome, st1)"
    and rest: "enqueue_chunks is queued_at (Suc n) st1 = (es1, st')" by (rule enqueue_chunks_ConsE)
  have "(\<exists>m<length (i # is). w = n + m \<and> j = (i # is) ! m) \<longleftrightarrow>
      w = n \<and> j = i \<or> (\<exists>m<length is. w = Suc n + m \<and> j = is ! m)"
    by (auto simp: less_Suc_eq_0_disj)
  then show ?case using Cons.IH [OF rest] enqueue_chunk_registered [OF one] by blast
qed simp

lemma enqueue_chunks_core:
  assumes "enqueue_chunks is queued_at n st = (es, st')" and "archive_core ok rs phase st"
    and "\<forall>i\<in>set is. i < 2 ^ 64 - 1" and "\<And>w j. n \<le> w \<Longrightarrow> \<not> registered st w j"
  shows "archive_core (\<lambda>w j. ok w j \<or> (\<exists>m<length is. w = n + m \<and> j = is ! m)) rs phase st'"
  using assms
proof (induction "is" arbitrary: n st es ok)
  case Nil
  then show ?case by simp
next
  case (Cons i "is")
  from Cons.prems(1) obtain outcome st1 es1 where one: "enqueue_chunk i queued_at n st = (outcome, st1)"
    and rest: "enqueue_chunks is queued_at (Suc n) st1 = (es1, st')" by (rule enqueue_chunks_ConsE)
  have "archive_core (\<lambda>w j. ok w j \<or> (w = n \<and> j = i)) rs phase st1"
    using Cons.prems by (intro enqueue_chunk_core [OF one]) auto
  moreover have "\<not> registered st1 w j" if "Suc n \<le> w" for w j
    using that Cons.prems(4) by (simp add: enqueue_chunk_registered [OF one])
  ultimately have "archive_core (\<lambda>w j. (ok w j \<or> (w = n \<and> j = i)) \<or> (\<exists>m<length is. w = Suc n + m \<and> j = is ! m))
      rs phase st'"
    using Cons.prems(3) by (intro Cons.IH [OF rest]) auto
  then show ?case by (rule archive_core_mono) (auto simp: less_Suc_eq_0_disj)
qed

text \<open>Pruning.\<close>

lemma prune_registered:
  "registered (prune_cancelled_waiters shut st) w i \<longleftrightarrow> registered st w i \<and> w \<notin> shut"
  by (auto simp: prune_cancelled_waiters_def registered_def live_waiters_def Let_def filter_empty_conv
      split: option.splits if_splits)

lemma prune_fields:
  "scheduler_running (prune_cancelled_waiters shut st) = scheduler_running st"
  "inflight_chunks (prune_cancelled_waiters shut st) = inflight_chunks st"
  "inflight_fetch_count (prune_cancelled_waiters shut st) = inflight_fetch_count st"
  "capacity_available (prune_cancelled_waiters shut st) = capacity_available st"
  "fs_archive_len (prune_cancelled_waiters shut st) = fs_archive_len st"
  "waiters (prune_cancelled_waiters shut st) = live_waiters shut (waiters st)"
  "pending_chunks (prune_cancelled_waiters shut st) = {i \<in> pending_chunks st. live_waiters shut (waiters st) i \<noteq> None}"
  by (simp_all add: prune_cancelled_waiters_def Let_def)

lemma prune_core:
  assumes "archive_core ok rs phase st" and "phase \<noteq> Some Waiting"
  shows "archive_core ok rs phase (prune_cancelled_waiters shut st)"
proof -
  have "i \<in> dom (waiters st)" if "live_waiters shut (waiters st) i = Some ws" for i ws
    using that by (auto simp: live_waiters_def Let_def split: option.splits if_splits)
  then have "i \<in> pending_chunks st \<union> inflight_chunks st" if "live_waiters shut (waiters st) i = Some ws" for i ws
    using that assms(1) unfolding archive_core_def by blast
  moreover have "distinct ws" if "live_waiters shut (waiters st) i = Some ws" for i ws
    using that assms(1) by (auto simp: live_waiters_def archive_core_def Let_def split: option.splits if_splits)
  ultimately show ?thesis
    using assms by (auto simp: archive_core_def prune_fields prune_registered)
qed

text \<open>Dispatching.\<close>

lemma move_to_inflight_fields:
  "pending_chunks (move_to_inflight gs st) = pending_chunks st - covered (set gs)"
  "inflight_chunks (move_to_inflight gs st) = inflight_chunks st \<union> covered (set gs)"
  "inflight_fetch_count (move_to_inflight gs st) = inflight_fetch_count st + length gs"
  "waiters (move_to_inflight gs st) = waiters st"
  "scheduler_running (move_to_inflight gs st) = scheduler_running st"
  "capacity_available (move_to_inflight gs st) = capacity_available st"
  "fs_archive_len (move_to_inflight gs st) = fs_archive_len st"
  by (simp_all add: move_to_inflight_def covered_def Let_def)

text \<open>The three outcomes of a scheduler pass.\<close>

lemma select_dispatch_groups_cases:
  assumes "finite (pending_chunks st)"
  obtains (idle) "pending_chunks st = {}"
      "select_dispatch_groups limit now st = (Idle, st\<lparr>scheduler_running := False\<rparr>)"
  | (throttled) "pending_chunks st \<noteq> {}" "inflight_fetch_count st \<ge> MAX_CONCURRENT_FETCHES_PER_TILESET"
      "select_dispatch_groups limit now st = (Throttled, st)"
  | (dispatch) gs d where "gs = take (MAX_CONCURRENT_FETCHES_PER_TILESET - inflight_fetch_count st)
        (contiguous_chunk_ranges (sorted_list_of_set (pending_chunks st)) limit MAX_CHUNK_GAP)" "gs \<noteq> []"
      "inflight_fetch_count st < MAX_CONCURRENT_FETCHES_PER_TILESET"
      "select_dispatch_groups limit now st
        = (Dispatch gs (fs_archive_len st) d (card (pending_chunks st)), move_to_inflight gs st)"
proof (cases "pending_chunks st = {} \<or> inflight_fetch_count st \<ge> MAX_CONCURRENT_FETCHES_PER_TILESET")
  case True
  then show ?thesis using idle throttled unfolding select_dispatch_groups_def by (cases "pending_chunks st = {}") simp_all
next
  case False
  define gs where "gs = take (MAX_CONCURRENT_FETCHES_PER_TILESET - inflight_fetch_count st)
    (contiguous_chunk_ranges (sorted_list_of_set (pending_chunks st)) limit MAX_CHUNK_GAP)"
  have "gs \<noteq> []" using False assms by (simp add: gs_def)
  moreover have "inflight_fetch_count st < MAX_CONCURRENT_FETCHES_PER_TILESET" using False by simp
  moreover have "select_dispatch_groups limit now st = (Dispatch gs (fs_archive_len st)
      (case first_pending_at st of None \<Rightarrow> 0 | Some t \<Rightarrow> saturating_duration_since now t)
      (card (pending_chunks st)), move_to_inflight gs st)"
    using False \<open>gs \<noteq> []\<close> unfolding select_dispatch_groups_def Let_def gs_def [symmetric] by simp
  ultimately show ?thesis by (rule dispatch [OF gs_def])
qed

lemma dispatched_groups:
  assumes "archive_core ok rs phase st"
    and "gs = take (MAX_CONCURRENT_FETCHES_PER_TILESET - inflight_fetch_count st)
        (contiguous_chunk_ranges (sorted_list_of_set (pending_chunks st)) limit MAX_CHUNK_GAP)"
  shows "length gs + size rs \<le> MAX_CONCURRENT_FETCHES_PER_TILESET"
    and "card (pending_chunks st - covered (set gs)) + length gs \<le> card (pending_chunks st)"
    and "\<forall>(s, e)\<in>set gs. s < e \<and> e - s \<le> max limit 1 \<and> s \<in> pending_chunks st \<and> e - 1 \<in> pending_chunks st"
proof -
  have fin: "finite (pending_chunks st)" and small: "\<forall>i\<in>pending_chunks st. i < 2 ^ 64 - 1"
    and size: "inflight_fetch_count st = size rs" "size rs \<le> MAX_CONCURRENT_FETCHES_PER_TILESET"
    using assms(1) by (auto simp: archive_core_def)
  show "length gs + size rs \<le> MAX_CONCURRENT_FETCHES_PER_TILESET"
    using size unfolding assms(2) length_take by linarith
  note ranges = ranges_for_take [OF contiguous_chunk_ranges_for [OF fin small],
      of "MAX_CONCURRENT_FETCHES_PER_TILESET - inflight_fetch_count st" limit MAX_CHUNK_GAP, folded assms(2)]
  then show "\<forall>(s, e)\<in>set gs. s < e \<and> e - s \<le> max limit 1 \<and> s \<in> pending_chunks st \<and> e - 1 \<in> pending_chunks st"
    by (rule conjunct2)
  show "card (pending_chunks st - covered (set gs)) + length gs \<le> card (pending_chunks st)"
    using ranges by (intro ranges_take_chunks [OF fin]) auto
qed

lemma move_to_inflight_core:
  assumes "archive_core ok rs phase st" and "phase \<noteq> None"
    and "length gs + size rs \<le> MAX_CONCURRENT_FETCHES_PER_TILESET"
  shows "archive_core ok (rs + mset gs) (Some (Dispatching gs len)) (move_to_inflight gs st)"
proof -
  have "registered (move_to_inflight gs st) w i \<longleftrightarrow> registered st w i" for w i
    by (simp add: registered_def move_to_inflight_fields)
  then show ?thesis
    using assms by (auto simp: archive_core_def move_to_inflight_fields)
qed

text \<open>Completing.\<close>

lemma release_chunks_ConsE:
  assumes "release_chunks shut result (i # is) st out = (sent, out', st')"
  obtains ws sent1 out1 st1 where "ws = (case waiters st i of None \<Rightarrow> [] | Some ws \<Rightarrow> ws)"
    and "st1 = st\<lparr>inflight_chunks := inflight_chunks st - {i}, waiters := (waiters st)(i := None)\<rparr>"
    and "release_chunks shut result is st1 out1 = (sent1, out', st')"
    and "sent = map (\<lambda>w. (w, chunk_result_of result i)) (filter (\<lambda>w. w \<notin> shut) ws) @ sent1"
proof (cases "waiters st i")
  case None
  then have "st\<lparr>inflight_chunks := inflight_chunks st - {i}\<rparr>
      = st\<lparr>inflight_chunks := inflight_chunks st - {i}, waiters := (waiters st)(i := None)\<rparr>"
    by (simp add: fun_upd_idem)
  with assms None show ?thesis by (intro that [of "[]" _ out sent]) (simp_all add: Let_def)
next
  case (Some ws)
  with assms show ?thesis
    by (auto simp: Let_def split: prod.splits intro: that [of ws])
qed

lemma release_chunks_fields:
  "release_chunks shut result is st out = (sent, out', st') \<Longrightarrow>
     inflight_chunks st' = inflight_chunks st - set is \<and> pending_chunks st' = pending_chunks st
      \<and> scheduler_running st' = scheduler_running st \<and> inflight_fetch_count st' = inflight_fetch_count st
      \<and> capacity_available st' = capacity_available st \<and> fs_archive_len st' = fs_archive_len st
      \<and> waiters st' = (\<lambda>i. if i \<in> set is then None else waiters st i)"
proof (induction "is" arbitrary: st out sent)
  case (Cons i "is")
  from Cons.prems show ?case
    by (elim release_chunks_ConsE) (drule Cons.IH, auto simp: fun_eq_iff)
qed auto

lemma release_chunks_sent:
  "release_chunks shut result is st out = (sent, out', st') \<Longrightarrow> distinct is \<Longrightarrow>
     (w, r) \<in> set sent \<longleftrightarrow> (\<exists>i\<in>set is. registered st w i \<and> w \<notin> shut \<and> r = chunk_result_of result i)"
proof (induction "is" arbitrary: st out sent)
  case (Cons i "is")
  from Cons.prems(1) obtain ws sent1 out1 st1 where ws: "ws = (case waiters st i of None \<Rightarrow> [] | Some ws \<Rightarrow> ws)"
    and st1: "st1 = st\<lparr>inflight_chunks := inflight_chunks st - {i}, waiters := (waiters st)(i := None)\<rparr>"
    and rest: "release_chunks shut result is st1 out1 = (sent1, out', st')"
    and sent: "sent = map (\<lambda>w. (w, chunk_result_of result i)) (filter (\<lambda>w. w \<notin> shut) ws) @ sent1"
    by (rule release_chunks_ConsE)
  have "w \<in> set ws \<longleftrightarrow> registered st w i" by (cases "waiters st i") (simp_all add: ws registered_def)
  moreover have "registered st1 w j \<longleftrightarrow> registered st w j" if "j \<in> set is" for j
    using that Cons.prems(2) by (auto simp: st1 registered_def)
  ultimately show ?case
    using Cons.IH [OF rest] Cons.prems(2) by (auto simp: sent)
qed auto

lemma complete_group_fields:
  assumes "complete_group shut (s, e) result st = (sent, out, st')"
  shows "inflight_chunks st' = inflight_chunks st - {s..<e}" "pending_chunks st' = pending_chunks st"
    "scheduler_running st' = scheduler_running st" "inflight_fetch_count st' = inflight_fetch_count st - 1"
    "capacity_available st' \<longleftrightarrow> capacity_available st
       \<or> (MAX_CONCURRENT_FETCHES_PER_TILESET \<le> inflight_fetch_count st \<and> pending_chunks st \<noteq> {})"
    "fs_archive_len st' = fs_archive_len st"
    "registered st' w i \<longleftrightarrow> registered st w i \<and> i \<notin> {s..<e}"
    "waiters st' = (\<lambda>i. if i \<in> {s..<e} then None else waiters st i)"
    "(w, r) \<in> set sent \<longleftrightarrow> (\<exists>i\<in>{s..<e}. registered st w i \<and> w \<notin> shut \<and> r = chunk_result_of result i)"
proof -
  define needs where
    "needs \<longleftrightarrow> MAX_CONCURRENT_FETCHES_PER_TILESET \<le> inflight_fetch_count st \<and> pending_chunks st \<noteq> {}"
  define st1 where "st1 = st\<lparr>inflight_fetch_count := inflight_fetch_count st - 1,
    capacity_available := capacity_available st \<or> needs\<rparr>"
  have eq: "(if needs then st\<lparr>inflight_fetch_count := inflight_fetch_count st - 1\<rparr>\<lparr>capacity_available := True\<rparr>
      else st\<lparr>inflight_fetch_count := inflight_fetch_count st - 1\<rparr>) = st1"
    by (simp add: st1_def)
  have run: "release_chunks shut result [s..<e] st1 \<lparr>delivered = 0, cancelled = 0\<rparr> = (sent, out, st')"
    using assms unfolding complete_group_def Let_def fst_conv snd_conv needs_def [symmetric] eq .
  have same: "waiters st1 = waiters st" by (simp add: st1_def)
  note fields = release_chunks_fields [OF run, unfolded same]
  have reg: "registered st1 w i = registered st w i" for w i by (simp add: registered_def st1_def)
  show "inflight_chunks st' = inflight_chunks st - {s..<e}" "pending_chunks st' = pending_chunks st"
    "scheduler_running st' = scheduler_running st" "inflight_fetch_count st' = inflight_fetch_count st - 1"
    "capacity_available st' \<longleftrightarrow> capacity_available st
       \<or> (MAX_CONCURRENT_FETCHES_PER_TILESET \<le> inflight_fetch_count st \<and> pending_chunks st \<noteq> {})"
    "fs_archive_len st' = fs_archive_len st"
    and waiters: "waiters st' = (\<lambda>i. if i \<in> {s..<e} then None else waiters st i)"
    using fields by (simp_all add: st1_def needs_def cong: if_cong)
  show "registered st' w i \<longleftrightarrow> registered st w i \<and> i \<notin> {s..<e}"
    unfolding registered_def waiters by simp
  show "(w, r) \<in> set sent \<longleftrightarrow> (\<exists>i\<in>{s..<e}. registered st w i \<and> w \<notin> shut \<and> r = chunk_result_of result i)"
    using release_chunks_sent [OF run] by (simp add: reg)
qed

lemma complete_group_ok:
  assumes "complete_group shut (s, e) result st = (sent, out, st')"
    and "archive_ok ok (add_mset (s, e) rs) phase st"
  shows "archive_ok (\<lambda>w i. ok w i \<and> i \<notin> {s..<e}) rs phase st'"
proof -
  note fields = complete_group_fields [OF assms(1)]
  have count: "inflight_fetch_count st = Suc (size rs)" "Suc (size rs) \<le> MAX_CONCURRENT_FETCHES_PER_TILESET"
    using assms(2) by (simp_all add: archive_ok_def archive_core_def)
  have waiting: "MAX_CONCURRENT_FETCHES_PER_TILESET \<le> size rs \<and> pending_chunks st' \<noteq> {}"
    if "phase = Some Waiting" "\<not> capacity_available st'"
    using that assms(2) count by (auto simp: archive_ok_def archive_core_def fields)
  have "distinct ws" if "waiters st' i = Some ws" for i ws
    using that assms(2) by (auto simp: fields archive_ok_def archive_core_def split: if_splits)
  moreover have "dom (waiters st') \<subseteq> pending_chunks st' \<union> inflight_chunks st'"
    using archive_core_dom assms(2) by (fastforce simp: fields archive_ok_def split: if_splits)
  moreover have "inflight_chunks st' \<subseteq> covered (set_mset rs)"
    using assms(2) by (auto simp: fields archive_ok_def archive_core_def)
  ultimately show ?thesis
    using assms(2) count waiting
    by (auto simp: archive_ok_def archive_core_def fields)
qed

section \<open>The books of the coordinator\<close>

definition open_task :: "GroupTask \<Rightarrow> bool" where
  "open_task t \<longleftrightarrow> gt_phase t \<noteq> Finished"

definition holds_permit :: "GroupTask \<Rightarrow> bool" where
  "holds_permit t \<longleftrightarrow> (case gt_phase t of Dropped _ \<Rightarrow> False | _ \<Rightarrow> True)"

definition open_ranges :: "GroupTask list \<Rightarrow> ArchiveKey \<Rightarrow> (nat \<times> nat) multiset" where
  "open_ranges ts k = mset (map gt_range (filter (\<lambda>t. gt_archive t = k \<and> open_task t) ts))"

definition held_groups :: "SchedulerPhase option \<Rightarrow> (nat \<times> nat) multiset" where
  "held_groups phase = (case phase of Some (Dispatching gs _) \<Rightarrow> mset gs | _ \<Rightarrow> {#})"

definition outstanding :: "Coordinator \<Rightarrow> ArchiveKey \<Rightarrow> (nat \<times> nat) multiset" where
  "outstanding c k = open_ranges (group_tasks c) k + held_groups (schedulers c k)"

definition awaiting :: "Coordinator \<Rightarrow> ArchiveKey \<Rightarrow> waiter \<Rightarrow> nat \<Rightarrow> bool" where
  "awaiting c k w i \<longleftrightarrow> receivers c w = Some (k, i) \<and> answers c w = None"

definition archive_books :: "(nat \<times> nat) multiset \<Rightarrow> Coordinator \<Rightarrow> ArchiveKey \<Rightarrow> bool" where
  "archive_books extra c k \<longleftrightarrow>
     (case tileset_states c k of
        Some st \<Rightarrow> archive_ok (awaiting c k) (outstanding c k + extra) (schedulers c k) st
      | None \<Rightarrow> outstanding c k + extra = {#} \<and> schedulers c k = None)"

definition waiter_books :: "Coordinator \<Rightarrow> bool" where
  "waiter_books c \<longleftrightarrow>
     (\<forall>w. next_waiter c \<le> w \<longrightarrow> receivers c w = None \<and> answers c w = None)
     \<and> (\<forall>w k i. awaiting c k w i \<longrightarrow> w \<notin> closed_receivers c \<longrightarrow>
          (\<exists>st. tileset_states c k = Some st \<and> registered st w i))"

definition permit_books :: "('st, 'p) ChunkEnv \<Rightarrow> Coordinator \<Rightarrow> bool" where
  "permit_books env c \<longleftrightarrow>
     backend_group_permits c + observing c + length (filter holds_permit (group_tasks c))
       = max (ce_backend_fetch_max_inflight env) 1"

text \<open>
  \<open>extra k\<close> are groups of archive \<open>k\<close> that a step has taken from its task or its scheduler and is
  about to complete; between steps there are none.
\<close>

definition books_with :: "('st, 'p) ChunkEnv \<Rightarrow> (ArchiveKey \<Rightarrow> (nat \<times> nat) multiset) \<Rightarrow> Coordinator \<Rightarrow> bool" where
  "books_with env extra c \<longleftrightarrow>
     (\<forall>k. archive_books (extra k) c k) \<and> waiter_books c \<and> permit_books env c \<and> finite (dom (tileset_states c))"

abbreviation books :: "('st, 'p) ChunkEnv \<Rightarrow> Coordinator \<Rightarrow> bool" where
  "books env c \<equiv> books_with env (\<lambda>_. {#}) c"

lemma waiter_books_registered:
  "waiter_books c \<Longrightarrow> awaiting c k w i \<Longrightarrow> w \<notin> closed_receivers c
    \<Longrightarrow> \<exists>st. tileset_states c k = Some st \<and> registered st w i"
  unfolding waiter_books_def by (drule conjunct2) (elim allE impE)

lemma books_withD:
  assumes "books_with env extra c"
  shows "archive_books (extra k) c k" "waiter_books c" "permit_books env c" "finite (dom (tileset_states c))"
  using assms by (simp_all add: books_with_def)

lemma books_archive:
  "books_with env extra c \<Longrightarrow> tileset_states c k = Some st
    \<Longrightarrow> archive_ok (awaiting c k) (outstanding c k + extra k) (schedulers c k) st"
  using books_withD(1) [of env extra c k] by (simp add: archive_books_def)

lemma archive_books_cong:
  assumes "archive_books extra c k" and "tileset_states c' k = tileset_states c k"
    and "schedulers c' k = schedulers c k" and "outstanding c' k + extra' = outstanding c k + extra"
    and "\<And>w i. awaiting c k w i \<Longrightarrow> awaiting c' k w i"
  shows "archive_books extra' c' k"
  using assms archive_ok_mono [of "awaiting c k" _ _ _ "awaiting c' k"]
  by (auto simp: archive_books_def split: option.splits)

lemma open_ranges_simps [simp]:
  "open_ranges [] k = {#}"
  "open_ranges (ts @ ts') k = open_ranges ts k + open_ranges ts' k"
  "open_ranges (t # ts) k = (if gt_archive t = k \<and> open_task t then {#gt_range t#} else {#}) + open_ranges ts k"
  by (simp_all add: open_ranges_def)

lemma open_ranges_remove1:
  "t \<in> set ts \<Longrightarrow> open_ranges ts k
     = open_ranges (remove1 t ts) k + (if gt_archive t = k \<and> open_task t then {#gt_range t#} else {#})"
  by (induction ts) auto

lemma holds_permit_remove1:
  "t \<in> set ts \<Longrightarrow> length (filter holds_permit ts)
     = length (filter holds_permit (remove1 t ts)) + (if holds_permit t then 1 else 0)"
  by (induction ts) auto

text \<open>Changing the phase of a task.\<close>

lemma replace_task_fields [simp]:
  "tileset_states (replace_task t phase c) = tileset_states c"
  "schedulers (replace_task t phase c) = schedulers c"
  "receivers (replace_task t phase c) = receivers c"
  "answers (replace_task t phase c) = answers c"
  "closed_receivers (replace_task t phase c) = closed_receivers c"
  "next_waiter (replace_task t phase c) = next_waiter c"
  "backend_group_permits (replace_task t phase c) = backend_group_permits c"
  "observing (replace_task t phase c) = observing c"
  "chunk_cache (replace_task t phase c) = chunk_cache c"
  "group_tasks (replace_task t phase c) = remove1 t (group_tasks c) @ [t\<lparr>gt_phase := phase\<rparr>]"
  by (simp_all add: replace_task_def)

lemma books_tasks:
  assumes "books_with env extra c"
    and "tileset_states c' = tileset_states c" "schedulers c' = schedulers c" "receivers c' = receivers c"
      "answers c' = answers c" "closed_receivers c' = closed_receivers c" "next_waiter c' = next_waiter c"
    and "\<And>k. open_ranges (group_tasks c') k + extra' k = open_ranges (group_tasks c) k + extra k"
    and "backend_group_permits c' + observing c' + length (filter holds_permit (group_tasks c'))
      = backend_group_permits c + observing c + length (filter holds_permit (group_tasks c))"
  shows "books_with env extra' c'"
proof -
  have same: "awaiting c' = awaiting c" by (intro ext) (simp add: awaiting_def assms)
  have out: "outstanding c' k + extra' k = outstanding c k + extra k" for k
    using assms(8) [of k] by (simp add: outstanding_def assms(3) algebra_simps)
  have "archive_books (extra' k) c' k" for k
    using books_withD(1) [OF assms(1), of k] out [of k] assms(2,3)
    by (auto simp: archive_books_def same split: option.splits)
  then show ?thesis
    using assms books_withD [OF assms(1)]
    by (simp add: books_with_def waiter_books_def permit_books_def same)
qed

text \<open>Completing a group that was taken out of the books.\<close>

lemma send_all_eq:
  "send_all sent ans w = (case map_of (rev sent) w of Some r \<Rightarrow> Some r | None \<Rightarrow> ans w)"
  by (induction sent arbitrary: ans) (auto simp: map_add_def split: option.splits)

lemma send_all_None: "send_all sent ans w = None \<longleftrightarrow> ans w = None \<and> w \<notin> fst ` set sent"
  by (auto simp: send_all_eq map_of_eq_None_iff split: option.splits) (metis map_of_eq_None_iff option.distinct(1) set_rev)

lemma send_all_Some: "send_all sent ans w = Some r \<Longrightarrow> (w, r) \<in> set sent \<or> ans w = Some r"
  by (auto simp: send_all_eq split: option.splits dest: map_of_SomeD)

text \<open>A drainable archive has no outstanding group and no waiter: dropping its state loses nothing.\<close>

lemma drainable_empty:
  assumes "archive_ok ok rs phase st" and "is_drainable st"
  shows "rs = {#}" "phase = None" "\<not> registered st w i"
proof -
  have core: "archive_core ok rs phase st" using assms(1) by (simp add: archive_ok_def)
  show rs: "rs = {#}" and "phase = None"
    using core assms(2) by (auto simp: archive_core_def is_drainable_def)
  have "inflight_chunks st = {}" using core rs by (simp add: archive_core_def)
  then have "waiters st i = None" using archive_core_dom [OF core] assms(2) by (fastforce simp: is_drainable_def)
  then show "\<not> registered st w i" by (simp add: registered_def)
qed

lemma remove_drainable_fields [simp]:
  "schedulers (remove_drainable_state k c) = schedulers c"
  "receivers (remove_drainable_state k c) = receivers c"
  "answers (remove_drainable_state k c) = answers c"
  "closed_receivers (remove_drainable_state k c) = closed_receivers c"
  "next_waiter (remove_drainable_state k c) = next_waiter c"
  "backend_group_permits (remove_drainable_state k c) = backend_group_permits c"
  "observing (remove_drainable_state k c) = observing c"
  "chunk_cache (remove_drainable_state k c) = chunk_cache c"
  "group_tasks (remove_drainable_state k c) = group_tasks c"
  by (simp_all add: remove_drainable_state_def split: option.splits)

lemma remove_drainable_states:
  "tileset_states (remove_drainable_state k c) = tileset_states c
   \<or> (\<exists>st. tileset_states c k = Some st \<and> is_drainable st
        \<and> tileset_states (remove_drainable_state k c) = (tileset_states c)(k := None))"
  by (simp add: remove_drainable_state_def split: option.splits)

lemma remove_drainable_books:
  assumes "books env c"
  shows "books env (remove_drainable_state k c)"
proof -
  let ?c = "remove_drainable_state k c"
  have same: "awaiting ?c = awaiting c" "outstanding ?c = outstanding c"
    by (intro ext, simp add: awaiting_def) (intro ext, simp add: outstanding_def)
  from remove_drainable_states [of k c] show ?thesis
  proof
    assume "tileset_states ?c = tileset_states c"
    with assms show ?thesis by (elim books_tasks) simp_all
  next
    assume "\<exists>st. tileset_states c k = Some st \<and> is_drainable st \<and> tileset_states ?c = (tileset_states c)(k := None)"
    then obtain st where st: "tileset_states c k = Some st" "is_drainable st"
      and new: "tileset_states ?c = (tileset_states c)(k := None)" by blast
    note empty = drainable_empty [OF books_archive [OF assms st(1)] st(2)]
    have "archive_books {#} ?c k'" for k'
      using books_withD(1) [OF assms, of k'] empty(1,2)
      by (cases "k' = k") (simp_all add: archive_books_def same new cong: option.case_cong)
    moreover have "waiter_books ?c"
      using books_withD(2) [OF assms] empty(3) st(1) by (fastforce simp: waiter_books_def same new)
    ultimately show ?thesis
      using books_withD [OF assms] by (simp add: books_with_def permit_books_def new)
  qed
qed

lemma complete_dispatched_books:
  assumes "books_with env ((\<lambda>_. {#})(k := {#(s, e)#})) c"
  shows "books env (complete_dispatched_group k (s, e) result c)"
proof -
  have "archive_books {#(s, e)#} c k" using books_withD(1) [OF assms, of k] by simp
  then obtain st where st: "tileset_states c k = Some st"
    and ok: "archive_ok (awaiting c k) (add_mset (s, e) (outstanding c k)) (schedulers c k) st"
    by (auto simp: archive_books_def split: option.splits)
  obtain sent out st' where done_group: "complete_group (closed_receivers c) (s, e) result st = (sent, out, st')"
    by (cases "complete_group (closed_receivers c) (s, e) result st")
  define c1 where "c1 = c\<lparr>tileset_states := (tileset_states c)(k \<mapsto> st'), answers := send_all sent (answers c)\<rparr>"
  have c1: "tileset_states c1 = (tileset_states c)(k \<mapsto> st')" "schedulers c1 = schedulers c"
    by (simp_all add: c1_def)
  have eq: "complete_dispatched_group k (s, e) result c = remove_drainable_state k c1"
    by (simp add: complete_dispatched_group_def st done_group c1_def)
  note fields = complete_group_fields [OF done_group]
  have reg: "awaiting c k w i" if "registered st w i" for w i
    using that ok by (simp add: archive_ok_def archive_core_def)
  have sent: "\<exists>i. s \<le> i \<and> i < e \<and> receivers c w = Some (k, i) \<and> registered st w i" if "w \<in> fst ` set sent" for w
  proof -
    from that obtain r where "(w, r) \<in> set sent" by force
    then obtain i where "i \<in> {s..<e}" "registered st w i" unfolding fields(9) by blast
    then show ?thesis using reg [of w i] unfolding awaiting_def by force
  qed
  have still: "awaiting c1 k' w i" if "awaiting c k' w i" "k' \<noteq> k \<or> i \<notin> {s..<e}" for k' w i
    using that sent [of w] by (auto simp: awaiting_def c1_def send_all_None)
  have before: "awaiting c k' w i" "w \<notin> fst ` set sent" if "awaiting c1 k' w i" for k' w i
    using that by (simp_all add: awaiting_def c1_def send_all_None)
  have out: "outstanding c1 = outstanding c" by (intro ext) (simp add: outstanding_def c1_def)
  have "archive_books {#} c1 k'" for k'
  proof (cases "k' = k")
    case True
    have "archive_ok (awaiting c1 k) (outstanding c k) (schedulers c k) st'"
      using complete_group_ok [OF done_group ok] by (rule archive_ok_mono) (use still in auto)
    then show ?thesis using True by (simp add: archive_books_def out c1)
  next
    case False
    have "archive_books {#} c k'" using books_withD(1) [OF assms, of k'] False by simp
    then show ?thesis
      using False still by (elim archive_books_cong) (simp_all add: out c1)
  qed
  moreover have "waiter_books c1"
    unfolding waiter_books_def
  proof (intro conjI allI impI)
    fix w assume w: "next_waiter c1 \<le> w"
    then have none: "receivers c w = None" "answers c w = None"
      using books_withD(2) [OF assms] by (simp_all add: waiter_books_def c1_def)
    then show "receivers c1 w = None" "answers c1 w = None" using sent [of w] by (auto simp: c1_def send_all_None)
  next
    fix w k' i assume a: "awaiting c1 k' w i" "w \<notin> closed_receivers c1"
    have "w \<notin> closed_receivers c" using a(2) by (simp add: c1_def)
    from waiter_books_registered [OF books_withD(2) [OF assms] before(1) [OF a(1)] this]
    obtain st0 where st0: "tileset_states c k' = Some st0" "registered st0 w i" by (elim exE conjE)
    show "\<exists>st. tileset_states c1 k' = Some st \<and> registered st w i"
    proof (cases "k' = k")
      case True
      then have "registered st w i" using st0 st by simp
      moreover have "i \<notin> {s..<e}"
      proof
        assume "i \<in> {s..<e}"
        then have "(w, chunk_result_of result i) \<in> set sent"
          using \<open>registered st w i\<close> a(2) by (auto simp: fields(9) c1_def)
        then show False using before(2) [OF a(1)] by force
      qed
      ultimately show ?thesis using True by (simp add: c1_def fields(7))
    qed (use st0 in \<open>simp add: c1_def\<close>)
  qed
  moreover have "permit_books env c1" "finite (dom (tileset_states c1))"
    using books_withD(3,4) [OF assms] by (simp_all add: permit_books_def c1_def)
  ultimately have "books env c1" by (simp add: books_with_def)
  then show ?thesis unfolding eq by (rule remove_drainable_books)
qed

section \<open>Every step keeps the books\<close>

text \<open>What the coordinator is configured with: a chunk size and archive lengths of 64 bits.\<close>

definition env_ok :: "('st, 'p) ChunkEnv \<Rightarrow> bool" where
  "env_ok env \<longleftrightarrow> 0 < cf_chunk_size (ce_fetcher env) \<and> (\<forall>k. ce_archive_len env k < 2 ^ 64)"

lemma env_ok_index:
  assumes "env_ok env" and "i * cf_chunk_size (ce_fetcher env) < ce_archive_len env k"
  shows "i < 2 ^ 64 - 1"
proof -
  have "i * 1 \<le> i * cf_chunk_size (ce_fetcher env)" using assms(1) by (intro mult_le_mono2) (simp add: env_ok_def Suc_leI)
  moreover have "ce_archive_len env k < 2 ^ 64" using assms(1) by (simp add: env_ok_def)
  ultimately show ?thesis using assms(2) by linarith
qed

lemma archive_ok_phase:
  "archive_ok ok rs (Some phase) st \<Longrightarrow> phase' \<noteq> Waiting \<Longrightarrow> archive_ok ok rs (Some phase') st"
  by (simp add: archive_ok_def archive_core_def)

lemma held_groups_simps [simp]:
  "held_groups None = {#}" "held_groups (Some (Sleeping b)) = {#}" "held_groups (Some Waiting) = {#}"
  "held_groups (Some (Dispatching gs n)) = mset gs"
  by (simp_all add: held_groups_def)

lemma books_update_archive:
  assumes "books env c" and "tileset_states c k = Some st"
    and "archive_ok (awaiting c k) (open_ranges (group_tasks c) k + held_groups phase) phase st'"
    and "\<And>w i. registered st w i \<Longrightarrow> w \<notin> closed_receivers c \<Longrightarrow> registered st' w i"
  shows "books env (c\<lparr>tileset_states := (tileset_states c)(k \<mapsto> st'), schedulers := (schedulers c)(k := phase)\<rparr>)"
    (is "books env ?c")
proof -
  have same: "awaiting ?c = awaiting c" by (intro ext) (simp add: awaiting_def)
  have "archive_books {#} ?c k'" for k'
  proof (cases "k' = k")
    case True
    with assms(3) show ?thesis by (simp add: archive_books_def same outstanding_def)
  next
    case False
    with books_withD(1) [OF assms(1), of k'] show ?thesis
      by (elim archive_books_cong) (simp_all add: outstanding_def same)
  qed
  moreover have "waiter_books ?c"
    unfolding waiter_books_def same
  proof (intro conjI allI impI)
    fix w k' i assume a: "awaiting c k' w i" "w \<notin> closed_receivers ?c"
    have shut: "w \<notin> closed_receivers c" using a(2) by simp
    from waiter_books_registered [OF books_withD(2) [OF assms(1)] a(1) shut]
    obtain st0 where "tileset_states c k' = Some st0" "registered st0 w i" by (elim exE conjE)
    then show "\<exists>st. tileset_states ?c k' = Some st \<and> registered st w i"
      using assms(2) assms(4) [OF _ shut] by (cases "k' = k") simp_all
  qed (use books_withD(2) [OF assms(1)] in \<open>simp_all add: waiter_books_def\<close>)
  ultimately show ?thesis
    using books_withD(3,4) [OF assms(1)] by (simp add: books_with_def permit_books_def)
qed

lemma books_scheduled:
  assumes "books_with env extra c" and "schedulers c k = Some phase"
  obtains st where "tileset_states c k = Some st"
    and "archive_ok (awaiting c k) (open_ranges (group_tasks c) k + held_groups (Some phase) + extra k) (Some phase) st"
  using books_withD(1) [OF assms(1), of k] assms(2)
  by (auto simp: archive_books_def outstanding_def split: option.splits)

lemma scheduler_pass_books:
  assumes "books env c" and "schedulers c k = Some (Sleeping flush)"
  shows "books env (scheduler_pass env k now c)"
proof -
  obtain st where st: "tileset_states c k = Some st"
    and "archive_ok (awaiting c k) (open_ranges (group_tasks c) k + held_groups (Some (Sleeping flush)) + {#})
      (Some (Sleeping flush)) st"
    using assms by (rule books_scheduled)
  then have ok: "archive_ok (awaiting c k) (open_ranges (group_tasks c) k) (Some (Sleeping flush)) st" by simp
  define p where "p = prune_cancelled_waiters (closed_receivers c) st"
  have core: "archive_core (awaiting c k) (open_ranges (group_tasks c) k) (Some (Sleeping flush)) p"
    using ok unfolding p_def archive_ok_def by (intro prune_core) simp_all
  have running: "scheduler_running p" using core by (simp add: archive_core_def)
  have reg: "registered p w i" if "registered st w i" "w \<notin> closed_receivers c" for w i
    using that by (simp add: p_def prune_registered)
  have fin: "finite (pending_chunks p)" using core by (simp add: archive_core_def)
  from fin show ?thesis
  proof (cases rule: select_dispatch_groups_cases [where limit = "ce_max_fetch_chunks env" and now = now])
    case idle
    have "archive_ok (awaiting c k) (open_ranges (group_tasks c) k + held_groups None) None (p\<lparr>scheduler_running := False\<rparr>)"
      using core idle(1) by (simp add: archive_ok_def archive_core_def registered_def)
    then have "books env (c\<lparr>tileset_states := (tileset_states c)(k \<mapsto> p\<lparr>scheduler_running := False\<rparr>),
        schedulers := (schedulers c)(k := None)\<rparr>)"
      using reg by (intro books_update_archive [OF assms(1) st]) (simp_all add: registered_def)
    then show ?thesis
      using remove_drainable_books idle(2) by (simp add: scheduler_pass_def st p_def [symmetric] Let_def)
  next
    case throttled
    have "archive_ok (awaiting c k) (open_ranges (group_tasks c) k + held_groups (Some Waiting)) (Some Waiting) p"
      using core throttled(1,2) running by (simp add: archive_ok_def archive_core_def)
    then have "books env (c\<lparr>tileset_states := (tileset_states c)(k \<mapsto> p), schedulers := (schedulers c)(k := Some Waiting)\<rparr>)"
      using reg by (intro books_update_archive [OF assms(1) st])
    then show ?thesis using throttled(3) by (simp add: scheduler_pass_def st p_def [symmetric] Let_def)
  next
    case (dispatch gs d)
    let ?q = "move_to_inflight gs p" and ?phase = "Some (Dispatching gs (fs_archive_len p))"
    have "archive_core (awaiting c k) (open_ranges (group_tasks c) k + mset gs) ?phase ?q"
      using dispatched_groups(1) [OF core dispatch(1)] by (intro move_to_inflight_core [OF core]) simp_all
    then have "archive_ok (awaiting c k) (open_ranges (group_tasks c) k + held_groups ?phase) ?phase ?q"
      using running by (simp add: archive_ok_def move_to_inflight_fields)
    then have "books env (c\<lparr>tileset_states := (tileset_states c)(k \<mapsto> ?q), schedulers := (schedulers c)(k := ?phase)\<rparr>)"
      using reg by (intro books_update_archive [OF assms(1) st]) (simp_all add: registered_def move_to_inflight_fields)
    then show ?thesis using dispatch(4) by (simp add: scheduler_pass_def st p_def [symmetric] Let_def)
  qed
qed

lemma scheduler_wake_books:
  assumes "books env c" and "schedulers c k = Some Waiting" and "tileset_states c k = Some st"
  shows "books env (scheduler_wake k st c)"
proof -
  have "archive_ok (awaiting c k) (outstanding c k) (Some Waiting) st"
    using books_archive [OF assms(1,3)] assms(2) by simp
  then have "archive_ok (awaiting c k) (open_ranges (group_tasks c) k + held_groups (Some (Sleeping True)))
      (Some (Sleeping True)) (st\<lparr>capacity_available := False\<rparr>)"
    by (simp add: archive_ok_def archive_core_def outstanding_def assms(2) registered_def)
  then show ?thesis
    unfolding scheduler_wake_def by (intro books_update_archive [OF assms(1,3)]) (simp_all add: registered_def)
qed

lemma books_take_group:
  assumes "books env c" and "schedulers c k = Some (Dispatching (g # gs) n)"
  shows "books_with env ((\<lambda>_. {#})(k := {#g#})) (c\<lparr>schedulers := (schedulers c)(k \<mapsto> Dispatching gs n)\<rparr>)"
    (is "books_with env ?extra ?c")
proof -
  obtain st where st: "tileset_states c k = Some st"
    and ok: "archive_ok (awaiting c k) (open_ranges (group_tasks c) k + held_groups (Some (Dispatching (g # gs) n)) + {#})
      (Some (Dispatching (g # gs) n)) st"
    using assms by (rule books_scheduled)
  have same: "awaiting ?c = awaiting c" by (intro ext) (simp add: awaiting_def)
  have "archive_ok (awaiting c k) (open_ranges (group_tasks c) k + mset gs + {#g#}) (Some (Dispatching gs n)) st"
    using archive_ok_phase [OF ok] by simp
  then have "archive_books (?extra k') ?c k'" for k'
  proof (cases "k' = k")
    case False
    with books_withD(1) [OF assms(1), of k'] show ?thesis
      by (elim archive_books_cong) (simp_all add: outstanding_def same)
  qed (simp add: archive_books_def st same outstanding_def)
  then show ?thesis
    using books_withD [OF assms(1)] by (simp add: books_with_def permit_books_def waiter_books_def same)
qed

lemma scheduler_reserve_books:
  assumes "books env c" and "schedulers c k = Some (Dispatching groups n)"
  shows "books env (scheduler_reserve k groups n c)"
proof (cases groups)
  case Nil
  obtain st where st: "tileset_states c k = Some st"
    and ok: "archive_ok (awaiting c k) (open_ranges (group_tasks c) k + held_groups (Some (Dispatching groups n)) + {#})
      (Some (Dispatching groups n)) st"
    using assms by (rule books_scheduled)
  have "archive_ok (awaiting c k) (open_ranges (group_tasks c) k + held_groups (Some (Sleeping False)))
      (Some (Sleeping False)) st"
    using archive_ok_phase [OF ok, of "Sleeping False"] by (simp add: Nil)
  then have "books env (c\<lparr>tileset_states := (tileset_states c)(k \<mapsto> st), schedulers := (schedulers c)(k := Some (Sleeping False))\<rparr>)"
    by (intro books_update_archive [OF assms(1) st])
  then show ?thesis using st by (simp add: scheduler_reserve_eqs Nil fun_upd_idem)
next
  case (Cons g gs)
  let ?c = "c\<lparr>schedulers := (schedulers c)(k \<mapsto> Dispatching gs n)\<rparr>"
  have taken: "books_with env ((\<lambda>_. {#})(k := {#g#})) ?c"
    using assms by (intro books_take_group) (simp_all add: Cons)
  show ?thesis
  proof (cases "backend_group_permits c > 0")
    case True
    have "books env (?c\<lparr>backend_group_permits := backend_group_permits c - 1,
        group_tasks := group_tasks c @ [\<lparr>gt_archive = k, gt_range = g, gt_archive_len = n, gt_phase = Fetching\<rparr>]\<rparr>)"
      using taken by (rule books_tasks) (use True in \<open>simp_all add: open_task_def holds_permit_def\<close>)
    with True show ?thesis by (simp add: scheduler_reserve_eqs Cons)
  next
    case False
    with taken show ?thesis
      using complete_dispatched_books [of env k "fst g" "snd g" ?c] by (simp add: scheduler_reserve_eqs Cons)
  qed
qed

text \<open>The tasks.\<close>

lemma group_fetched_replaces:
  obtains result cache n where "group_fetched env t ob c
    = replace_task t (Completing result) (c\<lparr>counters := n, chunk_cache := cache\<rparr>)"
proof -
  obtain r n where r: "fetch_chunk_group (ce_fetcher env) (gt_archive t) (gt_range t) (gt_archive_len t) ob
      (counters c) = (r, n)" by (rule prod.exhaust)
  show ?thesis
  proof (cases r)
    case (Inl e)
    have "c\<lparr>counters := n\<rparr> = c\<lparr>counters := n, chunk_cache := chunk_cache c\<rparr>" by simp
    with r Inl show ?thesis by (intro that [of "Inl e" "chunk_cache c" n]) (simp add: group_fetched_def)
  next
    case (Inr bytes)
    obtain x cache where x: "cache_chunk_group (cf_chunk_size (ce_fetcher env)) (gt_archive t) (gt_range t)
        (gt_archive_len t) bytes (chunk_cache c) = (x, cache)" by (rule prod.exhaust)
    show ?thesis
    proof (cases x)
      case (Inl e)
      with r \<open>r = Inr bytes\<close> x show ?thesis
        by (intro that [of "Inl (Message (RangeText e))" cache n]) (simp add: group_fetched_def)
    next
      case (Inr chunks)
      with r \<open>r = Inr bytes\<close> x show ?thesis
        by (intro that [of "Inr chunks" cache n]) (simp add: group_fetched_def)
    qed
  qed
qed

lemma replace_task_books:
  assumes "books_with env extra c" and "t \<in> set (group_tasks c)"
    and "\<And>k. (if gt_archive t = k \<and> phase \<noteq> Finished then {#gt_range t#} else {#}) + extra' k
      = (if gt_archive t = k \<and> open_task t then {#gt_range t#} else {#}) + extra k"
    and "permits + (if holds_permit (t\<lparr>gt_phase := phase\<rparr>) then 1 else 0)
      = backend_group_permits c + (if holds_permit t then 1 else 0)"
  shows "books_with env extra' ((replace_task t phase c)\<lparr>backend_group_permits := permits\<rparr>)"
  using assms(1)
proof (rule books_tasks)
  fix k
  have "open_ranges [t\<lparr>gt_phase := phase\<rparr>] k = (if gt_archive t = k \<and> phase \<noteq> Finished then {#gt_range t#} else {#})"
    by (simp add: open_task_def)
  moreover have "group_tasks ((replace_task t phase c)\<lparr>backend_group_permits := permits\<rparr>)
      = remove1 t (group_tasks c) @ [t\<lparr>gt_phase := phase\<rparr>]" by simp
  ultimately show "open_ranges (group_tasks ((replace_task t phase c)\<lparr>backend_group_permits := permits\<rparr>)) k + extra' k
      = open_ranges (group_tasks c) k + extra k"
    using open_ranges_remove1 [OF assms(2), of k] assms(3) [of k] by (simp only: open_ranges_simps(2) add.assoc)
next
  show "backend_group_permits ((replace_task t phase c)\<lparr>backend_group_permits := permits\<rparr>)
      + observing ((replace_task t phase c)\<lparr>backend_group_permits := permits\<rparr>)
      + length (filter holds_permit (group_tasks ((replace_task t phase c)\<lparr>backend_group_permits := permits\<rparr>)))
      = backend_group_permits c + observing c + length (filter holds_permit (group_tasks c))"
    using holds_permit_remove1 [OF assms(2)] assms(4) by (auto split: if_splits)
qed simp_all

lemma remove_task_books:
  assumes "books_with env extra c" and "t \<in> set (group_tasks c)"
    and "\<And>k. extra' k = (if gt_archive t = k \<and> open_task t then {#gt_range t#} else {#}) + extra k"
    and "permits = backend_group_permits c + (if holds_permit t then 1 else 0)"
  shows "books_with env extra' (c\<lparr>group_tasks := remove1 t (group_tasks c), backend_group_permits := permits\<rparr>)"
  using assms(1)
  by (rule books_tasks)
    (use open_ranges_remove1 [OF assms(2)] holds_permit_remove1 [OF assms(2)] assms(3,4) in simp_all)

lemma books_cache:
  "books env c \<Longrightarrow> books env (c\<lparr>counters := n, chunk_cache := cache\<rparr>)"
  by (elim books_tasks) simp_all

lemma group_fetched_books:
  assumes "books env c" and "t \<in> set (group_tasks c)" and "gt_phase t = Fetching"
  shows "books env (group_fetched env t ob c)"
proof -
  obtain result cache n where eq: "group_fetched env t ob c
    = replace_task t (Completing result) (c\<lparr>counters := n, chunk_cache := cache\<rparr>)" by (rule group_fetched_replaces)
  let ?c = "c\<lparr>counters := n, chunk_cache := cache\<rparr>"
  have "books env ((replace_task t (Completing result) ?c)\<lparr>backend_group_permits := backend_group_permits ?c\<rparr>)"
    using books_cache [OF assms(1)] assms(2,3)
    by (intro replace_task_books [where extra = "\<lambda>_. {#}"]) (simp_all add: open_task_def holds_permit_def)
  then show ?thesis by (simp add: eq replace_task_def)
qed

lemma complete_taken:
  assumes "books env c" and "t \<in> set (group_tasks c)" and "gt_phase t = Completing result" and "gt_range t = (s, e)"
  shows "books_with env ((\<lambda>_. {#})(gt_archive t := {#(s, e)#})) (replace_task t Finished c)"
proof -
  have "books_with env ((\<lambda>_. {#})(gt_archive t := {#(s, e)#}))
      ((replace_task t Finished c)\<lparr>backend_group_permits := backend_group_permits c\<rparr>)"
    using assms by (intro replace_task_books [where extra = "\<lambda>_. {#}"]) (simp_all add: open_task_def holds_permit_def)
  then show ?thesis by (simp add: replace_task_def)
qed

lemma group_complete_books:
  assumes "books env c" and "t \<in> set (group_tasks c)" and "gt_phase t = Completing result"
  shows "books env (group_complete t result c)"
  using complete_dispatched_books [OF complete_taken [OF assms]]
  by (cases "gt_range t") (simp add: group_complete_def)

lemma group_release_books:
  assumes "books env c" and "t \<in> set (group_tasks c)" and "gt_phase t = Finished"
  shows "books env (group_release t c)"
  unfolding group_release_def using assms
  by (intro remove_task_books [where extra = "\<lambda>_. {#}"]) (simp_all add: open_task_def holds_permit_def)

lemma group_drop_books:
  assumes "books env c" and "t \<in> set (group_tasks c)" and "gt_phase t = Fetching \<or> gt_phase t = Completing r"
  shows "books env (group_drop t result c)"
proof -
  have "books env ((replace_task t (Dropped result) c)\<lparr>backend_group_permits := backend_group_permits c + 1\<rparr>)"
    using assms by (intro replace_task_books [where extra = "\<lambda>_. {#}"]) (auto simp: open_task_def holds_permit_def)
  then show ?thesis by (simp add: group_drop_def Let_def)
qed

lemma dropped_taken:
  assumes "books env c" and "t \<in> set (group_tasks c)" and "gt_phase t = Dropped result" and "gt_range t = (s, e)"
  shows "books_with env ((\<lambda>_. {#})(gt_archive t := {#(s, e)#})) (c\<lparr>group_tasks := remove1 t (group_tasks c)\<rparr>)"
proof -
  have "books_with env ((\<lambda>_. {#})(gt_archive t := {#(s, e)#}))
      (c\<lparr>group_tasks := remove1 t (group_tasks c), backend_group_permits := backend_group_permits c\<rparr>)"
    using assms by (intro remove_task_books [where extra = "\<lambda>_. {#}"]) (simp_all add: open_task_def holds_permit_def)
  then show ?thesis by simp
qed

lemma group_complete_dropped_books:
  assumes "books env c" and "t \<in> set (group_tasks c)" and "gt_phase t = Dropped result"
  shows "books env (group_complete_dropped t result c)"
  using complete_dispatched_books [OF dropped_taken [OF assms]]
  by (cases "gt_range t") (simp add: group_complete_dropped_def)

lemmas internal_books =
  scheduler_pass_books scheduler_wake_books scheduler_reserve_books group_fetched_books group_complete_books
  group_release_books group_drop_books group_complete_dropped_books

lemma internal_step_books: "internal_step env c c' \<Longrightarrow> books env c \<Longrightarrow> books env c'"
  by (induction rule: internal_step.induct) (auto intro: internal_books)

text \<open>
  What the completion of a group sends: to the waiters registered for its chunks, and to nobody
  else, the chunk's part of the result.
\<close>

lemma complete_dispatched_answers:
  assumes "books_with env ((\<lambda>_. {#})(k := {#(s, e)#})) c"
    and "answers (complete_dispatched_group k (s, e) result c) w = Some r"
  shows "answers c w = Some r \<or> (\<exists>i. receivers c w = Some (k, i) \<and> r = chunk_result_of result i)"
proof -
  obtain st where st: "tileset_states c k = Some st"
    and ok: "archive_ok (awaiting c k) (add_mset (s, e) (outstanding c k)) (schedulers c k) st"
    using books_withD(1) [OF assms(1), of k] by (auto simp: archive_books_def split: option.splits)
  obtain sent out st' where run: "complete_group (closed_receivers c) (s, e) result st = (sent, out, st')"
    by (cases "complete_group (closed_receivers c) (s, e) result st")
  have "send_all sent (answers c) w = Some r" using assms(2) by (simp add: complete_dispatched_group_def st run)
  then consider "answers c w = Some r" | "(w, r) \<in> set sent" using send_all_Some by blast
  then show ?thesis
  proof cases
    case 2
    then obtain i where i: "registered st w i" "r = chunk_result_of result i"
      unfolding complete_group_fields(9) [OF run] by blast
    then have "awaiting c k w i" using ok by (simp add: archive_ok_def archive_core_def)
    with i show ?thesis by (auto simp: awaiting_def)
  qed simp
qed

text \<open>The callers.\<close>

lemma register_receivers_eq:
  "map ec_chunk_index es = is \<Longrightarrow> map ec_receiver es = [n..<n + length is] \<Longrightarrow>
   register_receivers k es r w = (if n \<le> w \<and> w < n + length is then Some (k, is ! (w - n)) else r w)"
proof (induction es arbitrary: "is" n r)
  case (Cons e es)
  from Cons.prems(1) obtain js where js: "is = ec_chunk_index e # js" "map ec_chunk_index es = js" by auto
  have "[n..<n + length is] = n # [Suc n..<Suc n + length js]" by (simp add: js upt_rec)
  with Cons.prems(2) have e: "ec_receiver e = n" and es: "map ec_receiver es = [Suc n..<Suc n + length js]" by auto
  have "register_receivers k (e # es) r w
      = (if Suc n \<le> w \<and> w < Suc n + length js then Some (k, js ! (w - Suc n)) else (r(n \<mapsto> (k, ec_chunk_index e))) w)"
    using Cons.IH [OF js(2) es] by (simp add: e)
  then show ?case by (auto simp: js(1) nth_Cons' Suc_le_eq)
qed auto

text \<open>
  What \<open>fetch_chunks\<close> does before it waits: \<open>st2\<close> is the state with the chunks enqueued, and a
  scheduler starts if none runs and something is pending.
\<close>

definition fetch_state_at :: "Coordinator \<Rightarrow> ArchiveKey \<Rightarrow> nat \<Rightarrow> TilesetFetchState" where
  "fetch_state_at c k n =
     (let st = (case tileset_states c k of Some st \<Rightarrow> st | None \<Rightarrow> fetch_state_default)
      in st\<lparr>fs_archive_len := max (fs_archive_len st) n\<rparr>)"

lemma fetch_chunks_begin_fields:
  assumes "enqueue_chunks is now (next_waiter c) (fetch_state_at c k n) = (es, st2)"
    and "c' = snd (fetch_chunks_begin k is n now c)"
    and "starts \<longleftrightarrow> \<not> scheduler_running st2 \<and> pending_chunks st2 \<noteq> {}"
  obtains flush where "tileset_states c' = (tileset_states c)(k \<mapsto> if starts then st2\<lparr>scheduler_running := True\<rparr> else st2)"
    and "schedulers c' = (schedulers c)(k := if starts then Some (Sleeping flush) else schedulers c k)"
    and "receivers c' = (\<lambda>w. if next_waiter c \<le> w \<and> w < next_waiter c + length is
      then Some (k, is ! (w - next_waiter c)) else receivers c w)"
    and "next_waiter c' = next_waiter c + length is"
    and "answers c' = answers c" and "closed_receivers c' = closed_receivers c" and "group_tasks c' = group_tasks c"
    and "backend_group_permits c' = backend_group_permits c" and "observing c' = observing c"
    and "chunk_cache c' = chunk_cache c"
    and "fst (fetch_chunks_begin k is n now c) = zip is [next_waiter c..<next_waiter c + length is]"
proof -
  define st0 where "st0 = (case tileset_states c k of Some st \<Rightarrow> st | None \<Rightarrow> fetch_state_default)"
  note enq = assms(1) [unfolded fetch_state_at_def Let_def, folded st0_def]
  have recv: "register_receivers k es (receivers c) = (\<lambda>w. if next_waiter c \<le> w \<and> w < next_waiter c + length is
      then Some (k, is ! (w - next_waiter c)) else receivers c w)"
    using enqueue_chunks_receivers [OF enq] by (intro ext register_receivers_eq) simp_all
  have "map (\<lambda>e. (ec_chunk_index e, ec_receiver e)) es = zip (map ec_chunk_index es) (map ec_receiver es)"
    by (induction es) simp_all
  then have pairs: "map (\<lambda>e. (ec_chunk_index e, ec_receiver e)) es = zip is [next_waiter c..<next_waiter c + length is]"
    using enqueue_chunks_receivers [OF enq] by simp
  show ?thesis
    by (rule that [of "is_idle st0 \<and> IMMEDIATE_CHUNK_INDEX \<in> pending_chunks st2"])
      (unfold assms(2) fetch_chunks_begin_def Let_def st0_def [symmetric] enq prod.case assms(3) [symmetric] recv pairs,
        simp_all add: fun_upd_idem)
qed

lemma fetch_chunks_begin_books:
  assumes "books env c" and "\<forall>i\<in>set is. i < 2 ^ 64 - 1"
  shows "books env (snd (fetch_chunks_begin k is n now c))"
proof -
  define st0 where "st0 = (case tileset_states c k of Some st \<Rightarrow> st | None \<Rightarrow> fetch_state_default)"
  define st1 where "st1 = fetch_state_at c k n"
  obtain es st2 where enq: "enqueue_chunks is now (next_waiter c) st1 = (es, st2)" by (rule prod.exhaust)
  define starts where "starts \<longleftrightarrow> \<not> scheduler_running st2 \<and> pending_chunks st2 \<noteq> {}"
  define st3 where "st3 = (if starts then st2\<lparr>scheduler_running := True\<rparr> else st2)"
  define c' where "c' = snd (fetch_chunks_begin k is n now c)"
  obtain flush where c': "tileset_states c' = (tileset_states c)(k \<mapsto> st3)"
      "schedulers c' = (schedulers c)(k := if starts then Some (Sleeping flush) else schedulers c k)"
    and recv_eq: "receivers c' = (\<lambda>w. if next_waiter c \<le> w \<and> w < next_waiter c + length is
      then Some (k, is ! (w - next_waiter c)) else receivers c w)"
    and c'_rest: "next_waiter c' = next_waiter c + length is"
      "answers c' = answers c" "closed_receivers c' = closed_receivers c" "group_tasks c' = group_tasks c"
      "backend_group_permits c' = backend_group_permits c" "observing c' = observing c"
    using enq [unfolded st1_def] c'_def starts_def unfolding st3_def by (rule fetch_chunks_begin_fields)
  define phase where "phase = (if starts then Some (Sleeping flush) else schedulers c k)"
  note c' = c'(1) c'(2) [folded phase_def]
  have core0: "archive_core (awaiting c k) (outstanding c k) (schedulers c k) st0"
    and old: "registered st0 w i \<longleftrightarrow> (\<exists>st. tileset_states c k = Some st \<and> registered st w i)" for w i
    using books_withD(1) [OF assms(1), of k] archive_core_default
    by (auto simp: archive_books_def st0_def archive_ok_def fetch_state_default_def registered_def split: option.splits)
  have core1: "archive_core (awaiting c k) (outstanding c k) (schedulers c k) st1"
    using core0 by (simp add: archive_core_def st1_def fetch_state_at_def st0_def [symmetric] Let_def registered_def)
  have none: "receivers c w = None" "answers c w = None" if "next_waiter c \<le> w" for w
    using that books_withD(2) [OF assms(1)] by (simp_all add: waiter_books_def)
  have fresh: "\<not> registered st1 w j" if "next_waiter c \<le> w" for w j
    using core1 none(1) [OF that] by (auto simp: archive_core_def awaiting_def)
  have core2: "archive_core (\<lambda>w j. awaiting c k w j \<or> (\<exists>m<length is. w = next_waiter c + m \<and> j = is ! m))
      (outstanding c k) (schedulers c k) st2"
    using fresh by (intro enqueue_chunks_core [OF enq core1 assms(2)])
  have reg1: "registered st1 w j \<longleftrightarrow> registered st0 w j" for w j
    by (simp add: registered_def st1_def fetch_state_at_def st0_def [symmetric] Let_def)
  have reg3: "registered st3 w j \<longleftrightarrow> registered st0 w j \<or> (\<exists>m<length is. w = next_waiter c + m \<and> j = is ! m)" for w j
    using enqueue_chunks_registered [OF enq] reg1 by (simp add: st3_def registered_def)
  have recv: "receivers c' w = (if next_waiter c \<le> w \<and> w < next_waiter c + length is
      then Some (k, is ! (w - next_waiter c)) else receivers c w)" for w
    by (simp add: recv_eq)
  have kept: "awaiting c' k' w j" if "awaiting c k' w j" for k' w j
    using that none(1) [of w] by (auto simp: awaiting_def recv c'_rest(2))
  have new: "awaiting c' k (next_waiter c + m) (is ! m)" if "m < length is" for m
    using that none(2) [of "next_waiter c + m"] by (simp add: awaiting_def recv c'_rest(2))
  have out: "outstanding c' k' = outstanding c k'" for k'
    using core2 by (auto simp: outstanding_def c'(2) c'_rest(4) phase_def starts_def archive_core_def)
  have "archive_core (awaiting c' k) (outstanding c k) (schedulers c k) st2"
    using core2 by (rule archive_core_mono) (use kept new in auto)
  then have "archive_ok (awaiting c' k) (outstanding c k) phase st3"
    by (auto simp: archive_ok_def archive_core_def phase_def st3_def starts_def registered_def)
  then have "archive_books {#} c' k'" for k'
  proof (cases "k' = k")
    case False
    with books_withD(1) [OF assms(1), of k'] show ?thesis
      by (elim archive_books_cong) (simp_all add: c'(1,2) out kept)
  qed (simp add: archive_books_def c'(1,2) out)
  moreover have "waiter_books c'"
    unfolding waiter_books_def
  proof (intro conjI allI impI)
    fix w k' i assume a: "awaiting c' k' w i" "w \<notin> closed_receivers c'"
    show "\<exists>st. tileset_states c' k' = Some st \<and> registered st w i"
    proof (cases "next_waiter c \<le> w \<and> w < next_waiter c + length is")
      case True
      then have "k' = k" "i = is ! (w - next_waiter c)" using a(1) by (simp_all add: awaiting_def recv)
      moreover have "registered st3 w (is ! (w - next_waiter c))"
        unfolding reg3 using True by (intro disjI2 exI [of _ "w - next_waiter c"]) auto
      ultimately show ?thesis by (simp add: c'(1))
    next
      case False
      then have "awaiting c k' w i" using a(1) by (auto simp: awaiting_def recv c'_rest(2) split: if_splits)
      moreover have "w \<notin> closed_receivers c" using a(2) by (simp add: c'_rest(3))
      ultimately have "\<exists>st. tileset_states c k' = Some st \<and> registered st w i"
        by (rule waiter_books_registered [OF books_withD(2) [OF assms(1)]])
      then show ?thesis using old reg3 by (cases "k' = k") (simp_all add: c'(1))
    qed
  qed (use none in \<open>auto simp: recv c'_rest(1,2)\<close>)
  moreover have "permit_books env c'" "finite (dom (tileset_states c'))"
    using books_withD(3,4) [OF assms(1)] by (simp_all add: permit_books_def c' c'_rest)
  ultimately show ?thesis unfolding c'_def [symmetric] by (simp add: books_with_def)
qed

lemma client_step_books:
  "client_step env c c' \<Longrightarrow> env_ok env \<Longrightarrow> books env c \<Longrightarrow> books env c'"
proof (induction rule: client_step.induct)
  case (request archive required c now)
  have "\<forall>i\<in>set required. i < 2 ^ 64 - 1"
    using request(1) env_ok_index [OF request(2)] unfolding list_all_iff by blast
  with request(3) show ?case by (rule fetch_chunks_begin_books)
next
  case (close c w)
  have "awaiting (c\<lparr>closed_receivers := insert w (closed_receivers c)\<rparr>) = awaiting c"
    by (intro ext) (simp add: awaiting_def)
  moreover have "outstanding (c\<lparr>closed_receivers := insert w (closed_receivers c)\<rparr>) = outstanding c"
    by (intro ext) (simp add: outstanding_def)
  ultimately show ?case
    using close by (simp add: books_with_def archive_books_def waiter_books_def permit_books_def cong: option.case_cong)
next
  case (evict c key)
  then show ?case by (elim books_tasks) simp_all
next
  case (observe range_start len c byte_range c')
  then have c': "backend_group_permits c > 0"
      "c' = c\<lparr>backend_group_permits := backend_group_permits c - 1, observing := observing c + 1\<rparr>"
    by (auto simp: observe_bytes_begin_def try_reserve_backend_group_def split: option.splits if_splits)
  show ?case unfolding c'(2) using observe(3) by (rule books_tasks) (use c'(1) in simp_all)
next
  case (observed c tileset_id byte_range ob)
  obtain r n where "fetch_exact_range (ce_fetcher env) tileset_id (fst byte_range) (snd byte_range) ob (counters c) = (r, n)"
    by (rule prod.exhaust)
  then have eq: "snd (observe_bytes_end env tileset_id byte_range ob c) = observe_release (c\<lparr>counters := n\<rparr>)"
    by (simp add: observe_bytes_end_def)
  show ?case unfolding eq observe_release_def using observed(3) by (rule books_tasks) (use observed(1) in simp_all)
next
  case (observe_drop c)
  show ?case unfolding observe_release_def using observe_drop(3) by (rule books_tasks) (use observe_drop(1) in simp_all)
qed

lemma coordinator_new_books: "books env (coordinator_new env)"
  by (simp add: books_with_def archive_books_def waiter_books_def permit_books_def coordinator_new_def
      outstanding_def awaiting_def)

interpretation coordinator: inductive_invariant "\<lambda>c. env_ok env \<and> c = coordinator_new env" "coordinator_step env"
    "\<lambda>c. env_ok env \<longrightarrow> books env c" for env :: "('st, 'p) ChunkEnv"
  by unfold_locales
    (auto simp: coordinator_new_books coordinator_step_def intro: client_step_books internal_step_books)

end
