(* ===== verification/Chunk_Liveness.thy ===== *)
theory Chunk_Liveness
  imports Chunk_Safety
begin

text \<open>
  Progress of the chunk coordinator.  A weight over the pending chunks, the schedulers and the
  group tasks decreases with every step of the coordinator's own tasks, so these steps end unless
  callers keep asking; and as long as a waiter is unanswered, one of them is possible.
\<close>

section \<open>The weight of the outstanding work\<close>

fun task_weight :: "TaskPhase \<Rightarrow> nat" where
  "task_weight Fetching = 5"
| "task_weight (Completing _) = 4"
| "task_weight (Dropped _) = 3"
| "task_weight Finished = 1"

fun phase_weight :: "SchedulerPhase option \<Rightarrow> nat" where
  "phase_weight None = 0"
| "phase_weight (Some (Sleeping _)) = 2"
| "phase_weight (Some Waiting) = 1"
| "phase_weight (Some (Dispatching gs _)) = 3 + 6 * length gs"

fun state_weight :: "TilesetFetchState option \<Rightarrow> nat" where
  "state_weight None = 0"
| "state_weight (Some st) = 8 * card (pending_chunks st) + (if capacity_available st then 2 else 0)"

definition archive_weight :: "Coordinator \<Rightarrow> ArchiveKey \<Rightarrow> nat" where
  "archive_weight c k = state_weight (tileset_states c k) + phase_weight (schedulers c k)"

definition tasks_weight :: "GroupTask list \<Rightarrow> nat" where
  "tasks_weight ts = sum_list (map (task_weight \<circ> gt_phase) ts)"

definition remaining_work :: "Coordinator \<Rightarrow> nat" where
  "remaining_work c = (\<Sum>k\<in>dom (tileset_states c). archive_weight c k) + tasks_weight (group_tasks c)"

lemma tasks_weight_simps [simp]:
  "tasks_weight [] = 0" "tasks_weight (ts @ ts') = tasks_weight ts + tasks_weight ts'"
  "tasks_weight (t # ts) = task_weight (gt_phase t) + tasks_weight ts"
  by (simp_all add: tasks_weight_def)

lemma tasks_weight_remove1:
  "t \<in> set ts \<Longrightarrow> tasks_weight ts = tasks_weight (remove1 t ts) + task_weight (gt_phase t)"
  by (induction ts) auto

lemma remaining_work_at:
  assumes "books env c"
  shows "remaining_work c = archive_weight c k + (\<Sum>k'\<in>dom (tileset_states c) - {k}. archive_weight c k')
    + tasks_weight (group_tasks c)"
proof (cases "tileset_states c k")
  case None
  then have "archive_weight c k = 0"
    using books_withD(1) [OF assms, of k] by (simp add: archive_weight_def archive_books_def)
  moreover have "dom (tileset_states c) - {k} = dom (tileset_states c)" using None by auto
  ultimately show ?thesis by (simp add: remaining_work_def)
next
  case (Some st)
  then show ?thesis
    using books_withD(4) [OF assms] by (simp add: remaining_work_def sum.remove [of _ k] domI)
qed

text \<open>A step that touches one archive decreases the work if it decreases its share.\<close>

lemma work_decreases:
  assumes "books env c" and "books env c'"
    and "\<And>k'. k' \<noteq> k \<Longrightarrow> tileset_states c' k' = tileset_states c k' \<and> schedulers c' k' = schedulers c k'"
    and "archive_weight c' k + tasks_weight (group_tasks c') < archive_weight c k + tasks_weight (group_tasks c)"
  shows "remaining_work c' < remaining_work c"
proof -
  have "dom (tileset_states c') - {k} = dom (tileset_states c) - {k}" using assms(3) by auto
  moreover have "archive_weight c' k' = archive_weight c k'" if "k' \<in> dom (tileset_states c) - {k}" for k'
    using that assms(3) [of k'] by (simp add: archive_weight_def)
  ultimately have "(\<Sum>k'\<in>dom (tileset_states c') - {k}. archive_weight c' k')
      = (\<Sum>k'\<in>dom (tileset_states c) - {k}. archive_weight c k')" by (rule sum.cong)
  then show ?thesis
    using assms(4) remaining_work_at [OF assms(1), of k] remaining_work_at [OF assms(2), of k] by linarith
qed

lemma remove_drainable_weight: "archive_weight (remove_drainable_state k c) k \<le> archive_weight c k"
  by (simp add: archive_weight_def remove_drainable_state_def split: option.splits)

lemma complete_dispatched_weight:
  "archive_weight (complete_dispatched_group k (s, e) result c) k \<le> archive_weight c k + 2"
proof (cases "tileset_states c k")
  case (Some st)
  obtain sent out st' where run: "complete_group (closed_receivers c) (s, e) result st = (sent, out, st')"
    by (cases "complete_group (closed_receivers c) (s, e) result st")
  define c1 where "c1 = c\<lparr>tileset_states := (tileset_states c)(k \<mapsto> st'), answers := send_all sent (answers c)\<rparr>"
  have "complete_dispatched_group k (s, e) result c = remove_drainable_state k c1"
    by (simp add: complete_dispatched_group_def Some run c1_def)
  moreover have "archive_weight c1 k \<le> archive_weight c k + 2"
    by (simp add: archive_weight_def c1_def Some complete_group_fields(2) [OF run])
  ultimately show ?thesis using remove_drainable_weight [of k c1] by simp
qed (simp add: complete_dispatched_group_def)

lemma complete_dispatched_fields:
  "group_tasks (complete_dispatched_group k r result c) = group_tasks c"
  "schedulers (complete_dispatched_group k r result c) = schedulers c"
  "backend_group_permits (complete_dispatched_group k r result c) = backend_group_permits c"
  "chunk_cache (complete_dispatched_group k r result c) = chunk_cache c"
  "receivers (complete_dispatched_group k r result c) = receivers c"
  "closed_receivers (complete_dispatched_group k r result c) = closed_receivers c"
  by (simp_all add: complete_dispatched_group_def split: option.splits prod.splits)

lemma complete_dispatched_other:
  "k' \<noteq> k \<Longrightarrow> tileset_states (complete_dispatched_group k r result c) k' = tileset_states c k'"
  by (auto simp: complete_dispatched_group_def remove_drainable_state_def split: option.splits prod.splits)

section \<open>Every step of the coordinator's tasks does work\<close>

lemma scheduler_pass_weight:
  assumes "books env c" and "schedulers c k = Some (Sleeping flush)"
  shows "archive_weight (scheduler_pass env k now c) k < archive_weight c k"
proof -
  obtain st where st: "tileset_states c k = Some st"
    and "archive_ok (awaiting c k) (open_ranges (group_tasks c) k + held_groups (Some (Sleeping flush)) + {#})
      (Some (Sleeping flush)) st"
    using assms by (rule books_scheduled)
  then have core0: "archive_core (awaiting c k) (open_ranges (group_tasks c) k) (Some (Sleeping flush)) st"
    by (simp add: archive_ok_def)
  define p where "p = prune_cancelled_waiters (closed_receivers c) st"
  have core: "archive_core (awaiting c k) (open_ranges (group_tasks c) k) (Some (Sleeping flush)) p"
    using core0 unfolding p_def by (intro prune_core) simp_all
  have fin: "finite (pending_chunks st)" and "finite (pending_chunks p)"
    using core0 core by (simp_all add: archive_core_def)
  have "card (pending_chunks p) \<le> card (pending_chunks st)"
    using fin by (intro card_mono) (auto simp: p_def prune_fields)
  moreover have "capacity_available p = capacity_available st" by (simp add: p_def prune_fields)
  ultimately have pruned: "state_weight (Some p) \<le> state_weight (Some st)" by simp
  have now_weight: "archive_weight c k = state_weight (Some st) + 2" by (simp add: archive_weight_def st assms(2))
  from \<open>finite (pending_chunks p)\<close> show ?thesis
  proof (cases rule: select_dispatch_groups_cases [where limit = "ce_max_fetch_chunks env" and now = now])
    case idle
    let ?c = "c\<lparr>tileset_states := (tileset_states c)(k \<mapsto> p\<lparr>scheduler_running := False\<rparr>),
        schedulers := (schedulers c)(k := None)\<rparr>"
    have "scheduler_pass env k now c = remove_drainable_state k ?c"
      using idle(2) by (simp add: scheduler_pass_def st p_def [symmetric] Let_def)
    moreover have "archive_weight ?c k < archive_weight c k"
      using pruned unfolding now_weight by (simp add: archive_weight_def)
    ultimately show ?thesis using remove_drainable_weight [of k ?c] by simp
  next
    case throttled
    then show ?thesis
      using pruned unfolding now_weight
      by (simp add: scheduler_pass_def st p_def [symmetric] Let_def archive_weight_def)
  next
    case (dispatch gs d)
    have "card (pending_chunks (move_to_inflight gs p)) + length gs \<le> card (pending_chunks p)"
      using dispatched_groups(2) [OF core dispatch(1)] by (simp add: move_to_inflight_fields)
    moreover have "0 < length gs" using dispatch(2) by simp
    ultimately have "state_weight (Some (move_to_inflight gs p)) + (3 + 6 * length gs) < state_weight (Some p) + 2"
      unfolding state_weight.simps move_to_inflight_fields(6) by linarith
    then show ?thesis
      using pruned dispatch(4) unfolding now_weight
      by (simp add: scheduler_pass_def st p_def [symmetric] Let_def archive_weight_def)
  qed
qed

lemma scheduler_pass_other:
  "k' \<noteq> k \<Longrightarrow> tileset_states (scheduler_pass env k now c) k' = tileset_states c k'
     \<and> schedulers (scheduler_pass env k now c) k' = schedulers c k'"
  "group_tasks (scheduler_pass env k now c) = group_tasks c"
  by (auto simp: scheduler_pass_def remove_drainable_state_def Let_def split: option.splits prod.splits DispatchDecision.splits)

lemma scheduler_wake_weight:
  assumes "schedulers c k = Some Waiting" and "tileset_states c k = Some st" and "capacity_available st"
  shows "archive_weight (scheduler_wake k st c) k < archive_weight c k"
  using assms by (simp add: archive_weight_def scheduler_wake_def)

lemma scheduler_reserve_weight:
  assumes "schedulers c k = Some (Dispatching groups n)"
  shows "archive_weight (scheduler_reserve k groups n c) k + tasks_weight (group_tasks (scheduler_reserve k groups n c))
    < archive_weight c k + tasks_weight (group_tasks c)"
proof (cases groups)
  case (Cons g gs)
  obtain s e where g: "g = (s, e)" by (cases g)
  let ?c = "c\<lparr>schedulers := (schedulers c)(k \<mapsto> Dispatching gs n)\<rparr>"
  have "archive_weight ?c k + 6 = archive_weight c k" using assms by (simp add: archive_weight_def Cons)
  then show ?thesis
    using complete_dispatched_weight [of k s e "Inl group_limit_reached" ?c] complete_dispatched_fields(1)
    by (cases "backend_group_permits c = 0") (simp_all add: scheduler_reserve_eqs Cons g archive_weight_def)
qed (use assms in \<open>simp add: scheduler_reserve_eqs archive_weight_def\<close>)

lemma scheduler_reserve_other:
  "k' \<noteq> k \<Longrightarrow> tileset_states (scheduler_reserve k groups n c) k' = tileset_states c k'
     \<and> schedulers (scheduler_reserve k groups n c) k' = schedulers c k'"
  by (cases groups; cases "backend_group_permits c = 0")
    (simp_all add: scheduler_reserve_eqs complete_dispatched_fields complete_dispatched_other)

lemma group_fetched_weight:
  assumes "t \<in> set (group_tasks c)" and "gt_phase t = Fetching"
  shows "tileset_states (group_fetched env t ob c) = tileset_states c"
    and "schedulers (group_fetched env t ob c) = schedulers c"
    and "tasks_weight (group_tasks (group_fetched env t ob c)) < tasks_weight (group_tasks c)"
proof -
  obtain result cache n where eq: "group_fetched env t ob c
    = replace_task t (Completing result) (c\<lparr>counters := n, chunk_cache := cache\<rparr>)" by (rule group_fetched_replaces)
  show "tileset_states (group_fetched env t ob c) = tileset_states c"
    and "schedulers (group_fetched env t ob c) = schedulers c"
    and "tasks_weight (group_tasks (group_fetched env t ob c)) < tasks_weight (group_tasks c)"
    using tasks_weight_remove1 [OF assms(1)] assms(2) by (simp_all add: eq)
qed

lemma internal_step_decreases:
  assumes "internal_step env c c'" and "books env c"
  shows "remaining_work c' < remaining_work c"
  using assms(1)
proof cases
  case (pass archive flush now)
  show ?thesis
    using internal_step_books [OF assms] scheduler_pass_weight [OF assms(2) pass(2), of now] assms(2)
    by (intro work_decreases [where k = archive and env = env]) (simp_all add: pass(1) scheduler_pass_other)
next
  case (wake archive st)
  show ?thesis
    using internal_step_books [OF assms] scheduler_wake_weight [OF wake(2-4)] assms(2)
    by (intro work_decreases [where k = archive and env = env]) (simp_all add: wake(1) scheduler_wake_def)
next
  case (reserve archive groups archive_len)
  show ?thesis
    using internal_step_books [OF assms] scheduler_reserve_weight [OF reserve(2)] assms(2)
    by (intro work_decreases [where k = archive and env = env]) (simp_all add: reserve(1) scheduler_reserve_other)
next
  case (fetched t ob)
  show ?thesis
    using internal_step_books [OF assms] assms(2)
    by (intro work_decreases [where k = "gt_archive t" and env = env])
      (simp_all add: fetched(1) archive_weight_def group_fetched_weight [OF fetched(2,3)])
next
  case (complete t result)
  obtain s e where range_of: "gt_range t = (s, e)" by (cases "gt_range t")
  have "archive_weight (replace_task t Finished c) (gt_archive t) = archive_weight c (gt_archive t)"
    by (simp add: archive_weight_def)
  then have "archive_weight c' (gt_archive t) \<le> archive_weight c (gt_archive t) + 2"
    using complete_dispatched_weight [of "gt_archive t" s e result "replace_task t Finished c"]
    by (simp add: complete(1) group_complete_def range_of)
  then show ?thesis
    using internal_step_books [OF assms] tasks_weight_remove1 [OF complete(2)] complete(3) assms(2)
    by (intro work_decreases [where k = "gt_archive t" and env = env])
      (simp_all add: complete(1) group_complete_def complete_dispatched_fields complete_dispatched_other)
next
  case (release t)
  show ?thesis
    using internal_step_books [OF assms] tasks_weight_remove1 [OF release(2)] release(3) assms(2)
    by (intro work_decreases [where k = "gt_archive t" and env = env])
      (simp_all add: release(1) group_release_def archive_weight_def)
next
  case (drop_fetching t)
  show ?thesis
    using internal_step_books [OF assms] tasks_weight_remove1 [OF drop_fetching(2)] drop_fetching(3) assms(2)
    by (intro work_decreases [where k = "gt_archive t" and env = env])
      (simp_all add: drop_fetching(1) group_drop_def archive_weight_def Let_def)
next
  case (drop_completing t result)
  show ?thesis
    using internal_step_books [OF assms] tasks_weight_remove1 [OF drop_completing(2)] drop_completing(3) assms(2)
    by (intro work_decreases [where k = "gt_archive t" and env = env])
      (simp_all add: drop_completing(1) group_drop_def archive_weight_def Let_def)
next
  case (complete_dropped t result)
  obtain s e where range_of: "gt_range t = (s, e)" by (cases "gt_range t")
  let ?c = "c\<lparr>group_tasks := remove1 t (group_tasks c)\<rparr>"
  have "archive_weight ?c (gt_archive t) = archive_weight c (gt_archive t)" by (simp add: archive_weight_def)
  then have "archive_weight c' (gt_archive t) \<le> archive_weight c (gt_archive t) + 2"
    using complete_dispatched_weight [of "gt_archive t" s e result ?c]
    by (simp add: complete_dropped(1) group_complete_dropped_def range_of)
  then show ?thesis
    using internal_step_books [OF assms] tasks_weight_remove1 [OF complete_dropped(2)] complete_dropped(3) assms(2)
    by (intro work_decreases [where k = "gt_archive t" and env = env])
      (simp_all add: complete_dropped(1) group_complete_dropped_def complete_dispatched_fields complete_dispatched_other)
qed

section \<open>An unanswered waiter keeps a step possible\<close>

text \<open>Every request against the store meets some outcome: a reply, an error or the deadline.\<close>

definition responsive :: "('st, 'p) ChunkEnv \<Rightarrow> bool" where
  "responsive env \<longleftrightarrow> (\<forall>req. \<exists>ob. ce_occurs env req ob)"

lemma open_task_enabled:
  assumes "responsive env" and "t \<in> set (group_tasks c)" and "open_task t"
  shows "\<exists>c'. internal_step env c c'"
proof (cases "gt_phase t")
  case Fetching
  obtain ob where "case group_request env t of Some req \<Rightarrow> ce_occurs env req ob | None \<Rightarrow> True"
    using assms(1) by (cases "group_request env t") (auto simp: responsive_def)
  with assms(2) Fetching show ?thesis by (blast intro: internal_step.fetched)
next
  case (Completing r)
  with assms(2) show ?thesis by (blast intro: internal_step.complete)
next
  case (Dropped r)
  with assms(2) show ?thesis by (blast intro: internal_step.complete_dropped)
qed (use assms(3) in \<open>simp add: open_task_def\<close>)

lemma outstanding_enabled:
  assumes "responsive env" and "outstanding c k \<noteq> {#}"
  shows "\<exists>c'. internal_step env c c'"
proof (cases "open_ranges (group_tasks c) k = {#}")
  case True
  then obtain gs n where "schedulers c k = Some (Dispatching gs n)"
    using assms(2) by (auto simp: outstanding_def held_groups_def split: option.splits SchedulerPhase.splits)
  then show ?thesis by (blast intro: internal_step.reserve)
next
  case False
  then obtain t where "t \<in> set (group_tasks c)" "open_task t"
    by (fastforce simp: open_ranges_def filter_empty_conv)
  then show ?thesis using open_task_enabled [OF assms(1)] by blast
qed

lemma waiting_enabled:
  assumes "books env c" and "responsive env" and "awaiting c k w i" and "w \<notin> closed_receivers c"
  shows "\<exists>c'. internal_step env c c'"
proof -
  obtain st where st: "tileset_states c k = Some st" "registered st w i"
    using waiter_books_registered [OF books_withD(2) [OF assms(1)] assms(3,4)] by (elim exE conjE)
  have ok: "archive_ok (awaiting c k) (outstanding c k) (schedulers c k) st"
    using books_archive [OF assms(1) st(1)] by simp
  then have core: "archive_core (awaiting c k) (outstanding c k) (schedulers c k) st" by (simp add: archive_ok_def)
  show ?thesis
  proof (cases "outstanding c k = {#}")
    case True
    then have "inflight_chunks st = {}" using core by (simp add: archive_core_def)
    moreover obtain ws where "waiters st i = Some ws" using st(2) by (auto simp: registered_def)
    ultimately have "pending_chunks st \<noteq> {}" using archive_core_dom [OF core] by auto
    then obtain phase where phase: "schedulers c k = Some phase"
      using ok by (auto simp: archive_ok_def archive_core_def)
    show ?thesis
    proof (cases phase)
      case (Sleeping flush)
      with phase show ?thesis by (blast intro: internal_step.pass)
    next
      case Waiting
      then have "capacity_available st" using core phase True by (auto simp: archive_core_def)
      with Waiting phase st(1) show ?thesis by (blast intro: internal_step.wake)
    next
      case (Dispatching gs n)
      with phase show ?thesis by (blast intro: internal_step.reserve)
    qed
  qed (rule outstanding_enabled [OF assms(2)])
qed

lemma internal_run_bounded:
  "(internal_step env ^^ n) c c' \<Longrightarrow> books env c \<Longrightarrow> books env c' \<and> n + remaining_work c' \<le> remaining_work c"
proof (induction n arbitrary: c')
  case (Suc n)
  then obtain d where d: "(internal_step env ^^ n) c d" "internal_step env d c'" by auto
  with Suc internal_step_books internal_step_decreases show ?case by fastforce
qed simp

end
