(* ===== verification/Chunk_Exact.thy ===== *)
theory Chunk_Exact
  imports Chunk_Liveness
begin

text \<open>
  What the chunked reader returns.  If the object store answers a range request with the bytes of
  the generation it names, then every cached chunk, every chunk of a finished group and every
  chunk sent to a waiter is a chunk of the archive, whatever the requests that share the work;
  and a read, put together from them, is a slice of the archive.
\<close>

section \<open>Chunks in the coordinator\<close>

definition chunk_ok :: "('st, 'p) ChunkEnv \<Rightarrow> ('st, 'p) contents \<Rightarrow> ArchiveKey \<Rightarrow> nat \<Rightarrow> bytes \<Rightarrow> bool" where
  "chunk_ok env content k i b \<longleftrightarrow>
     is_chunk (archive_bytes (ce_fetcher env) content k) (cf_chunk_size (ce_fetcher env)) (ce_archive_len env k) i b"

definition result_ok :: "('st, 'p) ChunkEnv \<Rightarrow> ('st, 'p) contents \<Rightarrow> ArchiveKey \<Rightarrow> group_result \<Rightarrow> bool" where
  "result_ok env content k r \<longleftrightarrow> (\<forall>m i b. r = Inr m \<longrightarrow> m i = Some b \<longrightarrow> chunk_ok env content k i b)"

definition task_exact :: "('st, 'p) ChunkEnv \<Rightarrow> ('st, 'p) contents \<Rightarrow> GroupTask \<Rightarrow> bool" where
  "task_exact env content t \<longleftrightarrow>
     gt_archive_len t = ce_archive_len env (gt_archive t) \<and> fst (gt_range t) < snd (gt_range t)
     \<and> (case gt_phase t of
          Completing r \<Rightarrow> result_ok env content (gt_archive t) r
        | Dropped r \<Rightarrow> result_ok env content (gt_archive t) r
        | _ \<Rightarrow> True)"

definition exact :: "('st, 'p) ChunkEnv \<Rightarrow> ('st, 'p) contents \<Rightarrow> Coordinator \<Rightarrow> bool" where
  "exact env content c \<longleftrightarrow>
     (\<forall>k i b. chunk_cache_get (chunk_cache c) k i = Some b \<longrightarrow> chunk_ok env content k i b)
     \<and> (\<forall>t\<in>set (group_tasks c). task_exact env content t)
     \<and> (\<forall>k gs n. schedulers c k = Some (Dispatching gs n) \<longrightarrow>
          n = ce_archive_len env k \<and> (\<forall>g\<in>set gs. fst g < snd g))
     \<and> (\<forall>k st. tileset_states c k = Some st \<longrightarrow> fs_archive_len st = ce_archive_len env k)
     \<and> (\<forall>w k i b. receivers c w = Some (k, i) \<longrightarrow> answers c w = Some (Inr b) \<longrightarrow> chunk_ok env content k i b)"

lemma exactD:
  assumes "exact env content c"
  shows "chunk_cache_get (chunk_cache c) k i = Some b \<Longrightarrow> chunk_ok env content k i b"
    and "t \<in> set (group_tasks c) \<Longrightarrow> task_exact env content t"
    and "schedulers c k = Some (Dispatching gs n) \<Longrightarrow> n = ce_archive_len env k \<and> (\<forall>g\<in>set gs. fst g < snd g)"
    and "tileset_states c k = Some st \<Longrightarrow> fs_archive_len st = ce_archive_len env k"
    and "receivers c w = Some (k, i) \<Longrightarrow> answers c w = Some (Inr b) \<Longrightarrow> chunk_ok env content k i b"
  using assms unfolding exact_def by blast+

lemma exact_cong:
  assumes "exact env content c"
    and "\<And>k i. chunk_cache_get (chunk_cache c') k i = chunk_cache_get (chunk_cache c) k i"
    and "\<And>t. t \<in> set (group_tasks c') \<Longrightarrow> t \<in> set (group_tasks c) \<or> task_exact env content t"
    and "schedulers c' = schedulers c" "tileset_states c' = tileset_states c"
      "receivers c' = receivers c" "answers c' = answers c"
  shows "exact env content c'"
proof -
  have "\<forall>t\<in>set (group_tasks c'). task_exact env content t"
    using assms(3) exactD(2) [OF assms(1)] by blast
  then show ?thesis
    using assms(1) unfolding exact_def assms(2,4-7) by (elim conjE) (intro conjI)
qed

lemma chunk_result_ok: "result_ok env content k r \<Longrightarrow> chunk_result_of r i = Inr b \<Longrightarrow> chunk_ok env content k i b"
  by (cases r) (auto simp: chunk_result_of_def result_ok_def)

lemma remove_drainable_exact: "exact env content c \<Longrightarrow> exact env content (remove_drainable_state k c)"
  using remove_drainable_states [of k c] by (auto simp: exact_def split: if_splits)

lemma complete_dispatched_states:
  assumes "tileset_states (complete_dispatched_group k (s, e) result c) k' = Some st'"
  obtains st where "tileset_states c k' = Some st" and "fs_archive_len st' = fs_archive_len st"
proof (cases "k' = k")
  case True
  show ?thesis
  proof (cases "tileset_states c k")
    case (Some st)
    obtain sent out st1 where run: "complete_group (closed_receivers c) (s, e) result st = (sent, out, st1)"
      by (cases "complete_group (closed_receivers c) (s, e) result st")
    have "st' = st1"
      using assms by (auto simp: complete_dispatched_group_def Some run True remove_drainable_state_def split: if_splits)
    then show ?thesis using that Some True complete_group_fields(6) [OF run] by simp
  qed (use assms True in \<open>simp add: complete_dispatched_group_def\<close>)
next
  case False
  with assms show ?thesis using that by (simp add: complete_dispatched_other)
qed

lemma complete_dispatched_exact:
  assumes "books_with env ((\<lambda>_. {#})(k := {#(s, e)#})) c" and "exact env content c" and "result_ok env content k result"
  shows "exact env content (complete_dispatched_group k (s, e) result c)"
proof -
  let ?c = "complete_dispatched_group k (s, e) result c"
  have "chunk_ok env content k' i b" if "receivers ?c w = Some (k', i)" "answers ?c w = Some (Inr b)" for w k' i b
    using complete_dispatched_answers [OF assms(1) that(2)]
  proof
    assume "answers c w = Some (Inr b)"
    with that(1) show ?thesis by (simp add: complete_dispatched_fields exactD(5) [OF assms(2)])
  next
    assume "\<exists>i. receivers c w = Some (k, i) \<and> Inr b = chunk_result_of result i"
    with that(1) show ?thesis using chunk_result_ok [OF assms(3), of i b] by (auto simp: complete_dispatched_fields)
  qed
  moreover have "fs_archive_len st = ce_archive_len env k'" if "tileset_states ?c k' = Some st" for k' st
    using that by (elim complete_dispatched_states) (simp add: exactD(4) [OF assms(2)])
  ultimately show ?thesis
    using assms(2) unfolding exact_def complete_dispatched_fields by blast
qed

section \<open>Every step keeps the chunks exact\<close>

text \<open>The store names generations by strong validators and returns the bytes it is asked for.\<close>

definition honest_env :: "('st, 'p) ChunkEnv \<Rightarrow> ('st, 'p) contents \<Rightarrow> bool" where
  "honest_env env content \<longleftrightarrow> (\<forall>req ob. ce_occurs env req ob \<longrightarrow> honest_reply content req ob)"

lemma replace_task_exact:
  assumes "exact env content c" and "t \<in> set (group_tasks c)"
    and "task_exact env content t \<Longrightarrow> task_exact env content (t\<lparr>gt_phase := phase\<rparr>)"
  shows "exact env content (replace_task t phase c)"
  using assms(1)
  by (rule exact_cong)
    (auto simp: assms(3) exactD(2) [OF assms(1) assms(2)] dest: notin_set_remove1 in_set_remove1 [THEN iffD1]
      set_remove1_subset [THEN subsetD])

lemma group_fetched_exact:
  assumes "exact env content c" and "honest_env env content" and "t \<in> set (group_tasks c)" and "gt_phase t = Fetching"
    and "case group_request env t of Some req \<Rightarrow> ce_occurs env req ob | None \<Rightarrow> True"
  shows "exact env content (group_fetched env t ob c)"
proof -
  let ?k = "gt_archive t" and ?L = "gt_archive_len t" and ?n = "cf_chunk_size (ce_fetcher env)"
  have task: "task_exact env content t" using exactD(2) [OF assms(1) assms(3)] .
  then have L: "?L = ce_archive_len env ?k" and less: "fst (gt_range t) < snd (gt_range t)"
    by (simp_all add: task_exact_def)
  have after: "task_exact env content (t\<lparr>gt_phase := Completing r\<rparr>)" if "result_ok env content ?k r" for r
    using task that by (simp add: task_exact_def)
  have failed: "exact env content (replace_task t (Completing (Inl x)) (c\<lparr>counters := n\<rparr>))" for x n
    using exact_cong [OF assms(1), of "c\<lparr>counters := n\<rparr>"] assms(3) after
    by (intro replace_task_exact) (simp_all add: result_ok_def)
  obtain r n where r: "fetch_chunk_group (ce_fetcher env) ?k (gt_range t) ?L ob (counters c) = (r, n)"
    by (rule prod.exhaust)
  show ?thesis
  proof (cases r)
    case (Inl x)
    with r failed show ?thesis by (simp add: group_fetched_def)
  next
    case (Inr bytes)
    obtain s e where range_of: "gt_range t = (s, e)" by (cases "gt_range t")
    have honest: "honest_reply content req ob"
      if "group_byte_range ?n (gt_range t) ?L = Inr (a, b)"
        "store_request (ce_fetcher env) (ak_tileset_id ?k) a b (Some (ak_generation ?k)) = Some req" for a b req
      using assms(2,5) that by (simp add: group_request_def honest_env_def)
    obtain a b where "group_byte_range ?n (gt_range t) ?L = Inr (a, b)"
      and bytes: "bytes = take (b - a) (drop a (archive_bytes (ce_fetcher env) content ?k))" "length bytes = b - a"
      using r [unfolded Inr] less honest by (rule fetch_chunk_group_sound)
    then have bounds: "group_byte_range ?n (s, e) ?L = Inr (a, b)" by (simp only: range_of)
    obtain x cache where x: "cache_chunk_group ?n ?k (s, e) ?L bytes (chunk_cache c) = (x, cache)" by (rule prod.exhaust)
    show ?thesis
    proof (cases x)
      case x_Inl: (Inl y)
      then have "cache = chunk_cache c"
        using x by (auto simp: cache_chunk_group_def split: sum.splits prod.splits)
      then have "c\<lparr>counters := n, chunk_cache := cache\<rparr> = c\<lparr>counters := n\<rparr>" by simp
      with r Inr x x_Inl failed show ?thesis by (simp add: group_fetched_def range_of)
    next
      case x_Inr: (Inr m)
      note stored = cache_chunk_group_exact [OF x [unfolded x_Inr] bounds bytes]
      have m: "chunk_ok env content ?k i y" if "m i = Some y" for i y
        using stored(1) [OF that] by (simp add: chunk_ok_def L)
      let ?c = "c\<lparr>counters := n, chunk_cache := cache\<rparr>"
      have "chunk_ok env content k i y" if "chunk_cache_get cache k i = Some y" for k i y
        using that m exactD(1) [OF assms(1)] stored(3,4)
        by (cases "k = ?k") (auto split: option.splits)
      then have "exact env content ?c" using assms(1) by (auto simp: exact_def)
      then have "exact env content (replace_task t (Completing (Inr m)) ?c)"
        using assms(3) after m by (intro replace_task_exact) (simp_all add: result_ok_def)
      with r Inr x x_Inr show ?thesis by (simp add: group_fetched_def range_of)
    qed
  qed
qed

lemma scheduler_reserve_exact:
  assumes "books env c" and "exact env content c" and "schedulers c k = Some (Dispatching groups n)"
  shows "exact env content (scheduler_reserve k groups n c)"
proof (cases groups)
  case Nil
  with assms(2) show ?thesis by (auto simp: scheduler_reserve_eqs exact_def)
next
  case (Cons g gs)
  let ?c = "c\<lparr>schedulers := (schedulers c)(k \<mapsto> Dispatching gs n)\<rparr>"
  have n: "n = ce_archive_len env k" "\<forall>g\<in>set (g # gs). fst g < snd g"
    using exactD(3) [OF assms(2,3)] by (simp_all add: Cons)
  have c: "exact env content ?c" using assms(2) n by (auto simp: exact_def)
  show ?thesis
  proof (cases "backend_group_permits c > 0")
    case True
    have "exact env content (?c\<lparr>backend_group_permits := backend_group_permits c - 1,
        group_tasks := group_tasks c @ [\<lparr>gt_archive = k, gt_range = g, gt_archive_len = n, gt_phase = Fetching\<rparr>]\<rparr>)"
      using c by (rule exact_cong) (auto simp: task_exact_def n)
    with True show ?thesis by (simp add: scheduler_reserve_eqs Cons)
  next
    case False
    obtain s e where g: "g = (s, e)" by (cases g)
    have "result_ok env content k (Inl group_limit_reached)" by (simp add: result_ok_def)
    with books_take_group [OF assms(1) assms(3) [unfolded Cons g]] c
    have "exact env content (complete_dispatched_group k (s, e) (Inl group_limit_reached) ?c)"
      by (rule complete_dispatched_exact)
    with False show ?thesis by (simp add: scheduler_reserve_eqs Cons g)
  qed
qed

lemma scheduler_pass_exact:
  assumes "books env c" and "exact env content c" and "schedulers c k = Some (Sleeping flush)"
  shows "exact env content (scheduler_pass env k now c)"
proof -
  obtain st where st: "tileset_states c k = Some st"
    and "archive_ok (awaiting c k) (open_ranges (group_tasks c) k + held_groups (Some (Sleeping flush)) + {#})
      (Some (Sleeping flush)) st"
    using assms(1,3) by (rule books_scheduled)
  then have core0: "archive_core (awaiting c k) (open_ranges (group_tasks c) k) (Some (Sleeping flush)) st"
    by (simp add: archive_ok_def)
  define p where "p = prune_cancelled_waiters (closed_receivers c) st"
  have core: "archive_core (awaiting c k) (open_ranges (group_tasks c) k) (Some (Sleeping flush)) p"
    using core0 unfolding p_def by (intro prune_core) simp_all
  then have fin: "finite (pending_chunks p)" by (simp add: archive_core_def)
  have len: "fs_archive_len p = ce_archive_len env k"
    using exactD(4) [OF assms(2) st] by (simp add: p_def prune_fields)
  have update: "exact env content (c\<lparr>tileset_states := (tileset_states c)(k \<mapsto> q), schedulers := (schedulers c)(k := phase)\<rparr>)"
    if "fs_archive_len q = ce_archive_len env k"
      and "\<And>gs n. phase = Some (Dispatching gs n) \<Longrightarrow> n = ce_archive_len env k \<and> (\<forall>g\<in>set gs. fst g < snd g)" for q phase
    using assms(2) that by (auto simp: exact_def)
  from fin show ?thesis
  proof (cases rule: select_dispatch_groups_cases [where limit = "ce_max_fetch_chunks env" and now = now])
    case idle
    have "exact env content (c\<lparr>tileset_states := (tileset_states c)(k \<mapsto> p\<lparr>scheduler_running := False\<rparr>),
        schedulers := (schedulers c)(k := None)\<rparr>)" using len by (intro update) simp_all
    then show ?thesis
      using remove_drainable_exact idle(2) by (simp add: scheduler_pass_def st p_def [symmetric] Let_def)
  next
    case throttled
    then show ?thesis
      using update [of p "Some Waiting"] len by (simp add: scheduler_pass_def st p_def [symmetric] Let_def)
  next
    case (dispatch gs d)
    have "\<forall>g\<in>set gs. fst g < snd g" using dispatched_groups(3) [OF core dispatch(1)] by fastforce
    then have "exact env content (c\<lparr>tileset_states := (tileset_states c)(k \<mapsto> move_to_inflight gs p),
        schedulers := (schedulers c)(k := Some (Dispatching gs (fs_archive_len p)))\<rparr>)"
      using len by (intro update) (simp_all add: move_to_inflight_fields)
    then show ?thesis using dispatch(4) by (simp add: scheduler_pass_def st p_def [symmetric] Let_def)
  qed
qed

lemma internal_step_exact:
  assumes "internal_step env c c'" and "honest_env env content" and "books env c" and "exact env content c"
  shows "exact env content c'"
  using assms(1)
proof cases
  case (pass archive flush now)
  then show ?thesis using scheduler_pass_exact [OF assms(3,4)] by simp
next
  case (wake archive st)
  then show ?thesis using assms(4) by (auto simp: scheduler_wake_def exact_def)
next
  case (reserve archive groups archive_len)
  then show ?thesis using scheduler_reserve_exact [OF assms(3,4)] by simp
next
  case (fetched t ob)
  then show ?thesis using group_fetched_exact [OF assms(4,2)] by simp
next
  case (complete t result)
  obtain s e where range_of: "gt_range t = (s, e)" by (cases "gt_range t")
  have "task_exact env content t" by (rule exactD(2) [OF assms(4) complete(2)])
  then have r: "result_ok env content (gt_archive t) result" by (simp add: task_exact_def complete(3))
  have "exact env content (replace_task t Finished c)"
    using complete by (intro replace_task_exact [OF assms(4)]) (simp_all add: task_exact_def)
  from complete_dispatched_exact [OF complete_taken [OF assms(3) complete(2,3) range_of] this r]
  show ?thesis by (simp add: complete(1) group_complete_def range_of)
next
  case (release t)
  have "exact env content (group_release t c)"
    unfolding group_release_def using assms(4) by (rule exact_cong) (auto dest: set_remove1_subset [THEN subsetD])
  then show ?thesis by (simp add: release(1))
next
  case (drop_fetching t)
  have "exact env content (replace_task t (Dropped (Inl task_cancelled)) c)"
    using drop_fetching by (intro replace_task_exact [OF assms(4)]) (simp_all add: task_exact_def result_ok_def)
  then show ?thesis unfolding drop_fetching(1) group_drop_def Let_def by (rule exact_cong) simp_all
next
  case (drop_completing t result)
  have "exact env content (replace_task t (Dropped result) c)"
    using drop_completing by (intro replace_task_exact [OF assms(4)]) (simp_all add: task_exact_def)
  then show ?thesis unfolding drop_completing(1) group_drop_def Let_def by (rule exact_cong) simp_all
next
  case (complete_dropped t result)
  obtain s e where range_of: "gt_range t = (s, e)" by (cases "gt_range t")
  have "task_exact env content t" by (rule exactD(2) [OF assms(4) complete_dropped(2)])
  then have r: "result_ok env content (gt_archive t) result" by (simp add: task_exact_def complete_dropped(3))
  have "exact env content (c\<lparr>group_tasks := remove1 t (group_tasks c)\<rparr>)"
    using assms(4) by (rule exact_cong) (auto dest: set_remove1_subset [THEN subsetD])
  from complete_dispatched_exact [OF dropped_taken [OF assms(3) complete_dropped(2,3) range_of] this r]
  show ?thesis by (simp add: complete_dropped(1) group_complete_dropped_def range_of)
qed

lemma fetch_state_at_len:
  "exact env content c \<Longrightarrow> fs_archive_len (fetch_state_at c k (ce_archive_len env k)) = ce_archive_len env k"
  using exactD(4) [of env content c k]
  by (auto simp: fetch_state_at_def fetch_state_default_def Let_def split: option.splits)

lemma fetch_chunks_begin_exact:
  assumes "books env c" and "exact env content c"
  shows "exact env content (snd (fetch_chunks_begin k is (ce_archive_len env k) now c))"
proof -
  let ?L = "ce_archive_len env k"
  obtain es st2 where enq: "enqueue_chunks is now (next_waiter c) (fetch_state_at c k ?L) = (es, st2)"
    by (rule prod.exhaust)
  define starts where "starts \<longleftrightarrow> \<not> scheduler_running st2 \<and> pending_chunks st2 \<noteq> {}"
  define st3 where "st3 = (if starts then st2\<lparr>scheduler_running := True\<rparr> else st2)"
  define c' where "c' = snd (fetch_chunks_begin k is ?L now c)"
  obtain flush where states: "tileset_states c' = (tileset_states c)(k \<mapsto> st3)"
    and scheds: "schedulers c' = (schedulers c)(k := if starts then Some (Sleeping flush) else schedulers c k)"
    and recv: "receivers c' = (\<lambda>w. if next_waiter c \<le> w \<and> w < next_waiter c + length is
      then Some (k, is ! (w - next_waiter c)) else receivers c w)"
    and rest: "answers c' = answers c" "group_tasks c' = group_tasks c" "chunk_cache c' = chunk_cache c"
    using enq c'_def starts_def unfolding st3_def by (rule fetch_chunks_begin_fields)
  have len: "fs_archive_len st3 = ?L"
    using enqueue_chunks_fields [OF enq] fetch_state_at_len [OF assms(2), of k] by (simp add: st3_def)
  have fresh: "answers c w = None" if "next_waiter c \<le> w" for w
    using books_withD(2) [OF assms(1)] that by (simp add: waiter_books_def)
  have "chunk_ok env content k' i b" if "receivers c' w = Some (k', i)" "answers c' w = Some (Inr b)" for w k' i b
  proof (cases "next_waiter c \<le> w")
    case True
    with that(2) fresh show ?thesis by (simp add: rest)
  next
    case False
    with that show ?thesis by (simp add: recv rest exactD(5) [OF assms(2)])
  qed
  then have "\<forall>w k i b. receivers c' w = Some (k, i) \<longrightarrow> answers c' w = Some (Inr b) \<longrightarrow> chunk_ok env content k i b" by simp
  moreover have "\<forall>k st. tileset_states c' k = Some st \<longrightarrow> fs_archive_len st = ce_archive_len env k"
    using len exactD(4) [OF assms(2)] by (simp add: states)
  moreover have "\<forall>k gs n. schedulers c' k = Some (Dispatching gs n) \<longrightarrow> n = ce_archive_len env k \<and> (\<forall>g\<in>set gs. fst g < snd g)"
    using exactD(3) [OF assms(2)] by (simp add: scheds)
  ultimately show ?thesis
    using assms(2) unfolding exact_def c'_def [symmetric] rest by (elim conjE) (intro conjI)
qed

lemma client_step_exact:
  assumes "client_step env c c'" and "books env c" and "exact env content c"
  shows "exact env content c'"
  using assms(1)
proof cases
  case request
  then show ?thesis using fetch_chunks_begin_exact [OF assms(2,3)] by simp
next
  case close
  show ?thesis unfolding close using assms(3) by (rule exact_cong) simp_all
next
  case (evict key)
  have "chunk_cache_get ((chunk_cache c)(key := None)) k i = Some b \<Longrightarrow> chunk_cache_get (chunk_cache c) k i = Some b" for k i b
    by (auto simp: chunk_cache_get_def split: if_splits)
  then show ?thesis using assms(3) unfolding evict exact_def by auto
next
  case (observe range_start len byte_range)
  then have "c' = c\<lparr>backend_group_permits := backend_group_permits c - 1, observing := observing c + 1\<rparr>"
    by (auto simp: observe_bytes_begin_def try_reserve_backend_group_def split: option.splits if_splits)
  then show ?thesis by (simp only:) (rule exact_cong [OF assms(3)], simp_all)
next
  case (observed tileset_id byte_range ob)
  show ?thesis unfolding observed using assms(3)
    by (rule exact_cong) (simp_all add: observe_bytes_end_def observe_release_def split: prod.splits)
next
  case observe_drop
  show ?thesis unfolding observe_drop observe_release_def using assms(3) by (rule exact_cong) simp_all
qed

lemma coordinator_new_exact: "exact env content (coordinator_new env)"
  by (simp add: exact_def coordinator_new_def chunk_cache_get_def)

interpretation chunks: inductive_invariant "\<lambda>c. c = coordinator_new env" "coordinator_step env"
    "\<lambda>c. env_ok env \<longrightarrow> honest_env env content \<longrightarrow> books env c \<and> exact env content c"
    for env :: "('st, 'p) ChunkEnv" and content
  by unfold_locales
    (auto simp: coordinator_new_books coordinator_new_exact coordinator_step_def
      intro: client_step_books internal_step_books client_step_exact internal_step_exact)

section \<open>Reads\<close>

text \<open>A receiver stays the receiver of the chunk it was issued for.\<close>

lemma internal_step_receivers: "internal_step env c c' \<Longrightarrow> receivers c' = receivers c"
  by (cases rule: internal_step.cases, assumption)
    (auto simp: scheduler_pass_def scheduler_wake_def scheduler_reserve_def try_reserve_backend_group_def group_fetched_def group_complete_def
      group_release_def group_drop_def group_complete_dropped_def replace_task_def remove_drainable_state_def
      complete_dispatched_fields Let_def split: option.splits DispatchDecision.splits list.splits prod.splits sum.splits)

lemma coordinator_step_receiver:
  assumes "coordinator_step env c c'" and "books env c" and "receivers c w = Some (k, i)"
  shows "receivers c' w = Some (k, i)"
  using assms(1) unfolding coordinator_step_def
proof
  assume "client_step env c c'"
  then show ?thesis
  proof cases
    case (request archive required now)
    have "w < next_waiter c"
      using books_withD(2) [OF assms(2)] assms(3) by (fastforce simp: waiter_books_def not_le [symmetric])
    moreover obtain es st where
      "enqueue_chunks required now (next_waiter c) (fetch_state_at c archive (ce_archive_len env archive)) = (es, st)"
      by (rule prod.exhaust)
    then have "receivers c' = (\<lambda>w. if next_waiter c \<le> w \<and> w < next_waiter c + length required
      then Some (archive, required ! (w - next_waiter c)) else receivers c w)"
      using request(1) refl by (rule fetch_chunks_begin_fields)
    ultimately show ?thesis using assms(3) by simp
  qed (auto simp: assms(3) observe_bytes_begin_def try_reserve_backend_group_def observe_bytes_end_def observe_release_def
      split: option.splits if_splits prod.splits)
qed (simp add: internal_step_receivers assms(3))

lemma coordinator_steps_receiver:
  assumes "(coordinator_step env)\<^sup>*\<^sup>* c c'" and "env_ok env" and "books env c" and "receivers c w = Some (k, i)"
  shows "receivers c' w = Some (k, i)"
  using assms(1)
proof (induction rule: rtranclp_induct)
  case (step d e)
  have "books env d" using coordinator.steps_inv [OF step(1)] assms(2,3) by (simp only: simp_thms)
  then show ?case by (rule coordinator_step_receiver [OF step(2) _ step(3)])
qed (rule assms(4))

text \<open>
  What a caller of \<open>fetch_chunks\<close> gets once its receivers \<open>rs\<close> have been answered by \<open>ans\<close>; they
  answer the request they were issued for.
\<close>

definition fetch_answer ::
  "(nat \<times> waiter) list \<Rightarrow> (waiter \<rightharpoonup> chunk_result) \<Rightarrow> nat list \<Rightarrow> ChunkFetchError + chunk_map" where
  "fetch_answer rs ans required =
     (if map fst rs = required then fetch_chunks_end rs ans Map.empty
      else Inl (Message (Text ''chunk fetch waiter dropped'')))"

lemma fetch_chunks_end_Some:
  "fetch_chunks_end rs ans chunks = Inr m \<Longrightarrow> m i = Some b \<Longrightarrow>
     chunks i = Some b \<or> (\<exists>w. (i, w) \<in> set rs \<and> ans w = Some (Inr b))"
proof (induction rs arbitrary: chunks)
  case (Cons r rs)
  obtain j w where r: "r = (j, w)" by (cases r)
  with Cons.prems(1) obtain y where y: "ans w = Some (Inr y)" "fetch_chunks_end rs ans (chunks(j \<mapsto> y)) = Inr m"
    by (auto split: option.splits sum.splits)
  from Cons.IH [OF y(2) Cons.prems(2)] y(1) show ?case by (auto simp: r split: if_splits)
qed simp

lemma fetch_chunks_end_defined:
  "fetch_chunks_end rs ans chunks = Inr m \<Longrightarrow> i \<in> fst ` set rs \<or> chunks i \<noteq> None \<Longrightarrow> m i \<noteq> None"
proof (induction rs arbitrary: chunks)
  case (Cons r rs)
  obtain j w where r: "r = (j, w)" by (cases r)
  with Cons.prems(1) obtain y where "ans w = Some (Inr y)" "fetch_chunks_end rs ans (chunks(j \<mapsto> y)) = Inr m"
    by (auto split: option.splits sum.splits)
  with Cons.IH Cons.prems(2) show ?case by (auto simp: r)
qed auto

text \<open>
  A read of archive \<open>k\<close>: the state in which it looks at the cache, the receivers it is given for
  the missing chunks, and the state in which it takes their answers.
\<close>

definition read_ready ::
  "('st, 'p) ChunkEnv \<Rightarrow> ('st, 'p) contents \<Rightarrow> ArchiveKey \<Rightarrow> Coordinator \<times> (nat \<times> waiter) list \<times> Coordinator \<Rightarrow> bool" where
  "read_ready env content k = (\<lambda>(seen, rs, answered).
     env_ok env \<and> exact env content seen \<and> exact env content answered
     \<and> (\<forall>(i, w)\<in>set rs. receivers answered w = Some (k, i)))"

interpretation coordinated: chunk_supply "cf_chunk_size (ce_fetcher env)" "ce_archive_len env k"
    "archive_bytes (ce_fetcher env) content k" k "read_ready env content k" "\<lambda>(seen, rs, answered). chunk_cache seen"
    "\<lambda>(seen, rs, answered). fetch_answer rs (answers answered)"
    for env :: "('st, 'p) ChunkEnv" and content k
proof
  fix s :: "Coordinator \<times> (nat \<times> waiter) list \<times> Coordinator" and i b m "is"
  let ?is_chunk = "is_chunk (archive_bytes (ce_fetcher env) content k) (cf_chunk_size (ce_fetcher env)) (ce_archive_len env k)"
  obtain seen rs answered where s: "s = (seen, rs, answered)" by (cases s)
  assume "read_ready env content k s"
  then have ok: "env_ok env" and seen: "exact env content seen" and answered: "exact env content answered"
    and recv: "\<And>i w. (i, w) \<in> set rs \<Longrightarrow> receivers answered w = Some (k, i)"
    by (auto simp: read_ready_def s)
  show "0 < cf_chunk_size (ce_fetcher env)" "ce_archive_len env k < 2 ^ 64" using ok by (simp_all add: env_ok_def)
  show "?is_chunk i b" if "chunk_cache_get ((\<lambda>(seen, rs, answered). chunk_cache seen) s) k i = Some b"
    using that exactD(1) [OF seen, of k i b] by (simp add: s chunk_ok_def)
  assume "(\<lambda>(seen, rs, answered). fetch_answer rs (answers answered)) s is = Inr m"
  then have rs: "map fst rs = is" and m: "fetch_chunks_end rs (answers answered) Map.empty = Inr m"
    by (auto simp: s fetch_answer_def split: if_splits)
  show "?is_chunk i b" if mi: "m i = Some b"
  proof -
    obtain w where "(i, w) \<in> set rs" "answers answered w = Some (Inr b)"
      using fetch_chunks_end_Some [OF m mi] by auto
    then have "chunk_ok env content k i b" using exactD(5) [OF answered recv] by simp
    then show ?thesis by (simp add: chunk_ok_def)
  qed
  show "m i \<noteq> None" if "i \<in> set is"
    using that fetch_chunks_end_defined [OF m] by (auto simp: rs [symmetric])
qed

lemma zip_upt_receiver: "(i, w) \<in> set (zip is [n..<n + length is]) \<Longrightarrow> n \<le> w \<and> w < n + length is \<and> is ! (w - n) = i"
  by (auto simp: set_zip)

lemma read_request:
  assumes "env_ok env" and "0 < len" and "start + len \<le> ce_archive_len env k"
    and "missing = filter p [start div cf_chunk_size (ce_fetcher env)..<
      Suc ((start + len - 1) div cf_chunk_size (ce_fetcher env))]"
  shows "client_step env c (snd (fetch_chunks_begin k missing (ce_archive_len env k) now c))"
proof (rule client_step.request)
  let ?n = "cf_chunk_size (ce_fetcher env)"
  have "i * ?n < ce_archive_len env k" if "i < Suc ((start + len - 1) div ?n)" for i
  proof -
    have "i * ?n \<le> (start + len - 1) div ?n * ?n" using that by (intro mult_le_mono1) simp
    also have "\<dots> \<le> start + len - 1" by simp
    finally show ?thesis using assms(2,3) by linarith
  qed
  then show "list_all (\<lambda>i. i * ?n < ce_archive_len env k) missing"
    by (auto simp: assms(4) list_all_iff simp del: upt_Suc)
qed

end
