(* ===== verification/Chunk_Contract.thy ===== *)
theory Chunk_Contract
  imports Chunk_Exact
begin

text \<open>
  What the chunked reader promises its callers: exact bytes, an account of every receiver and of
  the work under way for it, and an answer for every receiver; with a read of an archive of six
  bytes over chunks of four as the example.
\<close>

section \<open>An archive of two chunks\<close>

definition two_chunks :: bytes where "two_chunks = [10, 11, 12, 13, 14, 15]"

definition two_chunk_archive :: ArchiveKey where
  "two_chunk_archive = archive_key_new ''map'' \<lparr>ag_kind = Version, ag_value = ''7''\<rparr>"

definition reply_with :: "bytes \<Rightarrow> FetchObservation" where
  "reply_with bytes = \<lparr>fo_admission = Admitted,
     fo_reply = Some (Inr \<lparr>gr_meta = \<lparr>om_version = Some ''7'', om_e_tag = None\<rparr>, gr_body = Inr bytes\<rparr>)\<rparr>"

definition two_chunk_reply :: "('st, 'p) StoreRequest \<Rightarrow> FetchObservation" where
  "two_chunk_reply req = reply_with
     (case go_range (sr_options req) of Some (a, b) \<Rightarrow> take (b - a) (drop a two_chunks) | None \<Rightarrow> two_chunks)"

definition two_chunk_env :: "(unit, string list) ChunkEnv" where
  "two_chunk_env =
     \<lparr>ce_fetcher = \<lparr>cf_paths = \<lparr>path_empty = [], path_text = concat, path_join = (\<lambda>p s. p @ [s])\<rparr>,
        cf_sources = \<lparr>ne_namespaces = [], ne_default = Some \<lparr>ts_object_store = (), ts_path = Root []\<rparr>\<rparr>, cf_chunk_size = 4\<rparr>,
      ce_max_fetch_chunks = 2, ce_backend_fetch_max_inflight = 1, ce_archive_len = (\<lambda>_. 6),
      ce_occurs = (\<lambda>req ob. ob = two_chunk_reply req)\<rparr>"

lemma two_chunk_env_ok:
  "env_ok two_chunk_env" "responsive two_chunk_env" "honest_env two_chunk_env (\<lambda>_ _ _. two_chunks)"
  by (auto simp: env_ok_def responsive_def honest_env_def honest_reply_def two_chunk_env_def two_chunk_reply_def
      reply_with_def)

lemma two_chunk_fields [simp]:
  "cf_chunk_size (ce_fetcher two_chunk_env) = 4" "ce_archive_len two_chunk_env k = 6"
  "ce_max_fetch_chunks two_chunk_env = 2" "ce_backend_fetch_max_inflight two_chunk_env = 1"
  by (simp_all add: two_chunk_env_def)

text \<open>The states of a read of both chunks: requested, dispatched, admitted, fetched, completed.\<close>

definition asked_state :: Coordinator where
  "asked_state = (coordinator_new two_chunk_env)
     \<lparr>tileset_states := [two_chunk_archive \<mapsto> \<lparr>pending_chunks = {0, 1}, first_pending_at = Some 0, inflight_chunks = {},
        waiters = [0 \<mapsto> [0], 1 \<mapsto> [1]], scheduler_running = True, inflight_fetch_count = 0, capacity_available = False,
        fs_archive_len = 6\<rparr>],
      schedulers := [two_chunk_archive \<mapsto> Sleeping True],
      receivers := [0 \<mapsto> (two_chunk_archive, 0), 1 \<mapsto> (two_chunk_archive, 1)], next_waiter := 2\<rparr>"

definition dispatched_state :: Coordinator where
  "dispatched_state = asked_state
     \<lparr>tileset_states := [two_chunk_archive \<mapsto> \<lparr>pending_chunks = {}, first_pending_at = None, inflight_chunks = {0, 1},
        waiters = [0 \<mapsto> [0], 1 \<mapsto> [1]], scheduler_running = True, inflight_fetch_count = 1, capacity_available = False,
        fs_archive_len = 6\<rparr>],
      schedulers := [two_chunk_archive \<mapsto> Dispatching [(0, 2)] 6]\<rparr>"

definition group_task_at :: "TaskPhase \<Rightarrow> GroupTask" where
  "group_task_at phase = \<lparr>gt_archive = two_chunk_archive, gt_range = (0, 2), gt_archive_len = 6, gt_phase = phase\<rparr>"

definition admitted_state :: Coordinator where
  "admitted_state = dispatched_state
     \<lparr>schedulers := [two_chunk_archive \<mapsto> Dispatching [] 6], backend_group_permits := 0,
      group_tasks := [group_task_at Fetching]\<rparr>"

lemma asked_state_eq:
  "fetch_chunks_begin two_chunk_archive [0, 1] 6 0 (coordinator_new two_chunk_env) = ([(0, 0), (1, 1)], asked_state)"
  by (simp add: fetch_chunks_begin_def coordinator_new_def asked_state_def fetch_state_default_def is_idle_def
      enqueue_chunk_def push_waiter_def Let_def insert_commute)

lemma prune_unchanged:
  assumes "live_waiters shut (waiters st) = waiters st" and "pending_chunks st \<subseteq> dom (waiters st)" and "pending_chunks st \<noteq> {}"
  shows "prune_cancelled_waiters shut st = st"
proof -
  have "{i \<in> pending_chunks st. waiters st i \<noteq> None} = pending_chunks st" using assms(2) by auto
  with assms show ?thesis by (auto simp: prune_cancelled_waiters_def Let_def)
qed

lemma two_waiters_live: "live_waiters {} [0 \<mapsto> [0], Suc 0 \<mapsto> [Suc 0]] = [0 \<mapsto> [0], Suc 0 \<mapsto> [Suc 0]]"
  by (auto simp: live_waiters_def)

lemma dispatched_state_eq: "scheduler_pass two_chunk_env two_chunk_archive 0 asked_state = dispatched_state"
proof -
  have "contiguous_chunk_ranges [0, Suc 0] 2 (Suc 0) = [(0, 2)]"
    by (simp add: contiguous_chunk_ranges_def wrapping_sub_def wrapping_add_def)
  moreover have "{0..<2::nat} = {0, Suc 0}" by auto
  ultimately show ?thesis
    by (simp add: scheduler_pass_def dispatched_state_def asked_state_def coordinator_new_def prune_unchanged two_waiters_live
        select_dispatch_groups_def move_to_inflight_def Let_def)
qed

lemma admitted_state_eq: "scheduler_reserve two_chunk_archive [(0, 2)] 6 dispatched_state = admitted_state"
  by (simp add: scheduler_reserve_eqs admitted_state_def dispatched_state_def asked_state_def coordinator_new_def
      group_task_at_def Let_def)

definition fetched_chunks :: chunk_map where
  "fetched_chunks = [0 \<mapsto> [10, 11, 12, 13], 1 \<mapsto> [14, 15]]"

definition fetched_state :: Coordinator where
  "fetched_state = admitted_state
     \<lparr>group_tasks := [group_task_at (Completing (Inr fetched_chunks))],
      counters := \<lparr>fetch_sequence = 1, received_bytes = 6\<rparr>,
      chunk_cache := [cache_key_new two_chunk_archive 0 \<mapsto> [10, 11, 12, 13], cache_key_new two_chunk_archive 1 \<mapsto> [14, 15]]\<rparr>"

definition completed_state :: Coordinator where
  "completed_state = fetched_state
     \<lparr>group_tasks := [group_task_at Finished],
      tileset_states := [two_chunk_archive \<mapsto> \<lparr>pending_chunks = {}, first_pending_at = None, inflight_chunks = {},
        waiters = Map.empty, scheduler_running = True, inflight_fetch_count = 0, capacity_available = False,
        fs_archive_len = 6\<rparr>],
      answers := [0 \<mapsto> Inr [10, 11, 12, 13], 1 \<mapsto> Inr [14, 15]]\<rparr>"

lemma two_chunk_bytes: "archive_bytes (ce_fetcher two_chunk_env) (\<lambda>_ _ _. two_chunks) two_chunk_archive = two_chunks"
  by code_simp

lemma two_chunk_request:
  "group_request two_chunk_env (group_task_at Fetching) = Some \<lparr>sr_store = (), sr_path = [''map.pmtiles''],
     sr_options = \<lparr>go_range = Some (0, 6), go_version = Some ''7'', go_if_match = None\<rparr>\<rparr>"
  by code_simp

lemma fetched_state_eq: "group_fetched two_chunk_env (group_task_at Fetching) (reply_with two_chunks) admitted_state = fetched_state"
proof -
  have "fetch_chunk_group (ce_fetcher two_chunk_env) two_chunk_archive (0, 2) 6 (reply_with two_chunks)
      \<lparr>fetch_sequence = 0, received_bytes = 0\<rparr> = (Inr two_chunks, \<lparr>fetch_sequence = 1, received_bytes = 6\<rparr>)"
    by code_simp
  moreover have "cache_chunk_group 4 two_chunk_archive (0, 2) 6 two_chunks Map.empty
      = (Inr fetched_chunks, chunk_cache fetched_state)"
  proof -
    have "chunk_slices (0, 2) 4 6 (length two_chunks) = Inr [(0, 0, 4), (1, 4, 6)]" by code_simp
    then show ?thesis
      by (simp add: cache_chunk_group_def byte_slice_def two_chunks_def fetched_chunks_def fetched_state_def Let_def)
  qed
  ultimately show ?thesis
    by (simp add: group_fetched_def fetched_state_def admitted_state_def dispatched_state_def asked_state_def
        coordinator_new_def group_task_at_def replace_task_def)
qed

lemma completed_state_eq: "group_complete (group_task_at (Completing (Inr fetched_chunks))) (Inr fetched_chunks) fetched_state = completed_state"
  by (simp add: group_complete_def completed_state_def fetched_state_def admitted_state_def dispatched_state_def asked_state_def
      coordinator_new_def group_task_at_def replace_task_def complete_dispatched_group_def complete_group_def
      remove_drainable_state_def is_drainable_def upt_rec chunk_result_of_def fetched_chunks_def insert_Diff_if Let_def)

lemma two_chunk_steps:
  "client_step two_chunk_env (coordinator_new two_chunk_env) asked_state"
  "internal_step two_chunk_env asked_state dispatched_state"
  "internal_step two_chunk_env dispatched_state admitted_state"
  "internal_step two_chunk_env admitted_state fetched_state"
  "internal_step two_chunk_env fetched_state completed_state"
proof -
  have "client_step two_chunk_env (coordinator_new two_chunk_env)
      (snd (fetch_chunks_begin two_chunk_archive [0, 1] (ce_archive_len two_chunk_env two_chunk_archive) 0 (coordinator_new two_chunk_env)))"
    by (rule client_step.request) simp
  then show "client_step two_chunk_env (coordinator_new two_chunk_env) asked_state" by (simp add: asked_state_eq [simplified])
  have "schedulers asked_state two_chunk_archive = Some (Sleeping True)" by (simp add: asked_state_def)
  from internal_step.pass [OF this, of two_chunk_env 0] show "internal_step two_chunk_env asked_state dispatched_state"
    by (simp only: dispatched_state_eq)
  have "schedulers dispatched_state two_chunk_archive = Some (Dispatching [(0, 2)] 6)" by (simp add: dispatched_state_def)
  from internal_step.reserve [OF this, of two_chunk_env] show "internal_step two_chunk_env dispatched_state admitted_state"
    by (simp only: admitted_state_eq)
  have "group_task_at Fetching \<in> set (group_tasks admitted_state)" by (simp add: admitted_state_def)
  moreover have "gt_phase (group_task_at Fetching) = Fetching" by (simp add: group_task_at_def)
  moreover have "case group_request two_chunk_env (group_task_at Fetching) of
      Some req \<Rightarrow> ce_occurs two_chunk_env req (reply_with two_chunks) | None \<Rightarrow> True"
    unfolding two_chunk_request by (simp add: two_chunk_env_def two_chunk_reply_def two_chunks_def)
  ultimately have "internal_step two_chunk_env admitted_state
      (group_fetched two_chunk_env (group_task_at Fetching) (reply_with two_chunks) admitted_state)"
    by (rule internal_step.fetched)
  then show "internal_step two_chunk_env admitted_state fetched_state" by (simp only: fetched_state_eq)
  have "group_task_at (Completing (Inr fetched_chunks)) \<in> set (group_tasks fetched_state)"
    by (simp add: fetched_state_def)
  moreover have "gt_phase (group_task_at (Completing (Inr fetched_chunks))) = Completing (Inr fetched_chunks)"
    by (simp add: group_task_at_def)
  ultimately have "internal_step two_chunk_env fetched_state
      (group_complete (group_task_at (Completing (Inr fetched_chunks))) (Inr fetched_chunks) fetched_state)"
    by (rule internal_step.complete)
  then show "internal_step two_chunk_env fetched_state completed_state" by (simp only: completed_state_eq)
qed

lemma internal_coordinator_step: "internal_step env c c' \<Longrightarrow> coordinator_step env c c'"
  by (simp add: coordinator_step_def)

lemma two_chunk_reachable:
  "(coordinator_step two_chunk_env)\<^sup>*\<^sup>* (coordinator_new two_chunk_env) asked_state"
  "(coordinator_step two_chunk_env)\<^sup>*\<^sup>* asked_state completed_state"
proof -
  show "(coordinator_step two_chunk_env)\<^sup>*\<^sup>* (coordinator_new two_chunk_env) asked_state"
    by (intro r_into_rtranclp) (simp add: coordinator_step_def two_chunk_steps)
  note steps = two_chunk_steps(2-5) [THEN internal_coordinator_step]
  show "(coordinator_step two_chunk_env)\<^sup>*\<^sup>* asked_state completed_state"
    by (rule converse_rtranclp_into_rtranclp, rule steps)+ (rule rtranclp.rtrancl_refl)
qed

section \<open>Exact reads\<close>

text \<open>
  C6: Under an object store that answers a range request with the bytes of the generation it
  reports, a read of a range inside an archive returns exactly those bytes of that generation.  It
  looks at the cache in a reachable state, requests the chunks it misses in a later one and takes
  the answers in a later one still, while other requests, evictions, cancellations and fetches run
  in between.  If no chunk is missing the answer comes from the cache; otherwise the only other
  outcome is the error that a receiver of the request was sent (or its channel closing).
\<close>

theorem chunked_read_exact:
  assumes "env_ok env" and "honest_env env content"
    and "(coordinator_step env)\<^sup>*\<^sup>* (coordinator_new env) seen"
    and "missing = filter (\<lambda>i. chunk_cache_get (chunk_cache seen) k i = None)
      [start div cf_chunk_size (ce_fetcher env)..<Suc ((start + len - 1) div cf_chunk_size (ce_fetcher env))]"
    and "(coordinator_step env)\<^sup>*\<^sup>* seen asked"
    and "fetch_chunks_begin k missing (ce_archive_len env k) now asked = (rs, begun)"
    and "(coordinator_step env)\<^sup>*\<^sup>* begun answered"
    and "0 < len" and "start + len \<le> ce_archive_len env k"
  shows "read_bytes (cf_chunk_size (ce_fetcher env)) (chunk_cache seen) (fetch_answer rs (answers answered)) k start len
      (ce_archive_len env k)
    = (let found = (\<lambda>source. \<lparr>cr_bytes = take len (drop start (archive_bytes (ce_fetcher env) content k)), cr_source = source\<rparr>)
       in if missing = [] then Inr (found Cache)
          else case fetch_chunks_end rs (answers answered) Map.empty of
                 Inl e \<Rightarrow> Inl e
               | Inr _ \<Rightarrow> Inr (found BackendFetch))"
proof -
  have seen: "books env seen \<and> exact env content seen"
    using chunks.reachable_inv [OF refl assms(3), of content] assms(1,2) by blast
  then have asked: "books env asked \<and> exact env content asked"
    using chunks.steps_inv [OF assms(5), of content] assms(1,2) by blast
  have step: "coordinator_step env asked begun"
    using read_request [OF assms(1,8,9,4), of asked now] by (simp add: coordinator_step_def assms(6))
  then have begun: "books env begun \<and> exact env content begun"
    using chunks.step_inv [of env content asked begun] asked assms(1,2) by blast
  then have answered: "exact env content answered"
    using chunks.steps_inv [OF assms(7), of content] assms(1,2) by blast
  obtain es st where
    "enqueue_chunks missing now (next_waiter asked) (fetch_state_at asked k (ce_archive_len env k)) = (es, st)"
    by (rule prod.exhaust)
  moreover have "begun = snd (fetch_chunks_begin k missing (ce_archive_len env k) now asked)" by (simp add: assms(6))
  ultimately obtain
    recv: "receivers begun = (\<lambda>w. if next_waiter asked \<le> w \<and> w < next_waiter asked + length missing
      then Some (k, missing ! (w - next_waiter asked)) else receivers asked w)"
    and rs: "rs = zip missing [next_waiter asked..<next_waiter asked + length missing]"
    using refl by (rule fetch_chunks_begin_fields) (simp add: assms(6))
  have "receivers answered w = Some (k, i)" if "(i, w) \<in> set rs" for i w
    using coordinator_steps_receiver [OF assms(7,1)] begun recv zip_upt_receiver [OF that [unfolded rs]] by simp
  then have "read_ready env content k (seen, rs, answered)"
    using assms(1) seen answered by (auto simp: read_ready_def)
  from coordinated.read_bytes_exact [OF this assms(9), unfolded prod.case, folded assms(4)]
  show ?thesis
    using assms(8) by (simp add: fetch_answer_def rs Let_def)
qed

theorem chunked_read_exact_witness:
  "read_bytes 4 (chunk_cache (coordinator_new two_chunk_env)) (fetch_answer [(0, 0), (1, 1)] (answers completed_state))
     two_chunk_archive 2 3 6 = Inr \<lparr>cr_bytes = [12, 13, 14], cr_source = BackendFetch\<rparr>"
proof -
  have "[0, 1] = filter (\<lambda>i. chunk_cache_get (chunk_cache (coordinator_new two_chunk_env)) two_chunk_archive i = None)
      [2 div cf_chunk_size (ce_fetcher two_chunk_env)..<Suc ((2 + 3 - 1) div cf_chunk_size (ce_fetcher two_chunk_env))]"
    by (simp add: coordinator_new_def chunk_cache_get_def)
  note read = chunked_read_exact [OF two_chunk_env_ok(1,3) rtranclp.rtrancl_refl this rtranclp.rtrancl_refl
      asked_state_eq [folded two_chunk_fields(2) [of two_chunk_archive]] two_chunk_reachable(2), unfolded two_chunk_bytes]
  show ?thesis using read by (simp add: completed_state_def two_chunks_def)
qed

section \<open>Every receiver is accounted for and answered\<close>

text \<open>
  C11: In every reachable state of the coordinator, whatever requests, cancellations, evictions,
  observations, fetch results, panics and drops came before: the group tasks and observations hold at
  most the configured number of permits; an archive has at most 32 groups dispatched and not completed; every receiver that
  is still open and unanswered is registered for its chunk, and that chunk is either pending with a
  scheduler running for the archive or inside a group under way; and only unanswered receivers are
  registered, so none is sent two answers.
\<close>

theorem chunk_waiters_accounted:
  assumes "env_ok env" and "(coordinator_step env)\<^sup>*\<^sup>* (coordinator_new env) c"
  shows "observing c + length (filter holds_permit (group_tasks c)) \<le> max (ce_backend_fetch_max_inflight env) 1
    \<and> (\<forall>k. size (outstanding c k) \<le> MAX_CONCURRENT_FETCHES_PER_TILESET)
    \<and> (\<forall>k w i. awaiting c k w i \<longrightarrow> w \<notin> closed_receivers c \<longrightarrow>
         (\<exists>st. tileset_states c k = Some st \<and> registered st w i
            \<and> (i \<in> pending_chunks st \<and> schedulers c k \<noteq> None \<or> i \<in> covered (set_mset (outstanding c k)))))
    \<and> (\<forall>k st w i. tileset_states c k = Some st \<longrightarrow> registered st w i \<longrightarrow> awaiting c k w i)"
proof (intro conjI allI impI)
  have books: "books env c" using coordinator.reachable_inv [OF _ assms(2)] assms(1) by simp
  then show "observing c + length (filter holds_permit (group_tasks c)) \<le> max (ce_backend_fetch_max_inflight env) 1"
    using books_withD(3) [OF books] by (simp add: permit_books_def)
  have ok: "archive_ok (awaiting c k) (outstanding c k) (schedulers c k) st" if "tileset_states c k = Some st" for k st
    using books_archive [OF books that] by simp
  show "size (outstanding c k) \<le> MAX_CONCURRENT_FETCHES_PER_TILESET" for k
  proof (cases "tileset_states c k")
    case None
    then show ?thesis using books_withD(1) [OF books, of k] by (simp add: archive_books_def)
  next
    case (Some st)
    then show ?thesis using ok [OF Some] by (simp add: archive_ok_def archive_core_def)
  qed
  show "awaiting c k w i" if "tileset_states c k = Some st" "registered st w i" for k st w i
    using ok [OF that(1)] that(2) by (simp add: archive_ok_def archive_core_def)
  fix k w i
  assume waiting: "awaiting c k w i" "w \<notin> closed_receivers c"
  obtain st where st: "tileset_states c k = Some st" "registered st w i"
    using waiter_books_registered [OF books_withD(2) [OF books] waiting] by (elim exE conjE)
  have core: "archive_core (awaiting c k) (outstanding c k) (schedulers c k) st"
    and running: "pending_chunks st \<noteq> {} \<longrightarrow> scheduler_running st"
    using ok [OF st(1)] by (simp_all add: archive_ok_def)
  have "i \<in> pending_chunks st \<or> i \<in> inflight_chunks st"
    using st(2) archive_core_dom [OF core] by (auto simp: registered_def)
  then have "i \<in> pending_chunks st \<and> schedulers c k \<noteq> None \<or> i \<in> covered (set_mset (outstanding c k))"
    using core running by (auto simp: archive_core_def)
  with st show "\<exists>st. tileset_states c k = Some st \<and> registered st w i
      \<and> (i \<in> pending_chunks st \<and> schedulers c k \<noteq> None \<or> i \<in> covered (set_mset (outstanding c k)))"
    by (intro exI conjI)
qed

theorem chunk_waiters_accounted_witness:
  "awaiting asked_state two_chunk_archive 1 1
   \<and> (\<exists>st. tileset_states asked_state two_chunk_archive = Some st \<and> registered st 1 1
        \<and> (1 \<in> pending_chunks st \<and> schedulers asked_state two_chunk_archive \<noteq> None
           \<or> 1 \<in> covered (set_mset (outstanding asked_state two_chunk_archive))))"
proof -
  have "awaiting asked_state two_chunk_archive 1 1" "1 \<notin> closed_receivers asked_state"
    by (simp_all add: awaiting_def asked_state_def coordinator_new_def)
  then show ?thesis
    using chunk_waiters_accounted [OF two_chunk_env_ok(1) two_chunk_reachable(1)] by blast
qed



end
