(* ===== verification/Spec2Isabelle.thy ===== *)
theory Spec2Isabelle
  imports Gossip_Codec Rendezvous Node_Config Dispatcher Warm_Plan Worker Reservation Render_Cache Style_Catalog Wire
    Publisher View_Cache Node_Safety Pmtiles_Layout Pmtiles_Ids Pmtiles_Bounds Chunk_Contract
begin

text \<open>
  Verification of the core crates of the map platform: the rendering cluster Biei
  (\<^verbatim>\<open>crates/biei-core\<close>), the PMTiles library (\<^verbatim>\<open>crates/mmpf-pmtiles\<close>) and the storage of the tile
  server Ishikari (\<^verbatim>\<open>crates/ishikari-core/src/storage\<close>), with the shared helpers of
  \<^verbatim>\<open>crates/mmpf-common\<close> that they use.

  \<^bold>\<open>The parts and how they interact.\<close>  A Biei node takes a render request, looks in its render
  cache, loads a view of the cluster, and lets the dispatcher place the task on a local worker or on
  a peer.  Workers own one native renderer each; the pool reserves their queue slots and tracks
  which profile is warm where.  The style catalog decides which revision of a style is current.  The
  publisher gossips the state of the node, and peers decode it into their views.  Ishikari reads
  tiles out of PMTiles archives: the archive reader walks the directory tree, and the chunked store
  beneath it turns byte ranges into cached chunks that a coordinator fetches in groups from an
  object store, once for all callers that wait for them.

  \<^bold>\<open>Shared theories.\<close>  \<^theory_text>\<open>Prelude\<close> has the machine integers, checked arithmetic, time and strings of
  Rust.  \<^theory_text>\<open>Codec\<close>, \<^theory_text>\<open>Ranking\<close>, \<^theory_text>\<open>Recency\<close> and \<^theory_text>\<open>Transition\<close> have the interfaces that several
  components implement: printers and parsers, bounded rankings, least-recently-used lists and
  inductive invariants of step relations.  Each is interpreted on the definitions of the components.

  \<^bold>\<open>Biei.\<close>
  \<^item> \<^theory_text>\<open>Domain_Types\<close>, \<^theory_text>\<open>Gossip_Codec\<close> (\<^verbatim>\<open>types.rs\<close>): requests, profiles, views and their gossip
    encoding, which decodes to what was encoded.
  \<^item> \<^theory_text>\<open>Hashing\<close>, \<^theory_text>\<open>Rendezvous\<close> (\<^verbatim>\<open>hrw.rs\<close>, \<^verbatim>\<open>rng.rs\<close>): placement weights; the mixer is a permutation.
  \<^item> \<^theory_text>\<open>Node_Config\<close> (\<^verbatim>\<open>config.rs\<close>): limits and permits; a resolved configuration is coherent.
  \<^item> \<^theory_text>\<open>Dispatcher\<close>, \<^theory_text>\<open>Warm_Plan\<close> (\<^verbatim>\<open>dispatcher.rs\<close>, \<^verbatim>\<open>warm_plan.rs\<close>): the routing decision is total,
    well formed, serves while a member has room, and equals its reference selections; warm plans are
    sound.
  \<^item> \<^theory_text>\<open>Worker_Pool\<close>, \<^theory_text>\<open>Reservation\<close>, \<^theory_text>\<open>Worker\<close>, \<^theory_text>\<open>Worker_Outcomes\<close> (\<^verbatim>\<open>worker_pool.rs\<close>, \<^verbatim>\<open>worker.rs\<close>):
    the queue accounting at every interleaving of atomic operations, the choice of a worker, and a
    worker that answers every command once and renders only under the profile of its task.
  \<^item> \<^theory_text>\<open>Render_Cache\<close> (\<^verbatim>\<open>render_cache.rs\<close>): keys, authorised and fresh hits, one renderer per key.
  \<^item> \<^theory_text>\<open>Style_Catalog\<close> (\<^verbatim>\<open>style_catalog.rs\<close>): hints fence fetches, bounds and refresh floor, content
    versions free of credentials.
  \<^item> \<^theory_text>\<open>Wire\<close>, \<^theory_text>\<open>Publisher\<close>, \<^theory_text>\<open>View_Cache\<close> (\<^verbatim>\<open>wire.rs\<close>, \<^verbatim>\<open>node.rs\<close>, \<^verbatim>\<open>node/view_cache.rs\<close>): messages,
    gossip rounds and the cluster-view cache, with round trips, safety, no lost wake-up and
    termination.
  \<^item> \<^theory_text>\<open>Node\<close>, \<^theory_text>\<open>Node_Safety\<close> (\<^verbatim>\<open>node.rs\<close>): the request handlers in a state monad of effects; one hop,
    no duplicate native work, outcomes recorded once, flights released, for every environment.

  \<^bold>\<open>PMTiles.\<close>  \<^theory_text>\<open>Pmtiles_Format\<close>, \<^theory_text>\<open>Pmtiles_Directory\<close>, \<^theory_text>\<open>Pmtiles_Ids\<close>, \<^theory_text>\<open>Pmtiles_Layout\<close>,
  \<^theory_text>\<open>Pmtiles_Metadata\<close> model \<^verbatim>\<open>format.rs\<close>, \<^verbatim>\<open>layout.rs\<close> and \<^verbatim>\<open>metadata.rs\<close>; \<^theory_text>\<open>Pmtiles_Reader\<close> models
  \<^verbatim>\<open>reader.rs\<close>.  \<^theory_text>\<open>Pmtiles_Archive\<close> says what the tile of an archive is as a function of its bytes;
  \<^theory_text>\<open>Pmtiles_Range\<close>, \<^theory_text>\<open>Pmtiles_Roundtrip\<close> and \<^theory_text>\<open>Pmtiles_Bounds\<close> show that the reader returns it over any
  lawful store, that written tiles read back, and what a lookup may cost.

  \<^bold>\<open>Ishikari storage.\<close>
  \<^item> \<^theory_text>\<open>Archive_Generation\<close> (\<^verbatim>\<open>storage/generation.rs\<close>): validators, whose wire form is a canonical codec.
  \<^item> \<^theory_text>\<open>Resource_Templates\<close> (\<^verbatim>\<open>mmpf-common/src/resource_templates.rs\<close>): configured URL templates; a
    resolved URL stays inside its template.
  \<^item> \<^theory_text>\<open>Chunk_Fetch\<close> (\<^verbatim>\<open>chunked_store/fetcher.rs\<close>): where a tileset is stored and one range request on
    every outcome.
  \<^item> \<^theory_text>\<open>Chunk_Store\<close> (\<^verbatim>\<open>store.rs\<close>, \<^verbatim>\<open>cache.rs\<close>, \<^verbatim>\<open>cache_policy.rs\<close>): chunk arithmetic, reads, and the
    locale \<open>chunk_supply\<close>, the contract of whatever delivers chunks, under which a read is exact.
  \<^item> \<^theory_text>\<open>Chunk_Coordinator\<close> (\<^verbatim>\<open>coordinator.rs\<close>): the state machine.  \<^theory_text>\<open>Chunk_Safety\<close> is its invariant,
    \<^theory_text>\<open>Chunk_Liveness\<close> its progress measure, \<^theory_text>\<open>Chunk_Exact\<close> the bytes it delivers and the
    interpretation of \<open>chunk_supply\<close> on it, and \<^theory_text>\<open>Chunk_Contract\<close> the properties for callers.

  \<^bold>\<open>How code becomes definitions.\<close>  Structs are records and enums datatypes; fallible operations
  return \<open>error + value\<close> or an option, and a panic is \<open>None\<close>.  Integers are words of their width;
  the chunk theories use naturals with every checked operation written out and \<open>mod 2 ^ 64\<close> where
  the source may wrap.  Code under a lock or between two awaits is one atomic step, and shared state
  is a step relation over which invariants are proved by induction, so the theorems cover every
  interleaving.  Clock readings, results of awaits and of library calls (object store, hashes, URL
  and JSON parsers, decompressors, the native renderer) are arguments, with the documented behaviour
  that a theorem relies on as a named hypothesis.  No definition uses fuel: loops are structural or
  have a termination proof, and the progress theorems bound the number of steps.

  \<^bold>\<open>Not modelled.\<close>  The servers, simulators, console and deployment; \<^verbatim>\<open>abashiri-core\<close>,
  \<^verbatim>\<open>mmpf-auth\<close>, \<^verbatim>\<open>mmpf-cluster\<close>, \<^verbatim>\<open>mmpf-http\<close>, \<^verbatim>\<open>mmpf-mln-filesource\<close>; the floating-point terrain code;
  the peer protocol and the cache adapters of Ishikari; metrics and log lines everywhere.  They
  are I/O, adapters to libraries, or numerical code outside this development.
\<close>

end
